(* ===== verification/Hv_Prelude.thy ===== *)
theory Hv_Prelude
  imports Main "HOL-Library.Word"
begin

text \<open>
  Shared vocabulary of the development: the machine integer types of the sources, the outcome
  of a Rust computation (a value, an error value, a panic, a busy loop that never ends, an access
  through a raw pointer that leaves its object), sequencing of state-passing computations, the
  overflow-checked arithmetic of the debug profile the Makefile builds (\<open>MODE ?= debug\<close>), and
  byte-addressed physical memory with little-endian 64-bit accesses.
\<close>

unbundle bit_operations_syntax

named_theorems outcome_simps \<open>rewriting of sequenced computations\<close>
named_theorems addr_simps \<open>unsigned readings of address arithmetic\<close>
named_theorems mem_simps \<open>reads after writes in physical memory\<close>

section \<open>Machine integers\<close>

type_synonym u8 = "8 word"
type_synonym u16 = "16 word"
type_synonym u32 = "32 word"
type_synonym u64 = "64 word"
type_synonym usize = "64 word"

section \<open>Outcomes\<close>

text \<open>
  \<open>Ok\<close> and \<open>Err\<close> are the constructors of \<open>Result\<close>. \<open>Panic\<close> is a Rust panic (the handler of
  \<open>panic.rs\<close> loops forever), \<open>Hang\<close> an explicit \<open>loop {}\<close>, \<open>Fault\<close> a dereference of a raw
  pointer outside the object the code computed it for.
\<close>

datatype ('e, 'a) outcome = Ok 'a | Err 'e | Panic | Hang | Fault

fun bind_out :: "('e, 'a) outcome \<Rightarrow> ('a \<Rightarrow> ('e, 'b) outcome) \<Rightarrow> ('e, 'b) outcome" where
  "bind_out (Ok x) f = f x"
| "bind_out (Err e) f = Err e"
| "bind_out Panic f = Panic"
| "bind_out Hang f = Hang"
| "bind_out Fault f = Fault"

fun map_err :: "('e \<Rightarrow> 'f) \<Rightarrow> ('e, 'a) outcome \<Rightarrow> ('f, 'a) outcome" where
  "map_err f (Ok x) = Ok x"
| "map_err f (Err e) = Err (f e)"
| "map_err f Panic = Panic"
| "map_err f Hang = Hang"
| "map_err f Fault = Fault"

fun unwrap :: "('e, 'a) outcome \<Rightarrow> ('f, 'a) outcome" where
  "unwrap (Ok x) = Ok x"
| "unwrap (Err e) = Panic"
| "unwrap Panic = Panic"
| "unwrap Hang = Hang"
| "unwrap Fault = Fault"

definition unwrap_opt :: "'a option \<Rightarrow> ('e, 'a) outcome" where
  "unwrap_opt x = (case x of Some v \<Rightarrow> Ok v | None \<Rightarrow> Panic)"

fun is_ok :: "('e, 'a) outcome \<Rightarrow> bool" where
  "is_ok (Ok x) = True"
| "is_ok _ = False"

definition rust_assert :: "bool \<Rightarrow> ('e, unit) outcome" where
  "rust_assert b = (if b then Ok () else Panic)"

text \<open>
  A computation over a state returns its outcome and the state it leaves behind: an \<open>Err\<close> keeps
  the effects made before it, as \<open>?\<close> does in the sources.
\<close>

type_synonym ('s, 'e, 'a) prog = "'s \<Rightarrow> ('e, 'a) outcome \<times> 's"

definition retP :: "'a \<Rightarrow> ('s, 'e, 'a) prog" where
  "retP x s = (Ok x, s)"

definition errP :: "'e \<Rightarrow> ('s, 'e, 'a) prog" where
  "errP e s = (Err e, s)"

definition liftP :: "('e, 'a) outcome \<Rightarrow> ('s, 'e, 'a) prog" where
  "liftP r s = (r, s)"

definition bindP :: "('s, 'e, 'a) prog \<Rightarrow> ('a \<Rightarrow> ('s, 'e, 'b) prog) \<Rightarrow> ('s, 'e, 'b) prog" where
  "bindP m f s = (case m s of
       (Ok x, s') \<Rightarrow> f x s'
     | (Err e, s') \<Rightarrow> (Err e, s')
     | (Panic, s') \<Rightarrow> (Panic, s')
     | (Hang, s') \<Rightarrow> (Hang, s')
     | (Fault, s') \<Rightarrow> (Fault, s'))"

definition map_errP :: "('e \<Rightarrow> 'f) \<Rightarrow> ('s, 'e, 'a) prog \<Rightarrow> ('s, 'f, 'a) prog" where
  "map_errP f m s = (let (r, s') = m s in (map_err f r, s'))"

definition unwrapP :: "('s, 'e, 'a) prog \<Rightarrow> ('s, 'f, 'a) prog" where
  "unwrapP m s = (let (r, s') = m s in (unwrap r, s'))"

definition getP :: "('s \<Rightarrow> 'a) \<Rightarrow> ('s, 'e, 'a) prog" where
  "getP f s = (Ok (f s), s)"

definition modifyP :: "('s \<Rightarrow> 's) \<Rightarrow> ('s, 'e, unit) prog" where
  "modifyP f s = (Ok (), f s)"

text \<open>A loop over a list whose body may stop it, and searches with a predicate that may panic.\<close>

fun forP :: "'a list \<Rightarrow> ('a \<Rightarrow> ('s, 'e, unit) prog) \<Rightarrow> ('s, 'e, unit) prog" where
  "forP [] f s = (Ok (), s)"
| "forP (x # xs) f s = bindP (f x) (\<lambda>_. forP xs f) s"

fun filter_out :: "('a \<Rightarrow> ('e, bool) outcome) \<Rightarrow> 'a list \<Rightarrow> ('e, 'a list) outcome" where
  "filter_out p [] = Ok []"
| "filter_out p (x # xs) =
     bind_out (p x) (\<lambda>b. bind_out (filter_out p xs) (\<lambda>ys. Ok (if b then x # ys else ys)))"

fun find_out :: "('a \<Rightarrow> ('e, bool) outcome) \<Rightarrow> 'a list \<Rightarrow> ('e, 'a option) outcome" where
  "find_out p [] = Ok None"
| "find_out p (x # xs) = bind_out (p x) (\<lambda>b. if b then Ok (Some x) else find_out p xs)"

lemma bind_out_Ok_iff:
  "bind_out r f = Ok y \<longleftrightarrow> (\<exists>x. r = Ok x \<and> f x = Ok y)"
  by (cases r) auto

lemma bind_out_Err_iff:
  "bind_out r f = Err e \<longleftrightarrow> r = Err e \<or> (\<exists>x. r = Ok x \<and> f x = Err e)"
  by (cases r) auto

lemma unwrap_opt_simps [simp]:
  "unwrap_opt (Some x) = Ok x" "unwrap_opt None = Panic"
  by (simp_all add: unwrap_opt_def)

lemma unwrap_opt_Ok_iff [simp]: "unwrap_opt x = Ok y \<longleftrightarrow> x = Some y"
  by (auto simp: unwrap_opt_def split: option.splits)

lemma rust_assert_simps [simp]:
  "rust_assert True = Ok ()" "rust_assert False = Panic"
  "rust_assert b = Ok u \<longleftrightarrow> b"
  by (auto simp: rust_assert_def)

lemma bindP_simps [outcome_simps]:
  "m s = (Ok x, s') \<Longrightarrow> bindP m f s = f x s'"
  "m s = (Err e, s') \<Longrightarrow> bindP m f s = (Err e, s')"
  "m s = (Panic, s') \<Longrightarrow> bindP m f s = (Panic, s')"
  "m s = (Hang, s') \<Longrightarrow> bindP m f s = (Hang, s')"
  "m s = (Fault, s') \<Longrightarrow> bindP m f s = (Fault, s')"
  by (simp_all add: bindP_def)

lemma bindP_ret [simp]:
  "bindP (retP x) f = f x"
  "bindP (liftP (Ok x)) f = f x"
  "bindP (liftP (Err e)) f = liftP (Err e)"
  "bindP (liftP Panic) f = liftP Panic"
  "bindP (liftP Hang) f = liftP Hang"
  "bindP (liftP Fault) f = liftP Fault"
  "bindP (errP e) f = errP e"
  "bindP (getP g) f s = f (g s) s"
  "bindP (modifyP h) k s = k () (h s)"
  by (auto simp: bindP_def retP_def liftP_def errP_def getP_def modifyP_def)

lemma prog_apply [simp]:
  "retP x s = (Ok x, s)" "errP e s = (Err e, s)" "liftP r s = (r, s)"
  "getP g s = (Ok (g s), s)" "modifyP h s = (Ok (), h s)"
  by (simp_all add: retP_def errP_def liftP_def getP_def modifyP_def)

lemma bindP_OkE:
  assumes "bindP m f s = (Ok y, t)"
  obtains x s' where "m s = (Ok x, s')" "f x s' = (Ok y, t)"
  using assms by (auto simp: bindP_def split: prod.splits outcome.splits)

lemma bindP_cases:
  assumes "bindP m f s = (r, t)"
  obtains (cont) x s' where "m s = (Ok x, s')" "f x s' = (r, t)"
    | (stop) r' where "m s = (r', t)" "\<not> is_ok r'" "\<not> is_ok r"
  using assms by (auto simp: bindP_def split: prod.splits outcome.splits)

lemma bindP_cong [fundef_cong]:
  assumes "m s = m' s'" and "\<And>x t. m' s' = (Ok x, t) \<Longrightarrow> f x t = f' x t"
  shows "bindP m f s = bindP m' f' s'"
  using assms by (auto simp: bindP_def split: prod.splits outcome.splits)

lemma forP_append:
  "forP (xs @ ys) f s = bindP (forP xs f) (\<lambda>_. forP ys f) s"
  by (induction xs arbitrary: s)
    (auto simp: bindP_def split: prod.splits outcome.splits)

text \<open>A property every iteration keeps is kept by the loop, whatever its outcome.\<close>

lemma forP_preserves:
  assumes "\<And>x s r t. x \<in> set xs \<Longrightarrow> I s \<Longrightarrow> f x s = (r, t) \<Longrightarrow> I t"
    and "I s" and "forP xs f s = (r, t)"
  shows "I t"
  using assms
proof (induction xs arbitrary: s)
  case Nil
  then show ?case by simp
next
  case (Cons x xs)
  from Cons.prems(3) have "bindP (f x) (\<lambda>_. forP xs f) s = (r, t)" by simp
  then show ?case
  proof (cases rule: bindP_cases)
    case (cont u s')
    with Cons.prems have "I s'" by (meson list.set_intros(1))
    with cont(2) show ?thesis using Cons.IH Cons.prems(1) by (meson list.set_intros(2))
  next
    case (stop r')
    with Cons.prems show ?thesis by (meson list.set_intros(1))
  qed
qed

lemma filter_out_Ok:
  "(\<And>x. x \<in> set xs \<Longrightarrow> p x = Ok (q x)) \<Longrightarrow> filter_out p xs = Ok (filter q xs)"
  by (induction xs) auto

lemma find_out_Ok:
  "(\<And>x. x \<in> set xs \<Longrightarrow> p x = Ok (q x)) \<Longrightarrow> find_out p xs = Ok (find q xs)"
  by (induction xs) auto

section \<open>Checked arithmetic\<close>

definition add_chk :: "'w::len word \<Rightarrow> 'w word \<Rightarrow> ('e, 'w word) outcome" where
  "add_chk a b = (if unat a + unat b < 2 ^ LENGTH('w) then Ok (a + b) else Panic)"

definition sub_chk :: "'w::len word \<Rightarrow> 'w word \<Rightarrow> ('e, 'w word) outcome" where
  "sub_chk a b = (if unat b \<le> unat a then Ok (a - b) else Panic)"

definition mul_chk :: "'w::len word \<Rightarrow> 'w word \<Rightarrow> ('e, 'w word) outcome" where
  "mul_chk a b = (if unat a * unat b < 2 ^ LENGTH('w) then Ok (a * b) else Panic)"

definition shl_chk :: "'w::len word \<Rightarrow> nat \<Rightarrow> ('e, 'w word) outcome" where
  "shl_chk a n = (if n < LENGTH('w) then Ok (push_bit n a) else Panic)"

lemma add_chk_Ok_iff:
  "add_chk a b = Ok c \<longleftrightarrow> unat a + unat b < 2 ^ LENGTH('w) \<and> c = a + (b :: 'w::len word)"
  by (auto simp: add_chk_def)

lemma sub_chk_Ok_iff:
  "sub_chk a b = Ok c \<longleftrightarrow> unat b \<le> unat a \<and> c = a - (b :: 'w::len word)"
  by (auto simp: sub_chk_def)

lemma mul_chk_Ok_iff:
  "mul_chk a b = Ok c \<longleftrightarrow> unat a * unat b < 2 ^ LENGTH('w) \<and> c = a * (b :: 'w::len word)"
  by (auto simp: mul_chk_def)

lemma unat_add_exact [addr_simps]:
  fixes a b :: "'w::len word"
  shows "unat a + unat b < 2 ^ LENGTH('w) \<Longrightarrow> unat (a + b) = unat a + unat b"
  by (simp add: unat_word_ariths)

lemma unat_mul_exact [addr_simps]:
  fixes a b :: "'w::len word"
  shows "unat a * unat b < 2 ^ LENGTH('w) \<Longrightarrow> unat (a * b) = unat a * unat b"
  by (simp add: unat_word_ariths)

lemma unat_sub_exact [addr_simps]:
  fixes a b :: "'w::len word"
  shows "unat b \<le> unat a \<Longrightarrow> unat (a - b) = unat a - unat b"
  by (simp add: unat_sub word_le_nat_alt)

lemma unat_of_nat_exact [addr_simps]:
  "n < 2 ^ LENGTH('w) \<Longrightarrow> unat (of_nat n :: 'w::len word) = n"
  by (simp add: unsigned_of_nat take_bit_nat_eq_self)

lemma unat_word_less_64 [simp]: "unat (w :: 64 word) < 18446744073709551616"
  using unsigned_less [of w, where ?'a = nat] by simp

end
