(* ===== verification/Hv_Addr.thy ===== *)
theory Hv_Addr
  imports Hv_Prelude
begin

text \<open>
  Addresses (\<open>src/memory/addr.rs\<close>), the layout constants (\<open>src/consts.rs\<close>), the mapping flags
  (\<open>src/memory/mod.rs\<close>) and physical memory. Alignment of an address is read as divisibility of
  its unsigned value, which is what the proofs of the page tables and of the memory sets use.
\<close>

section \<open>Types and constants\<close>

type_synonym VirtAddr = usize
type_synonym PhysAddr = usize
type_synonym GuestPhysAddr = usize
type_synonym HostPhysAddr = usize

definition PAGE_SIZE :: usize where
  "PAGE_SIZE = 0x1000"

definition HV_HEAP_SIZE :: usize where
  "HV_HEAP_SIZE = 1024 * 1024"

definition HV_MEM_POOL_SIZE :: usize where
  "HV_MEM_POOL_SIZE = 16 * 1024 * 1024"

definition PER_CPU_SIZE :: usize where
  "PER_CPU_SIZE = 512 * 1024"

definition INVALID_ADDRESS :: usize where
  "INVALID_ADDRESS = - 1"

definition MAX_CPU_NUM :: usize where
  "MAX_CPU_NUM = 4"

text \<open>The end of the image is a symbol of the linker script: a parameter.\<close>

definition mem_pool_start :: "VirtAddr \<Rightarrow> ('e, VirtAddr) outcome" where
  "mem_pool_start core_end =
     bind_out (mul_chk MAX_CPU_NUM PER_CPU_SIZE) (\<lambda>n. add_chk core_end n)"

definition hv_end :: "VirtAddr \<Rightarrow> ('e, VirtAddr) outcome" where
  "hv_end core_end = bind_out (mem_pool_start core_end) (\<lambda>s. add_chk s HV_MEM_POOL_SIZE)"

lemmas const_defs = PAGE_SIZE_def HV_HEAP_SIZE_def HV_MEM_POOL_SIZE_def PER_CPU_SIZE_def
  INVALID_ADDRESS_def MAX_CPU_NUM_def

section \<open>Address arithmetic\<close>

definition virt_to_phys :: "usize \<Rightarrow> VirtAddr \<Rightarrow> ('e, PhysAddr) outcome" where
  "virt_to_phys PHYS_VIRT_OFFSET vaddr = sub_chk vaddr PHYS_VIRT_OFFSET"

definition phys_to_virt :: "usize \<Rightarrow> PhysAddr \<Rightarrow> ('e, VirtAddr) outcome" where
  "phys_to_virt PHYS_VIRT_OFFSET paddr = add_chk paddr PHYS_VIRT_OFFSET"

definition align_down :: "usize \<Rightarrow> usize" where
  "align_down addr = addr AND NOT (PAGE_SIZE - 1)"

definition align_up :: "usize \<Rightarrow> ('e, usize) outcome" where
  "align_up addr = bind_out (add_chk addr PAGE_SIZE)
     (\<lambda>a. bind_out (sub_chk a 1) (\<lambda>b. Ok (b AND NOT (PAGE_SIZE - 1))))"

definition page_offset :: "usize \<Rightarrow> usize" where
  "page_offset addr = addr AND (PAGE_SIZE - 1)"

definition is_aligned :: "usize \<Rightarrow> bool" where
  "is_aligned addr \<longleftrightarrow> page_offset addr = 0"

definition page_count :: "usize \<Rightarrow> ('e, usize) outcome" where
  "page_count sz = bind_out (align_up sz) (\<lambda>n. Ok (n div PAGE_SIZE))"

section \<open>Masks read as arithmetic\<close>

lemma unat_take_bit: "unat (take_bit n (a :: 'w::len word)) = unat a mod 2 ^ n"
  unfolding unsigned_take_bit_eq by (simp add: take_bit_eq_mod)

lemma and_mask_unat:
  fixes a :: "'w::len word"
  shows "unat (a AND mask n) = unat a mod 2 ^ n"
  by (simp add: unat_take_bit flip: take_bit_eq_mask)

lemma and_not_mask_eq:
  fixes a :: "'w::len word"
  shows "a AND NOT (mask n) = a - take_bit n a"
proof -
  have "a AND NOT (mask n) = push_bit n (drop_bit n a)"
    by (rule bit_eqI) (auto simp: bit_simps)
  also have "\<dots> = a - take_bit n a"
    using bits_ident [of n a] by (metis add_diff_cancel_right')
  finally show ?thesis .
qed

lemma and_not_mask_unat:
  fixes a :: "'w::len word"
  shows "unat (a AND NOT (mask n)) = unat a - unat a mod 2 ^ n"
proof -
  have le: "take_bit n a \<le> a"
    by (simp add: word_le_nat_alt unat_take_bit)
  show ?thesis
    unfolding and_not_mask_eq unat_sub [OF le]
    by (simp add: unat_take_bit)
qed

lemma page_mask: "PAGE_SIZE - 1 = mask 12"
  by (simp add: PAGE_SIZE_def mask_eq_exp_minus_1)

lemma unat_PAGE_SIZE [simp]: "unat PAGE_SIZE = 4096"
  by (simp add: PAGE_SIZE_def)

lemma unat_page_offset [addr_simps]: "unat (page_offset a) = unat a mod 4096"
  by (simp add: page_offset_def page_mask and_mask_unat)

lemma is_aligned_iff: "is_aligned a \<longleftrightarrow> unat a mod 4096 = 0"
  by (metis is_aligned_def unat_page_offset unat_0 unat_eq_zero)

lemma unat_align_down [addr_simps]: "unat (align_down a) = unat a - unat a mod 4096"
  by (simp add: align_down_def page_mask and_not_mask_unat)

lemma align_up_Ok_iff:
  "align_up a = Ok b \<longleftrightarrow> unat a + 4096 < 2 ^ 64 \<and> unat b = (unat a + 4095) - (unat a + 4095) mod 4096"
proof (cases "unat a + 4096 < 2 ^ 64")
  case True
  have "unat (a + PAGE_SIZE - 1) = unat a + 4095"
  proof -
    have "unat (a + PAGE_SIZE) = unat a + 4096"
      using True by (simp add: unat_word_ariths)
    then show ?thesis by (simp add: unat_sub word_le_nat_alt)
  qed
  with True show ?thesis
    by (auto simp: align_up_def add_chk_def sub_chk_def page_mask and_not_mask_unat unat_word_ariths word_unat_eq_iff)
next
  case False
  then show ?thesis by (simp add: align_up_def add_chk_def)
qed

lemma mod_page_add: "(a :: nat) mod 4096 = 0 \<Longrightarrow> c mod 4096 = 0 \<Longrightarrow> (a + c) mod 4096 = 0"
  by (metis add_0 mod_add_eq mod_0)

lemma mod_diff_zero: "(a :: nat) mod n = 0 \<Longrightarrow> b mod n = 0 \<Longrightarrow> (a - b) mod n = 0"
  by (metis dvd_diff_nat mod_0_imp_dvd dvd_imp_mod_0)

lemma align_down_id: "unat a mod 4096 = 0 \<Longrightarrow> align_down a = a"
  by (simp add: word_unat_eq_iff unat_align_down)

lemma align_up_id: "unat a mod 4096 = 0 \<Longrightarrow> unat a + 4096 < 2 ^ 64 \<Longrightarrow> align_up a = Ok a"
proof -
  assume al: "unat a mod 4096 = 0" and "unat a + 4096 < 2 ^ 64"
  moreover have "(unat a + 4095) mod 4096 = 4095"
    unfolding mod_add_left_eq [of "unat a", symmetric] al by simp
  ultimately show ?thesis by (simp add: align_up_Ok_iff)
qed

section \<open>Mapping flags\<close>

text \<open>\<open>MemFlags\<close> is a \<open>bitflags\<close> set over \<open>u64\<close>: a word with one bit per flag.\<close>

type_synonym MemFlags = u64

definition READ :: MemFlags where "READ = push_bit 0 1"

definition WRITE :: MemFlags where "WRITE = push_bit 1 1"

definition EXECUTE :: MemFlags where "EXECUTE = push_bit 2 1"

definition DMA :: MemFlags where "DMA = push_bit 3 1"

definition IO :: MemFlags where "IO = push_bit 4 1"

definition COMMUNICATION :: MemFlags where "COMMUNICATION = push_bit 5 1"

definition LOADABLE :: MemFlags where "LOADABLE = push_bit 6 1"

definition ROOTSHARED :: MemFlags where "ROOTSHARED = push_bit 7 1"

definition NO_HUGEPAGES :: MemFlags where "NO_HUGEPAGES = push_bit 8 1"

definition USER :: MemFlags where "USER = push_bit 9 1"

text \<open>\<open>contains\<close> of the \<open>bitflags\<close> types: every bit of the argument is set.\<close>

definition contains :: "u64 \<Rightarrow> u64 \<Rightarrow> bool" where
  "contains flags other \<longleftrightarrow> flags AND other = other"

lemmas MemFlags_defs = READ_def WRITE_def EXECUTE_def DMA_def IO_def COMMUNICATION_def
  LOADABLE_def ROOTSHARED_def NO_HUGEPAGES_def USER_def

lemma contains_bit: "n < 64 \<Longrightarrow> contains f (push_bit n 1) \<longleftrightarrow> bit f n"
proof
  assume n: "n < 64" and "contains f (push_bit n 1)"
  then have "bit (f AND push_bit n 1) n = bit (push_bit n 1 :: u64) n"
    by (simp add: contains_def)
  with n show "bit f n" by (simp add: bit_simps)
next
  assume n: "n < 64" and "bit f n"
  then show "contains f (push_bit n 1)"
    unfolding contains_def by (intro bit_word_eqI) (auto simp: bit_simps bit_1_iff)
qed

section \<open>Physical memory\<close>

text \<open>
  Memory is addressed by bytes; a table entry is a little-endian 64-bit read. The difference
  \<open>x - a\<close> of two addresses is the byte's offset in the object at \<open>a\<close>.
\<close>

type_synonym phys_mem = "usize \<Rightarrow> u8"

definition read_u64 :: "phys_mem \<Rightarrow> usize \<Rightarrow> u64" where
  "read_u64 m a = (ucast (m a) OR push_bit 8 (ucast (m (a + 1))) OR push_bit 16 (ucast (m (a + 2)))
     OR push_bit 24 (ucast (m (a + 3))) OR push_bit 32 (ucast (m (a + 4)))
     OR push_bit 40 (ucast (m (a + 5))) OR push_bit 48 (ucast (m (a + 6)))
     OR push_bit 56 (ucast (m (a + 7))))"

definition write_u64 :: "phys_mem \<Rightarrow> usize \<Rightarrow> u64 \<Rightarrow> phys_mem" where
  "write_u64 m a v = (\<lambda>x. if x - a < 8 then ucast (drop_bit (8 * unat (x - a)) v) else m x)"

definition fill_bytes :: "phys_mem \<Rightarrow> usize \<Rightarrow> usize \<Rightarrow> u8 \<Rightarrow> phys_mem" where
  "fill_bytes m start n b = (\<lambda>x. if x - start < n then b else m x)"

lemma read_u64_cong:
  assumes "\<And>k. k < 8 \<Longrightarrow> m (a + k) = m' (a + k)"
  shows "read_u64 m a = read_u64 m' a"
  using assms [of 0] assms [of 1] assms [of 2] assms [of 3] assms [of 4] assms [of 5]
    assms [of 6] assms [of 7]
  by (simp add: read_u64_def)

lemma read_write_same [simp]: "read_u64 (write_u64 m a v) a = v"
proof (rule bit_word_eqI)
  fix n assume "n < LENGTH(64)"
  then consider "n < 8" | "8 \<le> n" "n < 16" | "16 \<le> n" "n < 24" | "24 \<le> n" "n < 32"
    | "32 \<le> n" "n < 40" | "40 \<le> n" "n < 48" | "48 \<le> n" "n < 56" | "56 \<le> n" "n < 64"
    by force
  then show "bit (read_u64 (write_u64 m a v) a) n = bit v n"
    by cases (auto simp: read_u64_def write_u64_def bit_simps)
qed

text \<open>Two entries of 8-byte aligned addresses never overlap.\<close>

lemma aligned8_offset:
  fixes a b k :: usize
  assumes "8 dvd unat a" "8 dvd unat b" "a \<noteq> b" "k < 8"
  shows "\<not> b + k - a < 8"
proof -
  have dvd: "8 dvd unat (b - a)"
  proof (cases "unat a \<le> unat b")
    case True
    with assms show ?thesis by (simp add: addr_simps)
  next
    case False
    then have "unat (b - a) = 2 ^ 64 - (unat a - unat b)"
      by (subst unat_sub_if') auto
    moreover have "8 dvd (2 ^ 64 - (unat a - unat b) :: nat)"
      using assms by (intro dvd_diff_nat) auto
    ultimately show ?thesis by simp
  qed
  have "unat (b - a) \<noteq> 0" using assms(3) by (metis eq_iff_diff_eq_0 unat_eq_zero)
  with dvd have ge: "8 \<le> unat (b - a)" by (auto elim!: dvdE)
  obtain j where "unat (b - a) = 8 * j" using dvd by (auto elim!: dvdE)
  moreover have "unat (b - a) < 18446744073709551616" by (rule unat_word_less_64)
  ultimately have "unat (b - a) \<le> 2 ^ 64 - 8" by simp
  moreover have k: "unat k < 8" using assms(4) by (simp add: word_less_nat_alt)
  ultimately have "unat (b - a + k) = unat (b - a) + unat k"
    by (intro unat_add_exact) simp
  moreover have "b + k - a = b - a + k" by (simp only: algebra_simps)
  ultimately have "8 \<le> unat (b + k - a)" using ge by (metis trans_le_add1)
  then show ?thesis by (simp add: word_less_nat_alt)
qed

lemma read_write_other [mem_simps]:
  assumes "8 dvd unat a" "8 dvd unat b" "a \<noteq> b"
  shows "read_u64 (write_u64 m a v) b = read_u64 m b"
proof (rule read_u64_cong)
  fix k :: usize assume "k < 8"
  with assms have "\<not> b + k - a < 8" by (intro aligned8_offset)
  then show "write_u64 m a v (b + k) = m (b + k)"
    unfolding write_u64_def by presburger
qed

text \<open>The \<open>i\<close>-th entry of the table at \<open>p\<close>, a slice of \<open>ENTRY_COUNT\<close> 64-bit entries.\<close>

definition slot :: "PhysAddr \<Rightarrow> nat \<Rightarrow> usize" where
  "slot p i = p + 8 * of_nat i"

lemma aligned_bound:
  assumes "is_aligned p"
  shows "unat p \<le> 2 ^ 64 - 4096"
proof -
  obtain k where "unat p = 4096 * k" using assms by (auto simp: is_aligned_iff)
  moreover have "unat p < 18446744073709551616" by (rule unat_word_less_64)
  ultimately show ?thesis by simp
qed

lemma unat_slot:
  assumes "is_aligned p" "i < 512"
  shows "unat (slot p i) = unat p + 8 * i"
proof -
  have i: "unat (8 * of_nat i :: usize) = 8 * i"
    using assms(2) by (simp add: unat_word_ariths unsigned_of_nat take_bit_nat_eq_self)
  show ?thesis
    unfolding slot_def
    using aligned_bound [OF assms(1)] assms(2) i by (subst unat_add_exact) auto
qed

lemma slot_aligned: "is_aligned p \<Longrightarrow> i < 512 \<Longrightarrow> 8 dvd unat (slot p i)"
  by (auto simp: unat_slot is_aligned_iff)

lemma slot_page:
  assumes "is_aligned p" "i < 512"
  shows "unat (slot p i) div 4096 = unat p div 4096"
  using assms by (auto simp: unat_slot is_aligned_iff elim!: dvdE)

lemma aligned_eq_div:
  assumes "is_aligned p" "is_aligned q" "unat p div 4096 = unat q div 4096"
  shows "p = q"
  using assms by (auto simp: is_aligned_iff word_unat_eq_iff elim!: dvdE)

lemma slot_inject:
  assumes "is_aligned p" "is_aligned q" "i < 512" "j < 512"
  shows "slot p i = slot q j \<longleftrightarrow> p = q \<and> i = j"
proof
  assume eq: "slot p i = slot q j"
  with assms have "p = q" by (metis aligned_eq_div slot_page)
  moreover from eq this assms have "i = j" by (metis add_left_cancel mult_left_cancel numeral_neq_zero unat_slot zero_neq_numeral)
  ultimately show "p = q \<and> i = j" ..
qed simp

lemma read_slot_write_slot [mem_simps]:
  assumes "is_aligned p" "is_aligned q" "i < 512" "j < 512"
  shows "read_u64 (write_u64 m (slot p i) v) (slot q j) =
    (if p = q \<and> i = j then v else read_u64 m (slot q j))"
  using assms by (auto simp: read_write_other slot_aligned slot_inject)

lemma slot_byte_offset:
  assumes "i < 512" "k < 8"
  shows "slot p i + k - p < 4096"
proof -
  have k: "unat k < 8" using assms(2) by (simp add: word_less_nat_alt)
  have "slot p i + k - p = of_nat (8 * i) + k" by (simp add: slot_def)
  moreover have "unat (of_nat (8 * i) + k :: usize) = 8 * i + unat k"
    using assms(1) k by (simp add: unat_word_ariths unsigned_of_nat take_bit_nat_eq_self)
  ultimately have "unat (slot p i + k - p) = 8 * i + unat k" by metis
  with assms(1) k have "unat (slot p i + k - p) < 4096" by linarith
  then show ?thesis by (simp add: word_less_nat_alt)
qed

lemma page_byte_offset_other:
  assumes "is_aligned p" "is_aligned q" "p \<noteq> q" "i < 512" "k < 8"
  shows "\<not> slot q i + k - p < 4096"
proof
  assume less: "slot q i + k - p < 4096"
  have k: "unat k < 8" using assms(5) by (simp add: word_less_nat_alt)
  have sk: "unat (slot q i + k) = unat q + 8 * i + unat k"
    using aligned_bound [OF assms(2)] assms k by (subst unat_add_exact) (auto simp: unat_slot)
  let ?o = "slot q i + k - p"
  have "unat p + unat ?o < 2 ^ 64"
    using aligned_bound [OF assms(1)] less by (simp add: word_less_nat_alt)
  then have "unat (p + ?o) = unat p + unat ?o" by (intro unat_add_exact) simp
  moreover have "p + ?o = slot q i + k" by simp
  ultimately have "unat p + unat ?o = unat q + 8 * i + unat k" using sk by simp
  moreover have "unat ?o < 4096" using less by (simp add: word_less_nat_alt)
  ultimately have "unat p div 4096 = unat q div 4096"
    using assms k by (auto simp: is_aligned_iff elim!: dvdE)
  with assms show False by (blast dest: aligned_eq_div)
qed

lemma read_u64_const: 
  assumes "\<And>k. k < 8 \<Longrightarrow> m (a + k) = 0"
  shows "read_u64 m a = 0"
  using assms [of 0] assms [of 1] assms [of 2] assms [of 3] assms [of 4] assms [of 5]
    assms [of 6] assms [of 7]
  by (simp add: read_u64_def)

lemma read_slot_fill [mem_simps]:
  assumes "is_aligned p" "is_aligned q" "i < 512"
  shows "read_u64 (fill_bytes m p PAGE_SIZE 0) (slot q i) =
    (if p = q then 0 else read_u64 m (slot q i))"
proof (cases "p = q")
  case True
  have "read_u64 (fill_bytes m p PAGE_SIZE 0) (slot q i) = 0"
  proof (rule read_u64_const)
    fix k :: usize assume "k < 8"
    with True assms(3) have "slot q i + k - p < PAGE_SIZE"
      by (simp add: slot_byte_offset PAGE_SIZE_def)
    then show "fill_bytes m p PAGE_SIZE 0 (slot q i + k) = 0"
      by (simp add: fill_bytes_def)
  qed
  with True show ?thesis by simp
next
  case False
  have "read_u64 (fill_bytes m p PAGE_SIZE 0) (slot q i) = read_u64 m (slot q i)"
  proof (rule read_u64_cong)
    fix k :: usize assume "k < 8"
    with False assms have "\<not> slot q i + k - p < PAGE_SIZE"
      using page_byte_offset_other by (simp add: PAGE_SIZE_def)
    then show "fill_bytes m p PAGE_SIZE 0 (slot q i + k) = m (slot q i + k)"
      unfolding fill_bytes_def by presburger
  qed
  with False show ?thesis by simp
qed

end
