(* ===== verification/Hv_Error.thy ===== *)
theory Hv_Error
  imports Hv_Prelude
begin

text \<open>
  Error values (\<open>src/error.rs\<close>) and the paging errors that are converted to them
  (\<open>src/arch/aarch64/paging.rs\<close>). An \<open>HvError\<close> carries an errno and, for the log only, the
  source location and a message; the model keeps the errno, which is all the code ever reads.
\<close>

datatype HvErrorNum = EPERM | ENOENT | EIO | E2BIG | ENOMEM | EFAULT | EBUSY | EEXIST | ENODEV
  | EINVAL | ERANGE | ENOSYS

fun errno :: "HvErrorNum \<Rightarrow> u32" where
  "errno EPERM = 1"
| "errno ENOENT = 2"
| "errno EIO = 5"
| "errno E2BIG = 7"
| "errno ENOMEM = 12"
| "errno EFAULT = 14"
| "errno EBUSY = 16"
| "errno EEXIST = 17"
| "errno ENODEV = 19"
| "errno EINVAL = 22"
| "errno ERANGE = 34"
| "errno ENOSYS = 38"

fun as_str :: "HvErrorNum \<Rightarrow> string" where
  "as_str EPERM = ''Operation not permitted''"
| "as_str ENOENT = ''No such file or directory''"
| "as_str EIO = ''I/O error''"
| "as_str E2BIG = ''Argument list too long''"
| "as_str ENOMEM = ''Out of memory''"
| "as_str EFAULT = ''Bad address''"
| "as_str EBUSY = ''Device or resource busy''"
| "as_str EEXIST = ''File exists''"
| "as_str ENODEV = ''No such device''"
| "as_str EINVAL = ''Invalid argument''"
| "as_str ERANGE = ''Math result not representable''"
| "as_str ENOSYS = ''Function not implemented''"

text \<open>\<open>-(self.num as usize as isize)\<close>: an \<open>isize\<close>, kept as the 64-bit pattern it is returned in.\<close>

definition code :: "HvErrorNum \<Rightarrow> u64" where
  "code n = - (ucast (errno n))"

datatype PagingError = NoMemory | NotMapped | AlreadyMapped | MappedToHugePage

fun hv_error_from_paging :: "PagingError \<Rightarrow> HvErrorNum" where
  "hv_error_from_paging NoMemory = ENOMEM"
| "hv_error_from_paging _ = EFAULT"

lemma sint_code: "sint (code n) = - int (unat (errno n))"
  by (cases n) (simp_all add: code_def)

lemma code_negative: "sint (code n) < 0"
  by (cases n) (simp_all add: code_def)

lemma code_inject: "code m = code n \<longleftrightarrow> m = n"
  by (cases m; cases n) (simp_all add: code_def)

end
