(* ===== verification/Hv_Frame.thy ===== *)
theory Hv_Frame
  imports Hv_Addr Hv_Error
begin

text \<open>
  Physical frame allocation (\<open>src/memory/frame.rs\<close>). The bitmap behind it is the third-party crate
  \<open>bitmap_allocator\<close>: its operations are a parameter of every definition here, and the locale
  \<open>bit_alloc\<close> states what the crate documents of them. Frames are returned to the allocator by
  explicit calls of \<open>Frame_drop\<close> where a \<open>Frame\<close> goes out of scope.
\<close>

section \<open>The bitmap allocator\<close>

record 'b bitalloc =
  ba_default :: 'b
  ba_insert :: "usize \<Rightarrow> usize \<Rightarrow> 'b \<Rightarrow> 'b"
  ba_alloc :: "'b \<Rightarrow> usize option \<times> 'b"
  ba_alloc_contiguous :: "usize \<Rightarrow> usize \<Rightarrow> 'b \<Rightarrow> usize option \<times> 'b"
  ba_dealloc :: "usize \<Rightarrow> 'b \<Rightarrow> 'b"
  ba_test :: "usize \<Rightarrow> 'b \<Rightarrow> bool"

text \<open>
  \<open>test\<close> says whether a bit is free; \<open>insert\<close> marks a range available, \<open>alloc\<close> takes a free bit,
  \<open>alloc_contiguous\<close> an aligned block of free bits, \<open>dealloc\<close> frees an allocated bit.
\<close>

locale bit_alloc =
  fixes A :: "'b bitalloc"
  assumes test_default: "\<not> ba_test A k (ba_default A)"
    and test_insert: "ba_test A k (ba_insert A s e b) \<longleftrightarrow> (s \<le> k \<and> k < e) \<or> ba_test A k b"
    and alloc_Some: "ba_alloc A b = (Some k, b') \<Longrightarrow>
      ba_test A k b \<and> (\<forall>j. ba_test A j b' \<longleftrightarrow> ba_test A j b \<and> j \<noteq> k)"
    and alloc_None: "ba_alloc A b = (None, b') \<Longrightarrow>
      (\<forall>j. \<not> ba_test A j b) \<and> (\<forall>j. \<not> ba_test A j b')"
    and alloc_contiguous_Some: "ba_alloc_contiguous A n al b = (Some k, b') \<Longrightarrow>
      (2 ^ unat al dvd unat k) \<and> unat k + unat n < 2 ^ 64 \<and>
      (\<forall>j. k \<le> j \<and> j < k + n \<longrightarrow> ba_test A j b) \<and>
      (\<forall>j. ba_test A j b' \<longleftrightarrow> ba_test A j b \<and> \<not> (k \<le> j \<and> j < k + n))"
    and alloc_contiguous_None: "ba_alloc_contiguous A n al b = (None, b') \<Longrightarrow>
      (\<forall>j. ba_test A j b' \<longleftrightarrow> ba_test A j b)"
    and test_dealloc: "\<not> ba_test A k b \<Longrightarrow>
      ba_test A j (ba_dealloc A k b) \<longleftrightarrow> j = k \<or> ba_test A j b"

section \<open>FrameAllocator\<close>

record 'b FrameAllocator =
  base :: PhysAddr
  inner :: 'b

record Frame =
  start_paddr :: PhysAddr
  frame_count :: usize

text \<open>The machine state the memory code works on: the global allocator and physical memory.\<close>

record 'b pmem =
  falloc :: "'b FrameAllocator"
  bytes :: phys_mem

definition FrameAllocator_empty :: "'b bitalloc \<Rightarrow> 'b FrameAllocator" where
  "FrameAllocator_empty A = \<lparr>base = 0, inner = ba_default A\<rparr>"

definition FrameAllocator_init ::
  "'b bitalloc \<Rightarrow> PhysAddr \<Rightarrow> usize \<Rightarrow> 'b FrameAllocator \<Rightarrow> (HvErrorNum, 'b FrameAllocator) outcome" where
  "FrameAllocator_init A base0 sz self =
     bind_out (align_up base0) (\<lambda>b.
     bind_out (align_up sz) (\<lambda>n.
     Ok \<lparr>base = b, inner = ba_insert A 0 (n div PAGE_SIZE) (inner self)\<rparr>))"

definition frame_addr :: "'b FrameAllocator \<Rightarrow> usize \<Rightarrow> (HvErrorNum, PhysAddr) outcome" where
  "frame_addr self idx = bind_out (mul_chk idx PAGE_SIZE) (\<lambda>off. add_chk off (base self))"

definition FrameAllocator_alloc ::
  "'b bitalloc \<Rightarrow> ('b FrameAllocator, HvErrorNum, PhysAddr option) prog" where
  "FrameAllocator_alloc A self =
     (let (r, i) = ba_alloc A (inner self); self' = self\<lparr>inner := i\<rparr>
      in case r of
           None \<Rightarrow> (Ok None, self')
         | Some idx \<Rightarrow> (bind_out (frame_addr self' idx) (\<lambda>p. Ok (Some p)), self'))"

definition FrameAllocator_alloc_contiguous ::
  "'b bitalloc \<Rightarrow> usize \<Rightarrow> usize \<Rightarrow> ('b FrameAllocator, HvErrorNum, PhysAddr option) prog" where
  "FrameAllocator_alloc_contiguous A count align_log2 self =
     (let (r, i) = ba_alloc_contiguous A count align_log2 (inner self); self' = self\<lparr>inner := i\<rparr>
      in case r of
           None \<Rightarrow> (Ok None, self')
         | Some idx \<Rightarrow> (bind_out (frame_addr self' idx) (\<lambda>p. Ok (Some p)), self'))"

definition frame_index :: "'b FrameAllocator \<Rightarrow> PhysAddr \<Rightarrow> (HvErrorNum, usize) outcome" where
  "frame_index self target = bind_out (sub_chk target (base self)) (\<lambda>off. Ok (off div PAGE_SIZE))"

definition FrameAllocator_dealloc ::
  "'b bitalloc \<Rightarrow> PhysAddr \<Rightarrow> 'b FrameAllocator \<Rightarrow> (HvErrorNum, 'b FrameAllocator) outcome" where
  "FrameAllocator_dealloc A target self =
     bind_out (frame_index self target) (\<lambda>i. Ok (self\<lparr>inner := ba_dealloc A i (inner self)\<rparr>))"

fun dealloc_run :: "'b bitalloc \<Rightarrow> usize \<Rightarrow> nat \<Rightarrow> 'b \<Rightarrow> 'b" where
  "dealloc_run A i 0 b = b"
| "dealloc_run A i (Suc n) b = dealloc_run A (i + 1) n (ba_dealloc A i b)"

definition FrameAllocator_dealloc_contiguous ::
  "'b bitalloc \<Rightarrow> PhysAddr \<Rightarrow> usize \<Rightarrow> 'b FrameAllocator \<Rightarrow> (HvErrorNum, 'b FrameAllocator) outcome" where
  "FrameAllocator_dealloc_contiguous A target count self =
     bind_out (frame_index self target) (\<lambda>start_idx.
     bind_out (add_chk start_idx count) (\<lambda>_.
     Ok (self\<lparr>inner := dealloc_run A start_idx (unat count) (inner self)\<rparr>)))"

section \<open>Frame\<close>

definition with_falloc ::
  "('b FrameAllocator, HvErrorNum, 'a) prog \<Rightarrow> ('b pmem, HvErrorNum, 'a) prog" where
  "with_falloc m s = (let (r, fa) = m (falloc s) in (r, s\<lparr>falloc := fa\<rparr>))"

definition Frame_new :: "'b bitalloc \<Rightarrow> ('b pmem, HvErrorNum, Frame) prog" where
  "Frame_new A = bindP (with_falloc (FrameAllocator_alloc A)) (\<lambda>r. case r of
       Some p \<Rightarrow> retP \<lparr>start_paddr = p, frame_count = 1\<rparr>
     | None \<Rightarrow> errP ENOMEM)"

definition Frame_size :: "Frame \<Rightarrow> (HvErrorNum, usize) outcome" where
  "Frame_size f = mul_chk (frame_count f) PAGE_SIZE"

definition Frame_fill :: "Frame \<Rightarrow> u8 \<Rightarrow> ('b pmem, HvErrorNum, unit) prog" where
  "Frame_fill f byte = bindP (liftP (Frame_size f)) (\<lambda>n.
     modifyP (\<lambda>s. s\<lparr>bytes := fill_bytes (bytes s) (start_paddr f) n byte\<rparr>))"

definition Frame_clear :: "Frame \<Rightarrow> ('b pmem, HvErrorNum, unit) prog" where
  "Frame_clear f = Frame_fill f 0"

definition Frame_new_zero :: "'b bitalloc \<Rightarrow> ('b pmem, HvErrorNum, Frame) prog" where
  "Frame_new_zero A = bindP (Frame_new A) (\<lambda>f. bindP (Frame_clear f) (\<lambda>_. retP f))"

definition Frame_new_contiguous ::
  "'b bitalloc \<Rightarrow> usize \<Rightarrow> usize \<Rightarrow> ('b pmem, HvErrorNum, Frame) prog" where
  "Frame_new_contiguous A count align_log2 =
     bindP (with_falloc (FrameAllocator_alloc_contiguous A count align_log2)) (\<lambda>r. case r of
       Some p \<Rightarrow> retP \<lparr>start_paddr = p, frame_count = count\<rparr>
     | None \<Rightarrow> errP ENOMEM)"

definition Frame_from_paddr :: "PhysAddr \<Rightarrow> (HvErrorNum, Frame) outcome" where
  "Frame_from_paddr p = bind_out (rust_assert (is_aligned p))
     (\<lambda>_. Ok \<lparr>start_paddr = p, frame_count = 0\<rparr>)"

definition Frame_as_slice :: "Frame \<Rightarrow> 'b pmem \<Rightarrow> (HvErrorNum, u8 list) outcome" where
  "Frame_as_slice f s = bind_out (Frame_size f)
     (\<lambda>n. Ok (map (\<lambda>i. bytes s (start_paddr f + of_nat i)) [0 ..< unat n]))"

definition Frame_copy_data_from :: "Frame \<Rightarrow> u8 list \<Rightarrow> ('b pmem, HvErrorNum, unit) prog" where
  "Frame_copy_data_from f data = bindP (liftP (Frame_size f)) (\<lambda>n.
     bindP (liftP (rust_assert (length data \<le> unat n))) (\<lambda>_.
     modifyP (\<lambda>s. s\<lparr>bytes := (\<lambda>x. let off = unat (x - start_paddr f) in
       if off < length data then data ! off else bytes s x)\<rparr>)))"

definition Frame_drop :: "'b bitalloc \<Rightarrow> Frame \<Rightarrow> ('b pmem, HvErrorNum, unit) prog" where
  "Frame_drop A f s =
     (if frame_count f = 0 then (Ok (), s)
      else let r = (if frame_count f = 1 then FrameAllocator_dealloc A (start_paddr f) (falloc s)
                    else FrameAllocator_dealloc_contiguous A (start_paddr f) (frame_count f) (falloc s))
           in case r of
                Ok fa \<Rightarrow> (Ok (), s\<lparr>falloc := fa\<rparr>)
              | Err e \<Rightarrow> (Err e, s) | Panic \<Rightarrow> (Panic, s) | Hang \<Rightarrow> (Hang, s) | Fault \<Rightarrow> (Fault, s))"

definition frame_init :: "'b bitalloc \<Rightarrow> VirtAddr \<Rightarrow> ('b pmem, HvErrorNum, unit) prog" where
  "frame_init A core_end s =
     (case bind_out (mem_pool_start core_end) (\<lambda>st.
           bind_out (hv_end core_end) (\<lambda>en.
           bind_out (sub_chk (align_down en) st) (\<lambda>sz.
           FrameAllocator_init A st sz (falloc s)))) of
        Ok fa \<Rightarrow> (Ok (), s\<lparr>falloc := fa\<rparr>)
      | Err e \<Rightarrow> (Err e, s) | Panic \<Rightarrow> (Panic, s) | Hang \<Rightarrow> (Hang, s) | Fault \<Rightarrow> (Fault, s))"

text \<open>\<open>test\<close>: two rounds of five allocations, each dropped again.\<close>

fun alloc_frames :: "'b bitalloc \<Rightarrow> nat \<Rightarrow> ('b pmem, HvErrorNum, Frame list) prog" where
  "alloc_frames A 0 = retP []"
| "alloc_frames A (Suc n) = bindP (unwrapP (Frame_new A))
     (\<lambda>f. bindP (alloc_frames A n) (\<lambda>fs. retP (f # fs)))"

definition drop_frames :: "'b bitalloc \<Rightarrow> Frame list \<Rightarrow> ('b pmem, HvErrorNum, unit) prog" where
  "drop_frames A fs = forP fs (Frame_drop A)"

definition frame_test :: "'b bitalloc \<Rightarrow> ('b pmem, HvErrorNum, unit) prog" where
  "frame_test A = bindP (alloc_frames A 5) (\<lambda>v. bindP (drop_frames A v) (\<lambda>_.
     bindP (alloc_frames A 5) (\<lambda>v. drop_frames A v)))"

section \<open>Free frames\<close>

text \<open>
  \<open>FRAME_CAP\<close> is the capacity of \<open>BitAlloc1M\<close>. The pool is well placed when its base is page
  aligned and every frame it can hand out has an address below \<open>2 ^ 48\<close>, the addresses a table
  entry can hold.
\<close>

definition FRAME_CAP :: nat where
  "FRAME_CAP = 2 ^ 20"

definition falloc_ok :: "'b bitalloc \<Rightarrow> 'b FrameAllocator \<Rightarrow> bool" where
  "falloc_ok A fa \<longleftrightarrow> is_aligned (base fa) \<and> unat (base fa) + 4096 * FRAME_CAP \<le> 2 ^ 48 \<and>
     (\<forall>k. ba_test A k (inner fa) \<longrightarrow> unat k < FRAME_CAP)"

definition frame_free :: "'b bitalloc \<Rightarrow> 'b FrameAllocator \<Rightarrow> PhysAddr \<Rightarrow> bool" where
  "frame_free A fa p \<longleftrightarrow> (\<exists>k. ba_test A k (inner fa) \<and> p = k * PAGE_SIZE + base fa)"

definition in_pool :: "'b FrameAllocator \<Rightarrow> PhysAddr \<Rightarrow> bool" where
  "in_pool fa p \<longleftrightarrow> (\<exists>k. unat k < FRAME_CAP \<and> p = k * PAGE_SIZE + base fa)"

lemma unat_frame:
  assumes "unat (base fa) + 4096 * FRAME_CAP \<le> 2 ^ 48" "unat k < FRAME_CAP"
  shows "unat (k * PAGE_SIZE + base fa) = 4096 * unat k + unat (base fa)"
proof -
  have "unat (k * PAGE_SIZE) = 4096 * unat k"
    using assms by (subst unat_mul_exact) (auto simp: FRAME_CAP_def)
  then show ?thesis
    using assms by (subst unat_add_exact) (auto simp: FRAME_CAP_def)
qed

lemma frame_addr_Ok:
  assumes "unat (base fa) + 4096 * FRAME_CAP \<le> 2 ^ 48" "unat k < FRAME_CAP"
  shows "frame_addr fa k = Ok (k * PAGE_SIZE + base fa)"
proof -
  have "unat (k * PAGE_SIZE) = 4096 * unat k"
    using assms by (subst unat_mul_exact) (auto simp: FRAME_CAP_def)
  then show ?thesis
    using assms by (simp add: frame_addr_def mul_chk_def add_chk_def FRAME_CAP_def)
qed

lemma frame_aligned:
  assumes "falloc_ok A fa" "unat k < FRAME_CAP"
  shows "is_aligned (k * PAGE_SIZE + base fa)"
  using assms unat_frame [of fa k] by (simp add: falloc_ok_def is_aligned_iff)

lemma frame_bound:
  assumes "falloc_ok A fa" "unat k < FRAME_CAP"
  shows "unat (k * PAGE_SIZE + base fa) + 4096 \<le> 2 ^ 48"
  using assms unat_frame [of fa k] by (simp add: falloc_ok_def FRAME_CAP_def)

lemma frame_inject:
  assumes "falloc_ok A fa" "unat k < FRAME_CAP" "unat j < FRAME_CAP"
  shows "k * PAGE_SIZE + base fa = j * PAGE_SIZE + base fa \<longleftrightarrow> k = j"
proof
  assume "k * PAGE_SIZE + base fa = j * PAGE_SIZE + base fa"
  then have "unat (k * PAGE_SIZE + base fa) = unat (j * PAGE_SIZE + base fa)" by simp
  then show "k = j"
    using assms unat_frame [of fa k] unat_frame [of fa j]
    by (simp add: falloc_ok_def word_unat_eq_iff)
qed simp

lemma frame_index_Ok:
  assumes "falloc_ok A fa" "unat k < FRAME_CAP"
  shows "frame_index fa (k * PAGE_SIZE + base fa) = Ok k"
proof -
  have u: "unat (k * PAGE_SIZE + base fa) = 4096 * unat k + unat (base fa)"
    using assms by (intro unat_frame) (auto simp: falloc_ok_def)
  have "unat (k * PAGE_SIZE) = 4096 * unat k"
    using assms(2) by (subst unat_mul_exact) (auto simp: FRAME_CAP_def)
  then have "k * PAGE_SIZE div PAGE_SIZE = k"
    by (simp add: word_unat_eq_iff unat_div)
  then show ?thesis using u by (simp add: frame_index_def sub_chk_def)
qed

lemma frame_free_cases:
  assumes "frame_free A fa p" "falloc_ok A fa"
  obtains k where "ba_test A k (inner fa)" "unat k < FRAME_CAP" "p = k * PAGE_SIZE + base fa"
  using assms by (auto simp: frame_free_def falloc_ok_def)

lemma frame_free_pool: "frame_free A fa p \<Longrightarrow> falloc_ok A fa \<Longrightarrow> in_pool fa p"
  by (auto simp: in_pool_def frame_free_def falloc_ok_def)

lemma in_pool_base: "base fa = base fb \<Longrightarrow> in_pool fa p \<longleftrightarrow> in_pool fb p"
  by (simp add: in_pool_def)

lemma in_pool_aligned: "in_pool fa p \<Longrightarrow> falloc_ok A fa \<Longrightarrow> is_aligned p"
  by (auto simp: in_pool_def frame_aligned)

section \<open>What the allocator promises its clients\<close>

text \<open>
  The page tables only ask for zeroed frames. A source of zeroed frames hands out page-aligned
  frames that were free, clears them and nothing else, and fails only with \<open>ENOMEM\<close> and without
  touching memory.
\<close>

locale frame_source =
  fixes new_zero :: "('s, HvErrorNum, Frame) prog"
    and ok :: "'s \<Rightarrow> bool"
    and free :: "'s \<Rightarrow> PhysAddr \<Rightarrow> bool"
    and mem :: "'s \<Rightarrow> phys_mem"
  assumes new_zero_Ok: "ok s \<Longrightarrow> new_zero s = (Ok f, s') \<Longrightarrow>
      ok s' \<and> free s (start_paddr f) \<and> (\<forall>p. free s' p \<longleftrightarrow> free s p \<and> p \<noteq> start_paddr f) \<and>
      mem s' = fill_bytes (mem s) (start_paddr f) PAGE_SIZE 0 \<and> frame_count f = 1"
    and new_zero_fail: "ok s \<Longrightarrow> new_zero s = (r, s') \<Longrightarrow> \<not> is_ok r \<Longrightarrow>
      r = Err ENOMEM \<and> ok s' \<and> (\<forall>p. \<not> free s p) \<and> (\<forall>p. \<not> free s' p) \<and> mem s' = mem s"
    and free_aligned: "ok s \<Longrightarrow> free s p \<Longrightarrow> is_aligned p \<and> unat p + 4096 \<le> 2 ^ 48"
begin

lemma new_zero_cases:
  assumes "ok s" "new_zero s = (r, s')"
  obtains (got) f where "r = Ok f" "ok s'" "free s (start_paddr f)"
      "\<And>p. free s' p \<longleftrightarrow> free s p \<and> p \<noteq> start_paddr f"
      "mem s' = fill_bytes (mem s) (start_paddr f) PAGE_SIZE 0"
      "is_aligned (start_paddr f)" "unat (start_paddr f) + 4096 \<le> 2 ^ 48"
    | (none) "r = Err ENOMEM" "ok s'" "\<And>p. \<not> free s p" "\<And>p. \<not> free s' p" "mem s' = mem s"
proof (cases "is_ok r")
  case True
  then obtain f where "r = Ok f" by (cases r) auto
  with new_zero_Ok [of s f s'] free_aligned [of s] assms show ?thesis
    by (intro got) auto
next
  case False
  with new_zero_fail [of s r s'] assms show ?thesis
    by (intro none) auto
qed

end

context bit_alloc
begin

lemma alloc_prog_Some:
  assumes ok: "falloc_ok A fa" and al: "ba_alloc A (inner fa) = (Some k, b)"
  shows "FrameAllocator_alloc A fa = (Ok (Some (k * PAGE_SIZE + base fa)), fa\<lparr>inner := b\<rparr>)"
proof -
  from alloc_Some [OF al] ok have "unat k < FRAME_CAP" by (simp add: falloc_ok_def)
  with ok show ?thesis
    by (simp add: FrameAllocator_alloc_def al frame_addr_Ok falloc_ok_def)
qed

lemma alloc_keeps_ok:
  assumes ok: "falloc_ok A fa" and al: "ba_alloc A (inner fa) = (Some k, b)"
  shows "falloc_ok A (fa\<lparr>inner := b\<rparr>)"
  using ok alloc_Some [OF al] by (auto simp: falloc_ok_def)

lemma alloc_free:
  assumes ok: "falloc_ok A fa" and al: "ba_alloc A (inner fa) = (Some k, b)"
  shows "frame_free A (fa\<lparr>inner := b\<rparr>) p \<longleftrightarrow> frame_free A fa p \<and> p \<noteq> k * PAGE_SIZE + base fa"
proof -
  have cap: "\<And>j. ba_test A j (inner fa) \<Longrightarrow> unat j < FRAME_CAP"
    using ok by (simp add: falloc_ok_def)
  with alloc_Some [OF al] show ?thesis
    using frame_inject [OF ok] by (auto simp: frame_free_def)
qed

lemma Frame_new_cases:
  assumes ok: "falloc_ok A (falloc s)" and new: "Frame_new A s = (r, s')"
  obtains (got) p where "r = Ok \<lparr>start_paddr = p, frame_count = 1\<rparr>" "frame_free A (falloc s) p"
      "falloc_ok A (falloc s')" "base (falloc s') = base (falloc s)"
      "\<And>q. frame_free A (falloc s') q \<longleftrightarrow> frame_free A (falloc s) q \<and> q \<noteq> p" "bytes s' = bytes s"
    | (none) "r = Err ENOMEM" "falloc_ok A (falloc s')" "\<And>q. \<not> frame_free A (falloc s) q"
      "\<And>q. \<not> frame_free A (falloc s') q" "bytes s' = bytes s"
proof -
  obtain x b where al: "ba_alloc A (inner (falloc s)) = (x, b)" by fastforce
  show ?thesis
  proof (cases x)
    case None
    with alloc_None al have "\<And>j. \<not> ba_test A j (inner (falloc s))" "\<And>j. \<not> ba_test A j b"
      by blast+
    with new ok None al show ?thesis
      by (intro none)
        (auto simp: Frame_new_def bindP_def with_falloc_def FrameAllocator_alloc_def
           frame_free_def falloc_ok_def)
  next
    case (Some k)
    let ?p = "k * PAGE_SIZE + base (falloc s)"
    from new have "r = Ok \<lparr>start_paddr = ?p, frame_count = 1\<rparr>" "s' = s\<lparr>falloc := (falloc s)\<lparr>inner := b\<rparr>\<rparr>"
      by (auto simp: Frame_new_def bindP_def with_falloc_def alloc_prog_Some [OF ok al [unfolded Some]])
    moreover have "frame_free A (falloc s) ?p"
      using alloc_Some [OF al [unfolded Some]] by (auto simp: frame_free_def)
    ultimately show ?thesis
      using alloc_keeps_ok [OF ok al [unfolded Some]] alloc_free [OF ok al [unfolded Some]]
      by (intro got) auto
  qed
qed

end

lemma Frame_clear_one:
  "Frame_clear \<lparr>start_paddr = p, frame_count = 1\<rparr> s =
     (Ok (), s\<lparr>bytes := fill_bytes (bytes s) p PAGE_SIZE 0\<rparr>)"
  by (simp add: Frame_clear_def Frame_fill_def Frame_size_def mul_chk_def)

lemma Frame_new_zero_eq:
  "Frame_new A s = (Ok \<lparr>start_paddr = p, frame_count = 1\<rparr>, t) \<Longrightarrow>
   Frame_new_zero A s = (Ok \<lparr>start_paddr = p, frame_count = 1\<rparr>,
     t\<lparr>bytes := fill_bytes (bytes t) p PAGE_SIZE 0\<rparr>)"
  "Frame_new A s = (Err e, t) \<Longrightarrow> Frame_new_zero A s = (Err e, t)"
  by (simp_all add: Frame_new_zero_def bindP_def Frame_clear_one)

sublocale bit_alloc \<subseteq> frames: frame_source "Frame_new_zero A" "\<lambda>s. falloc_ok A (falloc s)"
  "\<lambda>s. frame_free A (falloc s)" bytes
proof
  fix s f s'
  assume ok: "falloc_ok A (falloc s)" and nz: "Frame_new_zero A s = (Ok f, s')"
  obtain r t where new: "Frame_new A s = (r, t)" by fastforce
  from ok new show "falloc_ok A (falloc s') \<and> frame_free A (falloc s) (start_paddr f) \<and>
      (\<forall>p. frame_free A (falloc s') p \<longleftrightarrow> frame_free A (falloc s) p \<and> p \<noteq> start_paddr f) \<and>
      bytes s' = fill_bytes (bytes s) (start_paddr f) PAGE_SIZE 0 \<and> frame_count f = 1"
  proof (cases rule: Frame_new_cases)
    case (got p)
    from nz new got(1) have "f = \<lparr>start_paddr = p, frame_count = 1\<rparr>"
      "s' = t\<lparr>bytes := fill_bytes (bytes t) p PAGE_SIZE 0\<rparr>"
      by (simp_all add: Frame_new_zero_eq)
    then show ?thesis using got by simp
  next
    case none
    with nz new show ?thesis by (simp add: Frame_new_zero_eq)
  qed
next
  fix s r s'
  assume ok: "falloc_ok A (falloc s)" and nz: "Frame_new_zero A s = (r, s')" and fail: "\<not> is_ok r"
  obtain r0 t where new: "Frame_new A s = (r0, t)" by fastforce
  from ok new show "r = Err ENOMEM \<and> falloc_ok A (falloc s') \<and> (\<forall>p. \<not> frame_free A (falloc s) p) \<and>
      (\<forall>p. \<not> frame_free A (falloc s') p) \<and> bytes s' = bytes s"
  proof (cases rule: Frame_new_cases)
    case (got p)
    from nz new got(1) fail show ?thesis by (auto simp: Frame_new_zero_eq)
  next
    case none
    from nz new none(1) have "r = Err ENOMEM" "s' = t" by (simp_all add: Frame_new_zero_eq)
    with none show ?thesis by simp
  qed
next
  fix s p
  assume "falloc_ok A (falloc s)" "frame_free A (falloc s) p"
  then obtain k where "unat k < FRAME_CAP" "p = k * PAGE_SIZE + base (falloc s)"
    by (auto simp: frame_free_def falloc_ok_def)
  with \<open>falloc_ok A (falloc s)\<close> show "is_aligned p \<and> unat p + 4096 \<le> 2 ^ 48"
    using frame_aligned [of A "falloc s" k] frame_bound [of A "falloc s" k] by blast
qed

section \<open>Returning frames\<close>

context bit_alloc
begin

text \<open>A frame in use: one of the pool's, and not free.\<close>

lemma Frame_drop_one:
  assumes ok: "falloc_ok A (falloc s)" and pool: "in_pool (falloc s) p"
    and used: "\<not> frame_free A (falloc s) p"
  obtains s' where "Frame_drop A \<lparr>start_paddr = p, frame_count = 1\<rparr> s = (Ok (), s')"
    "falloc_ok A (falloc s')" "base (falloc s') = base (falloc s)" "bytes s' = bytes s"
    "\<And>q. frame_free A (falloc s') q \<longleftrightarrow> frame_free A (falloc s) q \<or> q = p"
proof -
  from pool obtain k where k: "unat k < FRAME_CAP" "p = k * PAGE_SIZE + base (falloc s)"
    by (auto simp: in_pool_def)
  have nt: "\<not> ba_test A k (inner (falloc s))"
    using used k(2) by (auto simp: frame_free_def)
  let ?fa = "(falloc s)\<lparr>inner := ba_dealloc A k (inner (falloc s))\<rparr>"
  have "FrameAllocator_dealloc A p (falloc s) = Ok ?fa"
    by (simp add: FrameAllocator_dealloc_def frame_index_Ok [OF ok k(1)] k(2))
  then have "Frame_drop A \<lparr>start_paddr = p, frame_count = 1\<rparr> s = (Ok (), s\<lparr>falloc := ?fa\<rparr>)"
    by (simp add: Frame_drop_def)
  moreover have "falloc_ok A ?fa"
    using ok k(1) test_dealloc [OF nt] by (auto simp: falloc_ok_def)
  moreover have "frame_free A ?fa q \<longleftrightarrow> frame_free A (falloc s) q \<or> q = p" for q
    using test_dealloc [OF nt] k(2) by (auto simp: frame_free_def)
  ultimately show ?thesis using that by simp
qed

lemma drop_frames_used:
  assumes "falloc_ok A (falloc s)" "\<forall>f\<in>set fs. frame_count f = 1 \<and>
      in_pool (falloc s) (start_paddr f) \<and> \<not> frame_free A (falloc s) (start_paddr f)"
    and "distinct (map start_paddr fs)"
  shows "\<exists>t. drop_frames A fs s = (Ok (), t) \<and> falloc_ok A (falloc t) \<and> bytes t = bytes s \<and>
    base (falloc t) = base (falloc s) \<and>
    (\<forall>q. frame_free A (falloc t) q \<longleftrightarrow> frame_free A (falloc s) q \<or> q \<in> start_paddr ` set fs)"
  using assms
proof (induction fs arbitrary: s)
  case Nil
  then show ?case by (simp add: drop_frames_def)
next
  case (Cons f fs)
  have f: "f = \<lparr>start_paddr = start_paddr f, frame_count = 1\<rparr>" using Cons.prems(2) by simp
  obtain s1 where s1: "Frame_drop A f s = (Ok (), s1)" "falloc_ok A (falloc s1)"
    "base (falloc s1) = base (falloc s)" "bytes s1 = bytes s"
    "\<And>q. frame_free A (falloc s1) q \<longleftrightarrow> frame_free A (falloc s) q \<or> q = start_paddr f"
    using Cons.prems(1,2) Frame_drop_one [of s "start_paddr f"] f by (metis list.set_intros(1))
  have "\<forall>g\<in>set fs. frame_count g = 1 \<and> in_pool (falloc s1) (start_paddr g) \<and>
      \<not> frame_free A (falloc s1) (start_paddr g)"
  proof
    fix g assume g: "g \<in> set fs"
    then have "start_paddr g \<noteq> start_paddr f" using Cons.prems(3) by (metis distinct.simps(2) image_eqI list.set_map list.simps(9))
    then show "frame_count g = 1 \<and> in_pool (falloc s1) (start_paddr g) \<and>
      \<not> frame_free A (falloc s1) (start_paddr g)"
      using Cons.prems(2) g by (simp add: s1(5) in_pool_base [OF s1(3)])
  qed
  then obtain t where "drop_frames A fs s1 = (Ok (), t)" "falloc_ok A (falloc t)"
      "bytes t = bytes s1" "base (falloc t) = base (falloc s1)"
      "\<forall>q. frame_free A (falloc t) q \<longleftrightarrow> frame_free A (falloc s1) q \<or> q \<in> start_paddr ` set fs"
    using Cons.IH [OF s1(2)] Cons.prems(3) by auto
  then show ?case
    using s1 by (auto simp: drop_frames_def bindP_def)
qed

lemma alloc_frames_cases:
  assumes "falloc_ok A (falloc s)" "alloc_frames A n s = (r, s')"
  shows "(\<exists>fs. r = Ok fs \<and> length fs = n \<and> falloc_ok A (falloc s') \<and> bytes s' = bytes s \<and>
      base (falloc s') = base (falloc s) \<and> distinct (map start_paddr fs) \<and>
      (\<forall>f\<in>set fs. frame_count f = 1 \<and> frame_free A (falloc s) (start_paddr f)) \<and>
      (\<forall>q. frame_free A (falloc s') q \<longleftrightarrow>
         frame_free A (falloc s) q \<and> q \<notin> start_paddr ` set fs)) \<or>
    (r = Panic \<and> card (Collect (frame_free A (falloc s))) < n)"
  using assms
proof (induction n arbitrary: s r s')
  case 0
  then show ?case by simp
next
  case (Suc n)
  obtain r0 t where new: "Frame_new A s = (r0, t)" by fastforce
  from Suc.prems(1) new show ?case
  proof (cases rule: Frame_new_cases)
    case (got p)
    let ?f = "\<lparr>start_paddr = p, frame_count = 1\<rparr>"
    obtain r1 t1 where al: "alloc_frames A n t = (r1, t1)" by fastforce
    from Suc.IH [OF got(3) al] show ?thesis
    proof
      assume "\<exists>fs. r1 = Ok fs \<and> length fs = n \<and> falloc_ok A (falloc t1) \<and> bytes t1 = bytes t \<and>
        base (falloc t1) = base (falloc t) \<and> distinct (map start_paddr fs) \<and>
        (\<forall>f\<in>set fs. frame_count f = 1 \<and> frame_free A (falloc t) (start_paddr f)) \<and>
        (\<forall>q. frame_free A (falloc t1) q \<longleftrightarrow>
           frame_free A (falloc t) q \<and> q \<notin> start_paddr ` set fs)"
      then obtain fs where fs: "r1 = Ok fs" "length fs = n" "falloc_ok A (falloc t1)"
        "bytes t1 = bytes t" "base (falloc t1) = base (falloc t)" "distinct (map start_paddr fs)"
        "\<forall>f\<in>set fs. frame_count f = 1 \<and> frame_free A (falloc t) (start_paddr f)"
        "\<forall>q. frame_free A (falloc t1) q \<longleftrightarrow>
           frame_free A (falloc t) q \<and> q \<notin> start_paddr ` set fs" by blast
      have "r = Ok (?f # fs)" "s' = t1"
        using Suc.prems(2) new got(1) al fs(1) by (auto simp: bindP_def unwrapP_def)
      moreover have "distinct (map start_paddr (?f # fs))"
        using fs(6,7) got(5) by auto
      ultimately show ?thesis using fs got by auto
    next
      assume pan: "r1 = Panic \<and> card (Collect (frame_free A (falloc t))) < n"
      have "Collect (frame_free A (falloc s)) = insert p (Collect (frame_free A (falloc t)))"
        using got(2,5) by auto
      then have "card (Collect (frame_free A (falloc s))) \<le> Suc (card (Collect (frame_free A (falloc t))))"
        by (simp add: card_insert_le_m1)
      with pan show ?thesis
        using Suc.prems(2) new got(1) al by (auto simp: bindP_def unwrapP_def)
    qed
  next
    case none
    have "Collect (frame_free A (falloc s)) = {}" using none(3) by blast
    then have "card (Collect (frame_free A (falloc s))) < Suc n" by (metis card.empty zero_less_Suc)
    then show ?thesis using none(1) Suc.prems(2) new by (auto simp: bindP_def unwrapP_def)
  qed
qed

lemma alloc_drop_round:
  assumes ok: "falloc_ok A (falloc s)"
  shows "\<exists>t. bindP (alloc_frames A n) (drop_frames A) s = (Ok (), t) \<and> falloc_ok A (falloc t) \<and>
      bytes t = bytes s \<and> (\<forall>q. frame_free A (falloc t) q \<longleftrightarrow> frame_free A (falloc s) q)
    \<or> fst (bindP (alloc_frames A n) (drop_frames A) s) = Panic \<and>
      card (Collect (frame_free A (falloc s))) < n"
proof -
  obtain r s1 where al: "alloc_frames A n s = (r, s1)" by fastforce
  from alloc_frames_cases [OF ok al] show ?thesis
  proof (elim disjE exE conjE)
    fix fs
    assume fs: "r = Ok fs" "falloc_ok A (falloc s1)" "bytes s1 = bytes s"
      "base (falloc s1) = base (falloc s)" "distinct (map start_paddr fs)"
      "\<forall>f\<in>set fs. frame_count f = 1 \<and> frame_free A (falloc s) (start_paddr f)"
      "\<forall>q. frame_free A (falloc s1) q \<longleftrightarrow>
           frame_free A (falloc s) q \<and> q \<notin> start_paddr ` set fs"
    have "\<forall>f\<in>set fs. frame_count f = 1 \<and> in_pool (falloc s1) (start_paddr f) \<and>
        \<not> frame_free A (falloc s1) (start_paddr f)"
      using fs(6,7) frame_free_pool [OF _ ok] in_pool_base [OF fs(4)] by auto
    from drop_frames_used [OF fs(2) this fs(5)] obtain t where
      "drop_frames A fs s1 = (Ok (), t)" "falloc_ok A (falloc t)" "bytes t = bytes s1"
      "\<forall>q. frame_free A (falloc t) q \<longleftrightarrow> frame_free A (falloc s1) q \<or> q \<in> start_paddr ` set fs"
      by blast
    then have "bindP (alloc_frames A n) (drop_frames A) s = (Ok (), t) \<and> falloc_ok A (falloc t) \<and>
      bytes t = bytes s \<and> (\<forall>q. frame_free A (falloc t) q \<longleftrightarrow> frame_free A (falloc s) q)"
      using fs al by (auto simp: bindP_def)
    then show ?thesis by blast
  next
    assume "r = Panic" "card (Collect (frame_free A (falloc s))) < n"
    with al show ?thesis by (simp add: bindP_def)
  qed
qed

lemma frame_test_restores:
  assumes ok: "falloc_ok A (falloc s)" and enough: "5 \<le> card (Collect (frame_free A (falloc s)))"
  shows "\<exists>t. frame_test A s = (Ok (), t) \<and> falloc_ok A (falloc t) \<and> bytes t = bytes s \<and>
    (\<forall>q. frame_free A (falloc t) q \<longleftrightarrow> frame_free A (falloc s) q)"
proof -
  obtain t1 where t1: "bindP (alloc_frames A 5) (drop_frames A) s = (Ok (), t1)"
    "falloc_ok A (falloc t1)" "bytes t1 = bytes s"
    "\<And>q. frame_free A (falloc t1) q \<longleftrightarrow> frame_free A (falloc s) q"
    using alloc_drop_round [OF ok, of 5] enough by auto
  have "Collect (frame_free A (falloc t1)) = Collect (frame_free A (falloc s))"
    using t1(4) by auto
  then obtain t2 where t2: "bindP (alloc_frames A 5) (drop_frames A) t1 = (Ok (), t2)"
    "falloc_ok A (falloc t2)" "bytes t2 = bytes t1"
    "\<And>q. frame_free A (falloc t2) q \<longleftrightarrow> frame_free A (falloc t1) q"
    using alloc_drop_round [OF t1(2), of 5] enough by auto
  have "frame_test A s = bindP (bindP (alloc_frames A 5) (drop_frames A))
      (\<lambda>_. bindP (alloc_frames A 5) (drop_frames A)) s"
    by (auto simp: frame_test_def bindP_def split: prod.splits outcome.splits)
  also have "\<dots> = (Ok (), t2)" using t1(1) t2(1) by (simp add: bindP_simps(1))
  finally show ?thesis using t1 t2 by auto
qed

end

section \<open>A bitmap that meets the contract\<close>

text \<open>
  The list of free bits. It instantiates the parameter in the witnesses and discharges the
  contract once, so that \<open>bit_alloc\<close> is known to be satisfiable.
\<close>

definition list_bits :: "usize list bitalloc" where
  "list_bits = \<lparr>
     ba_default = [],
     ba_insert = (\<lambda>s e b. map of_nat [unat s ..< unat e] @ b),
     ba_alloc = (\<lambda>b. case b of [] \<Rightarrow> (None, []) | k # _ \<Rightarrow> (Some k, removeAll k b)),
     ba_alloc_contiguous = (\<lambda>n al b.
       case find (\<lambda>k. 2 ^ unat al dvd unat k \<and> unat k + unat n < 2 ^ 64 \<and>
               (\<forall>i \<in> set [unat k ..< unat k + unat n]. of_nat i \<in> set b)) b of
         None \<Rightarrow> (None, b)
       | Some k \<Rightarrow> (Some k, filter (\<lambda>j. \<not> (k \<le> j \<and> j < k + n)) b)),
     ba_dealloc = (\<lambda>k b. k # b),
     ba_test = (\<lambda>k b. k \<in> set b)\<rparr>"

lemma of_nat_unat_id: "of_nat (unat (w :: 'w::len word)) = w"
  by simp

lemma mem_map_range:
  "(k :: usize) \<in> of_nat ` {unat s ..< unat e} \<longleftrightarrow> s \<le> k \<and> k < e"
proof
  assume "k \<in> of_nat ` {unat s ..< unat e}"
  then obtain n where n: "k = of_nat n" "unat s \<le> n" "n < unat e" by auto
  have "n < 2 ^ 64" using less_trans [OF n(3) unat_word_less_64] by simp
  then have "unat k = n" using n(1) by (simp add: addr_simps)
  with n show "s \<le> k \<and> k < e" by (simp add: word_le_nat_alt word_less_nat_alt)
next
  assume "s \<le> k \<and> k < e"
  then have "unat k \<in> {unat s ..< unat e}" by (simp add: word_le_nat_alt word_less_nat_alt)
  then show "k \<in> of_nat ` {unat s ..< unat e}" by (metis image_eqI of_nat_unat_id)
qed

interpretation list_bits: bit_alloc list_bits
proof
  fix n al b k b'
  assume "ba_alloc_contiguous list_bits n al b = (Some k, b')"
  then have k: "2 ^ unat al dvd unat k" "unat k + unat n < 2 ^ 64"
      "\<forall>i \<in> {unat k ..< unat k + unat n}. of_nat i \<in> set b"
    and b': "b' = filter (\<lambda>j. \<not> (k \<le> j \<and> j < k + n)) b"
    by (auto simp: list_bits_def find_Some_iff split: option.splits)
  have "unat (k + n) = unat k + unat n" using k(2) by (intro unat_add_exact) simp
  then have "\<forall>j. k \<le> j \<and> j < k + n \<longrightarrow> j \<in> set b"
    using k(3) by (metis atLeastLessThan_iff word_le_nat_alt word_less_nat_alt of_nat_unat_id)
  with k b' show "(2 ^ unat al dvd unat k) \<and> unat k + unat n < 2 ^ 64 \<and>
      (\<forall>j. k \<le> j \<and> j < k + n \<longrightarrow> ba_test list_bits j b) \<and>
      (\<forall>j. ba_test list_bits j b' \<longleftrightarrow> ba_test list_bits j b \<and> \<not> (k \<le> j \<and> j < k + n))"
    by (auto simp: list_bits_def)
next
  fix k s e b
  show "ba_test list_bits k (ba_insert list_bits s e b) \<longleftrightarrow>
      (s \<le> k \<and> k < e) \<or> ba_test list_bits k b"
    using mem_map_range [of k s e] by (auto simp: list_bits_def)
qed (auto simp: list_bits_def split: list.splits option.splits)

section \<open>Properties\<close>

context bit_alloc
begin

lemma new_zero_effect:
  assumes "falloc_ok A (falloc s)" and "Frame_new_zero A s = (r, s')"
  shows "(\<exists>p. r = Ok \<lparr>start_paddr = p, frame_count = 1\<rparr> \<and> is_aligned p \<and> frame_free A (falloc s) p \<and>
      (\<forall>q. frame_free A (falloc s') q \<longleftrightarrow> frame_free A (falloc s) q \<and> q \<noteq> p) \<and>
      (\<forall>q i. is_aligned q \<and> i < 512 \<longrightarrow> read_u64 (bytes s') (slot q i) =
         (if q = p then 0 else read_u64 (bytes s) (slot q i))))
    \<or> (r = Err ENOMEM \<and> (\<forall>q. \<not> frame_free A (falloc s) q) \<and> bytes s' = bytes s)"
  using assms
proof (cases rule: frames.new_zero_cases)
  case (got f)
  have "f = \<lparr>start_paddr = start_paddr f, frame_count = 1\<rparr>"
    using frames.new_zero_Ok [OF assms(1)] assms(2) got(1) by simp
  then have "r = Ok \<lparr>start_paddr = start_paddr f, frame_count = 1\<rparr>" using got(1) by simp
  moreover have "\<forall>q i. is_aligned q \<and> i < 512 \<longrightarrow> read_u64 (bytes s') (slot q i) =
      (if q = start_paddr f then 0 else read_u64 (bytes s) (slot q i))"
    unfolding got(5) using got(6) by (metis read_slot_fill)
  ultimately show ?thesis using got(3,4,6) by blast
next
  case none
  then show ?thesis by blast
qed

end

definition small_pool :: "usize list pmem" where
  "small_pool = \<lparr>falloc = \<lparr>base = 0x80000000, inner = [0, 1, 2, 3, 4, 5, 6, 7]\<rparr>, bytes = (\<lambda>_. 0)\<rparr>"

lemma small_pool_ok: "falloc_ok list_bits (falloc small_pool)"
  by (simp add: falloc_ok_def small_pool_def list_bits_def is_aligned_iff FRAME_CAP_def)

lemma small_pool_free:
  "Collect (frame_free list_bits (falloc small_pool)) =
    {0x80000000, 0x80001000, 0x80002000, 0x80003000, 0x80004000, 0x80005000, 0x80006000, 0x80007000}"
proof -
  have "Collect (frame_free list_bits (falloc small_pool)) =
      (\<lambda>k. k * PAGE_SIZE + 0x80000000) ` set [0, 1, 2, 3, 4, 5, 6, 7]"
    unfolding frame_free_def small_pool_def list_bits_def by (simp add: image_def Bex_def)
  then show ?thesis by (simp add: PAGE_SIZE_def)
qed

lemma small_pool_alloc:
  "Frame_new_zero list_bits small_pool = (Ok \<lparr>start_paddr = 0x80000000, frame_count = 1\<rparr>,
     \<lparr>falloc = \<lparr>base = 0x80000000, inner = [1, 2, 3, 4, 5, 6, 7]\<rparr>,
      bytes = fill_bytes (\<lambda>_. 0) 0x80000000 PAGE_SIZE 0\<rparr>)"
  by (simp add: Frame_new_zero_def Frame_new_def Frame_clear_def Frame_fill_def Frame_size_def
      with_falloc_def FrameAllocator_alloc_def frame_addr_def small_pool_def list_bits_def
      bindP_def mul_chk_def add_chk_def PAGE_SIZE_def)

lemma frame_test_ok:
  assumes "bit_alloc A" and "falloc_ok A (falloc s)" and "5 \<le> card (Collect (frame_free A (falloc s)))"
  shows "\<exists>t. frame_test A s = (Ok (), t) \<and> falloc_ok A (falloc t) \<and> bytes t = bytes s \<and>
    (\<forall>q. frame_free A (falloc t) q \<longleftrightarrow> frame_free A (falloc s) q)"
  using bit_alloc.frame_test_restores [OF assms] by blast

lemma frame_init_values:
  assumes "is_aligned core_end" and "unat core_end + 0x1200000 < 2 ^ 48"
  shows "frame_init A core_end s = (Ok (), s\<lparr>falloc := \<lparr>base = core_end + 0x200000,
    inner = ba_insert A 0 4096 (inner (falloc s))\<rparr>\<rparr>)"
proof -
  let ?st = "core_end + 0x200000" and ?en = "core_end + 0x1200000"
  from assms have u: "unat ?st = unat core_end + 0x200000" "unat ?en = unat core_end + 0x1200000"
    by (subst unat_add_exact; simp)+
  have mod: "unat core_end mod 4096 = 0" using assms(1) by (simp add: is_aligned_iff)
  have st: "mem_pool_start core_end = (Ok ?st :: (HvErrorNum, _) outcome)"
    using assms by (simp add: mem_pool_start_def mul_chk_def add_chk_def const_defs)
  have en: "hv_end core_end = (Ok ?en :: (HvErrorNum, _) outcome)"
    using assms u by (simp add: hv_end_def st add_chk_def const_defs)
  have down: "align_down ?en = ?en"
    using mod_page_add [OF mod, of "0x1200000"] u by (simp add: align_down_id)
  have sub: "sub_chk ?en ?st = (Ok 0x1000000 :: (HvErrorNum, _) outcome)"
    using u by (simp add: sub_chk_def word_le_nat_alt)
  have up1: "align_up ?st = (Ok ?st :: (HvErrorNum, _) outcome)"
    using mod_page_add [OF mod, of "0x200000"] u assms(2) by (simp add: align_up_id)
  have up2: "align_up 0x1000000 = (Ok 0x1000000 :: (HvErrorNum, _) outcome)"
    by (simp add: align_up_id)
  show ?thesis
    by (simp add: frame_init_def st en down sub FrameAllocator_init_def up1 up2 PAGE_SIZE_def)
qed

text \<open>
  With the image ending on a page boundary, as the linker script has it, \<open>frame::init\<close> on the
  empty allocator gives a well-formed pool whose free frames are exactly the 4096 pages of the
  16 MiB after the per-CPU area, from \<open>mem_pool_start\<close> up to \<open>hv_end\<close>.
\<close>

lemma frame_init_pool:
  assumes "bit_alloc A" and "is_aligned core_end" and "unat core_end + 0x200000 + 2 ^ 32 \<le> 2 ^ 48"
    and "falloc s = FrameAllocator_empty A"
  shows "\<exists>t. frame_init A core_end s = (Ok (), t) \<and> falloc_ok A (falloc t) \<and> bytes t = bytes s \<and>
    (\<forall>p. frame_free A (falloc t) p \<longleftrightarrow>
      is_aligned p \<and> unat core_end + 0x200000 \<le> unat p \<and> unat p < unat core_end + 0x1200000)"
proof -
  let ?fa = "\<lparr>base = core_end + 0x200000, inner = ba_insert A 0 4096 (ba_default A)\<rparr>"
  let ?t = "s\<lparr>falloc := ?fa\<rparr>"
  have init: "frame_init A core_end s = (Ok (), ?t)"
    using frame_init_values [of core_end A s] assms(2-4) by (simp add: FrameAllocator_empty_def)
  have test: "ba_test A k (inner ?fa) \<longleftrightarrow> k < 4096" for k
    using bit_alloc.test_insert [OF assms(1)] bit_alloc.test_default [OF assms(1)] by simp
  have b: "unat (core_end + 0x200000) = unat core_end + 0x200000"
    using assms(3) by (subst unat_add_exact) auto
  have al: "unat core_end mod 4096 = 0" using assms(2) by (simp add: is_aligned_iff)
  have cap: "unat (base ?fa) + 4096 * FRAME_CAP \<le> 2 ^ 48"
    using assms(3) b by (simp add: FRAME_CAP_def)
  have "\<forall>k. ba_test A k (inner ?fa) \<longrightarrow> unat k < FRAME_CAP"
    unfolding test by (auto simp: word_less_nat_alt FRAME_CAP_def)
  then have ok: "falloc_ok A ?fa"
    using cap mod_page_add [OF al, of "0x200000"] b
    unfolding falloc_ok_def is_aligned_iff by simp
  have free: "frame_free A ?fa p \<longleftrightarrow>
      is_aligned p \<and> unat core_end + 0x200000 \<le> unat p \<and> unat p < unat core_end + 0x1200000" for p
  proof
    assume "frame_free A ?fa p"
    then obtain k where k: "k < 4096" "p = k * PAGE_SIZE + base ?fa"
      unfolding frame_free_def test by blast
    from k(1) have "unat k < 4096" by (simp add: word_less_nat_alt)
    moreover from this have "unat p = 4096 * unat k + unat core_end + 0x200000"
      using unat_frame [OF cap, of k] k(2) b by (simp add: FRAME_CAP_def)
    ultimately show "is_aligned p \<and> unat core_end + 0x200000 \<le> unat p \<and> unat p < unat core_end + 0x1200000"
      using al mod_page_add [OF mod_page_add [OF al, of "4096 * unat k"], of "0x200000"]
      by (simp add: is_aligned_iff algebra_simps)
  next
    assume p: "is_aligned p \<and> unat core_end + 0x200000 \<le> unat p \<and> unat p < unat core_end + 0x1200000"
    define n where "n = (unat p - (unat core_end + 0x200000)) div 4096"
    have "(unat p - (unat core_end + 0x200000)) mod 4096 = 0"
      using p mod_page_add [OF al, of "0x200000"] by (simp add: is_aligned_iff mod_diff_zero)
    then have n: "n < 4096" "unat p = 4096 * n + unat core_end + 0x200000"
      using p by (auto simp: n_def div_less_iff_less_mult)
    define k :: usize where "k = of_nat n"
    have "unat k = n" unfolding k_def using n(1) by (subst unat_of_nat_exact) auto
    then have "p = k * PAGE_SIZE + base ?fa" "k < 4096"
      using unat_frame [OF cap, of k] n b by (simp_all add: FRAME_CAP_def word_unat_eq_iff word_less_nat_alt)
    then show "frame_free A ?fa p" unfolding frame_free_def test by blast
  qed
  from init ok free show ?thesis by (intro exI [of _ ?t]) simp
qed

end
