(* ===== verification/Hv_Pte.thy ===== *)
theory Hv_Pte
  imports Hv_Addr Hv_Error
begin

unbundle bit_operations_syntax

text \<open>
  Translation table entries: the trait \<open>GenericPTE\<close> of \<open>src/arch/aarch64/paging.rs\<close> as a record of
  operations, and its two implementations, the stage 2 entries of \<open>src/arch/aarch64/s2pt.rs\<close> and
  the stage 1 entries of \<open>src/arch/aarch64/s1pt.rs\<close>. The locale \<open>generic_pte\<close> is the contract the
  page tables rely on; both implementations are shown to meet it.
\<close>

section \<open>GenericPTE\<close>

record pte_ops =
  pte_addr :: "u64 \<Rightarrow> PhysAddr"
  pte_flags :: "u64 \<Rightarrow> (PagingError, MemFlags) outcome"
  is_unused :: "u64 \<Rightarrow> bool"
  is_present :: "u64 \<Rightarrow> bool"
  is_huge :: "u64 \<Rightarrow> bool"
  set_addr :: "PhysAddr \<Rightarrow> u64 \<Rightarrow> u64"
  set_flags :: "MemFlags \<Rightarrow> bool \<Rightarrow> u64 \<Rightarrow> u64"
  set_table :: "PhysAddr \<Rightarrow> u64 \<Rightarrow> u64"
  pte_clear :: "u64 \<Rightarrow> u64"

definition pte_frame :: "PhysAddr \<Rightarrow> bool" where
  "pte_frame p \<longleftrightarrow> is_aligned p \<and> unat p < 2 ^ 48"

locale generic_pte =
  fixes P :: pte_ops and norm :: "MemFlags \<Rightarrow> MemFlags"
  assumes unused_iff: "is_unused P e \<longleftrightarrow> e = 0"
    and absent_0: "\<not> is_present P 0"
    and clear_0: "pte_clear P e = 0"
    and table_entry: "pte_frame p \<Longrightarrow> set_table P p e \<noteq> 0 \<and> is_present P (set_table P p e) \<and>
      \<not> is_huge P (set_table P p e) \<and> pte_addr P (set_table P p e) = p"
    and leaf_entry: "pte_frame p \<Longrightarrow> set_flags P fl h (set_addr P p e) \<noteq> 0 \<and>
      is_present P (set_flags P fl h (set_addr P p e)) \<and>
      (h \<longrightarrow> is_huge P (set_flags P fl h (set_addr P p e))) \<and>
      pte_addr P (set_flags P fl h (set_addr P p e)) = p \<and>
      pte_flags P (set_flags P fl h (set_addr P p e)) = Ok (norm fl)"
    and leaf_fresh: "set_flags P fl h (set_addr P p e) = set_flags P fl h (set_addr P p e')"

text \<open>Formats that mark a block, so that an entry tells by itself whether it is one.\<close>

locale block_pte = generic_pte +
  assumes small_entry: "pte_frame p \<Longrightarrow> \<not> is_huge P (set_flags P fl False (set_addr P p e))"
begin

lemma leaf_huge: "pte_frame p \<Longrightarrow> is_huge P (set_flags P fl h (set_addr P p e)) \<longleftrightarrow> h"
  using leaf_entry [of p fl h e] small_entry [of p fl e] by (cases h) auto

end

section \<open>What both formats share\<close>

datatype MemType = Device | Normal

definition PHYS_ADDR_MASK :: usize where
  "PHYS_ADDR_MASK = 0xffffffffffff AND NOT (PAGE_SIZE - 1)"

section \<open>Stage 2 entries\<close>

definition S2_VALID :: u64 where "S2_VALID = push_bit 0 1"

definition S2_NON_BLOCK :: u64 where "S2_NON_BLOCK = push_bit 1 1"

definition S2_ATTR :: u64 where "S2_ATTR = push_bit 2 15"

definition S2_S2AP_R :: u64 where "S2_S2AP_R = push_bit 6 1"

definition S2_S2AP_W :: u64 where "S2_S2AP_W = push_bit 7 1"

definition S2_INNER :: u64 where "S2_INNER = push_bit 8 1"

definition S2_SHAREABLE :: u64 where "S2_SHAREABLE = push_bit 9 1"

definition S2_AF :: u64 where "S2_AF = push_bit 10 1"

lemmas S2_attr_defs = S2_VALID_def S2_NON_BLOCK_def S2_ATTR_def S2_S2AP_R_def S2_S2AP_W_def
  S2_INNER_def S2_SHAREABLE_def S2_AF_def

text \<open>\<open>from_bits_truncate\<close> of \<open>bitflags\<close> keeps the bits some flag names.\<close>

definition S2_from_bits_truncate :: "u64 \<Rightarrow> u64" where
  "S2_from_bits_truncate b = b AND (S2_VALID OR S2_NON_BLOCK OR S2_ATTR OR S2_S2AP_R OR S2_S2AP_W
     OR S2_INNER OR S2_SHAREABLE OR S2_AF)"

fun S2_MemType_repr :: "MemType \<Rightarrow> u64" where
  "S2_MemType_repr Device = 1"
| "S2_MemType_repr Normal = 15"

definition S2_from_mem_type :: "MemType \<Rightarrow> u64" where
  "S2_from_mem_type mem_type =
     (let bits = push_bit 2 (S2_MemType_repr mem_type)
      in S2_from_bits_truncate
           (if mem_type = Normal then bits OR (S2_INNER OR S2_SHAREABLE) else bits))"

definition S2_mem_type :: "u64 \<Rightarrow> (PagingError, MemType) outcome" where
  "S2_mem_type attr =
     (let idx = drop_bit 2 (attr AND 0b111100)
      in if idx = 1 then Ok Device else if idx = 15 then Ok Normal else Panic)"

definition S2_flags_of_attr :: "u64 \<Rightarrow> (PagingError, MemFlags) outcome" where
  "S2_flags_of_attr attr =
     (let flags = 0;
          flags = (if contains attr S2_VALID \<and> contains attr S2_S2AP_R then flags OR READ else flags);
          flags = (if contains attr S2_S2AP_W then flags OR WRITE else flags)
      in bind_out (S2_mem_type attr) (\<lambda>t. Ok (if t = Device then flags OR IO else flags)))"

definition S2_attr_of_flags :: "MemFlags \<Rightarrow> u64" where
  "S2_attr_of_flags flags =
     (let attr = (if contains flags IO then S2_from_mem_type Device else S2_from_mem_type Normal);
          attr = attr OR (S2_VALID OR S2_AF);
          attr = (if contains flags READ then attr OR S2_S2AP_R else attr)
      in if contains flags WRITE then attr OR S2_S2AP_W else attr)"

definition S2_set_flags_and_mem_type :: "u64 \<Rightarrow> MemType \<Rightarrow> u64 \<Rightarrow> u64" where
  "S2_set_flags_and_mem_type flags mem_type self =
     (let attr = flags OR S2_from_mem_type mem_type
      in (attr AND NOT PHYS_ADDR_MASK) OR (self AND PHYS_ADDR_MASK))"

definition S2_addr :: "u64 \<Rightarrow> HostPhysAddr" where
  "S2_addr self = self AND PHYS_ADDR_MASK"

definition S2_flags :: "u64 \<Rightarrow> (PagingError, MemFlags) outcome" where
  "S2_flags self = S2_flags_of_attr (S2_from_bits_truncate self)"

definition S2_is_unused :: "u64 \<Rightarrow> bool" where
  "S2_is_unused self \<longleftrightarrow> self = 0"

definition S2_is_present :: "u64 \<Rightarrow> bool" where
  "S2_is_present self \<longleftrightarrow> contains (S2_from_bits_truncate self) S2_VALID"

definition S2_is_huge :: "u64 \<Rightarrow> bool" where
  "S2_is_huge self \<longleftrightarrow> \<not> contains (S2_from_bits_truncate self) S2_NON_BLOCK"

definition S2_set_addr :: "HostPhysAddr \<Rightarrow> u64 \<Rightarrow> u64" where
  "S2_set_addr paddr self = (self AND NOT PHYS_ADDR_MASK) OR (paddr AND PHYS_ADDR_MASK)"

definition S2_set_flags :: "MemFlags \<Rightarrow> bool \<Rightarrow> u64 \<Rightarrow> u64" where
  "S2_set_flags flags huge self =
     (let mem_type = (if contains flags IO then Device else Normal);
          attr = S2_attr_of_flags flags;
          attr = (if \<not> huge then attr OR S2_NON_BLOCK else attr)
      in S2_set_flags_and_mem_type attr mem_type self)"

definition S2_set_table :: "HostPhysAddr \<Rightarrow> u64 \<Rightarrow> u64" where
  "S2_set_table paddr self =
     S2_set_flags_and_mem_type (S2_VALID OR S2_NON_BLOCK) Normal (S2_set_addr paddr self)"

definition S2_clear :: "u64 \<Rightarrow> u64" where
  "S2_clear self = 0"

definition S2_pte :: pte_ops where
  "S2_pte = \<lparr>pte_addr = S2_addr, pte_flags = S2_flags, is_unused = S2_is_unused,
     is_present = S2_is_present, is_huge = S2_is_huge, set_addr = S2_set_addr,
     set_flags = S2_set_flags, set_table = S2_set_table, pte_clear = S2_clear\<rparr>"

section \<open>Stage 1 entries\<close>

definition S1_VALID :: u64 where "S1_VALID = push_bit 0 1"

definition S1_NON_BLOCK :: u64 where "S1_NON_BLOCK = push_bit 1 1"

definition S1_ATTR_INDX :: u64 where "S1_ATTR_INDX = push_bit 2 7"

definition S1_NS :: u64 where "S1_NS = push_bit 5 1"

definition S1_AP_EL0 :: u64 where "S1_AP_EL0 = push_bit 6 1"

definition S1_AP_RO :: u64 where "S1_AP_RO = push_bit 7 1"

definition S1_INNER :: u64 where "S1_INNER = push_bit 8 1"

definition S1_SHAREABLE :: u64 where "S1_SHAREABLE = push_bit 9 1"

definition S1_AF :: u64 where "S1_AF = push_bit 10 1"

definition S1_NG :: u64 where "S1_NG = push_bit 11 1"

lemmas S1_attr_defs = S1_VALID_def S1_NON_BLOCK_def S1_ATTR_INDX_def S1_NS_def S1_AP_EL0_def
  S1_AP_RO_def S1_INNER_def S1_SHAREABLE_def S1_AF_def S1_NG_def

definition S1_from_bits_truncate :: "u64 \<Rightarrow> u64" where
  "S1_from_bits_truncate b = b AND (S1_VALID OR S1_NON_BLOCK OR S1_ATTR_INDX OR S1_NS OR S1_AP_EL0
     OR S1_AP_RO OR S1_INNER OR S1_SHAREABLE OR S1_AF OR S1_NG)"

fun S1_MemType_repr :: "MemType \<Rightarrow> u64" where
  "S1_MemType_repr Normal = 0"
| "S1_MemType_repr Device = 1"

definition S1_from_mem_type :: "MemType \<Rightarrow> u64" where
  "S1_from_mem_type mem_type =
     (let bits = push_bit 2 (S1_MemType_repr mem_type)
      in S1_from_bits_truncate
           (if mem_type = Normal then bits OR (S1_INNER OR S1_SHAREABLE) else bits))"

definition S1_mem_type :: "u64 \<Rightarrow> (PagingError, MemType) outcome" where
  "S1_mem_type attr =
     (let idx = drop_bit 2 (attr AND 0b11100)
      in if idx = 0 then Ok Normal else if idx = 1 then Ok Device else Panic)"

definition S1_flags_of_attr :: "u64 \<Rightarrow> (PagingError, MemFlags) outcome" where
  "S1_flags_of_attr attr =
     (let flags = 0;
          flags = (if contains attr S1_VALID \<and> contains attr S1_AP_EL0 then flags OR READ else flags);
          flags = (if \<not> contains attr S1_AP_RO then flags OR WRITE else flags)
      in bind_out (S1_mem_type attr) (\<lambda>t. Ok (if t = Device then flags OR IO else flags)))"

definition S1_attr_of_flags :: "MemFlags \<Rightarrow> u64" where
  "S1_attr_of_flags flags =
     (let attr = (if contains flags IO then S1_from_mem_type Device else S1_from_mem_type Normal);
          attr = attr OR (S1_VALID OR S1_AF);
          attr = (if contains flags READ then attr OR S1_AP_EL0 else attr)
      in if \<not> contains flags WRITE then attr OR S1_AP_RO else attr)"

definition S1_set_flags_and_mem_type :: "u64 \<Rightarrow> MemType \<Rightarrow> u64 \<Rightarrow> u64" where
  "S1_set_flags_and_mem_type flags mem_type self =
     (let attr = flags OR S1_from_mem_type mem_type
      in (attr AND NOT PHYS_ADDR_MASK) OR (self AND PHYS_ADDR_MASK))"

definition S1_addr :: "u64 \<Rightarrow> GuestPhysAddr" where
  "S1_addr self = self AND PHYS_ADDR_MASK"

definition S1_flags :: "u64 \<Rightarrow> (PagingError, MemFlags) outcome" where
  "S1_flags self = S1_flags_of_attr (S1_from_bits_truncate self)"

definition S1_is_unused :: "u64 \<Rightarrow> bool" where
  "S1_is_unused self \<longleftrightarrow> self = 0"

definition S1_is_present :: "u64 \<Rightarrow> bool" where
  "S1_is_present self \<longleftrightarrow> contains (S1_from_bits_truncate self) S1_VALID"

definition S1_is_huge :: "u64 \<Rightarrow> bool" where
  "S1_is_huge self \<longleftrightarrow> \<not> contains (S1_from_bits_truncate self) S1_NON_BLOCK"

definition S1_set_addr :: "GuestPhysAddr \<Rightarrow> u64 \<Rightarrow> u64" where
  "S1_set_addr paddr self = (self AND NOT PHYS_ADDR_MASK) OR (paddr AND PHYS_ADDR_MASK)"

definition S1_set_flags :: "MemFlags \<Rightarrow> bool \<Rightarrow> u64 \<Rightarrow> u64" where
  "S1_set_flags flags huge self =
     (let mem_type = (if contains flags IO then Device else Normal);
          attr = S1_attr_of_flags flags;
          attr = (if \<not> huge then attr OR S1_NON_BLOCK else attr)
      in S1_set_flags_and_mem_type attr mem_type self)"

definition S1_set_table :: "GuestPhysAddr \<Rightarrow> u64 \<Rightarrow> u64" where
  "S1_set_table paddr self =
     S1_set_flags_and_mem_type (S1_VALID OR S1_NON_BLOCK) Normal (S1_set_addr paddr self)"

definition S1_clear :: "u64 \<Rightarrow> u64" where
  "S1_clear self = 0"

definition S1_pte :: pte_ops where
  "S1_pte = \<lparr>pte_addr = S1_addr, pte_flags = S1_flags, is_unused = S1_is_unused,
     is_present = S1_is_present, is_huge = S1_is_huge, set_addr = S1_set_addr,
     set_flags = S1_set_flags, set_table = S1_set_table, pte_clear = S1_clear\<rparr>"

section \<open>Address and attribute fields\<close>

lemma PHYS_ADDR_MASK_val: "PHYS_ADDR_MASK = 0xfffffffff000"
  by (simp add: PHYS_ADDR_MASK_def PAGE_SIZE_def)

lemma PHYS_ADDR_MASK_eq: "PHYS_ADDR_MASK = push_bit 12 (mask 36)"
  by (simp add: PHYS_ADDR_MASK_val mask_eq_exp_minus_1)

lemma bit_PHYS_ADDR_MASK: "bit PHYS_ADDR_MASK n \<longleftrightarrow> 12 \<le> n \<and> n < 48"
  by (auto simp: PHYS_ADDR_MASK_eq bit_simps)

lemma pte_frame_mask:
  assumes "pte_frame p"
  shows "p AND PHYS_ADDR_MASK = p"
proof -
  have lo: "take_bit 12 p = 0"
    using assms unfolding pte_frame_def is_aligned_iff
    by (simp add: word_unat_eq_iff unat_take_bit)
  have hi: "take_bit 48 p = p"
    using assms by (simp add: pte_frame_def word_unat_eq_iff unat_take_bit)
  show ?thesis
  proof (rule bit_eqI)
    fix n
    have "\<not> bit p n" if "n < 12"
      using that lo by (metis bit_take_bit_iff bit_0_eq bot_apply bot_bool_def)
    moreover have "\<not> bit p n" if "\<not> n < 48"
      using that hi by (metis bit_take_bit_iff)
    ultimately show "bit (p AND PHYS_ADDR_MASK) n \<longleftrightarrow> bit p n"
      unfolding bit_and_iff bit_PHYS_ADDR_MASK by linarith
  qed
qed


text \<open>
  An entry is built from a value whose bits are the attributes and a value that holds the address.
  The fields are disjoint: each can be read back.
\<close>

definition pack :: "u64 \<Rightarrow> PhysAddr \<Rightarrow> u64" where
  "pack attr p = (attr AND NOT PHYS_ADDR_MASK) OR (p AND PHYS_ADDR_MASK)"

lemma pack_addr: "pte_frame p \<Longrightarrow> pack attr p AND PHYS_ADDR_MASK = p"
proof -
  assume p: "pte_frame p"
  have "pack attr p AND PHYS_ADDR_MASK = p AND PHYS_ADDR_MASK"
    by (rule bit_eqI) (auto simp: pack_def bit_simps)
  with p show ?thesis by (simp add: pte_frame_mask)
qed

lemma pack_attr:
  assumes "w AND PHYS_ADDR_MASK = 0"
  shows "pack attr p AND w = attr AND w"
proof (rule bit_word_eqI)
  fix n assume "n < LENGTH(64)"
  moreover have "\<not> (bit w n \<and> bit PHYS_ADDR_MASK n)"
    using assms by (metis bit_and_iff bit_0_eq bot_apply bot_bool_def)
  ultimately show "bit (pack attr p AND w) n = bit (attr AND w) n"
    by (auto simp: pack_def bit_simps)
qed

lemma pack_readdress: "(attr AND NOT PHYS_ADDR_MASK) OR (((e AND NOT PHYS_ADDR_MASK) OR (p AND PHYS_ADDR_MASK))
    AND PHYS_ADDR_MASK) = pack attr p"
  unfolding pack_def by (rule bit_eqI) (auto simp: bit_simps)

lemma pack_nonzero: "bit attr 0 \<Longrightarrow> pack attr p \<noteq> 0"
proof
  assume "bit attr 0" "pack attr p = 0"
  then have "bit (pack attr p) 0 = False" by simp
  moreover have "bit (pack attr p) 0" using \<open>bit attr 0\<close>
    by (simp add: pack_def bit_or_iff bit_and_iff bit_not_iff bit_PHYS_ADDR_MASK)
  ultimately show False by simp
qed

text \<open>The flags an entry keeps of the flags it was given: readable, writable, device.\<close>

definition norm_flags :: "MemFlags \<Rightarrow> MemFlags" where
  "norm_flags fl = fl AND (READ OR WRITE OR IO)"

lemma norm_flags_cases:
  "norm_flags fl = (if contains fl READ then READ else 0) OR (if contains fl WRITE then WRITE else 0)
     OR (if contains fl IO then IO else 0)"
proof -
  have "norm_flags fl = (fl AND READ) OR (fl AND WRITE) OR (fl AND IO)"
    unfolding norm_flags_def by (rule bit_eqI) (auto simp: bit_simps)
  moreover have one: "fl AND push_bit n 1 = (if contains fl (push_bit n 1) then push_bit n 1 else 0)"
    if "n < 64" for n
    unfolding contains_bit [OF that] by (rule bit_word_eqI) (auto simp: bit_simps bit_1_iff)
  have "fl AND READ = (if contains fl READ then READ else 0)"
    "fl AND WRITE = (if contains fl WRITE then WRITE else 0)"
    "fl AND IO = (if contains fl IO then IO else 0)"
    unfolding READ_def WRITE_def IO_def by (intro one; simp)+
  ultimately show ?thesis by (simp only:)
qed

section \<open>Stage 2 entries meet the contract\<close>

definition S2_leaf_attr :: "MemFlags \<Rightarrow> bool \<Rightarrow> u64" where
  "S2_leaf_attr fl huge =
     (if contains fl IO then 0x405 else 0x73d) OR (if contains fl READ then 0x40 else 0)
     OR (if contains fl WRITE then 0x80 else 0) OR (if huge then 0 else 2)"

lemma S2_truncate_val: "S2_from_bits_truncate b = b AND 0x7ff"
  by (simp add: S2_from_bits_truncate_def S2_attr_defs)

lemma S2_from_mem_type_val: "S2_from_mem_type Device = 4" "S2_from_mem_type Normal = 0x33c"
  by (simp_all add: S2_from_mem_type_def S2_truncate_val S2_INNER_def S2_SHAREABLE_def Let_def)

lemma S2_leaf_eq: "S2_set_flags fl huge (S2_set_addr p e) = pack (S2_leaf_attr fl huge) p"
proof -
  have "S2_attr_of_flags fl OR (if huge then 0 else S2_NON_BLOCK)
      OR S2_from_mem_type (if contains fl IO then Device else Normal) = S2_leaf_attr fl huge"
    by (cases "contains fl IO"; cases "contains fl READ"; cases "contains fl WRITE"; cases huge)
      (simp_all add: S2_attr_of_flags_def S2_leaf_attr_def S2_from_mem_type_val S2_VALID_def S2_AF_def
        S2_S2AP_R_def S2_S2AP_W_def S2_NON_BLOCK_def)
  moreover have "(if \<not> huge then a OR S2_NON_BLOCK else a) = a OR (if huge then 0 else S2_NON_BLOCK)" for a
    by simp
  ultimately show ?thesis
    unfolding S2_set_flags_def S2_set_flags_and_mem_type_def S2_set_addr_def Let_def
    by (simp only: pack_readdress or.assoc)
qed

lemma S2_table_eq: "S2_set_table p e = pack 0x33f p"
  unfolding S2_set_table_def S2_set_flags_and_mem_type_def S2_set_addr_def Let_def
    S2_from_mem_type_val
  by (simp add: pack_readdress S2_VALID_def S2_NON_BLOCK_def)

lemma S2_truncate_pack: "S2_from_bits_truncate (pack attr p) = attr AND 0x7ff"
  unfolding S2_truncate_val by (rule pack_attr) (simp add: PHYS_ADDR_MASK_val)

lemma S2_present_pack: "S2_is_present (pack attr p) \<longleftrightarrow> bit attr 0"
  unfolding S2_is_present_def S2_truncate_pack S2_VALID_def
  by (subst contains_bit) (simp_all add: bit_and_iff)

lemma S2_huge_pack: "S2_is_huge (pack attr p) \<longleftrightarrow> \<not> bit attr 1"
  unfolding S2_is_huge_def S2_truncate_pack S2_NON_BLOCK_def
  by (subst contains_bit) (simp_all add: bit_and_iff)

lemma S2_leaf_flags: "S2_flags (pack (S2_leaf_attr fl huge) p) = Ok (norm_flags fl)"
  unfolding S2_flags_def S2_truncate_pack norm_flags_cases
  by (cases "contains fl IO"; cases "contains fl READ"; cases "contains fl WRITE"; cases huge)
    (simp_all add: S2_leaf_attr_def S2_flags_of_attr_def S2_mem_type_def contains_def
      S2_attr_defs MemFlags_defs Let_def)

lemma S2_leaf_bits: "bit (S2_leaf_attr fl huge) 0" "bit (S2_leaf_attr fl huge) 1 \<longleftrightarrow> \<not> huge"
  by (cases "contains fl IO"; cases "contains fl READ"; cases "contains fl WRITE"; cases huge;
      simp add: S2_leaf_attr_def)+

interpretation s2: block_pte S2_pte norm_flags
proof
  fix p e fl h e'
  show "is_unused S2_pte e \<longleftrightarrow> e = 0" by (simp add: S2_pte_def S2_is_unused_def)
  show "\<not> is_present S2_pte 0"
    by (simp add: S2_pte_def S2_is_present_def S2_truncate_val contains_def S2_VALID_def)
  show "pte_clear S2_pte e = 0" by (simp add: S2_pte_def S2_clear_def)
  show "set_flags S2_pte fl h (set_addr S2_pte p e) = set_flags S2_pte fl h (set_addr S2_pte p e')"
    by (simp add: S2_pte_def S2_leaf_eq)
  assume p: "pte_frame p"
  show "set_table S2_pte p e \<noteq> 0 \<and> is_present S2_pte (set_table S2_pte p e) \<and>
      \<not> is_huge S2_pte (set_table S2_pte p e) \<and> pte_addr S2_pte (set_table S2_pte p e) = p"
    using p by (simp add: S2_pte_def S2_table_eq S2_present_pack S2_huge_pack S2_addr_def pack_addr
        pack_nonzero)
  show "set_flags S2_pte fl h (set_addr S2_pte p e) \<noteq> 0 \<and>
      is_present S2_pte (set_flags S2_pte fl h (set_addr S2_pte p e)) \<and>
      (h \<longrightarrow> is_huge S2_pte (set_flags S2_pte fl h (set_addr S2_pte p e))) \<and>
      pte_addr S2_pte (set_flags S2_pte fl h (set_addr S2_pte p e)) = p \<and>
      pte_flags S2_pte (set_flags S2_pte fl h (set_addr S2_pte p e)) = Ok (norm_flags fl)"
    using p by (simp add: S2_pte_def S2_leaf_eq S2_present_pack S2_huge_pack S2_addr_def pack_addr
        pack_nonzero S2_leaf_bits [simplified] S2_leaf_flags)
  show "\<not> is_huge S2_pte (set_flags S2_pte fl False (set_addr S2_pte p e))"
    by (simp add: S2_pte_def S2_leaf_eq S2_huge_pack S2_leaf_bits [simplified])
qed

section \<open>Stage 1 entries meet the contract\<close>

definition S1_leaf_attr :: "MemFlags \<Rightarrow> bool \<Rightarrow> u64" where
  "S1_leaf_attr fl huge =
     (if contains fl IO then 0x405 else 0x701) OR (if contains fl READ then 0x40 else 0)
     OR (if contains fl WRITE then 0 else 0x80) OR (if huge then 0 else 2)"

lemma S1_truncate_val: "S1_from_bits_truncate b = b AND 0xfff"
  by (simp add: S1_from_bits_truncate_def S1_attr_defs)

lemma S1_from_mem_type_val: "S1_from_mem_type Device = 4" "S1_from_mem_type Normal = 0x300"
  by (simp_all add: S1_from_mem_type_def S1_truncate_val S1_INNER_def S1_SHAREABLE_def Let_def)

lemma S1_leaf_eq: "S1_set_flags fl huge (S1_set_addr p e) = pack (S1_leaf_attr fl huge) p"
proof -
  have "S1_attr_of_flags fl OR (if huge then 0 else S1_NON_BLOCK)
      OR S1_from_mem_type (if contains fl IO then Device else Normal) = S1_leaf_attr fl huge"
    by (cases "contains fl IO"; cases "contains fl READ"; cases "contains fl WRITE"; cases huge)
      (simp_all add: S1_attr_of_flags_def S1_leaf_attr_def S1_from_mem_type_val S1_VALID_def S1_AF_def
        S1_AP_EL0_def S1_AP_RO_def S1_NON_BLOCK_def)
  moreover have "(if \<not> huge then a OR S1_NON_BLOCK else a) = a OR (if huge then 0 else S1_NON_BLOCK)" for a
    by simp
  ultimately show ?thesis
    unfolding S1_set_flags_def S1_set_flags_and_mem_type_def S1_set_addr_def Let_def
    by (simp only: pack_readdress or.assoc)
qed

lemma S1_table_eq: "S1_set_table p e = pack 0x303 p"
  unfolding S1_set_table_def S1_set_flags_and_mem_type_def S1_set_addr_def Let_def
    S1_from_mem_type_val
  by (simp add: pack_readdress S1_VALID_def S1_NON_BLOCK_def)

lemma S1_truncate_pack: "S1_from_bits_truncate (pack attr p) = attr AND 0xfff"
  unfolding S1_truncate_val by (rule pack_attr) (simp add: PHYS_ADDR_MASK_val)

lemma S1_present_pack: "S1_is_present (pack attr p) \<longleftrightarrow> bit attr 0"
  unfolding S1_is_present_def S1_truncate_pack S1_VALID_def
  by (subst contains_bit) (simp_all add: bit_and_iff)

lemma S1_huge_pack: "S1_is_huge (pack attr p) \<longleftrightarrow> \<not> bit attr 1"
  unfolding S1_is_huge_def S1_truncate_pack S1_NON_BLOCK_def
  by (subst contains_bit) (simp_all add: bit_and_iff)

lemma S1_leaf_flags: "S1_flags (pack (S1_leaf_attr fl huge) p) = Ok (norm_flags fl)"
  unfolding S1_flags_def S1_truncate_pack norm_flags_cases
  by (cases "contains fl IO"; cases "contains fl READ"; cases "contains fl WRITE"; cases huge)
    (simp_all add: S1_leaf_attr_def S1_flags_of_attr_def S1_mem_type_def contains_def
      S1_attr_defs MemFlags_defs Let_def)

lemma S1_leaf_bits: "bit (S1_leaf_attr fl huge) 0" "bit (S1_leaf_attr fl huge) 1 \<longleftrightarrow> \<not> huge"
  by (cases "contains fl IO"; cases "contains fl READ"; cases "contains fl WRITE"; cases huge;
      simp add: S1_leaf_attr_def)+

interpretation s1: block_pte S1_pte norm_flags
proof
  fix p e fl h e'
  show "is_unused S1_pte e \<longleftrightarrow> e = 0" by (simp add: S1_pte_def S1_is_unused_def)
  show "\<not> is_present S1_pte 0"
    by (simp add: S1_pte_def S1_is_present_def S1_truncate_val contains_def S1_VALID_def)
  show "pte_clear S1_pte e = 0" by (simp add: S1_pte_def S1_clear_def)
  show "set_flags S1_pte fl h (set_addr S1_pte p e) = set_flags S1_pte fl h (set_addr S1_pte p e')"
    by (simp add: S1_pte_def S1_leaf_eq)
  assume p: "pte_frame p"
  show "set_table S1_pte p e \<noteq> 0 \<and> is_present S1_pte (set_table S1_pte p e) \<and>
      \<not> is_huge S1_pte (set_table S1_pte p e) \<and> pte_addr S1_pte (set_table S1_pte p e) = p"
    using p by (simp add: S1_pte_def S1_table_eq S1_present_pack S1_huge_pack S1_addr_def pack_addr
        pack_nonzero)
  show "set_flags S1_pte fl h (set_addr S1_pte p e) \<noteq> 0 \<and>
      is_present S1_pte (set_flags S1_pte fl h (set_addr S1_pte p e)) \<and>
      (h \<longrightarrow> is_huge S1_pte (set_flags S1_pte fl h (set_addr S1_pte p e))) \<and>
      pte_addr S1_pte (set_flags S1_pte fl h (set_addr S1_pte p e)) = p \<and>
      pte_flags S1_pte (set_flags S1_pte fl h (set_addr S1_pte p e)) = Ok (norm_flags fl)"
    using p by (simp add: S1_pte_def S1_leaf_eq S1_present_pack S1_huge_pack S1_addr_def pack_addr
        pack_nonzero S1_leaf_bits [simplified] S1_leaf_flags)
  show "\<not> is_huge S1_pte (set_flags S1_pte fl False (set_addr S1_pte p e))"
    by (simp add: S1_pte_def S1_leaf_eq S1_huge_pack S1_leaf_bits [simplified])
qed


section \<open>Properties\<close>

text \<open>
  An entry written by \<open>set_addr\<close> and \<open>set_flags\<close>, in either format and whatever it held before, is
  present, is a block exactly when asked to be, and gives back the frame and the read, write and
  device flags it was given; reading the flags does not panic.
\<close>

lemma pte_leaf_roundtrip:
  assumes "P \<in> {S1_pte, S2_pte}" and "is_aligned pa" and "unat pa < 2 ^ 48"
  shows "let e' = set_flags P fl huge (set_addr P pa e) in
    is_present P e' \<and> \<not> is_unused P e' \<and> is_huge P e' = huge \<and> pte_addr P e' = pa \<and>
    pte_flags P e' = Ok (norm_flags fl)"
  using assms s1.leaf_entry [of pa fl huge e] s2.leaf_entry [of pa fl huge e]
  by (auto simp: pte_frame_def s1.unused_iff s2.unused_iff s1.leaf_huge s2.leaf_huge Let_def)

lemma pte_table_roundtrip:
  assumes "P \<in> {S1_pte, S2_pte}" and "is_aligned pa" and "unat pa < 2 ^ 48"
  shows "let e' = set_table P pa e in
    is_present P e' \<and> \<not> is_unused P e' \<and> \<not> is_huge P e' \<and> pte_addr P e' = pa"
  using assms s1.table_entry [of pa e] s2.table_entry [of pa e]
  by (auto simp: pte_frame_def s1.unused_iff s2.unused_iff Let_def)

end
