(* ===== verification/Hv_Region.thy ===== *)
theory Hv_Region
  imports Hv_Addr Hv_Error
begin

unbundle bit_operations_syntax

text \<open>
  Memory regions: the mapper of \<open>src/memory/mapper.rs\<close> and \<open>MemoryRegion\<close> of \<open>src/memory/mm.rs\<close>.
  A region is a range of virtual (or guest physical) addresses with flags and a mapper that gives
  the physical address of each of them.
\<close>

section \<open>Mapper\<close>

datatype Mapper = Offset usize | Fixed usize

fun offset :: "Mapper \<Rightarrow> usize" where
  "offset (Offset off) = off"
| "offset (Fixed paddr) = 0"

text \<open>\<open>wrapping_sub\<close> is the subtraction of words.\<close>

fun map_fn :: "Mapper \<Rightarrow> VirtAddr \<Rightarrow> PhysAddr" where
  "map_fn (Offset off) vaddr = vaddr - off"
| "map_fn (Fixed paddr) vaddr = paddr"

section \<open>MemoryRegion\<close>

record MemoryRegion =
  start :: VirtAddr
  sz :: usize
  flags :: MemFlags
  mapper :: Mapper

definition MemoryRegion_new :: "VirtAddr \<Rightarrow> usize \<Rightarrow> MemFlags \<Rightarrow> Mapper \<Rightarrow> MemoryRegion" where
  "MemoryRegion_new start0 size0 flags0 mapper0 =
     \<lparr>start = start0, sz = size0, flags = flags0, mapper = mapper0\<rparr>"

definition is_overlap_with :: "MemoryRegion \<Rightarrow> MemoryRegion \<Rightarrow> ('e, bool) outcome" where
  "is_overlap_with self other =
     bind_out (add_chk (start self) (sz self)) (\<lambda>p1.
     bind_out (add_chk (start other) (sz other)) (\<lambda>p3.
     Ok (\<not> (p1 \<le> start other \<or> start self \<ge> p3))))"

text \<open>The address of the static zero page is a parameter.\<close>

definition new_with_empty_mapper ::
  "PhysAddr \<Rightarrow> VirtAddr \<Rightarrow> usize \<Rightarrow> MemFlags \<Rightarrow> MemoryRegion" where
  "new_with_empty_mapper EMPTY_PAGE start0 size0 flags0 =
     MemoryRegion_new start0 size0 flags0 (Fixed EMPTY_PAGE)"

definition new_with_offset_mapper ::
  "VirtAddr \<Rightarrow> PhysAddr \<Rightarrow> usize \<Rightarrow> MemFlags \<Rightarrow> MemoryRegion" where
  "new_with_offset_mapper start_vaddr start_paddr size0 flags0 =
     (let phys_virt_offset = start_vaddr - start_paddr
      in MemoryRegion_new start_vaddr size0 flags0 (Offset phys_virt_offset))"

section \<open>The addresses of a region\<close>

definition in_region :: "MemoryRegion \<Rightarrow> VirtAddr \<Rightarrow> bool" where
  "in_region r v \<longleftrightarrow> unat (start r) \<le> unat v \<and> unat v < unat (start r) + unat (sz r)"

definition region_fits :: "MemoryRegion \<Rightarrow> bool" where
  "region_fits r \<longleftrightarrow> unat (start r) + unat (sz r) < 2 ^ 64"

lemma is_overlap_with_Ok:
  assumes "region_fits r" "region_fits q"
  shows "is_overlap_with r q = Ok (\<not> (unat (start r) + unat (sz r) \<le> unat (start q) \<or>
    unat (start q) + unat (sz q) \<le> unat (start r)))"
proof -
  have "unat (start r + sz r) = unat (start r) + unat (sz r)"
    "unat (start q + sz q) = unat (start q) + unat (sz q)"
    using assms by (simp_all add: region_fits_def unat_add_exact)
  then show ?thesis
    using assms by (simp add: is_overlap_with_def add_chk_def region_fits_def word_le_nat_alt)
qed

lemma overlap_iff:
  assumes "region_fits r" "region_fits q" "sz r \<noteq> 0" "sz q \<noteq> 0"
  shows "is_overlap_with r q = Ok (\<exists>v. in_region r v \<and> in_region q v)"
proof -
  have "0 < unat (sz r)" "0 < unat (sz q)" using assms(3,4) by (simp_all add: unat_gt_0)
  then have "in_region r (start r)" "in_region q (start q)" by (simp_all add: in_region_def)
  then have "(\<exists>v. in_region r v \<and> in_region q v) \<longleftrightarrow>
    \<not> (unat (start r) + unat (sz r) \<le> unat (start q) \<or> unat (start q) + unat (sz q) \<le> unat (start r))"
    by (smt (verit) in_region_def le_trans not_le nat_le_linear)
  with assms show ?thesis by (simp add: is_overlap_with_Ok)
qed

lemma offset_mapper_start:
  "map_fn (mapper (new_with_offset_mapper v p n f)) (v + d) = p + d"
  by (simp add: new_with_offset_mapper_def MemoryRegion_new_def Let_def)

end
