(* ===== verification/Hv_Paging.thy ===== *)
theory Hv_Paging
  imports Hv_Frame Hv_Pte Hv_Region
begin

unbundle bit_operations_syntax

text \<open>
  Page tables (\<open>src/arch/aarch64/paging.rs\<close>): three and four level tables in physical memory,
  generic in the entry format (\<open>pte_ops\<close>) and in the bitmap of the frame allocator. A reference
  to an entry is the address of the entry; a method on \<open>&mut self\<close> is a program on the pair of
  physical memory and the page table object. The lock that serialises a table and its clones is
  not modelled: the model is the sequence of calls the lock admits.
\<close>

section \<open>Page sizes\<close>

datatype PageSize = Size4K | Size2M | Size1G

fun page_bytes :: "PageSize \<Rightarrow> usize" where
  "page_bytes Size4K = 0x1000"
| "page_bytes Size2M = 0x200000"
| "page_bytes Size1G = 0x40000000"

record Page =
  vaddr :: VirtAddr
  psize :: PageSize

definition PageSize_page_offset :: "PageSize \<Rightarrow> usize \<Rightarrow> usize" where
  "PageSize_page_offset self addr = addr AND (page_bytes self - 1)"

definition PageSize_is_aligned :: "PageSize \<Rightarrow> usize \<Rightarrow> bool" where
  "PageSize_is_aligned self addr \<longleftrightarrow> PageSize_page_offset self addr = 0"

definition PageSize_align_down :: "PageSize \<Rightarrow> usize \<Rightarrow> usize" where
  "PageSize_align_down self addr = addr AND NOT (page_bytes self - 1)"

definition PageSize_is_huge :: "PageSize \<Rightarrow> bool" where
  "PageSize_is_huge self \<longleftrightarrow> self = Size1G \<or> self = Size2M"

text \<open>\<open>debug_assert!\<close> is active in the debug build the makefile makes.\<close>

definition Page_new_aligned :: "VirtAddr \<Rightarrow> PageSize \<Rightarrow> ('e, Page) outcome" where
  "Page_new_aligned vaddr0 size0 = bind_out (rust_assert (PageSize_is_aligned size0 vaddr0))
     (\<lambda>_. Ok \<lparr>vaddr = vaddr0, psize = size0\<rparr>)"

section \<open>Table indices and the next table\<close>

definition ENTRY_COUNT :: usize where
  "ENTRY_COUNT = 512"

definition p4_index :: "usize \<Rightarrow> usize" where
  "p4_index v = drop_bit (12 + 27) v AND (ENTRY_COUNT - 1)"

definition p3_index :: "usize \<Rightarrow> usize" where
  "p3_index v = drop_bit (12 + 18) v AND (ENTRY_COUNT - 1)"

definition p2_index :: "usize \<Rightarrow> usize" where
  "p2_index v = drop_bit (12 + 9) v AND (ENTRY_COUNT - 1)"

definition p1_index :: "usize \<Rightarrow> usize" where
  "p1_index v = drop_bit 12 v AND (ENTRY_COUNT - 1)"

text \<open>The entry with index \<open>i\<close> of the table at \<open>p\<close>: \<open>table_of_mut(p)[i]\<close>.\<close>

definition table_entry_addr :: "PhysAddr \<Rightarrow> usize \<Rightarrow> usize" where
  "table_entry_addr p i = slot p (unat i)"

definition next_table_mut :: "pte_ops \<Rightarrow> u64 \<Rightarrow> (PagingError, PhysAddr) outcome" where
  "next_table_mut P entry =
     (if \<not> is_present P entry then Err NotMapped
      else if is_huge P entry then Err MappedToHugePage
      else Ok (pte_addr P entry))"

section \<open>Page table objects\<close>

record HvPageTableImmut =
  root :: Frame
  level :: usize

record HvPageTable = HvPageTableImmut +
  intrm_tables :: "Frame list"

type_synonym ('b, 'e, 'a) pt_prog = "('b pmem \<times> HvPageTable, 'e, 'a) prog"

definition root_paddr :: "'z HvPageTableImmut_scheme \<Rightarrow> PhysAddr" where
  "root_paddr self = start_paddr (root self)"

definition starting_level :: "'z HvPageTableImmut_scheme \<Rightarrow> usize" where
  "starting_level self = (if level self = 4 then 0 else 1)"

definition get_entry_mut ::
  "pte_ops \<Rightarrow> 'z HvPageTableImmut_scheme \<Rightarrow> VirtAddr \<Rightarrow> phys_mem \<Rightarrow> (PagingError, usize \<times> PageSize) outcome" where
  "get_entry_mut P self v m =
     bind_out (if level self = 4
               then (let p4e = table_entry_addr (root_paddr self) (p4_index v)
                     in next_table_mut P (read_u64 m p4e))
               else Ok (root_paddr self)) (\<lambda>p3.
     let p3e = table_entry_addr p3 (p3_index v) in
     if is_huge P (read_u64 m p3e) then Ok (p3e, Size1G) else
     bind_out (next_table_mut P (read_u64 m p3e)) (\<lambda>p2.
     let p2e = table_entry_addr p2 (p2_index v) in
     if is_huge P (read_u64 m p2e) then Ok (p2e, Size2M) else
     bind_out (next_table_mut P (read_u64 m p2e)) (\<lambda>p1.
     let p1e = table_entry_addr p1 (p1_index v) in
     Ok (p1e, Size4K))))"

definition query ::
  "pte_ops \<Rightarrow> 'z HvPageTableImmut_scheme \<Rightarrow> VirtAddr \<Rightarrow> phys_mem
    \<Rightarrow> (PagingError, PhysAddr \<times> MemFlags \<times> PageSize) outcome" where
  "query P self v m =
     bind_out (get_entry_mut P self v m) (\<lambda>(entry, size).
     let e = read_u64 m entry in
     if is_unused P e then Err NotMapped else
     bind_out (add_chk (pte_addr P e) (PageSize_page_offset size v)) (\<lambda>pa.
     bind_out (pte_flags P e) (\<lambda>fl. Ok (pa, fl, size))))"

section \<open>Operations\<close>

definition update_entry :: "usize \<Rightarrow> (u64 \<Rightarrow> u64) \<Rightarrow> ('b, 'e, unit) pt_prog" where
  "update_entry a f = modifyP (\<lambda>(s, pt).
     (s\<lparr>bytes := write_u64 (bytes s) a (f (read_u64 (bytes s) a))\<rparr>, pt))"

definition HvPageTable_new :: "'b bitalloc \<Rightarrow> usize \<Rightarrow> ('b pmem, HvErrorNum, HvPageTable) prog" where
  "HvPageTable_new A level0 =
     bindP (liftP (rust_assert (level0 = 3 \<or> level0 = 4))) (\<lambda>_.
     bindP (unwrapP (Frame_new_zero A)) (\<lambda>f.
     retP \<lparr>root = f, level = level0, intrm_tables = []\<rparr>))"

definition HvPageTable_from_root :: "PhysAddr \<Rightarrow> usize \<Rightarrow> (HvErrorNum, HvPageTable) outcome" where
  "HvPageTable_from_root root_paddr0 level0 =
     bind_out (Frame_from_paddr root_paddr0)
       (\<lambda>f. Ok \<lparr>root = f, level = level0, intrm_tables = []\<rparr>)"

definition alloc_intrm_table :: "'b bitalloc \<Rightarrow> ('b, HvErrorNum, PhysAddr) pt_prog" where
  "alloc_intrm_table A = (\<lambda>(s, pt).
     case Frame_new_zero A s of
       (Ok f, s') \<Rightarrow> (Ok (start_paddr f), (s', pt\<lparr>intrm_tables := intrm_tables pt @ [f]\<rparr>))
     | (Err e, s') \<Rightarrow> (Err e, (s', pt)) | (Panic, s') \<Rightarrow> (Panic, (s', pt))
     | (Hang, s') \<Rightarrow> (Hang, (s', pt)) | (Fault, s') \<Rightarrow> (Fault, (s', pt)))"

definition next_table_mut_or_create ::
  "pte_ops \<Rightarrow> 'b bitalloc \<Rightarrow> usize \<Rightarrow> ('b, PagingError, PhysAddr) pt_prog" where
  "next_table_mut_or_create P A entry =
     bindP (getP (\<lambda>(s, pt). read_u64 (bytes s) entry)) (\<lambda>e.
     if is_unused P e then
       bindP (map_errP (\<lambda>_. NoMemory) (alloc_intrm_table A)) (\<lambda>paddr.
       bindP (update_entry entry (set_table P paddr)) (\<lambda>_. retP paddr))
     else liftP (next_table_mut P e))"

definition get_entry_mut_or_create ::
  "pte_ops \<Rightarrow> 'b bitalloc \<Rightarrow> Page \<Rightarrow> ('b, PagingError, usize) pt_prog" where
  "get_entry_mut_or_create P A page =
     (let v = vaddr page in
     bindP (getP snd) (\<lambda>self.
     bindP (if level self = 4
            then (let p4e = table_entry_addr (root_paddr self) (p4_index v)
                  in next_table_mut_or_create P A p4e)
            else retP (root_paddr self)) (\<lambda>p3.
     let p3e = table_entry_addr p3 (p3_index v) in
     if psize page = Size1G then retP p3e else
     bindP (next_table_mut_or_create P A p3e) (\<lambda>p2.
     let p2e = table_entry_addr p2 (p2_index v) in
     if psize page = Size2M then retP p2e else
     bindP (next_table_mut_or_create P A p2e) (\<lambda>p1.
     let p1e = table_entry_addr p1 (p1_index v) in retP p1e)))))"

definition map_page ::
  "pte_ops \<Rightarrow> 'b bitalloc \<Rightarrow> Page \<Rightarrow> PhysAddr \<Rightarrow> MemFlags \<Rightarrow> ('b, PagingError, usize) pt_prog" where
  "map_page P A page paddr fl =
     bindP (get_entry_mut_or_create P A page) (\<lambda>entry.
     bindP (getP (\<lambda>(s, pt). read_u64 (bytes s) entry)) (\<lambda>e.
     if \<not> is_unused P e then errP AlreadyMapped else
     bindP (update_entry entry (set_addr P (PageSize_align_down (psize page) paddr))) (\<lambda>_.
     bindP (update_entry entry (set_flags P fl (PageSize_is_huge (psize page)))) (\<lambda>_.
     retP entry))))"

definition unmap_page :: "pte_ops \<Rightarrow> VirtAddr \<Rightarrow> ('b, PagingError, PhysAddr \<times> PageSize) pt_prog" where
  "unmap_page P v = (\<lambda>(s, pt).
     bindP (liftP (get_entry_mut P pt v (bytes s))) (\<lambda>(entry, size).
     bindP (getP (\<lambda>(s, pt). read_u64 (bytes s) entry)) (\<lambda>e.
     if is_unused P e then errP NotMapped else
     bindP (update_entry entry (pte_clear P)) (\<lambda>_. retP (pte_addr P e, size)))) (s, pt))"

definition update ::
  "pte_ops \<Rightarrow> VirtAddr \<Rightarrow> PhysAddr \<Rightarrow> MemFlags \<Rightarrow> ('b, PagingError, PageSize) pt_prog" where
  "update P v paddr fl = (\<lambda>(s, pt).
     bindP (liftP (get_entry_mut P pt v (bytes s))) (\<lambda>(entry, size).
     bindP (update_entry entry (set_addr P paddr)) (\<lambda>_.
     bindP (update_entry entry (set_flags P fl (PageSize_is_huge size))) (\<lambda>_.
     retP size))) (s, pt))"

definition choose_size :: "MemoryRegion \<Rightarrow> VirtAddr \<Rightarrow> PhysAddr \<Rightarrow> usize \<Rightarrow> PageSize" where
  "choose_size region v paddr left =
     (if PageSize_is_aligned Size1G v \<and> PageSize_is_aligned Size1G paddr \<and> left \<ge> page_bytes Size1G
         \<and> \<not> contains (flags region) NO_HUGEPAGES then Size1G
      else if PageSize_is_aligned Size2M v \<and> PageSize_is_aligned Size2M paddr \<and> left \<ge> page_bytes Size2M
         \<and> \<not> contains (flags region) NO_HUGEPAGES then Size2M
      else Size4K)"

lemma page_bytes_pos: "0 < unat (page_bytes z)"
  by (cases z) simp_all

lemma sub_chk_page_less: "sub_chk left (page_bytes z) = Ok left' \<Longrightarrow> unat left' < unat left"
  using page_bytes_pos [of z] by (auto simp: sub_chk_Ok_iff word_le_nat_alt unat_sub)

function map_loop ::
  "pte_ops \<Rightarrow> 'b bitalloc \<Rightarrow> MemoryRegion \<Rightarrow> VirtAddr \<Rightarrow> usize \<Rightarrow> ('b, HvErrorNum, unit) pt_prog" where
  "map_loop P A region v left s =
     (if left = 0 then retP () s else
      let paddr = map_fn (mapper region) v;
          page_size = choose_size region v paddr left
      in bindP (liftP (Page_new_aligned v page_size)) (\<lambda>page.
         bindP (map_errP hv_error_from_paging (map_page P A page paddr (flags region))) (\<lambda>_.
         bindP (liftP (add_chk v (page_bytes page_size))) (\<lambda>v'.
         bindP (liftP (sub_chk left (page_bytes page_size))) (\<lambda>left'.
         map_loop P A region v' left')))) s)"
  by pat_completeness auto
termination
  by (relation "measure (\<lambda>(P, A, region, v, left, s). unat left)")
    (auto simp: liftP_def dest: sub_chk_page_less)

definition pt_map :: "pte_ops \<Rightarrow> 'b bitalloc \<Rightarrow> MemoryRegion \<Rightarrow> ('b, HvErrorNum, unit) pt_prog" where
  "pt_map P A region =
     bindP (liftP (rust_assert (is_aligned (start region)))) (\<lambda>_.
     bindP (liftP (rust_assert (is_aligned (sz region)))) (\<lambda>_.
     map_loop P A region (start region) (sz region)))"

function unmap_loop :: "pte_ops \<Rightarrow> VirtAddr \<Rightarrow> usize \<Rightarrow> ('b, HvErrorNum, unit) pt_prog" where
  "unmap_loop P v left s =
     (if left = 0 then retP () s else
      bindP (map_errP hv_error_from_paging (unmap_page P v)) (\<lambda>page.
      bindP (liftP (if \<not> PageSize_is_aligned (snd page) v then Hang else Ok ())) (\<lambda>_.
      bindP (liftP (rust_assert (PageSize_is_aligned (snd page) v))) (\<lambda>_.
      bindP (liftP (rust_assert (page_bytes (snd page) \<le> left))) (\<lambda>_.
      bindP (liftP (add_chk v (page_bytes (snd page)))) (\<lambda>v'.
      bindP (liftP (sub_chk left (page_bytes (snd page)))) (\<lambda>left'.
      unmap_loop P v' left')))))) s)"
  by pat_completeness auto
termination
  by (relation "measure (\<lambda>(P, v, left, s). unat left)")
    (auto simp: liftP_def dest: sub_chk_page_less)

definition pt_unmap :: "pte_ops \<Rightarrow> MemoryRegion \<Rightarrow> ('b, HvErrorNum, unit) pt_prog" where
  "pt_unmap P region = unmap_loop P (start region) (sz region)"

text \<open>Cloning copies the 512 entries of the root table into a new root.\<close>

fun copy_entries :: "nat \<Rightarrow> PhysAddr \<Rightarrow> PhysAddr \<Rightarrow> phys_mem \<Rightarrow> phys_mem" where
  "copy_entries 0 src dst m = m"
| "copy_entries (Suc n) src dst m =
     (let m' = copy_entries n src dst m in write_u64 m' (slot dst n) (read_u64 m' (slot src n)))"

definition clone_from ::
  "'b bitalloc \<Rightarrow> 'z HvPageTableImmut_scheme \<Rightarrow> ('b pmem, HvErrorNum, HvPageTable) prog" where
  "clone_from A src = bindP (HvPageTable_new A (level src)) (\<lambda>pt.
     bindP (modifyP (\<lambda>s. s\<lparr>bytes := copy_entries (unat ENTRY_COUNT) (root_paddr src) (root_paddr pt) (bytes s)\<rparr>))
       (\<lambda>_. retP pt))"

end
