(* ===== verification/Hv_PtView.thy ===== *)
theory Hv_PtView
  imports Hv_Paging
begin

unbundle bit_operations_syntax

text \<open>
  The page table in memory as a map. \<open>tab d r\<close> is the table at depth \<open>d\<close> below the root that covers
  the \<open>r\<close>-th range of addresses of its size, \<open>ent d n\<close> the entry at that depth for the \<open>n\<close>-th block,
  and \<open>leaf_at h n e\<close> says that \<open>e\<close> maps the \<open>n\<close>-th block of \<open>2 ^ (12 + 9 * h)\<close> bytes. The section ends
  with the three changes the operations make to a table (nothing, a new table, a new leaf) and
  what each does to the map.
\<close>

section \<open>Blocks and indices\<close>

definition blk :: "nat \<Rightarrow> nat \<Rightarrow> nat" where
  "blk h v = v div 2 ^ (12 + 9 * h)"

fun psz :: "nat \<Rightarrow> PageSize" where
  "psz 0 = Size4K"
| "psz (Suc 0) = Size2M"
| "psz _ = Size1G"

fun hgt :: "PageSize \<Rightarrow> nat" where
  "hgt Size4K = 0"
| "hgt Size2M = 1"
| "hgt Size1G = 2"

lemma hgt_le: "hgt z \<le> 2"
  by (cases z) simp_all

lemma psz_hgt [simp]: "psz (hgt z) = z"
  by (cases z) (simp_all add: numeral_2_eq_2)

lemma hgt_psz [simp]: "h \<le> 2 \<Longrightarrow> hgt (psz h) = h"
  by (cases h rule: psz.cases) simp_all

lemma unat_page_bytes: "unat (page_bytes z) = 2 ^ (12 + 9 * hgt z)"
  by (cases z) simp_all

lemma page_bytes_mask: "page_bytes z - 1 = mask (12 + 9 * hgt z)"
  by (cases z) (simp_all add: mask_eq_exp_minus_1)

lemma unat_PageSize_offset: "unat (PageSize_page_offset z a) = unat a mod 2 ^ (12 + 9 * hgt z)"
  by (simp only: PageSize_page_offset_def page_bytes_mask and_mask_unat)

lemma PageSize_is_aligned_iff: "PageSize_is_aligned z a \<longleftrightarrow> unat a mod 2 ^ (12 + 9 * hgt z) = 0"
  by (simp only: PageSize_is_aligned_def word_unat_eq_iff unat_PageSize_offset unat_0)

lemma unat_PageSize_align_down:
  "unat (PageSize_align_down z a) = unat a - unat a mod 2 ^ (12 + 9 * hgt z)"
  by (simp only: PageSize_align_down_def page_bytes_mask and_not_mask_unat)

lemma PageSize_is_huge_iff: "PageSize_is_huge z \<longleftrightarrow> hgt z \<noteq> 0"
  by (cases z) (simp_all add: PageSize_is_huge_def)

lemma blk_div: "blk h v div 512 = blk (Suc h) v"
  by (simp add: blk_def div_mult2_eq [symmetric] power_add mult.commute)

lemma blk_split: "blk (Suc h) v * 512 + blk h v mod 512 = blk h v"
  unfolding blk_div [symmetric] by simp

lemma unat_drop_bit: "unat (drop_bit n (w :: 'w::len word)) = unat w div 2 ^ n"
  unfolding unsigned_drop_bit_eq by (simp add: drop_bit_eq_div take_bit_nat_eq_self unsigned_less)

lemma unat_index: "unat (drop_bit n v AND (ENTRY_COUNT - 1)) = unat v div 2 ^ n mod 512"
proof -
  have "ENTRY_COUNT - 1 = mask 9" by (simp add: ENTRY_COUNT_def mask_eq_exp_minus_1)
  then show ?thesis by (simp only: and_mask_unat unat_drop_bit) simp
qed

lemma table_entry_index:
  "table_entry_addr p (p4_index v) = slot p (blk 3 (unat v) mod 512)"
  "table_entry_addr p (p3_index v) = slot p (blk 2 (unat v) mod 512)"
  "table_entry_addr p (p2_index v) = slot p (blk 1 (unat v) mod 512)"
  "table_entry_addr p (p1_index v) = slot p (blk 0 (unat v) mod 512)"
  by (simp_all add: table_entry_addr_def p4_index_def p3_index_def p2_index_def p1_index_def
      unat_index blk_def)

section \<open>Tables, entries and leaves\<close>

fun tab :: "pte_ops \<Rightarrow> phys_mem \<Rightarrow> PhysAddr \<Rightarrow> nat \<Rightarrow> nat \<Rightarrow> PhysAddr option" where
  "tab P m rt 0 r = (if r = 0 then Some rt else None)"
| "tab P m rt (Suc d) r = (case tab P m rt d (r div 512) of
     None \<Rightarrow> None
   | Some p \<Rightarrow> (let e = read_u64 m (slot p (r mod 512))
               in if is_present P e \<and> \<not> is_huge P e then Some (pte_addr P e) else None))"

definition ent :: "pte_ops \<Rightarrow> phys_mem \<Rightarrow> PhysAddr \<Rightarrow> nat \<Rightarrow> nat \<Rightarrow> u64 option" where
  "ent P m rt d n = map_option (\<lambda>p. read_u64 m (slot p (n mod 512))) (tab P m rt d (n div 512))"

definition leaf_at :: "pte_ops \<Rightarrow> phys_mem \<Rightarrow> PhysAddr \<Rightarrow> nat \<Rightarrow> nat \<Rightarrow> nat \<Rightarrow> u64 \<Rightarrow> bool" where
  "leaf_at P m rt L h n e \<longleftrightarrow> h \<le> 2 \<and> h \<le> L \<and> ent P m rt (L - h) n = Some e \<and> e \<noteq> 0 \<and>
     (h = 0 \<or> is_huge P e)"

definition no_leaf :: "pte_ops \<Rightarrow> phys_mem \<Rightarrow> PhysAddr \<Rightarrow> nat \<Rightarrow> nat \<Rightarrow> bool" where
  "no_leaf P m rt L v \<longleftrightarrow> (\<forall>h e. \<not> leaf_at P m rt L h (blk h v) e)"

definition pt_frames :: "pte_ops \<Rightarrow> phys_mem \<Rightarrow> PhysAddr \<Rightarrow> nat \<Rightarrow> PhysAddr set" where
  "pt_frames P m rt L = {p. \<exists>d r. d \<le> L \<and> tab P m rt d r = Some p}"

definition leaf_ok :: "pte_ops \<Rightarrow> u64 \<Rightarrow> bool" where
  "leaf_ok P e \<longleftrightarrow> is_ok (pte_flags P e) \<and> pte_frame (pte_addr P e)"

text \<open>
  A table is well formed when its frames are addresses an entry can hold, no frame is reached on
  two paths, and every used entry is present and is a leaf only where the format allows one.
\<close>

definition pt_wf :: "pte_ops \<Rightarrow> phys_mem \<Rightarrow> PhysAddr \<Rightarrow> nat \<Rightarrow> bool" where
  "pt_wf P m rt L \<longleftrightarrow>
     (\<forall>d r p. d \<le> L \<longrightarrow> tab P m rt d r = Some p \<longrightarrow> pte_frame p) \<and>
     (\<forall>d d' r r' p. d \<le> L \<longrightarrow> d' \<le> L \<longrightarrow> tab P m rt d r = Some p \<longrightarrow> tab P m rt d' r' = Some p \<longrightarrow>
        d = d' \<and> r = r') \<and>
     (\<forall>d n e. d \<le> L \<longrightarrow> ent P m rt d n = Some e \<longrightarrow> e \<noteq> 0 \<longrightarrow>
        is_present P e \<and> (d = L \<or> is_huge P e \<longrightarrow> L - d \<le> 2 \<and> leaf_ok P e))"

lemma pt_wfD:
  assumes "pt_wf P m rt L"
  shows pt_wf_frame: "d \<le> L \<Longrightarrow> tab P m rt d r = Some p \<Longrightarrow> pte_frame p"
    and pt_wf_inj: "d \<le> L \<Longrightarrow> d' \<le> L \<Longrightarrow> tab P m rt d r = Some p \<Longrightarrow> tab P m rt d' r' = Some p \<Longrightarrow>
      d = d' \<and> r = r'"
    and pt_wf_ent: "d \<le> L \<Longrightarrow> ent P m rt d n = Some e \<Longrightarrow> e \<noteq> 0 \<Longrightarrow>
        is_present P e \<and> (d = L \<or> is_huge P e \<longrightarrow> L - d \<le> 2 \<and> leaf_ok P e)"
  using assms unfolding pt_wf_def by blast+

lemma pt_framesI: "d \<le> L \<Longrightarrow> tab P m rt d r = Some p \<Longrightarrow> p \<in> pt_frames P m rt L"
  by (auto simp: pt_frames_def)

lemma ent_table: "tab P m rt d r = Some p \<Longrightarrow> i < 512 \<Longrightarrow>
    ent P m rt d (r * 512 + i) = Some (read_u64 m (slot p i))"
  by (simp add: ent_def)

lemma ent_blk: "tab P m rt d (blk (Suc h) v) = Some p \<Longrightarrow>
    ent P m rt d (blk h v) = Some (read_u64 m (slot p (blk h v mod 512)))"
  by (simp add: ent_def blk_div)

lemma tab_Suc_ent: "tab P m rt (Suc d) r = (case ent P m rt d r of None \<Rightarrow> None
    | Some e \<Rightarrow> if is_present P e \<and> \<not> is_huge P e then Some (pte_addr P e) else None)"
  by (simp add: ent_def Let_def split: option.splits)

section \<open>A leaf is found on one path only\<close>

lemma tab_ancestor:
  assumes "tab P m rt d r \<noteq> None" "j < d"
  shows "\<exists>e. ent P m rt (d - Suc j) (r div 512 ^ j) = Some e \<and> is_present P e \<and> \<not> is_huge P e"
  using assms
proof (induction j arbitrary: d r)
  case 0
  then obtain d' where "d = Suc d'" by (cases d) auto
  with 0 show ?case by (auto simp: tab_Suc_ent simp del: tab.simps split: option.splits if_splits)
next
  case (Suc j)
  then obtain d' where d: "d = Suc d'" by (cases d) auto
  with Suc.prems have "tab P m rt d' (r div 512) \<noteq> None" by (auto split: option.splits)
  with Suc.IH [of d' "r div 512"] Suc.prems d show ?case
    by (simp add: div_mult2_eq)
qed

lemma blk_add: "blk h v div 512 ^ j = blk (h + j) v"
  by (induction j) (simp_all add: blk_div div_mult2_eq mult.commute [of 512])

lemma leaf_level_unique:
  assumes "leaf_at P m rt L h (blk h v) e" "leaf_at P m rt L h' (blk h' v) e'"
  shows "h = h' \<and> e = e'"
proof -
  have less: False if "leaf_at P m rt L h (blk h v) e" "leaf_at P m rt L h' (blk h' v) e'" "h < h'"
    for h h' e e'
  proof -
    define j where "j = h' - Suc h"
    from that(1) have "tab P m rt (L - h) (blk (Suc h) v) \<noteq> None"
      by (auto simp: leaf_at_def ent_def blk_div)
    moreover have "j < L - h" using that by (auto simp: leaf_at_def j_def)
    ultimately obtain x where x: "ent P m rt (L - h - Suc j) (blk (Suc h) v div 512 ^ j) = Some x"
      "\<not> is_huge P x" using tab_ancestor by blast
    have "L - h - Suc j = L - h'" "Suc h + j = h'" using that(3) by (auto simp: j_def)
    with x have "ent P m rt (L - h') (blk h' v) = Some x" by (simp add: blk_add)
    with x(2) that show False by (auto simp: leaf_at_def)
  qed
  from less assms have "h = h'" by (metis nat_neq_iff)
  with assms show ?thesis by (auto simp: leaf_at_def)
qed


section \<open>Changes to a table\<close>

text \<open>Memory that agrees on the table's frames has the same table.\<close>

lemma tab_same:
  assumes same: "\<And>p i. p \<in> pt_frames P m rt L \<Longrightarrow> i < 512 \<Longrightarrow> read_u64 m' (slot p i) = read_u64 m (slot p i)"
  shows "d \<le> L \<Longrightarrow> tab P m' rt d r = tab P m rt d r"
proof (induction d arbitrary: r)
  case (Suc d)
  then have IH: "tab P m' rt d (r div 512) = tab P m rt d (r div 512)" by simp
  show ?case
  proof (cases "tab P m rt d (r div 512)")
    case (Some p)
    with Suc.prems have "p \<in> pt_frames P m rt L" by (intro pt_framesI) auto
    then have "read_u64 m' (slot p (r mod 512)) = read_u64 m (slot p (r mod 512))" by (rule same) simp
    with IH Some show ?thesis by simp
  qed (use IH in simp)
qed simp

lemma table_same:
  assumes same: "\<And>p i. p \<in> pt_frames P m rt L \<Longrightarrow> i < 512 \<Longrightarrow> read_u64 m' (slot p i) = read_u64 m (slot p i)"
  shows ent_same: "d \<le> L \<Longrightarrow> ent P m' rt d n = ent P m rt d n"
    and pt_frames_same: "pt_frames P m' rt L = pt_frames P m rt L"
    and leaf_at_same: "leaf_at P m' rt L h n e \<longleftrightarrow> leaf_at P m rt L h n e"
    and pt_wf_same: "pt_wf P m' rt L \<longleftrightarrow> pt_wf P m rt L"
proof -
  note tab = tab_same [of P m rt L m', OF same]
  have ent: "ent P m' rt d n = ent P m rt d n" if "d \<le> L" for d n
    using that same by (auto simp: ent_def tab pt_framesI split: option.splits intro!: map_option_cong)
  show "d \<le> L \<Longrightarrow> ent P m' rt d n = ent P m rt d n" by (rule ent)
  show "pt_frames P m' rt L = pt_frames P m rt L" unfolding pt_frames_def by (metis (no_types, lifting) tab)
  show "leaf_at P m' rt L h n e \<longleftrightarrow> leaf_at P m rt L h n e" by (simp add: leaf_at_def ent)
  show "pt_wf P m' rt L \<longleftrightarrow> pt_wf P m rt L"
    unfolding pt_wf_def by (simp add: tab ent cong: imp_cong conj_cong)
qed

text \<open>A new, empty table is linked into an unused entry.\<close>

definition table_link :: "pte_ops \<Rightarrow> phys_mem \<Rightarrow> phys_mem \<Rightarrow> PhysAddr \<Rightarrow> nat \<Rightarrow> nat \<Rightarrow> nat \<Rightarrow> nat
    \<Rightarrow> PhysAddr \<Rightarrow> PhysAddr \<Rightarrow> bool" where
  "table_link P m m' rt L d r i p q \<longleftrightarrow> d < L \<and> tab P m rt d r = Some p \<and> i < 512 \<and>
     read_u64 m (slot p i) = 0 \<and> q \<notin> pt_frames P m rt L \<and> pte_frame q \<and>
     (\<exists>x. read_u64 m' (slot p i) = set_table P q x) \<and>
     (\<forall>j < 512. read_u64 m' (slot q j) = 0) \<and>
     (\<forall>p' \<in> pt_frames P m rt L. \<forall>j < 512. (p', j) \<noteq> (p, i) \<longrightarrow>
        read_u64 m' (slot p' j) = read_u64 m (slot p' j))"

lemma table_linkD:
  assumes "table_link P m m' rt L d r i p q"
  shows link_at: "d < L" "tab P m rt d r = Some p" "i < 512" "read_u64 m (slot p i) = 0"
      "q \<notin> pt_frames P m rt L" "pte_frame q"
    and link_zero: "\<And>j. j < 512 \<Longrightarrow> read_u64 m' (slot q j) = 0"
    and link_other: "\<And>p' j. p' \<in> pt_frames P m rt L \<Longrightarrow> j < 512 \<Longrightarrow> (p', j) \<noteq> (p, i) \<Longrightarrow>
      read_u64 m' (slot p' j) = read_u64 m (slot p' j)"
  using assms unfolding table_link_def by blast+

context generic_pte
begin

lemma link_entry:
  assumes "table_link P m m' rt L d r i p q"
  shows "is_present P (read_u64 m' (slot p i))" "\<not> is_huge P (read_u64 m' (slot p i))"
    "pte_addr P (read_u64 m' (slot p i)) = q" "read_u64 m' (slot p i) \<noteq> 0"
  using assms table_entry unfolding table_link_def by auto

lemma link_below_empty:
  assumes "table_link P m m' rt L d r i p q"
  shows "tab P m rt (Suc d) (r * 512 + i) = None"
  using link_at [OF assms] absent_0 by simp

lemma link_tab:
  assumes wf: "pt_wf P m rt L" and lk: "table_link P m m' rt L d r i p q"
  shows "d' \<le> L \<Longrightarrow> tab P m' rt d' r' =
    (if d' = Suc d \<and> r' = r * 512 + i then Some q else tab P m rt d' r')"
proof (induction d' arbitrary: r')
  case 0
  then show ?case by simp
next
  case (Suc d')
  note at = link_at [OF lk]
  from Suc have IH: "tab P m' rt d' (r' div 512) = (if d' = Suc d \<and> r' div 512 = r * 512 + i then Some q
      else tab P m rt d' (r' div 512))" by simp
  show ?case
  proof (cases "d' = Suc d \<and> r' div 512 = r * 512 + i")
    case True
    with IH link_zero [OF lk, of "r' mod 512"] absent_0 have "tab P m' rt (Suc d') r' = None" by simp
    moreover have "tab P m rt (Suc d') r' = None"
      using True link_below_empty [OF lk] by (subst tab.simps(2)) (simp del: tab.simps(2))
    ultimately show ?thesis using True by simp
  next
    case False
    note IH' = IH [unfolded if_not_P [OF False]]
    show ?thesis
    proof (cases "tab P m rt d' (r' div 512)")
      case None
      have "\<not> (Suc d' = Suc d \<and> r' = r * 512 + i)" using None at(2,3) by auto
      with None IH' show ?thesis by simp
    next
      case (Some p')
      have fr: "p' \<in> pt_frames P m rt L" using pt_framesI [OF _ Some] Suc.prems by simp
      show ?thesis
      proof (cases "(p', r' mod 512) = (p, i)")
        case True
        with pt_wf_inj [OF wf _ _ Some, of d r] at Suc.prems have "d' = d" "r' div 512 = r" by auto
        with True have "r' = r * 512 + i" by (metis Pair_inject div_mult_mod_eq)
        with True \<open>d' = d\<close> IH' Some show ?thesis by (simp add: link_entry [OF lk])
      next
        case False
        with link_other [OF lk fr, of "r' mod 512"] have
          "read_u64 m' (slot p' (r' mod 512)) = read_u64 m (slot p' (r' mod 512))" by simp
        moreover have "\<not> (Suc d' = Suc d \<and> r' = r * 512 + i)" using False Some at(2,3) by auto
        ultimately show ?thesis using IH' Some by (auto simp: Let_def)
      qed
    qed
  qed
qed

lemma link_ent:
  assumes wf: "pt_wf P m rt L" and lk: "table_link P m m' rt L d r i p q" and "d' \<le> L"
  shows "ent P m' rt d' n = (if d' = d \<and> n = r * 512 + i then Some (read_u64 m' (slot p i))
      else if d' = Suc d \<and> n div 512 = r * 512 + i then Some 0 else ent P m rt d' n)"
proof (cases "d' = Suc d \<and> n div 512 = r * 512 + i")
  case True
  with link_tab [OF wf lk \<open>d' \<le> L\<close>, of "n div 512"] show ?thesis
    by (simp add: ent_def link_zero [OF lk] del: tab.simps)
next
  case False
  then have tab: "tab P m' rt d' (n div 512) = tab P m rt d' (n div 512)"
    unfolding link_tab [OF wf lk \<open>d' \<le> L\<close>] by (rule if_not_P)
  show ?thesis
  proof (cases "tab P m rt d' (n div 512)")
    case None
    with False tab link_at [OF lk] show ?thesis by (auto simp: ent_def)
  next
    case (Some p')
    have fr: "p' \<in> pt_frames P m rt L" using pt_framesI [OF \<open>d' \<le> L\<close> Some] .
    show ?thesis
    proof (cases "(p', n mod 512) = (p, i)")
      case True
      with pt_wf_inj [OF wf \<open>d' \<le> L\<close> _ Some, of d r] link_at [OF lk] have "d' = d" "n div 512 = r" by auto
      moreover from this True have "n = r * 512 + i" by (metis Pair_inject div_mult_mod_eq)
      ultimately show ?thesis using tab Some True by (simp add: ent_def)
    next
      case ne: False
      then have "\<not> (d' = d \<and> n = r * 512 + i)" using link_at [OF lk] Some by auto
      with False show ?thesis
        using tab Some link_other [OF lk fr _ ne] by (auto simp: ent_def)
    qed
  qed
qed

lemma link_frames:
  assumes "pt_wf P m rt L" and lk: "table_link P m m' rt L d r i p q"
  shows "pt_frames P m' rt L = insert q (pt_frames P m rt L)"
proof -
  have "x \<in> pt_frames P m' rt L \<longleftrightarrow> x = q \<or> x \<in> pt_frames P m rt L" for x
  proof
    assume "x \<in> pt_frames P m' rt L"
    then obtain d' r' where "d' \<le> L" "tab P m' rt d' r' = Some x" unfolding pt_frames_def by blast
    then show "x = q \<or> x \<in> pt_frames P m rt L"
      using pt_framesI [of d' L P m rt r' x] link_tab [OF assms, of d' r'] by (auto split: if_splits)
  next
    have new: "q \<in> pt_frames P m' rt L"
      using pt_framesI [of "Suc d" L P m' rt "r * 512 + i" q] link_at [OF lk]
        link_tab [OF assms, of "Suc d" "r * 512 + i"] by simp
    assume "x = q \<or> x \<in> pt_frames P m rt L"
    then show "x \<in> pt_frames P m' rt L"
    proof
      assume "x \<in> pt_frames P m rt L"
      then obtain d' r' where d': "d' \<le> L" "tab P m rt d' r' = Some x" unfolding pt_frames_def by blast
      moreover have "\<not> (d' = Suc d \<and> r' = r * 512 + i)" using d'(2) link_below_empty [OF lk] by auto
      ultimately show ?thesis
        using pt_framesI [of d' L P m' rt r' x] link_tab [OF assms, of d' r'] by auto
    qed (use new in simp)
  qed
  then show ?thesis by blast
qed

lemma link_leaf:
  assumes wf: "pt_wf P m rt L" and lk: "table_link P m m' rt L d r i p q"
  shows "leaf_at P m' rt L h n e \<longleftrightarrow> leaf_at P m rt L h n e"
proof (cases "h \<le> L")
  case True
  have old: "ent P m rt d (r * 512 + i) = Some 0"
    using link_at [OF lk] by (simp add: ent_table)
  have below: "n div 512 = r * 512 + i \<Longrightarrow> ent P m rt (Suc d) n = None" for n
    using link_below_empty [OF lk] by (simp add: ent_def del: tab.simps)
  have "L - h = d \<Longrightarrow> 0 < h" using link_at(1) [OF lk] by simp
  then show ?thesis
    unfolding leaf_at_def link_ent [OF wf lk diff_le_self]
    using old below link_entry [OF lk] by auto
qed (simp add: leaf_at_def)

lemma link_wf:
  assumes wf: "pt_wf P m rt L" and lk: "table_link P m m' rt L d r i p q"
  shows "pt_wf P m' rt L"
  unfolding pt_wf_def
proof (intro conjI allI impI)
  fix d' r' x assume "d' \<le> L" "tab P m' rt d' r' = Some x"
  then show "pte_frame x"
    using link_tab [OF wf lk, of d' r'] link_at(6) [OF lk] pt_wf_frame [OF wf] by (auto split: if_splits)
next
  fix d1 d2 r1 r2 x
  assume *: "d1 \<le> L" "d2 \<le> L" "tab P m' rt d1 r1 = Some x" "tab P m' rt d2 r2 = Some x"
  have "x \<noteq> q" if "tab P m rt d r = Some x" "d \<le> L" for d r
    using that link_at(5) [OF lk] pt_framesI by blast
  then show "d1 = d2" "r1 = r2"
    using * link_tab [OF wf lk] pt_wf_inj [OF wf, of d1 d2 r1 x r2] by (auto split: if_splits)
next
  fix d' n e assume "d' \<le> L" "ent P m' rt d' n = Some e" "e \<noteq> 0"
  then show "is_present P e" "d' = L \<or> is_huge P e \<Longrightarrow> L - d' \<le> 2"
    "d' = L \<or> is_huge P e \<Longrightarrow> leaf_ok P e"
    using link_ent [OF wf lk, of d' n] link_entry [OF lk] link_at(1) [OF lk] pt_wf_ent [OF wf, of d' n e]
    by (auto split: if_splits)
qed

end

text \<open>An entry that is unused or a leaf is replaced by another such value.\<close>

definition leaf_or_unused :: "pte_ops \<Rightarrow> nat \<Rightarrow> nat \<Rightarrow> u64 \<Rightarrow> bool" where
  "leaf_or_unused P L d e \<longleftrightarrow> e = 0 \<or> is_present P e \<and> L - d \<le> 2 \<and> leaf_ok P e \<and> (d = L \<or> is_huge P e)"

definition leaf_write :: "pte_ops \<Rightarrow> phys_mem \<Rightarrow> phys_mem \<Rightarrow> PhysAddr \<Rightarrow> nat \<Rightarrow> nat \<Rightarrow> nat \<Rightarrow> nat
    \<Rightarrow> PhysAddr \<Rightarrow> bool" where
  "leaf_write P m m' rt L d r i p \<longleftrightarrow> d \<le> L \<and> tab P m rt d r = Some p \<and> i < 512 \<and>
     leaf_or_unused P L d (read_u64 m (slot p i)) \<and> leaf_or_unused P L d (read_u64 m' (slot p i)) \<and>
     (\<forall>p' \<in> pt_frames P m rt L. \<forall>j < 512. (p', j) \<noteq> (p, i) \<longrightarrow>
        read_u64 m' (slot p' j) = read_u64 m (slot p' j))"

lemma leaf_writeD:
  assumes "leaf_write P m m' rt L d r i p"
  shows "d \<le> L" "tab P m rt d r = Some p" "i < 512"
    "leaf_or_unused P L d (read_u64 m (slot p i))" "leaf_or_unused P L d (read_u64 m' (slot p i))"
    "\<And>p' j. p' \<in> pt_frames P m rt L \<Longrightarrow> j < 512 \<Longrightarrow> (p', j) \<noteq> (p, i) \<Longrightarrow>
      read_u64 m' (slot p' j) = read_u64 m (slot p' j)"
  using assms unfolding leaf_write_def by blast+

context generic_pte
begin

lemma write_tab:
  assumes wf: "pt_wf P m rt L" and w: "leaf_write P m m' rt L d r i p"
  shows "d' \<le> L \<Longrightarrow> tab P m' rt d' r' = tab P m rt d' r'"
proof (induction d' arbitrary: r')
  case (Suc d')
  note w = leaf_writeD [OF w]
  from Suc have IH: "tab P m' rt d' (r' div 512) = tab P m rt d' (r' div 512)" by simp
  show ?case
  proof (cases "tab P m rt d' (r' div 512)")
    case (Some p')
    show ?thesis
    proof (cases "(p', r' mod 512) = (p, i)")
      case True
      with pt_wf_inj [OF wf _ w(1) Some, of r] w(2) Suc.prems have "d < L" by auto
      with w(4,5) absent_0 have "\<not> (is_present P e \<and> \<not> is_huge P e)"
        if "e \<in> {read_u64 m (slot p i), read_u64 m' (slot p i)}" for e
        using that by (auto simp: leaf_or_unused_def)
      with True IH Some show ?thesis by (auto simp: Let_def)
    next
      case False
      have "p' \<in> pt_frames P m rt L" using pt_framesI [OF _ Some] Suc.prems by simp
      with False w(6) have "read_u64 m' (slot p' (r' mod 512)) = read_u64 m (slot p' (r' mod 512))" by simp
      with IH Some show ?thesis by simp
    qed
  qed (use IH in simp)
qed simp

lemma write_frames:
  assumes "pt_wf P m rt L" and "leaf_write P m m' rt L d r i p"
  shows "pt_frames P m' rt L = pt_frames P m rt L"
  unfolding pt_frames_def by (metis (no_types, lifting) write_tab [OF assms])

lemma write_ent:
  assumes wf: "pt_wf P m rt L" and w: "leaf_write P m m' rt L d r i p" and "d' \<le> L"
  shows "ent P m' rt d' n =
    (if d' = d \<and> n = r * 512 + i then Some (read_u64 m' (slot p i)) else ent P m rt d' n)"
proof (cases "tab P m rt d' (n div 512)")
  case None
  with leaf_writeD(2,3) [OF w] write_tab [OF wf w \<open>d' \<le> L\<close>] show ?thesis by (auto simp: ent_def)
next
  case (Some p')
  have fr: "p' \<in> pt_frames P m rt L" using pt_framesI [OF \<open>d' \<le> L\<close> Some] .
  note tab = write_tab [OF wf w \<open>d' \<le> L\<close>] and w = leaf_writeD [OF w]
  show ?thesis
  proof (cases "(p', n mod 512) = (p, i)")
    case True
    with pt_wf_inj [OF wf \<open>d' \<le> L\<close> w(1) Some, of r] w(2) have "d' = d" "n div 512 = r" by auto
    moreover from this True have "n = r * 512 + i" by (metis Pair_inject div_mult_mod_eq)
    ultimately show ?thesis using tab Some True by (simp add: ent_def)
  next
    case ne: False
    then have "\<not> (d' = d \<and> n = r * 512 + i)" using w(2,3) Some by auto
    then show ?thesis using tab Some w(6) [OF fr _ ne] by (auto simp: ent_def)
  qed
qed

lemma write_leaf:
  assumes wf: "pt_wf P m rt L" and w: "leaf_write P m m' rt L d r i p"
  shows "leaf_at P m' rt L h n e \<longleftrightarrow>
    (if h = L - d \<and> n = r * 512 + i then e = read_u64 m' (slot p i) \<and> e \<noteq> 0 \<and> h \<le> 2
     else leaf_at P m rt L h n e)"
proof (cases "h \<le> L")
  case True
  have "L - h = d \<longleftrightarrow> h = L - d" using True leaf_writeD(1) [OF w] by auto
  then show ?thesis
    unfolding leaf_at_def write_ent [OF wf w diff_le_self]
    using leaf_writeD(1,5) [OF w] True by (auto simp: leaf_or_unused_def)
next
  case False
  then show ?thesis using leaf_writeD(1) [OF w] by (auto simp: leaf_at_def)
qed

lemma write_wf:
  assumes wf: "pt_wf P m rt L" and w: "leaf_write P m m' rt L d r i p"
  shows "pt_wf P m' rt L"
  unfolding pt_wf_def
proof (intro conjI allI impI)
  fix d' r' x assume "d' \<le> L" "tab P m' rt d' r' = Some x"
  then show "pte_frame x" using write_tab [OF wf w, of d' r'] pt_wf_frame [OF wf] by auto
next
  fix d1 d2 r1 r2 x
  assume "d1 \<le> L" "d2 \<le> L" "tab P m' rt d1 r1 = Some x" "tab P m' rt d2 r2 = Some x"
  then show "d1 = d2" "r1 = r2"
    using write_tab [OF wf w] pt_wf_inj [OF wf, of d1 d2 r1 x r2] by auto
next
  fix d' n e assume "d' \<le> L" "ent P m' rt d' n = Some e" "e \<noteq> 0"
  then show "is_present P e" "d' = L \<or> is_huge P e \<Longrightarrow> L - d' \<le> 2"
    "d' = L \<or> is_huge P e \<Longrightarrow> leaf_ok P e"
    using write_ent [OF wf w, of d' n] leaf_writeD(5) [OF w] pt_wf_ent [OF wf, of d' n e]
    by (auto simp: leaf_or_unused_def split: if_splits)
qed

end

section \<open>The walk finds the leaf\<close>

context generic_pte
begin

lemma ancestor_entry:
  assumes "tab P m rt (L - h) (blk (Suc h) v) \<noteq> None" "h < h'" "h' \<le> L"
  shows "\<exists>e. ent P m rt (L - h') (blk h' v) = Some e \<and> is_present P e \<and> \<not> is_huge P e"
proof -
  have "h' - Suc h < L - h" using assms by simp
  from tab_ancestor [OF assms(1) this]
  obtain e where "ent P m rt (L - h - Suc (h' - Suc h)) (blk (Suc h) v div 512 ^ (h' - Suc h)) = Some e"
    "is_present P e" "\<not> is_huge P e" by blast
  moreover have "L - h - Suc (h' - Suc h) = L - h'" "Suc h + (h' - Suc h) = h'"
    using assms(2) by auto
  ultimately show ?thesis by (auto simp: blk_add)
qed

lemma no_leafI:
  assumes at: "tab P m rt (L - h) (blk (Suc h) v) = Some p" and "h \<le> L"
    and z: "read_u64 m (slot p (blk h v mod 512)) = 0"
  shows "no_leaf P m rt L v"
proof -
  have False if lf: "leaf_at P m rt L h' (blk h' v) e" for h' e
  proof -
    have z': "ent P m rt (L - h) (blk h v) = Some 0" using ent_blk [OF at] z by simp
    have "tab P m rt (L - h') (blk (Suc h') v) \<noteq> None"
      using lf by (auto simp: leaf_at_def ent_def blk_div)
    then have "\<not> h' < h" using ancestor_entry [of m rt L h' v h] \<open>h \<le> L\<close> z' absent_0 by auto
    moreover have "\<not> h < h'"
      using ancestor_entry [of m rt L h v h'] at lf by (auto simp: leaf_at_def)
    ultimately have "h' = h" by simp
    with lf z' show False by (auto simp: leaf_at_def)
  qed
  then show ?thesis by (auto simp: no_leaf_def)
qed

lemma no_leaf_step:
  assumes at: "tab P m rt (L - h) (blk (Suc h) v) = Some p" and "h \<le> L"
    and "\<not> is_present P (read_u64 m (slot p (blk h v mod 512)))" and wf: "pt_wf P m rt L"
  shows "no_leaf P m rt L v"
proof -
  have "read_u64 m (slot p (blk h v mod 512)) = 0"
    using pt_wf_ent [OF wf _ ent_blk [OF at]] assms(3) by auto
  with at \<open>h \<le> L\<close> show ?thesis by (rule no_leafI)
qed

lemma tab_step:
  assumes at: "tab P m rt (L - Suc h) (blk (Suc (Suc h)) v) = Some p" and "Suc h \<le> L"
    and "is_present P (read_u64 m (slot p (blk (Suc h) v mod 512)))"
    and "\<not> is_huge P (read_u64 m (slot p (blk (Suc h) v mod 512)))"
  shows "tab P m rt (L - h) (blk (Suc h) v) = Some (pte_addr P (read_u64 m (slot p (blk (Suc h) v mod 512))))"
proof -
  have "L - h = Suc (L - Suc h)" using \<open>Suc h \<le> L\<close> by simp
  with assms ent_blk [OF at] show ?thesis by (simp add: tab_Suc_ent del: tab.simps)
qed

lemma leaf_atI:
  assumes at: "tab P m rt (L - h) (blk (Suc h) v) = Some p" and "h \<le> L" "h \<le> 2"
    and "read_u64 m (slot p (blk h v mod 512)) = e" "e \<noteq> 0" "h = 0 \<or> is_huge P e"
  shows "leaf_at P m rt L h (blk h v) e"
  using assms ent_blk [OF at] by (auto simp: leaf_at_def)

end

definition walk_found ::
  "pte_ops \<Rightarrow> phys_mem \<Rightarrow> PhysAddr \<Rightarrow> nat \<Rightarrow> nat \<Rightarrow> nat \<Rightarrow> PhysAddr \<Rightarrow> bool" where
  "walk_found P m rt L v h p \<longleftrightarrow> h \<le> 2 \<and> h \<le> L \<and> tab P m rt (L - h) (blk (Suc h) v) = Some p \<and>
     (let e = read_u64 m (slot p (blk h v mod 512))
      in e = 0 \<and> no_leaf P m rt L v \<or> leaf_at P m rt L h (blk h v) e)"

text \<open>The part of \<open>get_entry_mut\<close> that both depths of table share.\<close>

definition entry_from_p3 ::
  "pte_ops \<Rightarrow> VirtAddr \<Rightarrow> phys_mem \<Rightarrow> PhysAddr \<Rightarrow> (PagingError, usize \<times> PageSize) outcome" where
  "entry_from_p3 P v m p3 =
     (let p3e = table_entry_addr p3 (p3_index v) in
     if is_huge P (read_u64 m p3e) then Ok (p3e, Size1G) else
     bind_out (next_table_mut P (read_u64 m p3e)) (\<lambda>p2.
     let p2e = table_entry_addr p2 (p2_index v) in
     if is_huge P (read_u64 m p2e) then Ok (p2e, Size2M) else
     bind_out (next_table_mut P (read_u64 m p2e)) (\<lambda>p1.
     Ok (table_entry_addr p1 (p1_index v), Size4K))))"

definition pt_height :: "'z HvPageTableImmut_scheme \<Rightarrow> nat" where
  "pt_height pt = (if level pt = 4 then 3 else 2)"

lemma get_entry_mut_split:
  "get_entry_mut P pt v m = (if level pt = 4
     then bind_out (next_table_mut P (read_u64 m (slot (root_paddr pt) (blk 3 (unat v) mod 512))))
            (entry_from_p3 P v m)
     else entry_from_p3 P v m (root_paddr pt))"
  unfolding get_entry_mut_def entry_from_p3_def [abs_def] table_entry_index Let_def
  by (cases "level pt = 4") simp_all

context generic_pte
begin

lemma walk_foundI:
  assumes "tab P m rt (L - h) (blk (Suc h) v) = Some p" "h \<le> 2" "2 \<le> L"
    "h = 0 \<or> is_huge P (read_u64 m (slot p (blk h v mod 512)))"
  shows "walk_found P m rt L v h p"
  using assms no_leafI [OF assms(1)] leaf_atI [OF assms(1)] by (auto simp: walk_found_def Let_def)

lemma entry_from_p3_cases:
  assumes wf: "pt_wf P m rt L" and L: "2 \<le> L"
    and at3: "tab P m rt (L - Suc (Suc 0)) (blk (Suc (Suc (Suc 0))) (unat v)) = Some p3"
  obtains (found) h p where "entry_from_p3 P v m p3 = Ok (slot p (blk h (unat v) mod 512), psz h)"
      "walk_found P m rt L (unat v) h p"
    | (none) "entry_from_p3 P v m p3 = Err NotMapped" "no_leaf P m rt L (unat v)"
proof -
  let ?v = "unat v"
  define e3 where "e3 = read_u64 m (slot p3 (blk (Suc (Suc 0)) ?v mod 512))"
  define p2 where "p2 = pte_addr P e3"
  define e2 where "e2 = read_u64 m (slot p2 (blk (Suc 0) ?v mod 512))"
  define p1 where "p1 = pte_addr P e2"
  note L' = L [unfolded numeral_2_eq_2]
  have eq: "entry_from_p3 P v m p3 =
      (if is_huge P e3 then Ok (slot p3 (blk (Suc (Suc 0)) ?v mod 512), Size1G)
       else if \<not> is_present P e3 then Err NotMapped
       else if is_huge P e2 then Ok (slot p2 (blk (Suc 0) ?v mod 512), Size2M)
       else if \<not> is_present P e2 then Err NotMapped
       else Ok (slot p1 (blk 0 ?v mod 512), Size4K))"
    unfolding entry_from_p3_def table_entry_index next_table_mut_def Let_def e3_def p2_def e2_def p1_def
      numeral_2_eq_2 One_nat_def by simp
  have at2: "tab P m rt (L - Suc 0) (blk (Suc (Suc 0)) ?v) = Some p2"
    if "is_present P e3" "\<not> is_huge P e3"
    unfolding p2_def e3_def by (rule tab_step [OF at3]) (use that L' in \<open>simp_all add: e3_def [symmetric]\<close>)
  have at1: "tab P m rt (L - 0) (blk (Suc 0) ?v) = Some p1"
    if "is_present P e3" "\<not> is_huge P e3" "is_present P e2" "\<not> is_huge P e2"
    unfolding p1_def e2_def
    by (rule tab_step [OF at2 [OF that(1,2)]]) (use that L' in \<open>simp_all add: e2_def [symmetric]\<close>)
  consider "is_huge P e3" | "\<not> is_huge P e3" "\<not> is_present P e3"
    | "\<not> is_huge P e3" "is_present P e3" "is_huge P e2"
    | "\<not> is_huge P e3" "is_present P e3" "\<not> is_huge P e2" "\<not> is_present P e2"
    | "\<not> is_huge P e3" "is_present P e3" "\<not> is_huge P e2" "is_present P e2" by blast
  then show thesis
  proof cases
    case 1
    show thesis
      by (rule found [of p3 "Suc (Suc 0)"], simp add: eq 1, rule walk_foundI [OF at3 _ L])
        (use 1 in \<open>simp_all add: e3_def\<close>)
  next
    case 2
    have "no_leaf P m rt L ?v"
      by (rule no_leaf_step [OF at3 L' _ wf]) (use 2 in \<open>simp add: e3_def\<close>)
    with 2 show thesis by (intro none) (simp_all add: eq)
  next
    case 3
    show thesis
      by (rule found [of p2 "Suc 0"], simp add: eq 3, rule walk_foundI [OF at2 [OF 3(2,1)] _ L])
        (use 3 in \<open>simp_all add: e2_def\<close>)
  next
    case 4
    have "no_leaf P m rt L ?v"
      by (rule no_leaf_step [OF at2 [OF 4(2,1)] _ _ wf]) (use 4 L' in \<open>simp_all add: e2_def\<close>)
    with 4 show thesis by (intro none) (simp_all add: eq)
  next
    case 5
    show thesis
      by (rule found [of p1 0], simp add: eq 5, rule walk_foundI [OF at1 [OF 5(2,1,4,3)] _ L]) simp_all
  qed
qed

lemma get_entry_mut_cases:
  assumes wf: "pt_wf P m (root_paddr pt) (pt_height pt)" and "blk (Suc (pt_height pt)) (unat v) = 0"
  obtains (found) h p where "get_entry_mut P pt v m = Ok (slot p (blk h (unat v) mod 512), psz h)"
      "walk_found P m (root_paddr pt) (pt_height pt) (unat v) h p"
    | (none) "get_entry_mut P pt v m = Err NotMapped"
      "no_leaf P m (root_paddr pt) (pt_height pt) (unat v)"
proof (cases "level pt = 4")
  case False
  then have h: "pt_height pt = Suc (Suc 0)" by (simp add: pt_height_def)
  with assms(2) have "tab P m (root_paddr pt) (pt_height pt - Suc (Suc 0))
      (blk (Suc (Suc (Suc 0))) (unat v)) = Some (root_paddr pt)" by simp
  from entry_from_p3_cases [OF wf _ this] False h that show thesis
    by (simp add: get_entry_mut_split) metis
next
  case True
  then have h: "pt_height pt = Suc (Suc (Suc 0))" by (simp add: pt_height_def numeral_3_eq_3)
  let ?e = "read_u64 m (slot (root_paddr pt) (blk (Suc (Suc (Suc 0))) (unat v) mod 512))"
  from assms(2) h have at4: "tab P m (root_paddr pt) (pt_height pt - Suc (Suc (Suc 0)))
      (blk (Suc (Suc (Suc (Suc 0)))) (unat v)) = Some (root_paddr pt)" by simp
  note ent = ent_blk [OF at4]
  have huge: "\<not> is_huge P ?e" if "is_present P ?e"
  proof -
    have "?e \<noteq> 0" using that absent_0 by metis
    with pt_wf_ent [OF wf _ ent] h show ?thesis by simp
  qed
  have eq: "get_entry_mut P pt v m = (if is_present P ?e then entry_from_p3 P v m (pte_addr P ?e)
      else Err NotMapped)"
    unfolding get_entry_mut_split using True huge by (simp add: next_table_mut_def numeral_3_eq_3)
  show thesis
  proof (cases "is_present P ?e")
    case p: True
    have "tab P m (root_paddr pt) (pt_height pt - Suc (Suc 0)) (blk (Suc (Suc (Suc 0))) (unat v))
        = Some (pte_addr P ?e)"
      by (rule tab_step [OF at4]) (use p huge h in simp_all)
    from entry_from_p3_cases [OF wf _ this] p h that show thesis
      by (simp add: eq) metis
  next
    case p: False
    have "no_leaf P m (root_paddr pt) (pt_height pt) (unat v)"
      by (rule no_leaf_step [OF at4 _ p wf]) (simp add: h)
    with p show thesis by (intro none) (simp_all add: eq)
  qed
qed

lemma query_none:
  assumes "pt_wf P m (root_paddr pt) (pt_height pt)" and "blk (Suc (pt_height pt)) (unat v) = 0"
    and "no_leaf P m (root_paddr pt) (pt_height pt) (unat v)"
  shows "query P pt v m = Err NotMapped"
proof (cases rule: get_entry_mut_cases [OF assms(1,2)])
  case (1 h p)
  then have "read_u64 m (slot p (blk h (unat v) mod 512)) = 0"
    using assms(3) by (auto simp: walk_found_def no_leaf_def Let_def)
  with 1 show ?thesis by (simp add: query_def unused_iff Let_def)
qed (simp add: query_def)

lemma query_leaf:
  assumes wf: "pt_wf P m (root_paddr pt) (pt_height pt)" and "blk (Suc (pt_height pt)) (unat v) = 0"
    and lf: "leaf_at P m (root_paddr pt) (pt_height pt) h (blk h (unat v)) e"
    and fl: "pte_flags P e = Ok fl"
  shows "query P pt v m = Ok (pte_addr P e + PageSize_page_offset (psz h) v, fl, psz h)"
proof (cases rule: get_entry_mut_cases [OF assms(1,2)])
  case (1 h' p)
  let ?e = "read_u64 m (slot p (blk h' (unat v) mod 512))"
  from 1 lf have "leaf_at P m (root_paddr pt) (pt_height pt) h' (blk h' (unat v)) ?e"
    by (auto simp: walk_found_def no_leaf_def Let_def)
  with lf have eq: "h' = h" "?e = e" using leaf_level_unique by blast+
  have h: "h \<le> 2" using lf by (simp add: leaf_at_def)
  have "leaf_ok P e"
    using pt_wf_ent [OF wf, of "pt_height pt - h" "blk h (unat v)" e] lf by (auto simp: leaf_at_def)
  then have "unat (pte_addr P e) < 2 ^ 48" by (simp add: leaf_ok_def pte_frame_def)
  moreover have "unat (PageSize_page_offset (psz h) v) < 2 ^ 48"
  proof -
    have "unat (PageSize_page_offset (psz h) v) < 2 ^ (12 + 9 * h)"
      using h by (simp add: unat_PageSize_offset)
    also have "\<dots> \<le> 2 ^ 48" using h by (intro power_increasing) auto
    finally show ?thesis .
  qed
  ultimately have "add_chk (pte_addr P e) (PageSize_page_offset (psz h) v) =
      (Ok (pte_addr P e + PageSize_page_offset (psz h) v) :: (PagingError, _) outcome)"
    unfolding add_chk_Ok_iff by simp
  with 1 eq lf fl show ?thesis by (simp add: query_def unused_iff Let_def leaf_at_def)
next
  case 2
  with lf show ?thesis by (auto simp: no_leaf_def)
qed

end

end
