(* ===== verification/Hv_PtOps.thy ===== *)
theory Hv_PtOps
  imports Hv_PtView
begin

unbundle bit_operations_syntax

text \<open>
  What the page table operations do to the map of \<open>Hv_PtView\<close>: creating intermediate tables keeps
  it, \<open>map_page\<close> adds one leaf, \<open>unmap_page\<close> removes one, and \<open>map\<close> and \<open>unmap\<close> do so for a region.
  Every operation keeps the page table invariant and touches no memory but its own tables and
  frames it takes from the allocator.
\<close>

section \<open>The invariant\<close>

abbreviation pt_tables :: "pte_ops \<Rightarrow> 'b pmem \<Rightarrow> HvPageTable \<Rightarrow> PhysAddr set" where
  "pt_tables P s pt \<equiv> pt_frames P (bytes s) (root_paddr pt) (pt_height pt)"

abbreviation pt_leaf :: "pte_ops \<Rightarrow> 'b pmem \<Rightarrow> HvPageTable \<Rightarrow> nat \<Rightarrow> nat \<Rightarrow> u64 \<Rightarrow> bool" where
  "pt_leaf P s pt \<equiv> leaf_at P (bytes s) (root_paddr pt) (pt_height pt)"

abbreviation pt_no_leaf :: "pte_ops \<Rightarrow> 'b pmem \<Rightarrow> HvPageTable \<Rightarrow> nat \<Rightarrow> bool" where
  "pt_no_leaf P s pt \<equiv> no_leaf P (bytes s) (root_paddr pt) (pt_height pt)"

abbreviation pt_tab :: "pte_ops \<Rightarrow> 'b pmem \<Rightarrow> HvPageTable \<Rightarrow> nat \<Rightarrow> nat \<Rightarrow> PhysAddr option" where
  "pt_tab P s pt \<equiv> tab P (bytes s) (root_paddr pt)"

definition tracked :: "HvPageTable \<Rightarrow> PhysAddr list" where
  "tracked pt = map start_paddr (root pt # intrm_tables pt)"

definition pt_ok :: "pte_ops \<Rightarrow> 'b bitalloc \<Rightarrow> 'b pmem \<Rightarrow> HvPageTable \<Rightarrow> bool" where
  "pt_ok P A s pt \<longleftrightarrow> falloc_ok A (falloc s) \<and> level pt \<in> {3, 4} \<and>
     pt_wf P (bytes s) (root_paddr pt) (pt_height pt) \<and>
     pt_tables P s pt = set (tracked pt) \<and> distinct (tracked pt) \<and>
     (\<forall>f \<in> set (root pt # intrm_tables pt). frame_count f = 1) \<and>
     (\<forall>p \<in> set (tracked pt). in_pool (falloc s) p \<and> \<not> frame_free A (falloc s) p)"

text \<open>The operation touched only tables of this page table, and frames that were free before.\<close>

definition pt_local ::
  "pte_ops \<Rightarrow> 'b bitalloc \<Rightarrow> 'b pmem \<Rightarrow> HvPageTable \<Rightarrow> 'b pmem \<Rightarrow> HvPageTable \<Rightarrow> bool" where
  "pt_local P A s pt s' pt' \<longleftrightarrow> root pt' = root pt \<and> level pt' = level pt \<and>
     base (falloc s') = base (falloc s) \<and>
     pt_tables P s pt \<subseteq> pt_tables P s' pt' \<and>
     (\<forall>q \<in> pt_tables P s' pt'. q \<in> pt_tables P s pt \<or> frame_free A (falloc s) q) \<and>
     (\<forall>q. frame_free A (falloc s') q \<longleftrightarrow> frame_free A (falloc s) q \<and> q \<notin> pt_tables P s' pt') \<and>
     (\<forall>q i. is_aligned q \<and> i < 512 \<and> q \<notin> pt_tables P s' pt' \<longrightarrow>
        read_u64 (bytes s') (slot q i) = read_u64 (bytes s) (slot q i))"

text \<open>Only tables on the way to the page of height \<open>k\<close> at \<open>v\<close> were added, and no leaf changed.\<close>

definition pt_extend ::
  "pte_ops \<Rightarrow> 'b bitalloc \<Rightarrow> nat \<Rightarrow> nat \<Rightarrow> 'b pmem \<Rightarrow> HvPageTable \<Rightarrow> 'b pmem \<Rightarrow> HvPageTable \<Rightarrow> bool" where
  "pt_extend P A k v s pt s' pt' \<longleftrightarrow> pt_ok P A s' pt' \<and> pt_local P A s pt s' pt' \<and>
     (\<forall>h n e. pt_leaf P s' pt' h n e \<longleftrightarrow> pt_leaf P s pt h n e) \<and>
     (\<forall>d r p. d \<le> pt_height pt \<longrightarrow> pt_tab P s pt d r = Some p \<longrightarrow> pt_tab P s' pt' d r = Some p) \<and>
     (\<forall>d r. d \<le> pt_height pt \<longrightarrow> pt_tab P s' pt' d r \<noteq> None \<longrightarrow>
        pt_tab P s pt d r \<noteq> None \<or> k \<le> pt_height pt - d \<and> r = blk (Suc (pt_height pt - d)) v)"

lemma pt_okD:
  assumes "pt_ok P A s pt"
  shows "falloc_ok A (falloc s)" "level pt \<in> {3, 4}"
    and pt_ok_wf: "pt_wf P (bytes s) (root_paddr pt) (pt_height pt)"
    and "pt_tables P s pt = set (tracked pt)" "distinct (tracked pt)"
    and "\<And>f. f \<in> set (root pt # intrm_tables pt) \<Longrightarrow> frame_count f = 1"
    and pt_ok_used: "\<And>p. p \<in> pt_tables P s pt \<Longrightarrow> in_pool (falloc s) p"
      "\<And>p. p \<in> pt_tables P s pt \<Longrightarrow> \<not> frame_free A (falloc s) p"
  using assms unfolding pt_ok_def by blast+

lemma pt_frames_aligned: "pt_wf P m rt L \<Longrightarrow> p \<in> pt_frames P m rt L \<Longrightarrow> is_aligned p"
  by (auto simp: pt_frames_def pte_frame_def dest: pt_wf_frame)

lemma pt_height_cases: "pt_height pt = 2 \<or> pt_height pt = 3"
  by (simp add: pt_height_def)

lemma pt_local_same: "pt_local P A s pt s' pt' \<Longrightarrow> root_paddr pt' = root_paddr pt \<and> pt_height pt' = pt_height pt"
  by (simp add: pt_local_def root_paddr_def pt_height_def)

lemma pt_local_refl: "pt_ok P A s pt \<Longrightarrow> pt_local P A s pt s pt"
proof -
  assume "pt_ok P A s pt"
  from pt_ok_used(2) [OF this] have "\<forall>q \<in> pt_tables P s pt. \<not> frame_free A (falloc s) q" by blast
  then have "\<forall>q. frame_free A (falloc s) q \<longleftrightarrow> frame_free A (falloc s) q \<and> q \<notin> pt_tables P s pt"
    by blast
  then show ?thesis unfolding pt_local_def by blast
qed

lemma pt_local_trans:
  assumes 1: "pt_local P A s pt s1 pt1" and 2: "pt_local P A s1 pt1 s2 pt2"
  shows "pt_local P A s pt s2 pt2"
  unfolding pt_local_def
proof (intro conjI allI ballI impI)
  note 1 = 1 [unfolded pt_local_def] and 2 = 2 [unfolded pt_local_def]
  show "root pt2 = root pt" "level pt2 = level pt" "base (falloc s2) = base (falloc s)"
    using 1 2 by simp_all
  show "pt_tables P s pt \<subseteq> pt_tables P s2 pt2" using 1 2 by blast
  show "frame_free A (falloc s2) q \<longleftrightarrow> frame_free A (falloc s) q \<and> q \<notin> pt_tables P s2 pt2" for q
    using 1 2 by blast
  show "q \<in> pt_tables P s pt \<or> frame_free A (falloc s) q" if "q \<in> pt_tables P s2 pt2" for q
    using that 1 2 by blast
  show "read_u64 (bytes s2) (slot q i) = read_u64 (bytes s) (slot q i)"
    if "is_aligned q \<and> i < 512 \<and> q \<notin> pt_tables P s2 pt2" for q i
  proof -
    have "q \<notin> pt_tables P s1 pt1" using that 2 by blast
    with that 1 have "read_u64 (bytes s1) (slot q i) = read_u64 (bytes s) (slot q i)" by blast
    moreover have "read_u64 (bytes s2) (slot q i) = read_u64 (bytes s1) (slot q i)" using that 2 by blast
    ultimately show ?thesis by simp
  qed
qed

lemma pt_extend_refl: "pt_ok P A s pt \<Longrightarrow> pt_extend P A k v s pt s pt"
  unfolding pt_extend_def using pt_local_refl by blast

lemma pt_extend_trans:
  assumes "pt_extend P A k v s pt s1 pt1" "pt_extend P A k v s1 pt1 s2 pt2"
  shows "pt_extend P A k v s pt s2 pt2"
proof -
  have "pt_height pt1 = pt_height pt"
    using assms(1) pt_local_same [of P A s pt s1 pt1] by (simp add: pt_extend_def)
  moreover have "pt_local P A s pt s2 pt2"
    by (rule pt_local_trans) (use assms in \<open>unfold pt_extend_def, blast\<close>)+
  ultimately show ?thesis using assms unfolding pt_extend_def by (simp del: tab.simps) blast
qed

lemmas pt_extendD = pt_extend_def [THEN iffD1, THEN conjunct1]
  pt_extend_def [THEN iffD1, THEN conjunct2, THEN conjunct1]

lemma pt_extend_leaf: "pt_extend P A k v s pt s' pt' \<Longrightarrow> pt_leaf P s' pt' h n e \<longleftrightarrow> pt_leaf P s pt h n e"
  unfolding pt_extend_def by blast

lemma pt_extend_tab: "pt_extend P A k v s pt s' pt' \<Longrightarrow> d \<le> pt_height pt \<Longrightarrow> pt_tab P s pt d r = Some p \<Longrightarrow>
    pt_tab P s' pt' d r = Some p"
  unfolding pt_extend_def by blast

lemma pt_extend_new: "pt_extend P A k v s pt s' pt' \<Longrightarrow> d \<le> pt_height pt \<Longrightarrow> pt_tab P s' pt' d r \<noteq> None \<Longrightarrow>
    pt_tab P s pt d r \<noteq> None \<or> k \<le> pt_height pt - d \<and> r = blk (Suc (pt_height pt - d)) v"
  unfolding pt_extend_def by blast

section \<open>Creating the tables on the way\<close>

text \<open>The interface the operations rely on: an entry format and a frame bitmap.\<close>

lemma bindP_keeps:
  assumes "\<And>s. g (snd (m s)) = g s" "\<And>x s. g (snd (f x s)) = g s"
  shows "g (snd (bindP m f s)) = g s"
proof (cases "m s")
  case (Pair r t)
  then have "g t = g s" using assms(1) [of s] by simp
  with Pair assms(2) show ?thesis by (cases r) (simp_all add: bindP_def)
qed

lemma alloc_base: "base (falloc (snd (with_falloc (FrameAllocator_alloc A) s))) = base (falloc s)"
  by (simp add: with_falloc_def FrameAllocator_alloc_def Let_def split: prod.splits option.splits)

lemma new_zero_base: "Frame_new_zero A s = (r, t) \<Longrightarrow> base (falloc t) = base (falloc s)"
proof -
  have "base (falloc (snd (Frame_clear f s))) = base (falloc s)" for f and s :: "'b pmem"
    by (cases "Frame_size f") (simp_all add: Frame_clear_def Frame_fill_def bindP_def)
  then have "base (falloc (snd (Frame_new_zero A s))) = base (falloc s)"
    unfolding Frame_new_zero_def Frame_new_def
    by (intro bindP_keeps [where g = "\<lambda>s. base (falloc s)"])
      (auto simp: alloc_base split: option.splits)
  moreover assume "Frame_new_zero A s = (r, t)"
  ultimately show ?thesis by simp
qed

locale hv_paging = generic_pte P norm + bit_alloc A
  for P :: pte_ops and norm :: "MemFlags \<Rightarrow> MemFlags" and A :: "'b bitalloc"
begin

lemma alloc_intrm_cases:
  assumes ok: "falloc_ok A (falloc s)" and call: "alloc_intrm_table A (s, pt) = (res, (s', pt'))"
  obtains (got) q f where "res = Ok q" "start_paddr f = q" "frame_count f = 1" "falloc_ok A (falloc s')"
      "base (falloc s') = base (falloc s)" "frame_free A (falloc s) q"
      "\<And>x. frame_free A (falloc s') x \<longleftrightarrow> frame_free A (falloc s) x \<and> x \<noteq> q"
      "bytes s' = fill_bytes (bytes s) q PAGE_SIZE 0" "pte_frame q" "is_aligned q"
      "pt' = pt\<lparr>intrm_tables := intrm_tables pt @ [f]\<rparr>"
    | (none) "res = Err ENOMEM" "falloc_ok A (falloc s')" "base (falloc s') = base (falloc s)"
      "\<And>x. \<not> frame_free A (falloc s) x" "\<And>x. \<not> frame_free A (falloc s') x" "bytes s' = bytes s" "pt' = pt"
proof -
  obtain r t where nz: "Frame_new_zero A s = (r, t)" by fastforce
  have base: "base (falloc t) = base (falloc s)" by (rule new_zero_base [OF nz])
  from ok nz show thesis
  proof (cases rule: frames.new_zero_cases)
    case (got f)
    have "frame_count f = 1" using frames.new_zero_Ok [OF ok] nz got(1) by simp
    with got nz call base that(1) [of "start_paddr f" f] show thesis
      by (simp add: alloc_intrm_table_def pte_frame_def)
  next
    case none
    with nz call base that(2) show thesis by (simp add: alloc_intrm_table_def)
  qed
qed

lemma create_link:
  assumes ok: "pt_ok P A s pt" and d: "d < pt_height pt" and at: "pt_tab P s pt d r = Some p"
    and i: "i < 512" and old: "read_u64 (bytes s) (slot p i) = 0"
    and fr: "frame_free A (falloc s) q" "pte_frame q" "is_aligned q"
    and m': "m' = write_u64 (fill_bytes (bytes s) q PAGE_SIZE 0) (slot p i) (set_table P q x)"
  shows "table_link P (bytes s) m' (root_paddr pt) (pt_height pt) d r i p q"
    and "\<And>q' j. is_aligned q' \<Longrightarrow> j < 512 \<Longrightarrow> q' \<noteq> q \<Longrightarrow> q' \<noteq> p \<Longrightarrow>
      read_u64 m' (slot q' j) = read_u64 (bytes s) (slot q' j)"
proof -
  note wf = pt_ok_wf [OF ok]
  have pf: "p \<in> pt_tables P s pt" using pt_framesI [OF _ at] d by simp
  have pal: "is_aligned p" by (rule pt_frames_aligned [OF wf pf])
  have fresh: "q \<notin> pt_tables P s pt" using pt_ok_used(2) [OF ok] fr(1) by blast
  with pf have "q \<noteq> p" by blast
  have rd: "read_u64 m' (slot q' j) = (if q' = p \<and> j = i then set_table P q x
      else if q' = q then 0 else read_u64 (bytes s) (slot q' j))" if "is_aligned q'" "j < 512" for q' j
    unfolding m' using that pal i fr(3) by (simp add: read_slot_write_slot read_slot_fill)
  show "table_link P (bytes s) m' (root_paddr pt) (pt_height pt) d r i p q"
    unfolding table_link_def
    using d at i old fresh fr rd [OF pal i] rd [OF fr(3)] rd [OF pt_frames_aligned [OF wf]] \<open>q \<noteq> p\<close>
    by auto
  show "\<And>q' j. is_aligned q' \<Longrightarrow> j < 512 \<Longrightarrow> q' \<noteq> q \<Longrightarrow> q' \<noteq> p \<Longrightarrow>
      read_u64 m' (slot q' j) = read_u64 (bytes s) (slot q' j)"
    using rd by simp
qed

lemma link_extend:
  assumes ok: "pt_ok P A s pt"
    and lk: "table_link P (bytes s) (bytes s') (root_paddr pt) (pt_height pt) d r i p q"
    and oth: "\<And>q' j. is_aligned q' \<Longrightarrow> j < 512 \<Longrightarrow> q' \<noteq> q \<Longrightarrow> q' \<noteq> p \<Longrightarrow>
      read_u64 (bytes s') (slot q' j) = read_u64 (bytes s) (slot q' j)"
    and fa: "falloc_ok A (falloc s')" "base (falloc s') = base (falloc s)" "frame_free A (falloc s) q"
      "\<And>x. frame_free A (falloc s') x \<longleftrightarrow> frame_free A (falloc s) x \<and> x \<noteq> q"
    and pt': "pt' = pt\<lparr>intrm_tables := intrm_tables pt @ [f]\<rparr>" "start_paddr f = q" "frame_count f = 1"
    and v: "r * 512 + i = blk (pt_height pt - d) v" and k: "k \<le> pt_height pt - Suc d"
  shows "pt_extend P A k v s pt s' pt' \<and> pt_tab P s' pt' (Suc d) (r * 512 + i) = Some q"
proof -
  note wf = pt_ok_wf [OF ok] and okD = pt_okD [OF ok]
  have same: "root_paddr pt' = root_paddr pt" "pt_height pt' = pt_height pt" "root pt' = root pt" "level pt' = level pt"
    using pt'(1) by (simp_all add: root_paddr_def pt_height_def)
  have fr: "pt_tables P s' pt' = insert q (pt_tables P s pt)"
    unfolding same by (rule link_frames [OF wf lk])
  have p: "p \<in> pt_tables P s pt" using pt_framesI [OF _ link_at(2) [OF lk]] link_at(1) [OF lk] by simp
  have new: "q \<notin> pt_tables P s pt" by (rule link_at(5) [OF lk])
  have tr: "tracked pt' = tracked pt @ [q]" using pt' by (simp add: tracked_def)
  have pool: "in_pool (falloc s') x \<longleftrightarrow> in_pool (falloc s) x" for x by (rule in_pool_base [OF fa(2)])
  have "pt_ok P A s' pt'"
    unfolding pt_ok_def
  proof (intro conjI ballI)
    show "pt_wf P (bytes s') (root_paddr pt') (pt_height pt')" unfolding same by (rule link_wf [OF wf lk])
    show "pt_tables P s' pt' = set (tracked pt')" using fr tr okD(4) by simp
    show "distinct (tracked pt')" using tr okD(4,5) new by simp
    show "frame_count g = 1" if "g \<in> set (root pt' # intrm_tables pt')" for g
      using that okD(6) [of g] pt'(1,3) by auto
    fix x assume "x \<in> set (tracked pt')"
    then have x: "x = q \<or> x \<in> pt_tables P s pt" using tr okD(4) by auto
    then show "in_pool (falloc s') x"
      unfolding pool using frame_free_pool [OF fa(3) okD(1)] pt_ok_used(1) [OF ok] by blast
    show "\<not> frame_free A (falloc s') x" unfolding fa(4) using x pt_ok_used(2) [OF ok] by blast
  qed (use fa(1) okD(2) same in simp_all)
  moreover have "pt_local P A s pt s' pt'"
    unfolding pt_local_def fr
  proof (intro conjI allI impI)
    show "frame_free A (falloc s') x \<longleftrightarrow> frame_free A (falloc s) x \<and> x \<notin> insert q (pt_tables P s pt)" for x
      unfolding fa(4) using pt_ok_used(2) [OF ok] by blast
    show "read_u64 (bytes s') (slot x j) = read_u64 (bytes s) (slot x j)"
      if "is_aligned x \<and> j < 512 \<and> x \<notin> insert q (pt_tables P s pt)" for x j
      by (rule oth) (use that p in auto)
  qed (use fa(2,3) same in auto)
  moreover have "\<forall>h n e. pt_leaf P s' pt' h n e \<longleftrightarrow> pt_leaf P s pt h n e"
    unfolding same using link_leaf [OF wf lk] by blast
  moreover have "pt_tab P s' pt' d' r' = Some p'" if "d' \<le> pt_height pt" "pt_tab P s pt d' r' = Some p'" for d' r' p'
    unfolding same using that link_tab [OF wf lk that(1), of r'] link_below_empty [OF lk] by auto
  moreover have "pt_tab P s' pt' (Suc d) (r * 512 + i) = Some q"
    unfolding same using link_tab [OF wf lk, of "Suc d" "r * 512 + i"] link_at(1) [OF lk] by simp
  moreover have "pt_tab P s pt d' r' \<noteq> None \<or> k \<le> pt_height pt - d' \<and> r' = blk (Suc (pt_height pt - d')) v"
    if "d' \<le> pt_height pt" "pt_tab P s' pt' d' r' \<noteq> None" for d' r'
  proof -
    have "Suc (pt_height pt - Suc d) = pt_height pt - d" using link_at(1) [OF lk] by simp
    then show ?thesis
      using that(2) link_tab [OF wf lk that(1), of r'] v k unfolding same by (auto split: if_splits)
  qed
  ultimately show ?thesis unfolding pt_extend_def by blast
qed

lemma create_cases:
  assumes ok: "pt_ok P A s pt" and d: "d < pt_height pt" and at: "pt_tab P s pt d r = Some p"
    and i: "i < 512" and v: "r * 512 + i = blk (pt_height pt - d) v" and k: "k \<le> pt_height pt - Suc d"
    and call: "next_table_mut_or_create P A (slot p i) (s, pt) = (res, (s', pt'))"
  obtains (next_table) q where "res = Ok q" "pt_extend P A k v s pt s' pt'" "pt_tab P s' pt' (Suc d) (r * 512 + i) = Some q"
    | (no_memory) "res = Err NoMemory" "pt_extend P A k v s pt s' pt'" "\<And>q. \<not> frame_free A (falloc s) q"
    | (huge) "res = Err MappedToHugePage" "s' = s" "pt' = pt"
        "pt_leaf P s pt (pt_height pt - d) (r * 512 + i) (read_u64 (bytes s) (slot p i))"
proof -
  let ?e = "read_u64 (bytes s) (slot p i)"
  note wf = pt_ok_wf [OF ok]
  have ent: "ent P (bytes s) (root_paddr pt) d (r * 512 + i) = Some ?e" by (rule ent_table [OF at i])
  show thesis
  proof (cases "?e = 0")
    case False
    then have use: "(res, (s', pt')) = (next_table_mut P ?e, (s, pt))"
      using call by (auto simp: next_table_mut_or_create_def unused_iff)
    from pt_wf_ent [OF wf _ ent False] d have pr: "is_present P ?e" and
      hg: "is_huge P ?e \<Longrightarrow> pt_height pt - d \<le> 2" by auto
    show thesis
    proof (cases "is_huge P ?e")
      case True
      with use pr hg ent False d show thesis
        by (intro huge) (simp_all add: next_table_mut_def leaf_at_def)
    next
      case hu: False
      with use pr have "res = Ok (pte_addr P ?e)" "s' = s" "pt' = pt" by (simp_all add: next_table_mut_def)
      moreover have "pt_tab P s pt (Suc d) (r * 512 + i) = Some (pte_addr P ?e)"
        using ent pr hu by (simp add: tab_Suc_ent del: tab.simps)
      ultimately show thesis using next_table pt_extend_refl [OF ok] by blast
    qed
  next
    case True
    obtain ra s1 pt1 where al: "alloc_intrm_table A (s, pt) = (ra, (s1, pt1))" by (metis prod_cases3)
    from pt_okD(1) [OF ok] al show thesis
    proof (cases rule: alloc_intrm_cases)
      case (got q f)
      define m' where "m' = write_u64 (bytes s1) (slot p i) (set_table P q (read_u64 (bytes s1) (slot p i)))"
      from call True al got have res: "res = Ok q" "s' = s1\<lparr>bytes := m'\<rparr>" "pt' = pt1"
        by (simp_all add: next_table_mut_or_create_def unused_iff bindP_def map_errP_def update_entry_def m'_def)
      note cl = create_link [OF ok d at i True got(6,9,10) m'_def [unfolded got(8)]]
      have "pt_extend P A k v s pt s' pt' \<and> pt_tab P s' pt' (Suc d) (r * 512 + i) = Some q"
        unfolding res by (rule link_extend [where p = p, OF ok _ _ _ _ got(6) _ got(11,2,3) v k])
          (simp_all add: got cl)
      with res next_table show thesis by blast
    next
      case none
      from call True al none have res: "res = Err NoMemory" "s' = s1" "pt' = pt"
        by (simp_all add: next_table_mut_or_create_def unused_iff bindP_def map_errP_def)
      have "pt_ok P A s1 pt" using ok none in_pool_base [OF none(3)] by (simp add: pt_ok_def)
      then have "pt_extend P A k v s pt s1 pt"
        unfolding pt_extend_def pt_local_def using none by simp
      with res no_memory none(4) show thesis by blast
    qed
  qed
qed

lemma create_step:
  assumes ok: "pt_ok P A s pt" and h: "Suc h \<le> pt_height pt" and k: "k \<le> h"
    and at: "pt_tab P s pt (pt_height pt - Suc h) (blk (Suc (Suc h)) v) = Some p"
    and call: "next_table_mut_or_create P A (slot p (blk (Suc h) v mod 512)) (s, pt) = (res, (s', pt'))"
  obtains (next_table) q where "res = Ok q" "pt_extend P A k v s pt s' pt'"
      "pt_tab P s' pt' (pt_height pt - h) (blk (Suc h) v) = Some q"
    | (no_memory) "res = Err NoMemory" "pt_extend P A k v s pt s' pt'" "\<And>q. \<not> frame_free A (falloc s') q"
    | (huge) e where "res = Err MappedToHugePage" "pt_extend P A k v s pt s' pt'"
      "pt_leaf P s pt (Suc h) (blk (Suc h) v) e"
proof -
  have d: "pt_height pt - Suc h < pt_height pt" using h by simp
  have idx: "blk (Suc h) v mod 512 < 512" by simp
  have e1: "Suc (pt_height pt - Suc h) = pt_height pt - h" "pt_height pt - (pt_height pt - Suc h) = Suc h"
    using h by auto
  have on: "blk (Suc (Suc h)) v * 512 + blk (Suc h) v mod 512 = blk (pt_height pt - (pt_height pt - Suc h)) v"
    unfolding e1 by (rule blk_split)
  have k': "k \<le> pt_height pt - Suc (pt_height pt - Suc h)" using k h by simp
  show thesis
  proof (cases rule: create_cases [OF ok d at idx on k' call])
    case (1 q)
    then show thesis using next_table by (simp add: e1 blk_split del: tab.simps)
  next
    case 2
    then have "\<not> frame_free A (falloc s') q" for q
      by (auto simp: pt_extend_def pt_local_def)
    with 2 no_memory show thesis by blast
  next
    case 3
    then have "pt_leaf P s pt (Suc h) (blk (Suc h) v) (read_u64 (bytes s) (slot p (blk (Suc h) v mod 512)))"
      by (simp add: e1 blk_split)
    with 3 huge pt_extend_refl [OF ok] show thesis by blast
  qed
qed

end

definition create_from_p3 ::
  "pte_ops \<Rightarrow> 'b bitalloc \<Rightarrow> Page \<Rightarrow> PhysAddr \<Rightarrow> ('b, PagingError, usize) pt_prog" where
  "create_from_p3 P A page p3 =
     (let v = vaddr page; p3e = table_entry_addr p3 (p3_index v) in
     if psize page = Size1G then retP p3e else
     bindP (next_table_mut_or_create P A p3e) (\<lambda>p2.
     let p2e = table_entry_addr p2 (p2_index v) in
     if psize page = Size2M then retP p2e else
     bindP (next_table_mut_or_create P A p2e) (\<lambda>p1.
     let p1e = table_entry_addr p1 (p1_index v) in retP p1e)))"

lemma get_entry_mut_or_create_split:
  "get_entry_mut_or_create P A page (s, pt) = (if level pt = 4
     then bindP (next_table_mut_or_create P A (slot (root_paddr pt) (blk 3 (unat (vaddr page)) mod 512)))
            (create_from_p3 P A page) (s, pt)
     else create_from_p3 P A page (root_paddr pt) (s, pt))"
  unfolding get_entry_mut_or_create_def create_from_p3_def [abs_def] table_entry_index Let_def
  by (cases "level pt = 4") simp_all

text \<open>How the walk that creates tables ends: at the entry for the page, or with one of two errors.\<close>

definition create_found ::
  "pte_ops \<Rightarrow> 'b bitalloc \<Rightarrow> nat \<Rightarrow> nat \<Rightarrow> 'b pmem \<Rightarrow> HvPageTable \<Rightarrow> (PagingError, usize) outcome
    \<Rightarrow> 'b pmem \<Rightarrow> HvPageTable \<Rightarrow> bool" where
  "create_found P A k v s pt res s' pt' \<longleftrightarrow> pt_extend P A k v s pt s' pt' \<and>
     ((\<exists>p. res = Ok (slot p (blk k v mod 512)) \<and>
         pt_tab P s' pt' (pt_height pt - k) (blk (Suc k) v) = Some p) \<or>
      (res = Err NoMemory \<and> (\<forall>q. \<not> frame_free A (falloc s') q)) \<or>
      (res = Err MappedToHugePage \<and> (\<exists>h e. k < h \<and> pt_leaf P s pt h (blk h v) e)))"

lemma create_found_trans:
  assumes ex: "pt_extend P A k v s pt s1 pt1" and cf: "create_found P A k v s1 pt1 res s' pt'"
  shows "create_found P A k v s pt res s' pt'"
proof -
  have "pt_height pt1 = pt_height pt" using ex pt_local_same [of P A s pt s1 pt1] by (simp add: pt_extend_def)
  with cf show ?thesis
    unfolding create_found_def using pt_extend_trans [OF ex] pt_extend_leaf [OF ex] by simp
qed

context hv_paging
begin

lemma create_found_step:
  assumes ok: "pt_ok P A s pt" and h: "Suc h \<le> pt_height pt" and k: "k \<le> h"
    and at: "pt_tab P s pt (pt_height pt - Suc h) (blk (Suc (Suc h)) v) = Some p"
    and call: "bindP (next_table_mut_or_create P A (slot p (blk (Suc h) v mod 512))) f (s, pt) = (res, (s', pt'))"
    and rest: "\<And>q s1 pt1. pt_ok P A s1 pt1 \<Longrightarrow> pt_height pt1 = pt_height pt \<Longrightarrow>
      pt_tab P s1 pt1 (pt_height pt - h) (blk (Suc h) v) = Some q \<Longrightarrow>
      f q (s1, pt1) = (res, (s', pt')) \<Longrightarrow> create_found P A k v s1 pt1 res s' pt'"
  shows "create_found P A k v s pt res s' pt'"
proof -
  obtain r1 s1 pt1 where nx:
    "next_table_mut_or_create P A (slot p (blk (Suc h) v mod 512)) (s, pt) = (r1, (s1, pt1))"
    by (metis prod_cases3)
  show ?thesis
  proof (cases rule: create_step [OF ok h k at nx])
    case (1 q)
    then have "pt_height pt1 = pt_height pt"
      using pt_local_same [of P A s pt s1 pt1] by (simp add: pt_extend_def)
    moreover have "f q (s1, pt1) = (res, (s', pt'))" using call nx 1(1) by (simp add: bindP_def)
    ultimately have "create_found P A k v s1 pt1 res s' pt'"
      using rest 1 by (simp add: pt_extend_def)
    then show ?thesis by (rule create_found_trans [OF 1(2)])
  next
    case 2
    then have "res = Err NoMemory" "s' = s1" "pt' = pt1" using call nx by (simp_all add: bindP_def)
    with 2 show ?thesis by (simp add: create_found_def)
  next
    case (3 e)
    then have "res = Err MappedToHugePage" "s' = s1" "pt' = pt1" using call nx by (simp_all add: bindP_def)
    moreover have "k < Suc h" using k by simp
    ultimately show ?thesis using 3 unfolding create_found_def by blast
  qed
qed

lemma create_found_here:
  assumes "pt_ok P A s pt" "pt_tab P s pt (pt_height pt - k) (blk (Suc k) v) = Some p"
    "retP (slot p (blk k v mod 512)) (s, pt) = (res, (s', pt'))"
  shows "create_found P A k v s pt res s' pt'"
  using assms pt_extend_refl [OF assms(1)] by (auto simp: create_found_def)

lemma create_from_p3_found:
  assumes ok: "pt_ok P A s pt" and v: "v = unat (vaddr page)"
    and at: "pt_tab P s pt (pt_height pt - Suc (Suc 0)) (blk (Suc (Suc (Suc 0))) v) = Some p3"
    and call: "create_from_p3 P A page p3 (s, pt) = (res, (s', pt'))"
  shows "create_found P A (hgt (psize page)) v s pt res s' pt'"
proof -
  have L: "Suc (Suc 0) \<le> pt_height x" for x :: HvPageTable by (simp add: pt_height_def)
  let ?next = "next_table_mut_or_create P A"
  show ?thesis
  proof (cases "psize page")
    case Size1G
    with call v have "retP (slot p3 (blk (Suc (Suc 0)) v mod 512)) (s, pt) = (res, (s', pt'))"
      by (simp add: create_from_p3_def table_entry_index Let_def numeral_2_eq_2)
    from create_found_here [OF ok at this] Size1G show ?thesis by (simp add: numeral_2_eq_2)
  next
    case Size2M
    with call v have c: "bindP (?next (slot p3 (blk (Suc (Suc 0)) v mod 512)))
        (\<lambda>p2. retP (slot p2 (blk (Suc 0) v mod 512))) (s, pt) = (res, (s', pt'))"
      by (simp add: create_from_p3_def table_entry_index Let_def numeral_2_eq_2)
    have "create_found P A (Suc 0) v s pt res s' pt'"
    proof (rule create_found_step [OF ok L _ at c])
      fix q s1 pt1
      assume "pt_ok P A s1 pt1" "pt_height pt1 = pt_height pt"
        "pt_tab P s1 pt1 (pt_height pt - Suc 0) (blk (Suc (Suc 0)) v) = Some q"
        "retP (slot q (blk (Suc 0) v mod 512)) (s1, pt1) = (res, (s', pt'))"
      then show "create_found P A (Suc 0) v s1 pt1 res s' pt'"
        using create_found_here [of s1 pt1 "Suc 0" v q] by simp
    qed simp
    with Size2M show ?thesis by simp
  next
    case Size4K
    with call v have c: "bindP (?next (slot p3 (blk (Suc (Suc 0)) v mod 512))) (\<lambda>p2.
        bindP (?next (slot p2 (blk (Suc 0) v mod 512)))
        (\<lambda>p1. retP (slot p1 (blk 0 v mod 512)))) (s, pt) = (res, (s', pt'))"
      by (simp add: create_from_p3_def table_entry_index Let_def numeral_2_eq_2)
    have "create_found P A 0 v s pt res s' pt'"
    proof (rule create_found_step [OF ok L _ at c])
      fix q s1 pt1
      assume ok1: "pt_ok P A s1 pt1" and h1: "pt_height pt1 = pt_height pt"
        and at1: "pt_tab P s1 pt1 (pt_height pt - Suc 0) (blk (Suc (Suc 0)) v) = Some q"
        and c1: "bindP (?next (slot q (blk (Suc 0) v mod 512)))
          (\<lambda>p1. retP (slot p1 (blk 0 v mod 512))) (s1, pt1) = (res, (s', pt'))"
      show "create_found P A 0 v s1 pt1 res s' pt'"
      proof (rule create_found_step [OF ok1 _ _ at1 [folded h1] c1])
        fix q2 s2 pt2
        assume "pt_ok P A s2 pt2" "pt_height pt2 = pt_height pt1"
          "pt_tab P s2 pt2 (pt_height pt1 - 0) (blk (Suc 0) v) = Some q2"
          "retP (slot q2 (blk 0 v mod 512)) (s2, pt2) = (res, (s', pt'))"
        then show "create_found P A 0 v s2 pt2 res s' pt'"
          using create_found_here [of s2 pt2 0 v q2] by simp
      qed (use L [of pt1] in simp_all)
    qed simp
    with Size4K show ?thesis by simp
  qed
qed

lemma get_or_create_found:
  assumes ok: "pt_ok P A s pt" and v: "v = unat (vaddr page)" and bound: "blk (Suc (pt_height pt)) v = 0"
    and call: "get_entry_mut_or_create P A page (s, pt) = (res, (s', pt'))"
  shows "create_found P A (hgt (psize page)) v s pt res s' pt'"
proof (cases "level pt = 4")
  case False
  then have h: "pt_height pt = Suc (Suc 0)" by (simp add: pt_height_def)
  with bound have "pt_tab P s pt (pt_height pt - Suc (Suc 0)) (blk (Suc (Suc (Suc 0))) v) = Some (root_paddr pt)"
    by simp
  with call False show ?thesis
    by (intro create_from_p3_found [OF ok v]) (simp_all add: get_entry_mut_or_create_split)
next
  case True
  then have h: "pt_height pt = Suc (Suc (Suc 0))" by (simp add: pt_height_def numeral_3_eq_3)
  with bound have at: "pt_tab P s pt (pt_height pt - Suc (Suc (Suc 0)))
      (blk (Suc (Suc (Suc (Suc 0)))) v) = Some (root_paddr pt)" by simp
  from call True v have c: "bindP (next_table_mut_or_create P A
      (slot (root_paddr pt) (blk (Suc (Suc (Suc 0))) v mod 512))) (create_from_p3 P A page) (s, pt) = (res, (s', pt'))"
    by (simp add: get_entry_mut_or_create_split numeral_3_eq_3)
  show ?thesis
  proof (rule create_found_step [OF ok _ _ at c])
    fix q s1 pt1
    assume "pt_ok P A s1 pt1" "pt_height pt1 = pt_height pt"
      "pt_tab P s1 pt1 (pt_height pt - Suc (Suc 0)) (blk (Suc (Suc (Suc 0))) v) = Some q"
      "create_from_p3 P A page q (s1, pt1) = (res, (s', pt'))"
    then show "create_found P A (hgt (psize page)) v s1 pt1 res s' pt'"
      by (intro create_from_p3_found [OF _ v]) simp_all
  qed (use h hgt_le [of "psize page"] in simp_all)
qed

end

section \<open>Writing a leaf\<close>

definition leaf_pte :: "pte_ops \<Rightarrow> MemFlags \<Rightarrow> PageSize \<Rightarrow> PhysAddr \<Rightarrow> u64" where
  "leaf_pte P fl z pa = set_flags P fl (PageSize_is_huge z) (set_addr P (PageSize_align_down z pa) 0)"

lemma update_entry_run: "update_entry a f (s, pt) =
    (Ok (), (s\<lparr>bytes := write_u64 (bytes s) a (f (read_u64 (bytes s) a))\<rparr>, pt))"
  by (simp add: update_entry_def)

lemma align_down_frame: "unat pa < 2 ^ 48 \<Longrightarrow> pte_frame (PageSize_align_down z pa)"
proof -
  assume "unat pa < 2 ^ 48"
  then have "unat (PageSize_align_down z pa) < 2 ^ 48" by (simp add: unat_PageSize_align_down)
  moreover have "unat (PageSize_align_down z pa) mod 4096 = 0"
  proof -
    have "2 ^ (12 + 9 * hgt z) dvd unat (PageSize_align_down z pa)"
      unfolding unat_PageSize_align_down by (simp add: dvd_minus_mod)
    moreover have "(4096 :: nat) dvd 2 ^ (12 + 9 * hgt z)" by (simp add: power_add)
    ultimately have "4096 dvd unat (PageSize_align_down z pa)" using dvd_trans by blast
    then show ?thesis by (simp add: mod_eq_0_iff_dvd)
  qed
  ultimately show ?thesis by (simp add: pte_frame_def is_aligned_iff)
qed

context hv_paging
begin

lemma leaf_pte_props:
  assumes "unat pa < 2 ^ 48"
  shows "leaf_pte P fl z pa \<noteq> 0" "is_present P (leaf_pte P fl z pa)"
    "hgt z \<noteq> 0 \<Longrightarrow> is_huge P (leaf_pte P fl z pa)"
    "pte_addr P (leaf_pte P fl z pa) = PageSize_align_down z pa"
    "pte_flags P (leaf_pte P fl z pa) = Ok (norm fl)" "leaf_ok P (leaf_pte P fl z pa)"
  using leaf_entry [OF align_down_frame [OF assms]] align_down_frame [OF assms]
  by (simp_all add: leaf_pte_def PageSize_is_huge_iff leaf_ok_def)

lemma write_local:
  assumes ok: "pt_ok P A s pt"
    and w: "leaf_write P (bytes s) (bytes s') (root_paddr pt) (pt_height pt) d r i p"
    and fa: "falloc s' = falloc s"
    and oth: "\<And>q' j. is_aligned q' \<Longrightarrow> j < 512 \<Longrightarrow> q' \<noteq> p \<Longrightarrow>
      read_u64 (bytes s') (slot q' j) = read_u64 (bytes s) (slot q' j)"
  shows "pt_ok P A s' pt" "pt_local P A s pt s' pt"
proof -
  note wf = pt_ok_wf [OF ok]
  have fr: "pt_tables P s' pt = pt_tables P s pt" by (rule write_frames [OF wf w])
  show "pt_ok P A s' pt" using ok write_wf [OF wf w] unfolding pt_ok_def fa fr by blast
  have p: "p \<in> pt_tables P s pt" using pt_framesI [OF leaf_writeD(1,2) [OF w]] .
  show "pt_local P A s pt s' pt"
    using pt_local_refl [OF ok] oth p unfolding pt_local_def fa fr by blast
qed

lemma entry_write:
  assumes ok: "pt_ok P A s pt" and d: "d \<le> pt_height pt" and at: "pt_tab P s pt d r = Some p" and i: "i < 512"
    and old: "leaf_or_unused P (pt_height pt) d (read_u64 (bytes s) (slot p i))"
    and x: "leaf_or_unused P (pt_height pt) d x"
    and s': "falloc s' = falloc s" "\<And>q j. is_aligned q \<Longrightarrow> j < 512 \<Longrightarrow> read_u64 (bytes s') (slot q j) =
      (if q = p \<and> j = i then x else read_u64 (bytes s) (slot q j))"
  shows "pt_ok P A s' pt" "pt_local P A s pt s' pt"
    "pt_leaf P s' pt h n e \<longleftrightarrow> (if h = pt_height pt - d \<and> n = r * 512 + i then e = x \<and> e \<noteq> 0 \<and> h \<le> 2
      else pt_leaf P s pt h n e)"
    "d' \<le> pt_height pt \<Longrightarrow> pt_tab P s' pt d' r' = pt_tab P s pt d' r'"
proof -
  note wf = pt_ok_wf [OF ok]
  have al: "is_aligned q" if "q \<in> pt_tables P s pt" for q using pt_frames_aligned [OF wf that] .
  have pal: "is_aligned p" using al pt_framesI [OF d at] by blast
  have rd: "read_u64 (bytes s') (slot p i) = x" using s'(2) [OF pal i] by simp
  have w: "leaf_write P (bytes s) (bytes s') (root_paddr pt) (pt_height pt) d r i p"
    unfolding leaf_write_def rd using d at i old x s'(2) al by auto
  show "pt_ok P A s' pt" "pt_local P A s pt s' pt"
    by (rule write_local [OF ok w s'(1)]; simp add: s'(2))+
  show "pt_leaf P s' pt h n e \<longleftrightarrow> (if h = pt_height pt - d \<and> n = r * 512 + i then e = x \<and> e \<noteq> 0 \<and> h \<le> 2
      else pt_leaf P s pt h n e)"
    using write_leaf [OF wf w] unfolding rd .
  show "d' \<le> pt_height pt \<Longrightarrow> pt_tab P s' pt d' r' = pt_tab P s pt d' r'" by (rule write_tab [OF wf w])
qed

end

section \<open>map\_page and unmap\_page\<close>

text \<open>
  \<open>blocked k v\<close>: why a page of height \<open>k\<close> cannot be mapped at \<open>v\<close>: a larger page covers it, it is
  mapped already, or a table of smaller pages hangs below its entry.
\<close>

definition blocked :: "pte_ops \<Rightarrow> 'b pmem \<Rightarrow> HvPageTable \<Rightarrow> nat \<Rightarrow> nat \<Rightarrow> bool" where
  "blocked P s pt k v \<longleftrightarrow> (\<exists>h e. k \<le> h \<and> pt_leaf P s pt h (blk h v) e) \<or>
     (\<exists>j. k = Suc j \<and> pt_tab P s pt (pt_height pt - j) (blk k v) \<noteq> None)"

context hv_paging
begin

lemma map_page_cases:
  assumes ok: "pt_ok P A s pt" and v: "v = unat (vaddr page)" and bound: "blk (Suc (pt_height pt)) v = 0"
    and pa: "unat pa < 2 ^ 48" and k: "k = hgt (psize page)"
    and call: "map_page P A page pa fl (s, pt) = (res, (s', pt'))"
  obtains (mapped) a where "res = Ok a" "pt_ok P A s' pt'" "pt_local P A s pt s' pt'"
      "\<And>u. blk k u = blk k v \<Longrightarrow> pt_no_leaf P s pt u"
      "\<And>h n e. pt_leaf P s' pt' h n e \<longleftrightarrow>
        (if h = k \<and> n = blk k v then e = leaf_pte P fl (psize page) pa else pt_leaf P s pt h n e)"
      "\<And>d r. d \<le> pt_height pt \<Longrightarrow> pt_tab P s' pt' d r \<noteq> None \<Longrightarrow>
        pt_tab P s pt d r \<noteq> None \<or> k \<le> pt_height pt - d \<and> r = blk (Suc (pt_height pt - d)) v"
    | (no_memory) "res = Err NoMemory" "pt_extend P A k v s pt s' pt'" "\<And>q. \<not> frame_free A (falloc s') q"
    | (conflict) err where "res = Err err" "err \<noteq> NoMemory" "pt_extend P A k v s pt s' pt'" "blocked P s pt k v"
proof -
  obtain r1 s1 pt1 where gc: "get_entry_mut_or_create P A page (s, pt) = (r1, (s1, pt1))"
    by (metis prod_cases3)
  have cf: "create_found P A k v s pt r1 s1 pt1" unfolding k by (rule get_or_create_found [OF ok v bound gc])
  then have ex: "pt_extend P A k v s pt s1 pt1" by (simp add: create_found_def)
  have ok1: "pt_ok P A s1 pt1" and loc: "pt_local P A s pt s1 pt1" using ex by (auto simp: pt_extend_def)
  have L: "pt_height pt1 = pt_height pt" using pt_local_same [OF loc] by simp
  have kL: "k \<le> pt_height pt" "k \<le> 2" using hgt_le [of "psize page"] k by (simp_all add: pt_height_def)
  from cf consider p where "r1 = Ok (slot p (blk k v mod 512))"
      "pt_tab P s1 pt1 (pt_height pt - k) (blk (Suc k) v) = Some p"
    | "r1 = Err NoMemory" "\<forall>q. \<not> frame_free A (falloc s1) q"
    | h e where "r1 = Err MappedToHugePage" "k < h" "pt_leaf P s pt h (blk h v) e"
    unfolding create_found_def by blast
  then show thesis
  proof cases
    case 2
    with call gc have "res = Err NoMemory" "s' = s1" "pt' = pt1" by (simp_all add: map_page_def bindP_def)
    with 2 ex no_memory show thesis by blast
  next
    case 3
    with call gc have "res = Err MappedToHugePage" "s' = s1" "pt' = pt1" by (simp_all add: map_page_def bindP_def)
    moreover have "blocked P s pt k v"
      unfolding blocked_def using 3 less_imp_le by blast
    ultimately show thesis using conflict ex by blast
  next
    case (1 p)
    let ?a = "slot p (blk k v mod 512)" and ?x = "leaf_pte P fl (psize page) pa"
    have idx: "blk k v mod 512 < 512" by simp
    note at = 1(2) [folded L]
    show thesis
    proof (cases "read_u64 (bytes s1) ?a = 0")
      case False
      with call gc 1 have res: "res = Err AlreadyMapped" "s' = s1" "pt' = pt1"
        by (simp_all add: map_page_def bindP_def unused_iff)
      have ent: "ent P (bytes s1) (root_paddr pt1) (pt_height pt1 - k) (blk k v) = Some (read_u64 (bytes s1) ?a)"
        by (rule ent_blk [OF at])
      have "blocked P s pt k v"
      proof (cases "k = 0 \<or> is_huge P (read_u64 (bytes s1) ?a)")
        case True
        with leaf_atI [OF at _ kL(2) refl False] kL(1) L
        have "pt_leaf P s1 pt1 k (blk k v) (read_u64 (bytes s1) ?a)" by simp
        then show ?thesis unfolding blocked_def pt_extend_leaf [OF ex] by blast
      next
        case f: False
        then obtain j where j: "k = Suc j" by (cases k) auto
        have "is_present P (read_u64 (bytes s1) ?a)"
          using pt_wf_ent [OF pt_ok_wf [OF ok1] _ ent False] by simp
        then have "pt_tab P s1 pt1 (pt_height pt1 - j) (blk k v) \<noteq> None"
          using tab_step [of "bytes s1" "root_paddr pt1" "pt_height pt1" j v p] at f kL L unfolding j by simp
        then have "pt_tab P s pt (pt_height pt - j) (blk k v) \<noteq> None"
          using pt_extend_new [OF ex diff_le_self, of j] kL(1) unfolding L j by force
        with j show ?thesis unfolding blocked_def by blast
      qed
      with res conflict ex show thesis by blast
    next
      case True
      have p1: "p \<in> pt_tables P s1 pt1" using pt_framesI [OF _ at] by simp
      have pal: "is_aligned p" by (rule pt_frames_aligned [OF pt_ok_wf [OF ok1] p1])
      from call gc 1 True have res: "res = Ok ?a" "pt' = pt1" "falloc s' = falloc s1"
        "bytes s' = write_u64 (write_u64 (bytes s1) ?a (set_addr P (PageSize_align_down (psize page) pa) 0)) ?a ?x"
        by (auto simp: map_page_def bindP_def unused_iff update_entry_run leaf_pte_def read_write_same)
      have rd: "read_u64 (bytes s') (slot q j) = (if q = p \<and> j = blk k v mod 512 then ?x
          else read_u64 (bytes s1) (slot q j))" if "is_aligned q" "j < 512" for q j
        unfolding res using that pal by (simp add: read_slot_write_slot)
      have hk: "pt_height pt1 - (pt_height pt1 - k) = k" using kL L by simp
      have old: "leaf_or_unused P (pt_height pt1) (pt_height pt1 - k) (read_u64 (bytes s1) ?a)"
        using True by (simp add: leaf_or_unused_def)
      have new: "leaf_or_unused P (pt_height pt1) (pt_height pt1 - k) ?x"
        unfolding leaf_or_unused_def hk using leaf_pte_props [OF pa] kL L k by (cases "hgt (psize page) = 0") auto
      note ew = entry_write [OF ok1 diff_le_self at idx old new res(3) rd]
      have free: "pt_no_leaf P s pt u" if "blk k u = blk k v" for u
      proof -
        have "blk (Suc k) u = blk (Suc k) v" using that by (simp flip: blk_div)
        then have "pt_no_leaf P s1 pt1 u"
          by (intro no_leafI [where p = p and h = k]) (use at kL L that True in simp_all)
        then show ?thesis by (simp add: no_leaf_def pt_extend_leaf [OF ex])
      qed
      have leaf: "pt_leaf P s' pt1 h n e \<longleftrightarrow> (if h = k \<and> n = blk k v then e = ?x else pt_leaf P s pt h n e)"
        for h n e
        using ew(3) leaf_pte_props(1) [OF pa] kL unfolding hk blk_split pt_extend_leaf [OF ex] by auto
      have tabs: "pt_tab P s pt d r \<noteq> None \<or> k \<le> pt_height pt - d \<and> r = blk (Suc (pt_height pt - d)) v"
        if "d \<le> pt_height pt" "pt_tab P s' pt1 d r \<noteq> None" for d r
        using that ew(4) [of d r] ex unfolding L pt_extend_def by simp
      show thesis
        using mapped [OF res(1)] ew(1,2) pt_local_trans [OF loc] free leaf tabs unfolding res(2) by blast
    qed
  qed
qed

end

end
