(* ===== verification/Hv_PtMap.thy ===== *)
theory Hv_PtMap
  imports Hv_PtOps
begin

unbundle bit_operations_syntax

text \<open>
  Mapping and unmapping a region. The pages that \<open>map\<close> chooses tile the region; afterwards the
  table translates every address of the region with the region's mapper and every other address
  as before. \<open>unmap\<close> takes a tiled region out again.
\<close>

section \<open>Blocks of a range\<close>

definition bsz :: "nat \<Rightarrow> nat" where
  "bsz h = 2 ^ (12 + 9 * h)"

lemma bsz_pos: "0 < bsz h"
  by (simp add: bsz_def)

lemma bsz_page: "bsz h mod 4096 = 0"
  by (simp add: bsz_def power_add)

lemma bsz_0: "bsz 0 = 4096"
  by (simp add: bsz_def)

lemma blk_bsz: "blk h u = u div bsz h"
  by (simp add: blk_def bsz_def)

lemma aligned_bsz: "PageSize_is_aligned z a \<longleftrightarrow> unat a mod bsz (hgt z) = 0"
  by (simp add: PageSize_is_aligned_iff bsz_def)

lemma page_bytes_bsz: "unat (page_bytes z) = bsz (hgt z)"
  by (simp add: unat_page_bytes bsz_def)

lemma blk_bounds: "blk h u * bsz h \<le> u" "u < blk h u * bsz h + bsz h"
proof -
  have "u = u div bsz h * bsz h + u mod bsz h" by (rule div_mult_mod_eq [symmetric])
  moreover have "u mod bsz h < bsz h" using bsz_pos by simp
  ultimately show "blk h u * bsz h \<le> u" "u < blk h u * bsz h + bsz h"
    unfolding blk_bsz by linarith+
qed

lemma blk_eqI: "n * bsz h \<le> u \<Longrightarrow> u < n * bsz h + bsz h \<Longrightarrow> blk h u = n"
  unfolding blk_bsz by (intro div_nat_eqI) (auto simp: mult.commute)

lemma blk_start: "a mod bsz h = 0 \<Longrightarrow> blk h a * bsz h = a"
  unfolding blk_bsz by (metis add.right_neutral div_mult_mod_eq)

lemma blk_aligned_iff:
  assumes "a mod bsz h = 0"
  shows "blk h u = blk h a \<longleftrightarrow> a \<le> u \<and> u < a + bsz h"
proof
  assume "blk h u = blk h a"
  with blk_bounds [where h = h and u = u] blk_start [OF assms] show "a \<le> u \<and> u < a + bsz h" by simp
next
  assume "a \<le> u \<and> u < a + bsz h"
  then show "blk h u = blk h a"
    by (intro blk_eqI) (use blk_start [OF assms] in simp_all)
qed

text \<open>A leaf that maps a block inside \<open>[a, b)\<close> the way \<open>region\<close> says.\<close>

definition region_leaf ::
  "pte_ops \<Rightarrow> MemoryRegion \<Rightarrow> nat \<Rightarrow> nat \<Rightarrow> nat \<Rightarrow> nat \<Rightarrow> u64 \<Rightarrow> bool" where
  "region_leaf P region a b h n e \<longleftrightarrow> h \<le> 2 \<and> a \<le> n * bsz h \<and> n * bsz h + bsz h \<le> b \<and>
     (h \<noteq> 0 \<longrightarrow> PageSize_is_aligned (psz h) (map_fn (mapper region) (of_nat (n * bsz h)))) \<and>
     e = leaf_pte P (flags region) (psz h) (map_fn (mapper region) (of_nat (n * bsz h)))"

text \<open>Nothing in the way of mapping \<open>[a, b)\<close>: no leaf, and no table below a block of it.\<close>

definition clear_range :: "pte_ops \<Rightarrow> 'b pmem \<Rightarrow> HvPageTable \<Rightarrow> nat \<Rightarrow> nat \<Rightarrow> bool" where
  "clear_range P s pt a b \<longleftrightarrow> (\<forall>u. a \<le> u \<and> u < b \<longrightarrow> pt_no_leaf P s pt u) \<and>
     (\<forall>j n. j < 2 \<and> a \<le> n * bsz (Suc j) \<and> n * bsz (Suc j) + bsz (Suc j) \<le> b \<longrightarrow>
        pt_tab P s pt (pt_height pt - j) n = None)"

lemma clear_not_blocked:
  assumes "clear_range P s pt a b" "k \<le> 2" "a \<le> v" "v mod bsz k = 0" "v + bsz k \<le> b"
  shows "\<not> blocked P s pt k v"
proof -
  have "v < b" using assms(5) bsz_pos [of k] by linarith
  then have nl: "pt_no_leaf P s pt v" using assms(1,3) by (simp add: clear_range_def)
  have "pt_tab P s pt (pt_height pt - j) (blk k v) = None" if "k = Suc j" for j
    using assms blk_start [OF assms(4)] unfolding clear_range_def that by auto
  with nl show ?thesis unfolding blocked_def no_leaf_def by auto
qed

definition map_post ::
  "pte_ops \<Rightarrow> 'b bitalloc \<Rightarrow> MemoryRegion \<Rightarrow> nat \<Rightarrow> nat \<Rightarrow> 'b pmem \<Rightarrow> HvPageTable \<Rightarrow> (HvErrorNum, unit) outcome
    \<Rightarrow> 'b pmem \<Rightarrow> HvPageTable \<Rightarrow> bool" where
  "map_post P A region a b s pt res s' pt' \<longleftrightarrow>
     pt_ok P A s' pt' \<and> pt_local P A s pt s' pt' \<and>
     (\<forall>h n e. pt_leaf P s pt h n e \<longrightarrow> pt_leaf P s' pt' h n e) \<and>
     (\<forall>h n e. pt_leaf P s' pt' h n e \<longrightarrow> pt_leaf P s pt h n e \<or> region_leaf P region a b h n e) \<and>
     (\<forall>d r. d \<le> pt_height pt \<longrightarrow> pt_tab P s' pt' d r \<noteq> None \<longrightarrow> pt_tab P s pt d r \<noteq> None \<or>
        (\<exists>u. a \<le> u \<and> u < b \<and> r = blk (Suc (pt_height pt - d)) u)) \<and>
     (res = Ok () \<and> (\<forall>u. a \<le> u \<and> u < b \<longrightarrow> pt_no_leaf P s pt u \<and>
          (\<exists>h e. pt_leaf P s' pt' h (blk h u) e \<and> region_leaf P region a b h (blk h u) e)) \<or>
      res = Err ENOMEM \<and> (\<forall>q. \<not> frame_free A (falloc s') q) \<or>
      res = Err EFAULT \<and> \<not> clear_range P s pt a b)"

section \<open>The mapping loop\<close>

lemma choose_size_props:
  assumes "z = choose_size region v pa left" "unat v mod 4096 = 0" "unat left mod 4096 = 0" "left \<noteq> 0"
  shows "unat v mod bsz (hgt z) = 0" "bsz (hgt z) \<le> unat left"
    "hgt z \<noteq> 0 \<longrightarrow> PageSize_is_aligned z pa" "PageSize_is_aligned z v"
proof -
  have "4096 \<le> unat left" using assms(3,4) by (metis mod_less not_le unat_eq_zero)
  then show "unat v mod bsz (hgt z) = 0" "bsz (hgt z) \<le> unat left"
    "hgt z \<noteq> 0 \<longrightarrow> PageSize_is_aligned z pa" "PageSize_is_aligned z v"
    using assms(1,2)
    by (auto simp: choose_size_def aligned_bsz bsz_0 word_le_nat_alt page_bytes_bsz simp del: page_bytes.simps
        split: if_splits)
qed


lemma region_leaf_mono: "region_leaf P region a' b h n e \<Longrightarrow> a \<le> a' \<Longrightarrow> region_leaf P region a b h n e"
  by (auto simp: region_leaf_def)

lemma region_leaf_page:
  assumes "unat v mod bsz (hgt z) = 0" "unat v + bsz (hgt z) \<le> b" "a \<le> unat v"
    "hgt z \<noteq> 0 \<longrightarrow> PageSize_is_aligned z (map_fn (mapper region) v)"
  shows "region_leaf P region a b (hgt z) (blk (hgt z) (unat v))
    (leaf_pte P (flags region) z (map_fn (mapper region) v))"
  using assms hgt_le [of z] by (simp add: region_leaf_def blk_start)

context hv_paging
begin

lemma clear_range_step:
  assumes c: "clear_range P s pt v b" and v: "v mod bsz k = 0" and same: "pt_height pt' = pt_height pt"
    and leaf: "\<And>h n e. pt_leaf P s' pt' h n e \<longleftrightarrow> (if h = k \<and> n = blk k v then e = x else pt_leaf P s pt h n e)"
    and tabs: "\<And>d r. d \<le> pt_height pt \<Longrightarrow> pt_tab P s' pt' d r \<noteq> None \<Longrightarrow>
      pt_tab P s pt d r \<noteq> None \<or> k \<le> pt_height pt - d \<and> r = blk (Suc (pt_height pt - d)) v"
  shows "clear_range P s' pt' (v + bsz k) b"
  unfolding clear_range_def
proof (intro conjI allI impI)
  fix u assume u: "v + bsz k \<le> u \<and> u < b"
  then have "blk k u \<noteq> blk k v" using blk_aligned_iff [OF v, of u] by linarith
  moreover have "pt_no_leaf P s pt u" using c u by (simp add: clear_range_def)
  ultimately show "pt_no_leaf P s' pt' u" unfolding no_leaf_def leaf by auto
next
  fix j n assume n: "j < 2 \<and> v + bsz k \<le> n * bsz (Suc j) \<and> n * bsz (Suc j) + bsz (Suc j) \<le> b"
  have L: "2 \<le> pt_height pt" by (simp add: pt_height_def)
  have "pt_tab P s pt (pt_height pt - j) n = None" using c n by (simp add: clear_range_def)
  moreover have "n \<noteq> blk (Suc j) v"
  proof
    assume "n = blk (Suc j) v"
    then have "n * bsz (Suc j) \<le> v" using blk_bounds(1) by simp
    with n bsz_pos [of k] show False by linarith
  qed
  moreover have "Suc (pt_height pt - (pt_height pt - j)) = Suc j" using n L by simp
  ultimately show "pt_tab P s' pt' (pt_height pt' - j) n = None"
    using tabs [OF diff_le_self, of j n] unfolding same
    by (cases "pt_tab P s' pt' (pt_height pt - j) n") auto
qed

lemma map_post_extend:
  assumes ex: "pt_extend P A k v s pt s' pt'"
  shows "v < b \<Longrightarrow> pt_ok P A s' pt' \<and> pt_local P A s pt s' pt' \<and>
     (\<forall>h n e. pt_leaf P s pt h n e \<longrightarrow> pt_leaf P s' pt' h n e) \<and>
     (\<forall>h n e. pt_leaf P s' pt' h n e \<longrightarrow> pt_leaf P s pt h n e \<or> region_leaf P region v b h n e) \<and>
     (\<forall>d r. d \<le> pt_height pt \<longrightarrow> pt_tab P s' pt' d r \<noteq> None \<longrightarrow> pt_tab P s pt d r \<noteq> None \<or>
        (\<exists>u. v \<le> u \<and> u < b \<and> r = blk (Suc (pt_height pt - d)) u))"
  using pt_extendD [OF ex] pt_extend_leaf [OF ex] pt_extend_new [OF ex] by blast

lemma map_post_step:
  assumes loc: "pt_local P A s pt s1 pt1"
    and free: "\<And>u. blk k u = blk k v \<Longrightarrow> pt_no_leaf P s pt u"
    and leaf: "\<And>h n e. pt_leaf P s1 pt1 h n e \<longleftrightarrow> (if h = k \<and> n = blk k v then e = x else pt_leaf P s pt h n e)"
    and tabs: "\<And>d r. d \<le> pt_height pt \<Longrightarrow> pt_tab P s1 pt1 d r \<noteq> None \<Longrightarrow>
      pt_tab P s pt d r \<noteq> None \<or> k \<le> pt_height pt - d \<and> r = blk (Suc (pt_height pt - d)) v"
    and v: "v mod bsz k = 0" and k: "k \<le> 2" and b: "v + bsz k \<le> b"
    and new: "region_leaf P region v b k (blk k v) x"
    and rest: "map_post P A region (v + bsz k) b s1 pt1 res s' pt'"
  shows "map_post P A region v b s pt res s' pt'"
proof -
  note rest' = rest [unfolded map_post_def]
  have same: "pt_height pt1 = pt_height pt" using pt_local_same [OF loc] by simp
  have vb: "v < b" using b bsz_pos [of k] by linarith
  have old: "\<not> pt_leaf P s pt k (blk k v) e" for e using free [of v] unfolding no_leaf_def by blast
  have up: "pt_leaf P s' pt' h n e" if "pt_leaf P s pt h n e" for h n e
    using that old leaf rest' by metis
  have down: "pt_leaf P s pt h n e \<or> region_leaf P region v b h n e" if lf: "pt_leaf P s' pt' h n e" for h n e
  proof -
    from lf rest' consider "pt_leaf P s1 pt1 h n e" | "region_leaf P region (v + bsz k) b h n e" by blast
    then show ?thesis
    proof cases
      case 1
      with leaf new show ?thesis by (auto split: if_splits)
    next
      case 2
      then show ?thesis using region_leaf_mono [OF 2, of v] by simp
    qed
  qed
  have tb: "pt_tab P s pt d r \<noteq> None \<or> (\<exists>u. v \<le> u \<and> u < b \<and> r = blk (Suc (pt_height pt - d)) u)"
    if "d \<le> pt_height pt" "pt_tab P s' pt' d r \<noteq> None" for d r
  proof -
    from rest' [unfolded same] that consider "pt_tab P s1 pt1 d r \<noteq> None"
      | u where "v + bsz k \<le> u" "u < b" "r = blk (Suc (pt_height pt - d)) u" by blast
    then show ?thesis
    proof cases
      case 1
      with tabs [OF that(1)] vb show ?thesis by blast
    next
      case 2
      then have "v \<le> u" by simp
      with 2 show ?thesis by blast
    qed
  qed
  have covered: "pt_no_leaf P s pt u \<and>
      (\<exists>h e. pt_leaf P s' pt' h (blk h u) e \<and> region_leaf P region v b h (blk h u) e)"
    if ok: "\<forall>u. v + bsz k \<le> u \<and> u < b \<longrightarrow> pt_no_leaf P s1 pt1 u \<and>
        (\<exists>h e. pt_leaf P s' pt' h (blk h u) e \<and> region_leaf P region (v + bsz k) b h (blk h u) e)"
      and u: "v \<le> u \<and> u < b" for u
  proof (cases "u < v + bsz k")
    case True
    then have eq: "blk k u = blk k v" using blk_aligned_iff [OF v] u by blast
    have "pt_leaf P s1 pt1 k (blk k v) x" using leaf by simp
    then have "pt_leaf P s' pt' k (blk k u) x" using rest' eq by metis
    with new eq free [OF eq] show ?thesis by metis
  next
    case False
    with ok u have nl: "pt_no_leaf P s1 pt1 u"
      and "\<exists>h e. pt_leaf P s' pt' h (blk h u) e \<and> region_leaf P region (v + bsz k) b h (blk h u) e" by auto
    then have "\<exists>h e. pt_leaf P s' pt' h (blk h u) e \<and> region_leaf P region v b h (blk h u) e"
      using region_leaf_mono [of P region "v + bsz k" b _ _ _ v] le_add1 by blast
    moreover have "pt_no_leaf P s pt u"
      using nl leaf old unfolding no_leaf_def by metis
    ultimately show ?thesis by blast
  qed
  have step: "clear_range P s pt v b \<Longrightarrow> clear_range P s1 pt1 (v + bsz k) b"
    by (rule clear_range_step [OF _ v same leaf tabs])
  have "pt_ok P A s' pt'" and "pt_local P A s pt s' pt'"
    using rest' pt_local_trans [OF loc, of s' pt'] by blast+
  moreover have "res = Ok () \<and> (\<forall>u. v \<le> u \<and> u < b \<longrightarrow> pt_no_leaf P s pt u \<and>
          (\<exists>h e. pt_leaf P s' pt' h (blk h u) e \<and> region_leaf P region v b h (blk h u) e)) \<or>
      res = Err ENOMEM \<and> (\<forall>q. \<not> frame_free A (falloc s') q) \<or>
      res = Err EFAULT \<and> \<not> clear_range P s pt v b"
  proof -
    from rest' consider (ok) "res = Ok ()" "\<forall>u. v + bsz k \<le> u \<and> u < b \<longrightarrow> pt_no_leaf P s1 pt1 u \<and>
        (\<exists>h e. pt_leaf P s' pt' h (blk h u) e \<and> region_leaf P region (v + bsz k) b h (blk h u) e)"
      | (mem) "res = Err ENOMEM" "\<forall>q. \<not> frame_free A (falloc s') q"
      | (bad) "res = Err EFAULT" "\<not> clear_range P s1 pt1 (v + bsz k) b" by blast
    then show ?thesis
    proof cases
      case ok
      with covered [OF ok(2)] show ?thesis by blast
    qed (use step in blast)+
  qed
  ultimately show ?thesis unfolding map_post_def using up down tb by blast
qed

lemma map_loop_post:
  assumes "pt_ok P A s pt" "unat v mod 4096 = 0" "unat left mod 4096 = 0"
    "unat v + unat left \<le> bsz (Suc (pt_height pt))"
    "\<And>u. unat v \<le> u \<Longrightarrow> u < unat v + unat left \<Longrightarrow> u mod 4096 = 0 \<Longrightarrow> unat (map_fn (mapper region) (of_nat u)) < 2 ^ 48"
    "map_loop P A region v left (s, pt) = (res, (s', pt'))"
  shows "map_post P A region (unat v) (unat v + unat left) s pt res s' pt'"
  using assms
proof (induction "unat left" arbitrary: v left s pt rule: less_induct)
  case less
  note ok = less.prems(1) and av = less.prems(2) and al = less.prems(3) and bound = less.prems(4)
    and pa_ok = less.prems(5) and call = less.prems(6)
  show ?case
  proof (cases "left = 0")
    case True
    with call have "res = Ok ()" "s' = s" "pt' = pt" by (simp_all add: map_loop.simps)
    with True ok pt_local_refl [OF ok] show ?thesis unfolding map_post_def by simp linarith
  next
    case False
    define pa where "pa = map_fn (mapper region) v"
    define z where "z = choose_size region v pa left"
    define k where "k = hgt z"
    define page where "page = \<lparr>vaddr = v, psize = z\<rparr>"
    note z = choose_size_props [OF z_def av al False, folded k_def]
    have k2: "k \<le> 2" unfolding k_def by (rule hgt_le)
    have lim: "bsz (Suc (pt_height pt)) \<le> 2 ^ 48" by (simp add: pt_height_def bsz_def)
    have vb: "unat v < bsz (Suc (pt_height pt))" using z(2) bound bsz_pos [of k] by linarith
    have bz: "unat (page_bytes z) = bsz k" by (simp add: page_bytes_bsz k_def)
    have v': "unat (v + page_bytes z) = unat v + bsz k"
      using bz z(2) bound lim by (subst unat_add_exact) auto
    have left': "unat (left - page_bytes z) = unat left - bsz k"
      using bz z(2) by (simp add: unat_sub word_le_nat_alt)
    have pa48: "unat pa < 2 ^ 48"
      using pa_ok [of "unat v"] av z(2) bsz_pos [of k] unfolding pa_def by simp
    have vin: "unat v < unat v + unat left" using z(2) bsz_pos [of k] by linarith
    have vpage: "unat v = unat (vaddr page)" "k = hgt (psize page)" by (simp_all add: page_def k_def)
    have top: "blk (Suc (pt_height pt)) (unat v) = 0" using vb by (simp add: blk_bsz)
    obtain r1 s1 pt1 where mp: "map_page P A page pa (flags region) (s, pt) = (r1, (s1, pt1))"
      by (metis prod_cases3)
    have pg: "Page_new_aligned v z = (Ok page :: (HvErrorNum, _) outcome)"
      using z(4) by (simp add: Page_new_aligned_def page_def)
    have av': "add_chk v (page_bytes z) = (Ok (v + page_bytes z) :: (HvErrorNum, _) outcome)"
      unfolding add_chk_Ok_iff using bz z(2) bound lim by simp
    have sl': "sub_chk left (page_bytes z) = (Ok (left - page_bytes z) :: (HvErrorNum, _) outcome)"
      unfolding sub_chk_Ok_iff using bz z(2) by simp
    have run: "map_loop P A region v left (s, pt) = (case r1 of
        Ok _ \<Rightarrow> map_loop P A region (v + page_bytes z) (left - page_bytes z) (s1, pt1)
      | Err e \<Rightarrow> (Err (hv_error_from_paging e), (s1, pt1)) | Panic \<Rightarrow> (Panic, (s1, pt1))
      | Hang \<Rightarrow> (Hang, (s1, pt1)) | Fault \<Rightarrow> (Fault, (s1, pt1)))"
      by (subst map_loop.simps)
        (use False mp in \<open>simp add: Let_def pa_def [symmetric] z_def [symmetric] pg av' sl' bindP_def map_errP_def
          split: outcome.splits\<close>)
    show ?thesis
    proof (cases rule: map_page_cases [OF ok vpage(1) top pa48 vpage(2) mp])
      case (1 a)
      have same: "pt_height pt1 = pt_height pt" using pt_local_same [OF 1(3)] by simp
      have sum: "unat (v + page_bytes z) + unat (left - page_bytes z) = unat v + unat left"
        using v' left' z(2) by simp
      have rest: "map_post P A region (unat (v + page_bytes z)) (unat (v + page_bytes z) + unat (left - page_bytes z))
          s1 pt1 res s' pt'"
      proof (rule less.hyps [OF _ 1(2)])
        show "unat (left - page_bytes z) < unat left" using left' z(2) bsz_pos [of k] by linarith
        show "unat (v + page_bytes z) mod 4096 = 0" unfolding v' by (rule mod_page_add [OF av bsz_page])
        show "unat (left - page_bytes z) mod 4096 = 0" unfolding left' by (rule mod_diff_zero [OF al bsz_page])
        show "unat (v + page_bytes z) + unat (left - page_bytes z) \<le> bsz (Suc (pt_height pt1))"
          unfolding sum same by (rule bound)
        show "unat (map_fn (mapper region) (of_nat u)) < 2 ^ 48"
          if "unat (v + page_bytes z) \<le> u" "u < unat (v + page_bytes z) + unat (left - page_bytes z)" "u mod 4096 = 0" for u
          using pa_ok [of u] that [unfolded sum] v' by simp
        show "map_loop P A region (v + page_bytes z) (left - page_bytes z) (s1, pt1) = (res, (s', pt'))"
          using run call 1(1) by simp
      qed
      have new: "region_leaf P region (unat v) (unat v + unat left) k (blk k (unat v))
          (leaf_pte P (flags region) z (map_fn (mapper region) v))"
        unfolding k_def by (rule region_leaf_page) (use z in \<open>simp_all add: k_def pa_def\<close>)
      have "unat v + bsz k \<le> unat v + unat left" using z(2) by simp
      from map_post_step [OF 1(3,4,5,6) z(1) k2 this _ rest [unfolded sum, unfolded v']] new
      show ?thesis by (simp add: page_def pa_def)
    next
      case 2
      with run call have "res = Err ENOMEM" "s' = s1" "pt' = pt1" by simp_all
      with 2 map_post_extend [OF 2(2) vin, of region] show ?thesis unfolding map_post_def by blast
    next
      case (3 err)
      then have "hv_error_from_paging err = EFAULT" by (cases err) simp_all
      with 3 run call have "res = Err EFAULT" "s' = s1" "pt' = pt1" by simp_all
      moreover have "\<not> clear_range P s pt (unat v) (unat v + unat left)"
        using clear_not_blocked [of P s pt "unat v" "unat v + unat left" k "unat v"] k2 z(1,2) 3(4) by auto
      ultimately show ?thesis using map_post_extend [OF 3(3) vin, of region] unfolding map_post_def by blast
    qed
  qed
qed

end

section \<open>Unmapping\<close>

text \<open>\<open>[a, b)\<close> is mapped by blocks that do not stick out of it.\<close>

definition tiled :: "pte_ops \<Rightarrow> 'b pmem \<Rightarrow> HvPageTable \<Rightarrow> nat \<Rightarrow> nat \<Rightarrow> bool" where
  "tiled P s pt a b \<longleftrightarrow> (\<forall>u. a \<le> u \<and> u < b \<longrightarrow>
     (\<exists>h e. pt_leaf P s pt h (blk h u) e \<and> a \<le> blk h u * bsz h \<and> blk h u * bsz h + bsz h \<le> b))"

context hv_paging
begin

lemma unmap_page_leaf:
  assumes ok: "pt_ok P A s pt" and bound: "blk (Suc (pt_height pt)) (unat v) = 0"
    and lf: "pt_leaf P s pt h (blk h (unat v)) e"
  obtains s' where "unmap_page P v (s, pt) = (Ok (pte_addr P e, psz h), (s', pt))"
    "pt_ok P A s' pt" "pt_local P A s pt s' pt"
    "\<And>h' n e'. pt_leaf P s' pt h' n e' \<longleftrightarrow> pt_leaf P s pt h' n e' \<and> \<not> (h' = h \<and> n = blk h (unat v))"
proof -
  let ?L = "pt_height pt" and ?b = "blk h (unat v)"
  note wf = pt_ok_wf [OF ok]
  have h: "h \<le> 2" "h \<le> ?L" using lf by (auto simp: leaf_at_def)
  from get_entry_mut_cases [OF wf bound] lf obtain h' p where
    ge: "get_entry_mut P pt v (bytes s) = Ok (slot p (blk h' (unat v) mod 512), psz h')"
    and wf': "walk_found P (bytes s) (root_paddr pt) ?L (unat v) h' p"
    by (metis no_leaf_def)
  have at': "pt_leaf P s pt h' (blk h' (unat v)) (read_u64 (bytes s) (slot p (blk h' (unat v) mod 512)))"
    using wf' lf by (auto simp: walk_found_def no_leaf_def Let_def)
  with leaf_level_unique [OF lf at'] have hh: "h' = h"
    and rd: "read_u64 (bytes s) (slot p (?b mod 512)) = e" by auto
  have at: "pt_tab P s pt (?L - h) (blk (Suc h) (unat v)) = Some p"
    using wf' hh by (simp add: walk_found_def)
  have e: "e \<noteq> 0" "?L - (?L - h) = h" using lf h by (auto simp: leaf_at_def)
  have lu: "leaf_or_unused P ?L (?L - h) e"
    using pt_wf_ent [OF wf _ _ e(1), of "?L - h" ?b] lf h by (auto simp: leaf_at_def leaf_or_unused_def)
  define s' where "s' = s\<lparr>bytes := write_u64 (bytes s) (slot p (?b mod 512)) 0\<rparr>"
  have pal: "is_aligned p" using pt_frames_aligned [OF wf pt_framesI [OF _ at]] by simp
  have run: "unmap_page P v (s, pt) = (Ok (pte_addr P e, psz h), (s', pt))"
    using ge hh rd e(1) by (simp add: unmap_page_def unused_iff update_entry_run bindP_def clear_0 s'_def)
  have idx: "?b mod 512 < 512" by simp
  have fa: "falloc s' = falloc s" by (simp add: s'_def)
  have rd': "read_u64 (bytes s') (slot q j) = (if q = p \<and> j = ?b mod 512 then 0 else read_u64 (bytes s) (slot q j))"
    if "is_aligned q" "j < 512" for q j
    unfolding s'_def using that pal by (simp add: read_slot_write_slot)
  have un: "leaf_or_unused P ?L (?L - h) 0" by (simp add: leaf_or_unused_def)
  note ew = entry_write [OF ok diff_le_self at idx lu [folded rd] un fa rd']
  show thesis
  proof (rule that [OF run ew(1,2)])
    fix h' n e'
    show "pt_leaf P s' pt h' n e' \<longleftrightarrow> pt_leaf P s pt h' n e' \<and> \<not> (h' = h \<and> n = blk h (unat v))"
      using ew(3) [unfolded e(2) blk_split, of h' n e'] by auto
  qed
qed

lemma unmap_page_none:
  assumes ok: "pt_ok P A s pt" and bound: "blk (Suc (pt_height pt)) (unat v) = 0"
    and nl: "pt_no_leaf P s pt (unat v)"
  shows "unmap_page P v (s, pt) = (Err NotMapped, (s, pt))"
proof (cases rule: get_entry_mut_cases [OF pt_ok_wf [OF ok] bound])
  case (1 h p)
  then have "read_u64 (bytes s) (slot p (blk h (unat v) mod 512)) = 0"
    using nl by (auto simp: walk_found_def no_leaf_def Let_def)
  with 1 show ?thesis by (simp add: unmap_page_def unused_iff bindP_def)
next
  case 2
  then show ?thesis by (simp add: unmap_page_def bindP_def)
qed

lemma tiled_first:
  assumes "tiled P s pt a b" "a < b"
  obtains h e where "pt_leaf P s pt h (blk h a) e" "a mod bsz h = 0" "a + bsz h \<le> b" "h \<le> 2"
proof -
  from assms obtain h e where lf: "pt_leaf P s pt h (blk h a) e" and "a \<le> blk h a * bsz h"
    and hi: "blk h a * bsz h + bsz h \<le> b" unfolding tiled_def by blast
  with blk_bounds(1) [where h = h and u = a] have "blk h a * bsz h = a" by linarith
  then have "a mod bsz h = 0" by (metis mod_mult_self2_is_0)
  moreover have "h \<le> 2" using lf by (simp add: leaf_at_def)
  ultimately show thesis using that lf hi \<open>blk h a * bsz h = a\<close> by metis
qed

lemma tiled_rest:
  assumes t: "tiled P s pt a b" and a: "a mod bsz h = 0" "pt_leaf P s pt h (blk h a) e"
    and leaf: "\<And>h' n e'. pt_leaf P s' pt h' n e' \<longleftrightarrow> pt_leaf P s pt h' n e' \<and> \<not> (h' = h \<and> n = blk h a)"
  shows "tiled P s' pt (a + bsz h) b"
  unfolding tiled_def
proof (intro allI impI)
  fix u assume u: "a + bsz h \<le> u \<and> u < b"
  then have "a \<le> u \<and> u < b" by simp
  with t obtain h' e' where lf: "pt_leaf P s pt h' (blk h' u) e'" and lo: "a \<le> blk h' u * bsz h'"
    and hi: "blk h' u * bsz h' + bsz h' \<le> b" unfolding tiled_def by blast
  have ne: "\<not> (h' = h \<and> blk h' u = blk h a)" using blk_aligned_iff [OF a(1)] u by auto
  have "a + bsz h \<le> blk h' u * bsz h'"
  proof (rule ccontr)
    let ?w = "blk h' u * bsz h'"
    assume "\<not> a + bsz h \<le> ?w"
    then have "blk h ?w = blk h a" using blk_aligned_iff [OF a(1)] lo by simp
    then have "pt_leaf P s pt h (blk h ?w) e" using a(2) by simp
    moreover have "blk h' ?w = blk h' u" using bsz_pos by (simp add: blk_bsz)
    then have "pt_leaf P s pt h' (blk h' ?w) e'" using lf by simp
    ultimately have "h' = h" using leaf_level_unique by blast
    with ne \<open>blk h ?w = blk h a\<close> \<open>blk h' ?w = blk h' u\<close> show False by simp
  qed
  moreover have "pt_leaf P s' pt h' (blk h' u) e'" using lf ne by (simp add: leaf)
  ultimately show "\<exists>h'' e. pt_leaf P s' pt h'' (blk h'' u) e \<and> a + bsz h \<le> blk h'' u * bsz h'' \<and>
      blk h'' u * bsz h'' + bsz h'' \<le> b" using hi by (intro exI [of _ h'] exI [of _ e'] conjI)
qed

lemma unmap_loop_post:
  assumes "pt_ok P A s pt" "tiled P s pt (unat v) (unat v + unat left)"
    "unat v + unat left \<le> bsz (Suc (pt_height pt))"
  shows "\<exists>s'. unmap_loop P v left (s, pt) = (Ok (), (s', pt)) \<and> pt_ok P A s' pt \<and> pt_local P A s pt s' pt \<and>
    (\<forall>h n e. pt_leaf P s' pt h n e \<longleftrightarrow> pt_leaf P s pt h n e \<and>
       \<not> (unat v \<le> n * bsz h \<and> n * bsz h < unat v + unat left))"
  using assms
proof (induction "unat left" arbitrary: v left s rule: less_induct)
  case less
  note ok = less.prems(1) and t = less.prems(2) and bound = less.prems(3)
  show ?case
  proof (cases "left = 0")
    case True
    then have "unmap_loop P v left (s, pt) = (Ok (), (s, pt))" by (simp add: unmap_loop.simps)
    with True ok pt_local_refl [OF ok] show ?thesis by auto
  next
    case False
    then have "unat v < unat v + unat left" by (simp add: unat_gt_0)
    from tiled_first [OF t this] obtain h e where lf: "pt_leaf P s pt h (blk h (unat v)) e"
      and av: "unat v mod bsz h = 0" and hb: "unat v + bsz h \<le> unat v + unat left" and h: "h \<le> 2" by blast
    have lim: "bsz (Suc (pt_height pt)) \<le> 2 ^ 48" by (simp add: pt_height_def bsz_def)
    have top: "blk (Suc (pt_height pt)) (unat v) = 0"
      using hb bound bsz_pos [of h] by (simp add: blk_bsz)
    obtain s1 where run1: "unmap_page P v (s, pt) = (Ok (pte_addr P e, psz h), (s1, pt))"
      and ok1: "pt_ok P A s1 pt" and loc1: "pt_local P A s pt s1 pt"
      and leaf1: "\<And>h' n e'. pt_leaf P s1 pt h' n e' \<longleftrightarrow> pt_leaf P s pt h' n e' \<and> \<not> (h' = h \<and> n = blk h (unat v))"
      using unmap_page_leaf [OF ok top lf] by blast
    let ?z = "psz h"
    have bz: "unat (page_bytes ?z) = bsz h" using h by (simp add: page_bytes_bsz)
    have v': "unat (v + page_bytes ?z) = unat v + bsz h"
      using bz hb bound lim by (subst unat_add_exact) auto
    have left': "unat (left - page_bytes ?z) = unat left - bsz h"
      using bz hb by (simp add: unat_sub word_le_nat_alt)
    have sum: "unat (v + page_bytes ?z) + unat (left - page_bytes ?z) = unat v + unat left"
      using v' left' hb by simp
    have al: "PageSize_is_aligned ?z v" using av h by (simp add: aligned_bsz)
    have chk: "add_chk v (page_bytes ?z) = (Ok (v + page_bytes ?z) :: (HvErrorNum, _) outcome)"
      "sub_chk left (page_bytes ?z) = (Ok (left - page_bytes ?z) :: (HvErrorNum, _) outcome)"
      "page_bytes ?z \<le> left"
      using bz hb bound lim by (simp_all add: add_chk_Ok_iff sub_chk_Ok_iff word_le_nat_alt)
    have run: "unmap_loop P v left (s, pt) = unmap_loop P (v + page_bytes ?z) (left - page_bytes ?z) (s1, pt)"
      by (subst unmap_loop.simps)
        (use False run1 in \<open>simp add: chk al map_errP_def bindP_def [of "map_errP hv_error_from_paging (unmap_page P v)"]\<close>)
    have t1: "tiled P s1 pt (unat (v + page_bytes ?z)) (unat (v + page_bytes ?z) + unat (left - page_bytes ?z))"
      unfolding sum unfolding v' by (rule tiled_rest [OF t av lf leaf1])
    have "\<exists>s'. unmap_loop P (v + page_bytes ?z) (left - page_bytes ?z) (s1, pt) = (Ok (), (s', pt)) \<and>
        pt_ok P A s' pt \<and> pt_local P A s1 pt s' pt \<and>
        (\<forall>h n e. pt_leaf P s' pt h n e \<longleftrightarrow> pt_leaf P s1 pt h n e \<and>
          \<not> (unat (v + page_bytes ?z) \<le> n * bsz h \<and>
             n * bsz h < unat (v + page_bytes ?z) + unat (left - page_bytes ?z)))"
      by (rule less.hyps [OF _ ok1 t1]) (use left' hb bsz_pos [of h] bound sum in linarith)+
    then obtain s' where run2: "unmap_loop P (v + page_bytes ?z) (left - page_bytes ?z) (s1, pt) = (Ok (), (s', pt))"
      and ok2: "pt_ok P A s' pt" and loc2: "pt_local P A s1 pt s' pt"
      and leaf2: "\<And>h' n e. pt_leaf P s' pt h' n e \<longleftrightarrow> pt_leaf P s1 pt h' n e \<and>
          \<not> (unat v + bsz h \<le> n * bsz h' \<and> n * bsz h' < unat v + unat left)"
      unfolding sum unfolding v' by blast
    have "pt_leaf P s' pt h' n e' \<longleftrightarrow> pt_leaf P s pt h' n e' \<and>
       \<not> (unat v \<le> n * bsz h' \<and> n * bsz h' < unat v + unat left)" for h' n e'
    proof (cases "h' = h \<and> n = blk h (unat v)")
      case True
      then have "n * bsz h' = unat v" using blk_start [OF av] by simp
      with True hb bsz_pos [of h] show ?thesis using leaf1 leaf2 by auto
    next
      case ne: False
      have "unat v + bsz h \<le> n * bsz h'" if lf': "pt_leaf P s pt h' n e'" and "unat v \<le> n * bsz h'"
      proof (rule ccontr)
        let ?w = "n * bsz h'"
        assume "\<not> unat v + bsz h \<le> ?w"
        then have b: "blk h ?w = blk h (unat v)" using blk_aligned_iff [OF av] that(2) by simp
        have b': "blk h' ?w = n" using bsz_pos by (simp add: blk_bsz)
        have "pt_leaf P s pt h (blk h ?w) e" "pt_leaf P s pt h' (blk h' ?w) e'" using lf lf' b b' by simp_all
        then have "h' = h" using leaf_level_unique by blast
        with ne b b' show False by simp
      qed
      with ne leaf1 leaf2 show ?thesis by auto
    qed
    with run run2 ok2 pt_local_trans [OF loc1 loc2] show ?thesis by auto
  qed
qed

end

end
