(* ===== verification/Hv_PtSpec.thy ===== *)
theory Hv_PtSpec
  imports Hv_PtMap
begin

unbundle bit_operations_syntax

text \<open>
  What the page table operations promise to their callers, in terms of \<open>query\<close>: a new table maps
  nothing, \<open>map\<close> adds the translation of a region and changes no other, \<open>unmap\<close> takes it out again,
  and operations on one table leave every other table alone. The theorems hold for both entry
  formats and for every bitmap that meets the contract.
\<close>

section \<open>Reading the map through query\<close>

lemma pte_formats: "P \<in> {S1_pte, S2_pte} \<Longrightarrow> generic_pte P norm_flags"
  using s1.generic_pte_axioms s2.generic_pte_axioms by blast

lemma hv_paging_formats: "P \<in> {S1_pte, S2_pte} \<Longrightarrow> bit_alloc A \<Longrightarrow> hv_paging P norm_flags A"
  by (rule hv_paging.intro [OF pte_formats])

interpretation s2_list: hv_paging S2_pte norm_flags list_bits
  by (rule hv_paging_formats) (simp_all add: list_bits.bit_alloc_axioms)

context generic_pte
begin

lemma query_by_leaf:
  assumes "pt_wf P m (root_paddr pt) (pt_height pt)" "pt_wf P m' (root_paddr pt') (pt_height pt')"
    and "blk (Suc (pt_height pt)) (unat v) = 0" "blk (Suc (pt_height pt')) (unat v) = 0"
    and same: "\<And>h e. leaf_at P m (root_paddr pt) (pt_height pt) h (blk h (unat v)) e \<longleftrightarrow>
      leaf_at P m' (root_paddr pt') (pt_height pt') h (blk h (unat v)) e"
  shows "query P pt v m = query P pt' v m'"
proof (cases "no_leaf P m (root_paddr pt) (pt_height pt) (unat v)")
  case True
  then have "no_leaf P m' (root_paddr pt') (pt_height pt') (unat v)" by (simp add: no_leaf_def same)
  then show ?thesis using query_none [OF assms(1,3) True] query_none [OF assms(2,4)] by simp
next
  case False
  then obtain h e where lf: "leaf_at P m (root_paddr pt) (pt_height pt) h (blk h (unat v)) e"
    by (auto simp: no_leaf_def)
  then have "leaf_ok P e"
    using pt_wf_ent [OF assms(1), of "pt_height pt - h" "blk h (unat v)" e] by (auto simp: leaf_at_def)
  then obtain fl where "pte_flags P e = Ok fl" by (cases "pte_flags P e") (auto simp: leaf_ok_def)
  then show ?thesis
    using query_leaf [OF assms(1,3) lf] query_leaf [OF assms(2,4) lf [unfolded same]] by simp
qed

end

lemma is_aligned_take_bit: "is_aligned a \<longleftrightarrow> take_bit 12 a = 0"
  by (simp add: is_aligned_def page_offset_def page_mask flip: take_bit_eq_mask)

lemma is_aligned_diff: "is_aligned a \<Longrightarrow> is_aligned b \<Longrightarrow> is_aligned (a - b)"
proof -
  assume "is_aligned a" "is_aligned b"
  then have "a = push_bit 12 (drop_bit 12 a)" "b = push_bit 12 (drop_bit 12 b)"
    unfolding is_aligned_take_bit using bits_ident [of 12 a] bits_ident [of 12 b] by simp_all
  then have "a - b = push_bit 12 (drop_bit 12 a - drop_bit 12 b)"
    by (metis left_diff_distrib push_bit_eq_mult)
  then show ?thesis unfolding is_aligned_take_bit by (simp add: take_bit_push_bit)
qed

lemma region_leaf_translation:
  assumes rl: "region_leaf P region a b h (blk h (unat v)) e" and off: "mapper region = Offset off"
    and al: "is_aligned off"
    and addr: "pte_addr P e = PageSize_align_down (psz h) (map_fn (mapper region) (of_nat (blk h (unat v) * bsz h)))"
  shows "pte_addr P e + PageSize_page_offset (psz h) v = map_fn (mapper region) v"
proof -
  have h: "h \<le> 2" using rl by (simp add: region_leaf_def)
  define base where "base = (of_nat (blk h (unat v) * bsz h) :: usize)"
  have bv: "unat base = blk h (unat v) * bsz h"
    unfolding base_def using blk_bounds(1) [where h = h and u = "unat v"] unat_word_less_64 [of v]
    by (subst unat_of_nat_exact) (auto intro: le_less_trans)
  have split: "base + PageSize_page_offset (psz h) v = v"
  proof -
    have "unat (PageSize_page_offset (psz h) v) = unat v mod bsz h" using h by (simp add: unat_PageSize_offset bsz_def)
    then have "unat base + unat (PageSize_page_offset (psz h) v) = unat v"
      using bv by (simp add: blk_bsz)
    moreover have "unat (base + PageSize_page_offset (psz h) v) = unat base + unat (PageSize_page_offset (psz h) v)"
      using calculation by (intro unat_add_exact) (simp add: unsigned_less)
    ultimately show ?thesis by (simp add: word_unat_eq_iff)
  qed
  have "PageSize_is_aligned (psz h) (map_fn (mapper region) base)"
  proof (cases "h = 0")
    case False
    with rl show ?thesis by (simp add: region_leaf_def base_def)
  next
    case True
    have "is_aligned base" using bv True by (simp add: is_aligned_iff bsz_0)
    then have "is_aligned (base - off)" using al by (rule is_aligned_diff)
    with True off show ?thesis by (simp add: aligned_bsz bsz_0 is_aligned_iff)
  qed
  then have "PageSize_align_down (psz h) (map_fn (mapper region) base) = map_fn (mapper region) base"
    by (simp add: word_unat_eq_iff unat_PageSize_align_down PageSize_is_aligned_iff)
  with addr off have "pte_addr P e = base - off" by (simp add: base_def)
  moreover have "base - off + PageSize_page_offset (psz h) v = base + PageSize_page_offset (psz h) v - off"
    by simp
  ultimately show ?thesis using split off by simp
qed


text \<open>The addresses a table of this depth distinguishes.\<close>

definition va_limit :: "'z HvPageTableImmut_scheme \<Rightarrow> nat" where
  "va_limit pt = (if level pt = 4 then 2 ^ 48 else 2 ^ 39)"

lemma va_limit_bsz: "va_limit pt = bsz (Suc (pt_height pt))"
  by (simp add: va_limit_def pt_height_def bsz_def)

lemma va_limit_blk: "unat v < va_limit pt \<longleftrightarrow> blk (Suc (pt_height pt)) (unat v) = 0"
  using bsz_pos [of "Suc (pt_height pt)"] by (auto simp: va_limit_bsz blk_bsz div_eq_0_iff)

text \<open>A region this table can map: page aligned, inside its address range, with frames an entry can hold.\<close>

definition mappable :: "'z HvPageTableImmut_scheme \<Rightarrow> MemoryRegion \<Rightarrow> bool" where
  "mappable pt region \<longleftrightarrow> is_aligned (start region) \<and> is_aligned (sz region) \<and>
     unat (start region) + unat (sz region) \<le> va_limit pt \<and>
     (\<forall>v. in_region region v \<longrightarrow> unat (map_fn (mapper region) v) < 2 ^ 48)"

definition offset_aligned :: "MemoryRegion \<Rightarrow> bool" where
  "offset_aligned region \<longleftrightarrow> (case mapper region of Offset off \<Rightarrow> is_aligned off | Fixed _ \<Rightarrow> False)"

abbreviation region_end :: "MemoryRegion \<Rightarrow> nat" where
  "region_end region \<equiv> unat (start region) + unat (sz region)"

context hv_paging
begin

lemma pt_map_post:
  assumes ok: "pt_ok P A s pt" and m: "mappable pt region"
    and call: "pt_map P A region (s, pt) = (res, (s', pt'))"
  shows "map_post P A region (unat (start region)) (region_end region) s pt res s' pt'"
proof (rule map_loop_post [OF ok])
  show "unat (start region) mod 4096 = 0" "unat (sz region) mod 4096 = 0"
    using m by (simp_all add: mappable_def is_aligned_iff)
  show "region_end region \<le> bsz (Suc (pt_height pt))" using m by (simp add: mappable_def va_limit_bsz)
  show "map_loop P A region (start region) (sz region) (s, pt) = (res, (s', pt'))"
    using call m by (simp add: pt_map_def mappable_def)
  fix u assume u: "unat (start region) \<le> u" "u < region_end region"
  have "va_limit pt \<le> 2 ^ 48" by (simp add: va_limit_def)
  with u m have "u < 2 ^ 64" by (simp add: mappable_def)
  then have "unat (of_nat u :: usize) = u" by (intro unat_of_nat_exact) simp
  with u have "in_region region (of_nat u)" by (simp add: in_region_def)
  with m show "unat (map_fn (mapper region) (of_nat u)) < 2 ^ 48" by (simp add: mappable_def)
qed

lemma map_outside:
  assumes ok: "pt_ok P A s pt" and post: "map_post P A region (unat (start region)) (region_end region) s pt res s' pt'"
    and v: "unat v < va_limit pt" "\<not> in_region region v"
  shows "query P pt' v (bytes s') = query P pt v (bytes s)"
proof (rule query_by_leaf)
  note p = post [unfolded map_post_def]
  have same: "root_paddr pt' = root_paddr pt" "pt_height pt' = pt_height pt"
    using p pt_local_same [of P A s pt s' pt'] by auto
  show "pt_wf P (bytes s') (root_paddr pt') (pt_height pt')" "pt_wf P (bytes s) (root_paddr pt) (pt_height pt)"
    using p pt_ok_wf ok by blast+
  show "blk (Suc (pt_height pt')) (unat v) = 0" "blk (Suc (pt_height pt)) (unat v) = 0"
    using v(1) same by (simp_all add: va_limit_blk)
  fix h e
  have "\<not> region_leaf P region (unat (start region)) (region_end region) h (blk h (unat v)) e"
    using v(2) blk_bounds [where h = h and u = "unat v"] by (auto simp: region_leaf_def in_region_def)
  with p show "pt_leaf P s' pt' h (blk h (unat v)) e \<longleftrightarrow> pt_leaf P s pt h (blk h (unat v)) e" by blast
qed

lemma region_leaf_props:
  assumes rl: "region_leaf P region (unat (start region)) (region_end region) h (blk h (unat (v :: usize))) e"
    and m: "mappable pt region"
  shows "pte_addr P e = PageSize_align_down (psz h) (map_fn (mapper region) (of_nat (blk h (unat v) * bsz h)))"
    "pte_flags P e = Ok (norm (flags region))"
proof -
  let ?base = "of_nat (blk h (unat v) * bsz h) :: usize"
  have "unat ?base = blk h (unat v) * bsz h"
    using blk_bounds(1) [where h = h and u = "unat v"] unat_word_less_64 [of v]
    by (subst unat_of_nat_exact) (auto intro: le_less_trans)
  then have "in_region region ?base"
    using rl bsz_pos [of h] by (simp add: region_leaf_def in_region_def)
  then have "unat (map_fn (mapper region) ?base) < 2 ^ 48" using m by (simp add: mappable_def)
  note lp = leaf_pte_props [OF this, where fl = "flags region" and z = "psz h"]
  have "e = leaf_pte P (flags region) (psz h) (map_fn (mapper region) ?base)"
    using rl by (simp add: region_leaf_def)
  with lp(4,5) show "pte_addr P e = PageSize_align_down (psz h) (map_fn (mapper region) ?base)"
    "pte_flags P e = Ok (norm (flags region))" by simp_all
qed

lemma map_kept:
  assumes ok: "pt_ok P A s pt" and post: "map_post P A region (unat (start region)) (region_end region) s pt res s' pt'"
    and v: "unat v < va_limit pt" "query P pt v (bytes s) \<noteq> Err NotMapped"
  shows "query P pt' v (bytes s') = query P pt v (bytes s)"
proof -
  note p = post [unfolded map_post_def]
  have ok': "pt_ok P A s' pt'" and loc: "pt_local P A s pt s' pt'" using p by blast+
  have top: "blk (Suc (pt_height pt)) (unat v) = 0" using v(1) by (simp add: va_limit_blk)
  from query_none [OF pt_ok_wf [OF ok] top] v(2) obtain h e where lf: "pt_leaf P s pt h (blk h (unat v)) e"
    by (auto simp: no_leaf_def)
  with p have lf': "pt_leaf P s' pt' h (blk h (unat v)) e" by blast
  show ?thesis
  proof (rule query_by_leaf [OF pt_ok_wf [OF ok'] pt_ok_wf [OF ok] _ top])
    show "blk (Suc (pt_height pt')) (unat v) = 0" using top pt_local_same [OF loc] by simp
    show "pt_leaf P s' pt' h' (blk h' (unat v)) e' \<longleftrightarrow> pt_leaf P s pt h' (blk h' (unat v)) e'" for h' e'
      using leaf_level_unique lf lf' by metis
  qed
qed

lemma map_inside:
  assumes ok: "pt_ok P A s pt" and m: "mappable pt region" "offset_aligned region"
    and post: "map_post P A region (unat (start region)) (region_end region) s pt (Ok ()) s' pt'"
    and v: "in_region region v"
  shows "query P pt v (bytes s) = Err NotMapped"
    and "\<exists>z. query P pt' v (bytes s') = Ok (map_fn (mapper region) v, norm (flags region), z)"
proof -
  note p = post [unfolded map_post_def]
  have same: "root_paddr pt' = root_paddr pt" "pt_height pt' = pt_height pt"
    using p pt_local_same [of P A s pt s' pt'] by auto
  have lim: "unat v < va_limit pt" using v m(1) by (simp add: in_region_def mappable_def)
  then have top: "blk (Suc (pt_height pt)) (unat v) = 0" "blk (Suc (pt_height pt')) (unat v) = 0"
    using same by (simp_all add: va_limit_blk)
  from p v obtain h e where nl: "pt_no_leaf P s pt (unat v)"
    and lf: "pt_leaf P s' pt' h (blk h (unat v)) e"
    and rl: "region_leaf P region (unat (start region)) (region_end region) h (blk h (unat v)) e"
    unfolding in_region_def by blast
  show "query P pt v (bytes s) = Err NotMapped" by (rule query_none [OF pt_ok_wf [OF ok] top(1) nl])
  obtain off where off: "mapper region = Offset off" "is_aligned off"
    using m(2) by (auto simp: offset_aligned_def split: Mapper.splits)
  note lp = region_leaf_props [OF rl m(1)]
  have wf': "pt_wf P (bytes s') (root_paddr pt') (pt_height pt')" using p pt_ok_wf by blast
  from query_leaf [OF wf' top(2) lf lp(2)] region_leaf_translation [OF rl off lp(1)]
  show "\<exists>z. query P pt' v (bytes s') = Ok (map_fn (mapper region) v, norm (flags region), z)" by simp
qed

lemma map_unmap_leaf:
  assumes ok: "pt_ok P A s pt" and m: "mappable pt region"
    and post: "map_post P A region (unat (start region)) (region_end region) s pt (Ok ()) s' pt'"
  obtains s'' where "pt_unmap P region (s', pt') = (Ok (), (s'', pt'))" "pt_ok P A s'' pt'"
    "pt_local P A s pt s'' pt'" "\<And>h n e. pt_leaf P s'' pt' h n e \<longleftrightarrow> pt_leaf P s pt h n e"
proof -
  note p = post [unfolded map_post_def]
  have loc0: "pt_local P A s pt s' pt'" and ok1: "pt_ok P A s' pt'" using p by blast+
  have same: "pt_height pt' = pt_height pt" "level pt' = level pt"
    using pt_local_same [OF loc0] loc0 by (simp_all add: pt_local_def)
  have t: "tiled P s' pt' (unat (start region)) (region_end region)"
    using p unfolding tiled_def region_leaf_def by blast
  have lim: "region_end region \<le> bsz (Suc (pt_height pt'))"
    using m same by (simp add: mappable_def va_limit_bsz)
  from unmap_loop_post [OF ok1 t lim] obtain s'' where run: "unmap_loop P (start region) (sz region) (s', pt') = (Ok (), (s'', pt'))"
    and ok2: "pt_ok P A s'' pt'" and loc: "pt_local P A s' pt' s'' pt'"
    and leaf: "\<And>h n e. pt_leaf P s'' pt' h n e \<longleftrightarrow> pt_leaf P s' pt' h n e \<and>
       \<not> (unat (start region) \<le> n * bsz h \<and> n * bsz h < region_end region)" by blast
  have "pt_leaf P s'' pt' h n e \<longleftrightarrow> pt_leaf P s pt h n e" for h n e
  proof
    assume "pt_leaf P s'' pt' h n e"
    then have l': "pt_leaf P s' pt' h n e" and "\<not> (unat (start region) \<le> n * bsz h \<and> n * bsz h < region_end region)"
      by (simp_all add: leaf)
    then have "\<not> region_leaf P region (unat (start region)) (region_end region) h n e"
      using bsz_pos [of h] by (auto simp: region_leaf_def)
    with p l' show "pt_leaf P s pt h n e" by blast
  next
    assume l: "pt_leaf P s pt h n e"
    have "\<not> (unat (start region) \<le> n * bsz h \<and> n * bsz h < region_end region)"
    proof
      assume "unat (start region) \<le> n * bsz h \<and> n * bsz h < region_end region"
      with p have "pt_no_leaf P s pt (n * bsz h)" by blast
      moreover have "blk h (n * bsz h) = n" using bsz_pos by (simp add: blk_bsz)
      ultimately show False using l unfolding no_leaf_def by metis
    qed
    with p l show "pt_leaf P s'' pt' h n e" by (simp add: leaf)
  qed
  with that run ok2 pt_local_trans [OF loc0 loc] show thesis by (simp add: pt_unmap_def)
qed

lemma new_table:
  assumes fa: "falloc_ok A (falloc s)" and l: "l = 3 \<or> l = 4" and call: "HvPageTable_new A l s = (res, s')"
  obtains (new) pt where "res = Ok pt" "level pt = l" "pt_ok P A s' pt" "\<And>u. pt_no_leaf P s' pt u"
      "\<And>a b. clear_range P s' pt a b" "pt_tables P s' pt = {root_paddr pt}"
      "frame_free A (falloc s) (root_paddr pt)" "base (falloc s') = base (falloc s)"
      "\<And>q. frame_free A (falloc s') q \<longleftrightarrow> frame_free A (falloc s) q \<and> q \<noteq> root_paddr pt"
      "\<And>q i. is_aligned q \<Longrightarrow> i < 512 \<Longrightarrow> q \<noteq> root_paddr pt \<Longrightarrow>
        read_u64 (bytes s') (slot q i) = read_u64 (bytes s) (slot q i)"
    | (exhausted) "res = Panic" "\<And>q. \<not> frame_free A (falloc s) q"
proof -
  obtain r t where nz: "Frame_new_zero A s = (r, t)" by fastforce
  have base: "base (falloc t) = base (falloc s)" by (rule new_zero_base [OF nz])
  from fa nz show thesis
  proof (cases rule: frames.new_zero_cases)
    case (got f)
    define pt where "pt = \<lparr>root = f, level = l, intrm_tables = []\<rparr>"
    have count: "frame_count f = 1" using frames.new_zero_Ok [OF fa] nz got(1) by simp
    have run: "res = Ok pt" "s' = t"
      using call nz got(1) l by (auto simp: HvPageTable_new_def bindP_def unwrapP_def pt_def)
    have rt: "root_paddr pt = start_paddr f" by (simp add: pt_def root_paddr_def)
    have zero: "read_u64 (bytes t) (slot (start_paddr f) i) = 0" if "i < 512" for i
      unfolding got(5) using that got(6) by (simp add: read_slot_fill)
    have tab: "tab P (bytes t) (start_paddr f) (Suc d) r = None" for d r
      by (induction d arbitrary: r) (auto simp: zero absent_0)
    have tab': "tab P (bytes t) (start_paddr f) d r = (if d = 0 \<and> r = 0 then Some (start_paddr f) else None)" for d r
      using tab by (cases d) auto
    have ent: "ent P (bytes t) (start_paddr f) d n = Some e \<Longrightarrow> e = 0" for d n e
      by (auto simp: ent_def tab' zero split: if_splits)
    have nl: "pt_no_leaf P t pt u" for u unfolding no_leaf_def leaf_at_def rt using ent by blast
    have fr: "pt_tables P t pt = {start_paddr f}" unfolding pt_frames_def rt by (auto simp: tab')
    have pf: "pte_frame (start_paddr f)" using got(6,7) by (simp add: pte_frame_def)
    have wf: "pt_wf P (bytes t) (root_paddr pt) (pt_height pt)"
      unfolding pt_wf_def rt using pf ent by (auto simp: tab' split: if_splits)
    have ok: "pt_ok P A t pt"
      unfolding pt_ok_def fr using wf got(2,4) l count frame_free_pool [OF got(3) fa] in_pool_base [OF base]
      by (auto simp: pt_def tracked_def)
    have cl: "clear_range P t pt a b" for a b
      unfolding clear_range_def using nl by (auto simp: rt tab' pt_height_def)
    have oth: "read_u64 (bytes t) (slot q i) = read_u64 (bytes s) (slot q i)"
      if "is_aligned q" "i < 512" "q \<noteq> root_paddr pt" for q i
      unfolding got(5) using that got(6) by (simp add: rt read_slot_fill)
    show thesis
    proof (rule new [OF run(1)], unfold run(2))
      show "pt_ok P A t pt" "\<And>u. pt_no_leaf P t pt u" "\<And>a b. clear_range P t pt a b" by (rule ok nl cl)+
      show "\<And>q i. is_aligned q \<Longrightarrow> i < 512 \<Longrightarrow> q \<noteq> root_paddr pt \<Longrightarrow>
        read_u64 (bytes t) (slot q i) = read_u64 (bytes s) (slot q i)" by (rule oth)
    qed (use fr got(3,4) base rt in \<open>simp_all add: pt_def\<close>)
  next
    case none
    with call nz l have "res = Panic" by (auto simp: HvPageTable_new_def bindP_def unwrapP_def)
    with none exhausted show thesis by blast
  qed
qed

end

section \<open>Independence of tables\<close>

lemma pt_ok_untouched:
  assumes ok: "pt_ok Q A s pt" and fa: "falloc_ok A (falloc s')" "base (falloc s') = base (falloc s)"
    and free: "\<And>q. frame_free A (falloc s') q \<Longrightarrow> q \<in> pt_tables Q s pt \<Longrightarrow> frame_free A (falloc s) q"
    and same: "\<And>q i. q \<in> pt_tables Q s pt \<Longrightarrow> i < 512 \<Longrightarrow>
      read_u64 (bytes s') (slot q i) = read_u64 (bytes s) (slot q i)"
  shows "pt_ok Q A s' pt" "\<And>h n e. pt_leaf Q s' pt h n e \<longleftrightarrow> pt_leaf Q s pt h n e"
    "pt_tables Q s' pt = pt_tables Q s pt"
proof -
  show fr: "pt_tables Q s' pt = pt_tables Q s pt" by (rule pt_frames_same) (rule same)
  have wf: "pt_wf Q (bytes s') (root_paddr pt) (pt_height pt)"
    using pt_ok_wf [OF ok] pt_wf_same [of Q "bytes s" "root_paddr pt" "pt_height pt" "bytes s'"] same by blast
  have pool: "in_pool (falloc s') q \<longleftrightarrow> in_pool (falloc s) q" for q by (rule in_pool_base [OF fa(2)])
  have "\<not> frame_free A (falloc s') q" if "q \<in> pt_tables Q s pt" for q
    using that free pt_ok_used(2) [OF ok that] by blast
  with pt_okD [OF ok] fa(1) wf show "pt_ok Q A s' pt"
    unfolding pt_ok_def fr pool by (intro conjI ballI) simp_all
  show "\<And>h n e. pt_leaf Q s' pt h n e \<longleftrightarrow> pt_leaf Q s pt h n e"
    by (rule leaf_at_same) (rule same)
qed

lemma pt_local_other:
  assumes loc: "pt_local P A s pt s' pt'" and fa: "falloc_ok A (falloc s')"
    and ok2: "pt_ok Q A s pt2" and dis: "pt_tables P s pt \<inter> pt_tables Q s pt2 = {}"
  shows "pt_ok Q A s' pt2" "\<And>h n e. pt_leaf Q s' pt2 h n e \<longleftrightarrow> pt_leaf Q s pt2 h n e"
    "pt_tables P s' pt' \<inter> pt_tables Q s' pt2 = {}" "pt_tables Q s' pt2 = pt_tables Q s pt2"
proof -
  note l = loc [unfolded pt_local_def]
  have dis': "q \<notin> pt_tables P s' pt'" if "q \<in> pt_tables Q s pt2" for q
    using that l dis pt_ok_used(2) [OF ok2 that] by blast
  have same: "read_u64 (bytes s') (slot q i) = read_u64 (bytes s) (slot q i)"
    if "q \<in> pt_tables Q s pt2" "i < 512" for q i
    using l dis' [OF that(1)] pt_frames_aligned [OF pt_ok_wf [OF ok2] that(1)] that(2) by blast
  have base: "base (falloc s') = base (falloc s)" using l by blast
  have free: "frame_free A (falloc s') q \<Longrightarrow> frame_free A (falloc s) q" for q using l by blast
  have u: "pt_ok Q A s' pt2" "\<And>h n e. pt_leaf Q s' pt2 h n e \<longleftrightarrow> pt_leaf Q s pt2 h n e"
    "pt_tables Q s' pt2 = pt_tables Q s pt2"
    by (rule pt_ok_untouched [OF ok2 fa base]; simp add: free same)+
  show "pt_ok Q A s' pt2" "\<And>h n e. pt_leaf Q s' pt2 h n e \<longleftrightarrow> pt_leaf Q s pt2 h n e"
    "pt_tables Q s' pt2 = pt_tables Q s pt2" by (rule u)+
  show "pt_tables P s' pt' \<inter> pt_tables Q s' pt2 = {}" unfolding u(3) using dis' by blast
qed

context hv_paging
begin

lemma new_table_other:
  assumes fa: "falloc_ok A (falloc s)" and l: "l = 3 \<or> l = 4" and call: "HvPageTable_new A l s = (Ok pt, s')"
    and ok2: "pt_ok Q A s pt2"
  shows "pt_ok Q A s' pt2" "\<And>h n e. pt_leaf Q s' pt2 h n e \<longleftrightarrow> pt_leaf Q s pt2 h n e"
    "pt_tables P s' pt \<inter> pt_tables Q s' pt2 = {}"
proof (atomize (full), cases rule: new_table [OF fa l call])
  case (1 pt0)
  then have ptq: "pt0 = pt" by simp
  note n = 1 [unfolded ptq]
  have new: "q \<noteq> root_paddr pt" if "q \<in> pt_tables Q s pt2" for q
    using pt_ok_used(2) [OF ok2 that] n(7) by blast
  have fa': "falloc_ok A (falloc s')" using n(3) by (simp add: pt_ok_def)
  have same: "read_u64 (bytes s') (slot q i) = read_u64 (bytes s) (slot q i)"
    if "q \<in> pt_tables Q s pt2" "i < 512" for q i
    using n(10) pt_frames_aligned [OF pt_ok_wf [OF ok2] that(1)] that(2) new [OF that(1)] by blast
  have free: "frame_free A (falloc s') q \<Longrightarrow> frame_free A (falloc s) q" for q using n(9) by blast
  have u: "pt_ok Q A s' pt2" "\<And>h n e. pt_leaf Q s' pt2 h n e \<longleftrightarrow> pt_leaf Q s pt2 h n e"
    "pt_tables Q s' pt2 = pt_tables Q s pt2"
    by (rule pt_ok_untouched [OF ok2 fa' n(8)]; simp add: free same)+
  have "pt_tables P s' pt \<inter> pt_tables Q s' pt2 = {}" unfolding u(3) n(6) using new by blast
  with u(1,2) show "pt_ok Q A s' pt2 \<and> (\<forall>h n e. pt_leaf Q s' pt2 h n e = pt_leaf Q s pt2 h n e) \<and>
      pt_tables P s' pt \<inter> pt_tables Q s' pt2 = {}" by blast
qed simp

end

section \<open>A table to evaluate\<close>

text \<open>The root frame of \<open>small_pool\<close> as a level 3 table, and a region of one 1 GiB block.\<close>

definition small_pt :: HvPageTable where
  "small_pt = \<lparr>root = \<lparr>start_paddr = 0x80000000, frame_count = 1\<rparr>, level = 3, intrm_tables = []\<rparr>"

definition small_state :: "usize list pmem" where
  "small_state = \<lparr>falloc = \<lparr>base = 0x80000000, inner = [1, 2, 3, 4, 5, 6, 7]\<rparr>,
     bytes = fill_bytes (\<lambda>_. 0) 0x80000000 PAGE_SIZE 0\<rparr>"

definition small_region :: MemoryRegion where
  "small_region = new_with_offset_mapper 0x40000000 0xC0000000 0x40000000 (READ OR WRITE)"

lemma small_new: "HvPageTable_new list_bits 3 small_pool = (Ok small_pt, small_state)"
  by (simp add: HvPageTable_new_def unwrapP_def bindP_def small_pool_alloc small_pt_def small_state_def)

lemma small_clear: "pt_ok S2_pte list_bits small_state small_pt" "clear_range S2_pte small_state small_pt a b"
  "pt_ok S1_pte list_bits small_state small_pt"
proof -
  have l: "(3 :: usize) = 3 \<or> (3 :: usize) = 4" by simp
  show "pt_ok S2_pte list_bits small_state small_pt" "clear_range S2_pte small_state small_pt a b"
    by (cases rule: s2_list.new_table [OF small_pool_ok l small_new]; simp)+
  show "pt_ok S1_pte list_bits small_state small_pt"
    by (cases rule: hv_paging.new_table [OF hv_paging_formats [of S1_pte list_bits] small_pool_ok l small_new])
      (simp_all add: list_bits.bit_alloc_axioms)
qed

lemma small_region_props: "start small_region = 0x40000000" "sz small_region = 0x40000000"
  "flags small_region = READ OR WRITE" "mapper small_region = Offset (0x40000000 - 0xC0000000)"
  by (simp_all add: small_region_def new_with_offset_mapper_def MemoryRegion_new_def Let_def)

lemma small_mappable: "mappable small_pt small_region" "offset_aligned small_region"
proof -
  have "unat (v + 0x80000000) < 2 ^ 48" if "unat (v :: usize) < 0x80000000" for v
    using that by (subst unat_add_exact) simp_all
  then show "mappable small_pt small_region"
    by (auto simp: mappable_def small_region_props is_aligned_iff va_limit_def small_pt_def in_region_def)
  show "offset_aligned small_region"
    by (simp add: offset_aligned_def small_region_props is_aligned_iff)
qed

lemma small_map: "\<exists>t. pt_map S2_pte list_bits small_region (small_state, small_pt) = (Ok (), (t, small_pt))"
proof -
  have sz: "choose_size small_region 0x40000000 0xC0000000 0x40000000 = Size1G"
    by (simp add: choose_size_def small_region_props PageSize_is_aligned_def PageSize_page_offset_def contains_def
        MemFlags_defs)
  have z: "read_u64 (bytes small_state) (table_entry_addr 0x80000000 (p3_index 0x40000000)) = 0"
    by (simp add: small_state_def table_entry_index read_slot_fill is_aligned_iff)
  show ?thesis
    by (simp add: pt_map_def small_region_props is_aligned_iff map_loop.simps [of _ _ _ "0x40000000"] sz Let_def
        Page_new_aligned_def PageSize_is_aligned_def PageSize_page_offset_def map_errP_def map_page_def bindP_def
        get_entry_mut_or_create_def small_pt_def root_paddr_def z update_entry_run s2.unused_iff
        add_chk_def sub_chk_def map_loop.simps [of _ _ _ _ 0])
qed


section \<open>Properties\<close>

text \<open>
  C2: mapping a region that succeeds makes \<open>query\<close> return, for every address of the region, the
  physical address the region's mapper gives and the region's read, write and device flags (the
  address was not mapped before), and leaves \<open>query\<close> of every other address as it was. The page
  table invariant holds again afterwards.
\<close>

theorem map_translates:
  assumes "P \<in> {S1_pte, S2_pte}" and "bit_alloc A" and "pt_ok P A s pt"
    and "mappable pt region" and "offset_aligned region"
    and "pt_map P A region (s, pt) = (Ok (), (s', pt'))"
  shows "pt_ok P A s' pt' \<and> (\<forall>v. unat v < va_limit pt \<longrightarrow>
    (if in_region region v then query P pt v (bytes s) = Err NotMapped \<and>
       (\<exists>z. query P pt' v (bytes s') = Ok (map_fn (mapper region) v, norm_flags (flags region), z))
     else query P pt' v (bytes s') = query P pt v (bytes s)))"
proof -
  note hp = hv_paging_formats [OF assms(1,2)]
  note post = hv_paging.pt_map_post [OF hp assms(3,4,6)]
  have "pt_ok P A s' pt'" using post by (simp add: map_post_def)
  with hv_paging.map_inside [OF hp assms(3,4,5) post] hv_paging.map_outside [OF hp assms(3) post]
  show ?thesis by simp
qed

theorem map_translates_witness:
  "\<exists>t z. pt_map S2_pte list_bits small_region (small_state, small_pt) = (Ok (), (t, small_pt)) \<and>
     query S2_pte small_pt 0x40001234 (bytes t) = Ok (0xC0001234, READ OR WRITE, z)"
proof -
  obtain t where t: "pt_map S2_pte list_bits small_region (small_state, small_pt) = (Ok (), (t, small_pt))"
    using small_map by blast
  have v: "unat (0x40001234 :: usize) < va_limit small_pt" "in_region small_region 0x40001234"
    by (simp_all add: va_limit_def in_region_def small_region_props)
  have "S2_pte \<in> {S1_pte, S2_pte}" by simp
  from map_translates [OF this list_bits.bit_alloc_axioms small_clear(1) small_mappable t] v
  obtain z where "query S2_pte small_pt 0x40001234 (bytes t) =
      Ok (map_fn (mapper small_region) 0x40001234, norm_flags (flags small_region), z)"
    by metis
  then have "query S2_pte small_pt 0x40001234 (bytes t) = Ok (0xC0001234, READ OR WRITE, z)"
    by (simp add: small_region_props norm_flags_def MemFlags_defs)
  with t show ?thesis by blast
qed

text \<open>
  C15: \<open>map\<close> always returns. It succeeds, or it fails with \<open>ENOMEM\<close> and then no free frame is left,
  or with \<open>EFAULT\<close> and then part of the region was mapped already or a block of it had a table of
  smaller pages. Also on failure the table stays well formed, no address outside the region
  changes its translation and no address that was mapped before does.
\<close>

theorem map_total:
  assumes "P \<in> {S1_pte, S2_pte}" and "bit_alloc A" and "pt_ok P A s pt"
    and "mappable pt region" and "pt_map P A region (s, pt) = (res, (s', pt'))"
  shows "(res = Ok () \<or> res = Err ENOMEM \<and> (\<forall>q. \<not> frame_free A (falloc s') q) \<or>
      res = Err EFAULT \<and> \<not> clear_range P s pt (unat (start region)) (region_end region)) \<and>
    pt_ok P A s' pt' \<and>
    (\<forall>v. unat v < va_limit pt \<and> (\<not> in_region region v \<or> query P pt v (bytes s) \<noteq> Err NotMapped) \<longrightarrow>
      query P pt' v (bytes s') = query P pt v (bytes s))"
proof -
  note hp = hv_paging_formats [OF assms(1,2)]
  note post = hv_paging.pt_map_post [OF hp assms(3,4,5)]
  have "pt_ok P A s' pt'" "res = Ok () \<or> res = Err ENOMEM \<and> (\<forall>q. \<not> frame_free A (falloc s') q) \<or>
      res = Err EFAULT \<and> \<not> clear_range P s pt (unat (start region)) (region_end region)"
    using post unfolding map_post_def by blast+
  moreover have "query P pt' v (bytes s') = query P pt v (bytes s)"
    if "unat v < va_limit pt" "query P pt v (bytes s) \<noteq> Err NotMapped" for v
    by (rule hv_paging.map_kept [OF hp assms(3) post that])
  ultimately show ?thesis using hv_paging.map_outside [OF hp assms(3) post] by blast
qed

theorem map_total_witness:
  "\<exists>res s' pt'. pt_map S2_pte list_bits small_region (small_state, small_pt) = (res, (s', pt')) \<and>
     (res = Ok () \<or> res = Err ENOMEM)"
proof -
  obtain res s' pt' where r: "pt_map S2_pte list_bits small_region (small_state, small_pt) = (res, (s', pt'))"
    by (metis prod_cases3)
  from map_total [OF _ list_bits.bit_alloc_axioms small_clear(1) small_mappable(1) r] small_clear(2) r
  show ?thesis by blast
qed

text \<open>
  C16: unmapping a region right after mapping it succeeds and gives back the translation of every
  address as it was before the mapping.
\<close>

theorem map_unmap_roundtrip:
  assumes "P \<in> {S1_pte, S2_pte}" and "bit_alloc A" and "pt_ok P A s pt" and "mappable pt region"
    and "pt_map P A region (s, pt) = (Ok (), (s', pt'))"
  shows "\<exists>s''. pt_unmap P region (s', pt') = (Ok (), (s'', pt')) \<and> pt_ok P A s'' pt' \<and>
    (\<forall>v. unat v < va_limit pt \<longrightarrow> query P pt' v (bytes s'') = query P pt v (bytes s))"
proof -
  note hp = hv_paging_formats [OF assms(1,2)]
  note post = hv_paging.pt_map_post [OF hp assms(3,4,5)]
  obtain s'' where u: "pt_unmap P region (s', pt') = (Ok (), (s'', pt'))" and ok: "pt_ok P A s'' pt'"
    and loc: "pt_local P A s pt s'' pt'" and leaf: "\<And>h n e. pt_leaf P s'' pt' h n e \<longleftrightarrow> pt_leaf P s pt h n e"
    using hv_paging.map_unmap_leaf [OF hp assms(3,4) post] by blast
  have "query P pt' v (bytes s'') = query P pt v (bytes s)" if "unat v < va_limit pt" for v
    by (rule generic_pte.query_by_leaf [OF pte_formats [OF assms(1)] pt_ok_wf [OF ok] pt_ok_wf [OF assms(3)]])
      (use that pt_local_same [OF loc] leaf in \<open>simp_all add: va_limit_blk\<close>)
  with u ok show ?thesis by blast
qed

theorem map_unmap_roundtrip_witness:
  "\<exists>s' s''. pt_map S2_pte list_bits small_region (small_state, small_pt) = (Ok (), (s', small_pt)) \<and>
     pt_unmap S2_pte small_region (s', small_pt) = (Ok (), (s'', small_pt)) \<and>
     query S2_pte small_pt 0x40001234 (bytes s'') = query S2_pte small_pt 0x40001234 (bytes small_state)"
proof -
  obtain t where t: "pt_map S2_pte list_bits small_region (small_state, small_pt) = (Ok (), (t, small_pt))"
    using small_map by blast
  have "unat (0x40001234 :: usize) < va_limit small_pt" by (simp add: va_limit_def)
  with map_unmap_roundtrip [OF _ list_bits.bit_alloc_axioms small_clear(1) small_mappable(1) t] t
  show ?thesis by blast
qed




text \<open>
  C3: mapping a region in one page table, whether it succeeds or not, changes neither the
  translation nor the well-formedness of any other page table, of either format, that shares no
  table frame with it; the two still share none afterwards.
\<close>

theorem map_isolated:
  assumes "P \<in> {S1_pte, S2_pte}" and "Q \<in> {S1_pte, S2_pte}" and "bit_alloc A" and "pt_ok P A s pt"
    and "mappable pt region" and "pt_map P A region (s, pt) = (res, (s', pt'))"
    and "pt_ok Q A s pt2" and "pt_tables P s pt \<inter> pt_tables Q s pt2 = {}"
  shows "pt_ok Q A s' pt2 \<and> pt_tables P s' pt' \<inter> pt_tables Q s' pt2 = {} \<and>
    (\<forall>v. unat v < va_limit pt2 \<longrightarrow> query Q pt2 v (bytes s') = query Q pt2 v (bytes s))"
proof -
  note hp = hv_paging_formats [OF assms(1,3)]
  have "pt_ok P A s' pt'" and loc: "pt_local P A s pt s' pt'"
    using hv_paging.pt_map_post [OF hp assms(4,5,6)] unfolding map_post_def by blast+
  then have fa: "falloc_ok A (falloc s')" by (simp add: pt_ok_def)
  note o = pt_local_other [OF loc fa assms(7,8)]
  have "query Q pt2 v (bytes s') = query Q pt2 v (bytes s)" if "unat v < va_limit pt2" for v
    by (rule generic_pte.query_by_leaf [OF pte_formats [OF assms(2)] pt_ok_wf [OF o(1)] pt_ok_wf [OF assms(7)]])
      (use that o(2) in \<open>simp_all add: va_limit_blk\<close>)
  with o(1,3) show ?thesis by blast
qed

definition second_pt :: HvPageTable where
  "second_pt = \<lparr>root = \<lparr>start_paddr = 0x80001000, frame_count = 1\<rparr>, level = 3, intrm_tables = []\<rparr>"

definition two_state :: "usize list pmem" where
  "two_state = \<lparr>falloc = \<lparr>base = 0x80000000, inner = [2, 3, 4, 5, 6, 7]\<rparr>,
     bytes = fill_bytes (fill_bytes (\<lambda>_. 0) 0x80000000 PAGE_SIZE 0) 0x80001000 PAGE_SIZE 0\<rparr>"

lemma second_new: "HvPageTable_new list_bits 3 small_state = (Ok second_pt, two_state)"
  by (simp add: HvPageTable_new_def unwrapP_def bindP_def Frame_new_zero_def Frame_new_def Frame_clear_def
      Frame_fill_def Frame_size_def with_falloc_def FrameAllocator_alloc_def frame_addr_def list_bits_def
      small_state_def second_pt_def two_state_def mul_chk_def add_chk_def PAGE_SIZE_def)

lemma two_tables:
  "pt_ok S2_pte list_bits two_state small_pt" "pt_ok S2_pte list_bits two_state second_pt"
  "pt_tables S2_pte two_state small_pt \<inter> pt_tables S2_pte two_state second_pt = {}"
proof -
  have l: "(3 :: usize) = 3 \<or> (3 :: usize) = 4" by simp
  have fa: "falloc_ok list_bits (falloc small_state)" using small_clear(1) by (simp add: pt_ok_def)
  note o = s2_list.new_table_other [OF fa l second_new small_clear(1)]
  show "pt_ok S2_pte list_bits two_state small_pt" by (rule o(1))
  show "pt_ok S2_pte list_bits two_state second_pt"
    by (cases rule: s2_list.new_table [OF fa l second_new]) simp_all
  show "pt_tables S2_pte two_state small_pt \<inter> pt_tables S2_pte two_state second_pt = {}"
    using o(3) by blast
qed

theorem map_isolated_witness:
  "\<exists>res s' pt'. pt_map S2_pte list_bits small_region (two_state, small_pt) = (res, (s', pt')) \<and>
    query S2_pte second_pt 0x40001234 (bytes s') = query S2_pte second_pt 0x40001234 (bytes two_state)"
proof -
  obtain res s' pt' where r: "pt_map S2_pte list_bits small_region (two_state, small_pt) = (res, (s', pt'))"
    by (metis prod_cases3)
  have "unat (0x40001234 :: usize) < va_limit second_pt" by (simp add: va_limit_def)
  with map_isolated [OF _ _ list_bits.bit_alloc_axioms two_tables(1) small_mappable(1) r two_tables(2,3)] r
  show ?thesis by blast
qed

end
