(* ===== verification/Hv_MemorySet.thy ===== *)
theory Hv_MemorySet
  imports Hv_PtSpec
begin

unbundle bit_operations_syntax

text \<open>
  Memory sets (\<open>src/memory/mm.rs\<close>): a page table together with the ordered map of the regions it
  holds. The \<open>BTreeMap\<close> is an association list in key order. The invariant ties the two together:
  the regions are disjoint and every one of them is mapped the way its mapper says.
\<close>

section \<open>The ordered map\<close>

type_synonym 'v btree_map = "(VirtAddr \<times> 'v) list"

fun btm_insert :: "VirtAddr \<Rightarrow> 'v \<Rightarrow> 'v btree_map \<Rightarrow> 'v btree_map" where
  "btm_insert k v [] = [(k, v)]"
| "btm_insert k v ((k', v') # m) =
     (if k < k' then (k, v) # (k', v') # m else if k = k' then (k, v) # m else (k', v') # btm_insert k v m)"

definition btm_remove :: "VirtAddr \<Rightarrow> 'v btree_map \<Rightarrow> 'v btree_map" where
  "btm_remove k m = filter (\<lambda>(k', v). k' \<noteq> k) m"

text \<open>\<open>range(..k).last()\<close> and \<open>range(k..).next()\<close>.\<close>

definition range_to_last :: "VirtAddr \<Rightarrow> 'v btree_map \<Rightarrow> (VirtAddr \<times> 'v) option" where
  "range_to_last k m = (let below = filter (\<lambda>(k', v). k' < k) m in if below = [] then None else Some (last below))"

definition range_from_next :: "VirtAddr \<Rightarrow> 'v btree_map \<Rightarrow> (VirtAddr \<times> 'v) option" where
  "range_from_next k m = find (\<lambda>(k', v). k \<le> k') m"

definition btm_sorted :: "'v btree_map \<Rightarrow> bool" where
  "btm_sorted m \<longleftrightarrow> sorted_wrt (<) (map fst m)"

lemma btm_insert_set:
  "btm_sorted m \<Longrightarrow> set (btm_insert k v m) = insert (k, v) {(k', v') \<in> set m. k' \<noteq> k}"
  by (induction k v m rule: btm_insert.induct) (auto simp: btm_sorted_def)

lemma btm_insert_sorted: "btm_sorted m \<Longrightarrow> btm_sorted (btm_insert k v m)"
proof (induction k v m rule: btm_insert.induct)
  case (2 k v k' v' m)
  then have s: "btm_sorted m" "\<forall>x \<in> set m. k' < fst x" by (auto simp: btm_sorted_def)
  then have "\<forall>x \<in> set (btm_insert k v m). k' < fst x" if "k' < k"
    using that by (auto simp: btm_insert_set)
  with 2 s show ?case by (auto simp: btm_sorted_def)
qed (simp add: btm_sorted_def)

lemma btm_remove_sorted: "btm_sorted m \<Longrightarrow> btm_sorted (btm_remove k m)"
  by (induction m) (auto simp: btm_sorted_def btm_remove_def)

lemma btm_remove_set: "set (btm_remove k m) = {(k', v) \<in> set m. k' \<noteq> k}"
  by (auto simp: btm_remove_def)

lemma btm_lookup: "btm_sorted m \<Longrightarrow> map_of m k = Some v \<longleftrightarrow> (k, v) \<in> set m"
proof -
  assume "btm_sorted m"
  then have "distinct (map fst m)" by (simp add: btm_sorted_def strict_sorted_iff)
  then show ?thesis by (simp add: map_of_eq_Some_iff)
qed

lemma btm_insert_lookup: "map_of (btm_insert k v m) k' = (if k' = k then Some v else map_of m k')"
  by (induction k v m rule: btm_insert.induct) auto

lemma range_to_last_Some:
  assumes "btm_sorted m" "range_to_last k m = Some (k1, v1)"
  shows "(k1, v1) \<in> set m" "k1 < k" "\<And>k' v'. (k', v') \<in> set m \<Longrightarrow> k' < k \<Longrightarrow> k' \<le> k1"
proof -
  let ?b = "filter (\<lambda>(k', v). k' < k) m"
  from assms(2) have ne: "?b \<noteq> []" and l: "last ?b = (k1, v1)"
    by (auto simp: range_to_last_def Let_def split: if_splits)
  have "(k1, v1) \<in> set ?b" using ne l by (metis last_in_set)
  then show "(k1, v1) \<in> set m" "k1 < k" by auto
  have srt: "sorted_wrt (<) (map fst ?b)"
    using assms(1) unfolding btm_sorted_def by (induction m) auto
  have "k' \<le> k1" if "(k', v') \<in> set ?b" for k' v'
  proof -
    from ne obtain xs where b: "?b = xs @ [(k1, v1)]" using l by (metis append_butlast_last_id)
    with srt that show ?thesis by (auto simp: sorted_wrt_append)
  qed
  then show "\<And>k' v'. (k', v') \<in> set m \<Longrightarrow> k' < k \<Longrightarrow> k' \<le> k1" by auto
qed

lemma range_to_last_None: "range_to_last k m = None \<Longrightarrow> (k', v') \<in> set m \<Longrightarrow> \<not> k' < k"
  by (auto simp: range_to_last_def Let_def filter_empty_conv split: if_splits)

lemma range_from_next_Some:
  assumes "btm_sorted m" "range_from_next k m = Some (k1, v1)"
  shows "(k1, v1) \<in> set m \<and> k \<le> k1 \<and> (\<forall>(k', v') \<in> set m. k \<le> k' \<longrightarrow> k1 \<le> k')"
  using assms
proof (induction m)
  case (Cons x m)
  then show ?case by (cases x) (fastforce simp: range_from_next_def btm_sorted_def split: if_splits)
qed (simp add: range_from_next_def)

lemma range_from_next_None: "range_from_next k m = None \<Longrightarrow> (k', v') \<in> set m \<Longrightarrow> \<not> k \<le> k'"
  by (auto simp: range_from_next_def find_None_iff)

section \<open>MemorySet\<close>

record MemorySet =
  regions :: "MemoryRegion btree_map"
  pt :: HvPageTable

type_synonym ('b, 'e, 'a) ms_prog = "('b pmem \<times> MemorySet, 'e, 'a) prog"

definition with_pt :: "('b, 'e, 'a) pt_prog \<Rightarrow> ('b, 'e, 'a) ms_prog" where
  "with_pt m = (\<lambda>(s, self). let (r, (s', pt')) = m (s, pt self) in (r, (s', self\<lparr>pt := pt'\<rparr>)))"

lemma with_pt_run: "m (s, pt self) = (r, (s', p')) \<Longrightarrow> with_pt m (s, self) = (r, (s', self\<lparr>pt := p'\<rparr>))"
  by (simp add: with_pt_def)

definition MemorySet_new :: "'b bitalloc \<Rightarrow> usize \<Rightarrow> ('b pmem, HvErrorNum, MemorySet) prog" where
  "MemorySet_new A pt_level = bindP (HvPageTable_new A pt_level) (\<lambda>p. retP \<lparr>regions = [], pt = p\<rparr>)"

definition MemorySet_clone :: "'b bitalloc \<Rightarrow> MemorySet \<Rightarrow> ('b pmem, HvErrorNum, MemorySet) prog" where
  "MemorySet_clone A self = bindP (clone_from A (pt self)) (\<lambda>p. retP \<lparr>regions = regions self, pt = p\<rparr>)"

definition test_free_area :: "MemorySet \<Rightarrow> MemoryRegion \<Rightarrow> ('e, bool) outcome" where
  "test_free_area self other =
     bind_out (case range_to_last (start other) (regions self) of
         Some (_, before) \<Rightarrow> is_overlap_with before other | None \<Rightarrow> Ok False) (\<lambda>hit.
     if hit then Ok False else
     bind_out (case range_from_next (start other) (regions self) of
         Some (_, after) \<Rightarrow> is_overlap_with after other | None \<Rightarrow> Ok False) (\<lambda>hit.
     if hit then Ok False else Ok True))"

definition ms_insert :: "pte_ops \<Rightarrow> 'b bitalloc \<Rightarrow> MemoryRegion \<Rightarrow> ('b, HvErrorNum, unit) ms_prog" where
  "ms_insert P A region =
     bindP (liftP (rust_assert (is_aligned (start region)))) (\<lambda>_.
     bindP (liftP (rust_assert (is_aligned (sz region)))) (\<lambda>_.
     if sz region = 0 then retP () else
     bindP (getP snd) (\<lambda>self.
     bindP (liftP (test_free_area self region)) (\<lambda>free.
     if \<not> free then errP EINVAL else
     bindP (with_pt (pt_map P A region)) (\<lambda>_.
     modifyP (\<lambda>(s, self). (s, self\<lparr>regions := btm_insert (start region) region (regions self)\<rparr>)))))))"

definition ms_delete :: "pte_ops \<Rightarrow> VirtAddr \<Rightarrow> ('b, HvErrorNum, unit) ms_prog" where
  "ms_delete P start0 = bindP (getP snd) (\<lambda>self.
     case map_of (regions self) start0 of
       Some e \<Rightarrow> bindP (with_pt (pt_unmap P e)) (\<lambda>_.
         modifyP (\<lambda>(s, self). (s, self\<lparr>regions := btm_remove start0 (regions self)\<rparr>)))
     | None \<Rightarrow> errP EINVAL)"

definition ms_clear :: "pte_ops \<Rightarrow> ('b, HvErrorNum, unit) ms_prog" where
  "ms_clear P = bindP (getP snd) (\<lambda>self.
     bindP (forP (map snd (regions self)) (\<lambda>region. unwrapP (with_pt (pt_unmap P region)))) (\<lambda>_.
     modifyP (\<lambda>(s, self). (s, self\<lparr>regions := []\<rparr>))))"

definition page_table_query ::
  "pte_ops \<Rightarrow> MemorySet \<Rightarrow> VirtAddr \<Rightarrow> phys_mem \<Rightarrow> (PagingError, PhysAddr \<times> MemFlags \<times> PageSize) outcome" where
  "page_table_query P self v m = query P (pt self) v m"

text \<open>
  Dropping a set clears it; then the fields are dropped, which gives the root frame and the
  intermediate tables back to the allocator.
\<close>

definition MemorySet_drop :: "pte_ops \<Rightarrow> 'b bitalloc \<Rightarrow> MemorySet \<Rightarrow> ('b pmem, HvErrorNum, unit) prog" where
  "MemorySet_drop P A self s =
     (case ms_clear P (s, self) of
        (Ok _, (s', self')) \<Rightarrow> drop_frames A (root (pt self') # intrm_tables (pt self')) s'
      | (Err e, (s', _)) \<Rightarrow> (Err e, s') | (Panic, (s', _)) \<Rightarrow> (Panic, s')
      | (Hang, (s', _)) \<Rightarrow> (Hang, s') | (Fault, (s', _)) \<Rightarrow> (Fault, s'))"


section \<open>The invariant\<close>

definition disjoint_regions :: "MemoryRegion \<Rightarrow> MemoryRegion \<Rightarrow> bool" where
  "disjoint_regions r q \<longleftrightarrow> region_end r \<le> unat (start q) \<or> region_end q \<le> unat (start r)"

definition regions_ok :: "HvPageTable \<Rightarrow> MemoryRegion btree_map \<Rightarrow> bool" where
  "regions_ok p m \<longleftrightarrow> btm_sorted m \<and> (\<forall>(k, r) \<in> set m. k = start r \<and> sz r \<noteq> 0 \<and> mappable p r) \<and>
     (\<forall>(k, r) \<in> set m. \<forall>(k', r') \<in> set m. k \<noteq> k' \<longrightarrow> disjoint_regions r r')"

definition region_mapped :: "pte_ops \<Rightarrow> 'b pmem \<Rightarrow> HvPageTable \<Rightarrow> MemoryRegion \<Rightarrow> bool" where
  "region_mapped P s p r \<longleftrightarrow> (\<forall>u. unat (start r) \<le> u \<and> u < region_end r \<longrightarrow>
     (\<exists>h e. pt_leaf P s p h (blk h u) e \<and>
        region_leaf P r (unat (start r)) (region_end r) h (blk h u) e))"

definition ms_ok :: "pte_ops \<Rightarrow> 'b bitalloc \<Rightarrow> 'b pmem \<Rightarrow> MemorySet \<Rightarrow> bool" where
  "ms_ok P A s self \<longleftrightarrow> pt_ok P A s (pt self) \<and> regions_ok (pt self) (regions self) \<and>
     (\<forall>(k, r) \<in> set (regions self). region_mapped P s (pt self) r)"

text \<open>Nothing is mapped but the regions.\<close>

definition ms_exact :: "pte_ops \<Rightarrow> 'b pmem \<Rightarrow> MemorySet \<Rightarrow> bool" where
  "ms_exact P s self \<longleftrightarrow> (\<forall>h n e. pt_leaf P s (pt self) h n e \<longrightarrow>
     (\<exists>(k, r) \<in> set (regions self). region_leaf P r (unat (start r)) (region_end r) h n e))"

text \<open>Every table below the root lies on the way to an address of some region.\<close>

definition ms_tight :: "pte_ops \<Rightarrow> 'b pmem \<Rightarrow> MemorySet \<Rightarrow> bool" where
  "ms_tight P s self \<longleftrightarrow> (\<forall>d n. 0 < d \<and> d \<le> pt_height (pt self) \<and> pt_tab P s (pt self) d n \<noteq> None \<longrightarrow>
     (\<exists>(k, r) \<in> set (regions self). \<exists>u. unat (start r) \<le> u \<and> u < region_end r \<and>
        n = blk (Suc (pt_height (pt self) - d)) u))"

lemma regions_okD:
  assumes "regions_ok p m" "(k, r) \<in> set m"
  shows "k = start r" "sz r \<noteq> 0" "mappable p r" "unat (start r) < region_end r" "region_fits r"
proof -
  show a: "k = start r" "sz r \<noteq> 0" "mappable p r" using assms by (auto simp: regions_ok_def)
  then show "unat (start r) < region_end r" by (simp add: unat_gt_0)
  from a(3) show "region_fits r" by (auto simp: mappable_def region_fits_def va_limit_def split: if_splits)
qed

lemma regions_ok_disjoint:
  "regions_ok p m \<Longrightarrow> (k, r) \<in> set m \<Longrightarrow> (k', r') \<in> set m \<Longrightarrow> k \<noteq> k' \<Longrightarrow> disjoint_regions r r'"
  by (auto simp: regions_ok_def)

lemma mappable_fits: "mappable p r \<Longrightarrow> region_fits r"
  by (auto simp: mappable_def region_fits_def va_limit_def split: if_splits)

lemma overlap_disjoint:
  "region_fits r \<Longrightarrow> region_fits q \<Longrightarrow> is_overlap_with r q = Ok (\<not> disjoint_regions r q)"
  by (simp add: is_overlap_with_Ok disjoint_regions_def)

lemma mappable_cong: "level p' = level p \<Longrightarrow> mappable p' r \<longleftrightarrow> mappable p r"
  by (simp add: mappable_def va_limit_def)

lemma regions_ok_cong: "level p' = level p \<Longrightarrow> regions_ok p' m \<longleftrightarrow> regions_ok p m"
  by (simp add: regions_ok_def mappable_def va_limit_def)

lemma overlapping_below:
  assumes ok: "regions_ok p m" and last: "range_to_last (start q) m = Some (k1, r1)"
    and r: "(k, r) \<in> set m" "k < start q" and hit: "\<not> disjoint_regions r q"
  shows "r1 = r"
proof (rule ccontr)
  assume ne: "r1 \<noteq> r"
  have srt: "btm_sorted m" using ok by (simp add: regions_ok_def)
  note l = range_to_last_Some [OF srt last]
  have "k \<noteq> k1" using ne r(1) l(1) btm_lookup [OF srt] by (metis option.inject)
  moreover have "k \<le> k1" using l(3) [OF r] .
  ultimately have "k < k1" by simp
  from regions_ok_disjoint [OF ok r(1) l(1) \<open>k \<noteq> k1\<close>] have "disjoint_regions r r1" .
  with \<open>k < k1\<close> l(2) regions_okD(1,4) [OF ok r(1)] regions_okD(1,4) [OF ok l(1)] hit r(2) show False
    by (auto simp: disjoint_regions_def word_less_nat_alt)
qed

lemma overlapping_above:
  assumes ok: "regions_ok p m" and nxt: "range_from_next (start q) m = Some (k1, r1)"
    and r: "(k, r) \<in> set m" "start q \<le> k" and hit: "\<not> disjoint_regions r q"
  shows "\<not> disjoint_regions r1 q"
proof (cases "k = k1")
  case True
  have srt: "btm_sorted m" using ok by (simp add: regions_ok_def)
  have "(k1, r1) \<in> set m" using range_from_next_Some [OF srt nxt] by simp
  with True r(1) have "r1 = r" using btm_lookup [OF srt] by (metis option.inject)
  with hit show ?thesis by simp
next
  case False
  have srt: "btm_sorted m" using ok by (simp add: regions_ok_def)
  have n: "(k1, r1) \<in> set m" "start q \<le> k1" "k1 \<le> k" using range_from_next_Some [OF srt nxt] r by auto
  from regions_ok_disjoint [OF ok r(1) n(1) False] have "disjoint_regions r r1" .
  with False n(2,3) regions_okD(1,4) [OF ok r(1)] regions_okD(1,4) [OF ok n(1)] hit r(2) show ?thesis
    by (auto simp: disjoint_regions_def word_le_nat_alt word_unat_eq_iff)
qed

lemma test_free_area_Ok:
  assumes ok: "regions_ok (pt self) (regions self)" and q: "region_fits q"
  shows "test_free_area self q = Ok (\<forall>(k, r) \<in> set (regions self). disjoint_regions r q)"
proof -
  have srt: "btm_sorted (regions self)" using ok by (simp add: regions_ok_def)
  have b: "(case range_to_last (start q) (regions self) of Some (_, r) \<Rightarrow> is_overlap_with r q | None \<Rightarrow> Ok False)
      = Ok (\<exists>(k, r) \<in> set (regions self). k < start q \<and> \<not> disjoint_regions r q)"
  proof (cases "range_to_last (start q) (regions self)")
    case None
    then show ?thesis using range_to_last_None [OF None] by auto
  next
    case (Some x)
    obtain k1 r1 where x: "x = (k1, r1)" by fastforce
    note l = range_to_last_Some [OF srt Some [unfolded x]]
    have "is_overlap_with r1 q = Ok (\<not> disjoint_regions r1 q)"
      using regions_okD(5) [OF ok l(1)] q by (rule overlap_disjoint)
    moreover have "(\<exists>(k, r) \<in> set (regions self). k < start q \<and> \<not> disjoint_regions r q) \<longleftrightarrow> \<not> disjoint_regions r1 q"
      using l(1,2) overlapping_below [OF ok Some [unfolded x]] by blast
    ultimately show ?thesis using Some x by simp
  qed
  have a: "(case range_from_next (start q) (regions self) of Some (_, r) \<Rightarrow> is_overlap_with r q | None \<Rightarrow> Ok False)
      = Ok (\<exists>(k, r) \<in> set (regions self). start q \<le> k \<and> \<not> disjoint_regions r q)"
  proof (cases "range_from_next (start q) (regions self)")
    case None
    then show ?thesis using range_from_next_None [OF None] by auto
  next
    case (Some x)
    obtain k1 r1 where x: "x = (k1, r1)" by fastforce
    have l: "(k1, r1) \<in> set (regions self)" "start q \<le> k1" using range_from_next_Some [OF srt Some [unfolded x]] by auto
    have "is_overlap_with r1 q = Ok (\<not> disjoint_regions r1 q)"
      using regions_okD(5) [OF ok l(1)] q by (rule overlap_disjoint)
    moreover have "(\<exists>(k, r) \<in> set (regions self). start q \<le> k \<and> \<not> disjoint_regions r q) \<longleftrightarrow> \<not> disjoint_regions r1 q"
      using l overlapping_above [OF ok Some [unfolded x]] by blast
    ultimately show ?thesis using Some x by simp
  qed
  have "(\<forall>(k, r) \<in> set (regions self). disjoint_regions r q) \<longleftrightarrow>
      \<not> (\<exists>(k, r) \<in> set (regions self). k < start q \<and> \<not> disjoint_regions r q) \<and>
      \<not> (\<exists>(k, r) \<in> set (regions self). start q \<le> k \<and> \<not> disjoint_regions r q)"
    using leI by blast
  then show ?thesis unfolding test_free_area_def b a by simp
qed


section \<open>Operations keep the invariant\<close>

lemma region_mapped_mono:
  assumes "region_mapped P s p r" "\<And>h n e. pt_leaf P s p h n e \<Longrightarrow> pt_leaf P s' p' h n e"
  shows "region_mapped P s' p' r"
  using assms unfolding region_mapped_def by blast

lemma region_leaf_inside:
  "region_leaf P r a b h n e \<Longrightarrow> a \<le> n * bsz h \<and> n * bsz h < b"
  using bsz_pos [of h] by (auto simp: region_leaf_def)

lemma region_leaf_covers:
  "region_leaf P r a b h (blk h u) e \<Longrightarrow> a \<le> u \<and> u < b"
  using blk_bounds [where h = h and u = u] by (auto simp: region_leaf_def)

lemma disjoint_no_common: "disjoint_regions r q \<Longrightarrow> unat (start r) \<le> u \<and> u < region_end r \<Longrightarrow>
    \<not> (unat (start q) \<le> u \<and> u < region_end q)"
  by (auto simp: disjoint_regions_def)

lemma btm_insert_fresh:
  assumes "regions_ok p m" "\<forall>(k, r) \<in> set m. disjoint_regions r q" "sz q \<noteq> 0"
  shows "set (btm_insert (start q) q m) = insert (start q, q) (set m)"
proof -
  have srt: "btm_sorted m" using assms(1) by (simp add: regions_ok_def)
  have "k \<noteq> start q" if "(k, r) \<in> set m" for k r
  proof -
    have "disjoint_regions r q" using assms(2) that by blast
    moreover have "0 < unat (sz q)" using assms(3) by (simp add: unat_gt_0)
    ultimately have "unat (start r) \<noteq> unat (start q)"
      using regions_okD(4) [OF assms(1) that] unfolding disjoint_regions_def by linarith
    with regions_okD(1) [OF assms(1) that] show ?thesis by auto
  qed
  then show ?thesis unfolding btm_insert_set [OF srt] by auto
qed

lemma regions_ok_insert:
  assumes ok: "regions_ok p m" and dis: "\<forall>(k, r) \<in> set m. disjoint_regions r q" and q: "sz q \<noteq> 0" "mappable p q"
  shows "regions_ok p (btm_insert (start q) q m)"
proof -
  have "btm_sorted (btm_insert (start q) q m)" using ok by (simp add: regions_ok_def btm_insert_sorted)
  moreover have "disjoint_regions q r \<longleftrightarrow> disjoint_regions r q" for r by (auto simp: disjoint_regions_def)
  ultimately show ?thesis
    using ok dis q unfolding regions_ok_def btm_insert_fresh [OF ok dis q(1)] by auto
qed

lemma regions_ok_remove: "regions_ok p m \<Longrightarrow> regions_ok p (btm_remove k m)"
  unfolding regions_ok_def btm_remove_set by (auto simp: btm_remove_sorted)

context hv_paging
begin

text \<open>A region that does not meet the others can be mapped, if frames last.\<close>

lemma ms_clear_range:
  assumes "ms_exact P s self" "ms_tight P s self"
    and dis: "\<forall>(k, r) \<in> set (regions self). disjoint_regions r q"
  shows "clear_range P s (pt self) (unat (start q)) (region_end q)"
  unfolding clear_range_def
proof (intro conjI allI impI)
  fix u assume u: "unat (start q) \<le> u \<and> u < region_end q"
  show "pt_no_leaf P s (pt self) u"
    unfolding no_leaf_def
  proof (intro allI notI)
    fix h e assume "pt_leaf P s (pt self) h (blk h u) e"
    with assms(1) obtain k r where r: "(k, r) \<in> set (regions self)"
      "region_leaf P r (unat (start r)) (region_end r) h (blk h u) e" unfolding ms_exact_def by blast
    from region_leaf_covers [OF r(2)] dis r(1) u show False using disjoint_no_common by blast
  qed
next
  let ?L = "pt_height (pt self)"
  fix j n assume j: "j < 2 \<and> unat (start q) \<le> n * bsz (Suc j) \<and> n * bsz (Suc j) + bsz (Suc j) \<le> region_end q"
  have L: "0 < ?L - j" "?L - j \<le> ?L" "?L - (?L - j) = j" using j by (auto simp: pt_height_def)
  show "pt_tab P s (pt self) (?L - j) n = None"
  proof (rule ccontr)
    assume "pt_tab P s (pt self) (?L - j) n \<noteq> None"
    with assms(2) [unfolded ms_tight_def, rule_format, of "?L - j" n, unfolded L(3)] L(1,2)
    obtain k r u where r: "(k, r) \<in> set (regions self)" "unat (start r) \<le> u \<and> u < region_end r"
      "n = blk (Suc j) u" by blast
    with j blk_bounds [where h = "Suc j" and u = u] have "unat (start q) \<le> u \<and> u < region_end q" by auto
    with r(1,2) dis show False using disjoint_no_common by blast
  qed
qed

lemma insert_cases:
  assumes ok: "ms_ok P A s self" and m: "mappable (pt self) q" "sz q \<noteq> 0"
    and call: "ms_insert P A q (s, self) = (res, (s', self'))"
  obtains (inserted) "res = Ok ()" "\<forall>(k, r) \<in> set (regions self). disjoint_regions r q" "ms_ok P A s' self'"
      "pt_local P A s (pt self) s' (pt self')"
      "regions self' = btm_insert (start q) q (regions self)"
      "map_post P A q (unat (start q)) (region_end q) s (pt self) (Ok ()) s' (pt self')"
    | (overlap) "res = Err EINVAL" "\<exists>(k, r) \<in> set (regions self). \<not> disjoint_regions r q" "s' = s" "self' = self"
    | (failed) "res = Err ENOMEM \<and> (\<forall>f. \<not> frame_free A (falloc s') f) \<or>
        res = Err EFAULT \<and> \<not> clear_range P s (pt self) (unat (start q)) (region_end q)"
      "\<forall>(k, r) \<in> set (regions self). disjoint_regions r q" "ms_ok P A s' self'"
      "pt_local P A s (pt self) s' (pt self')" "regions self' = regions self"
      "map_post P A q (unat (start q)) (region_end q) s (pt self) res s' (pt self')"
proof -
  have pok: "pt_ok P A s (pt self)" and rok: "regions_ok (pt self) (regions self)"
    and mp: "\<forall>(k, r) \<in> set (regions self). region_mapped P s (pt self) r" using ok by (auto simp: ms_ok_def)
  have al: "is_aligned (start q)" "is_aligned (sz q)" using m by (auto simp: mappable_def)
  have tf: "test_free_area self q =
      (Ok (\<forall>(k, r) \<in> set (regions self). disjoint_regions r q) :: (HvErrorNum, bool) outcome)"
    by (rule test_free_area_Ok [OF rok mappable_fits [OF m(1)]])
  show thesis
  proof (cases "\<forall>(k, r) \<in> set (regions self). disjoint_regions r q")
    case False
    with call al m(2) tf have "res = Err EINVAL" "s' = s" "self' = self"
      by (auto simp: ms_insert_def)
    with False overlap show thesis by auto
  next
    case dis: True
    obtain r1 s1 p1 where pm: "pt_map P A q (s, pt self) = (r1, (s1, p1))" by (metis prod_cases3)
    note post = pt_map_post [OF pok m(1) pm]
    have loc: "pt_local P A s (pt self) s1 p1" and pok1: "pt_ok P A s1 p1"
      and up: "\<And>h n e. pt_leaf P s (pt self) h n e \<Longrightarrow> pt_leaf P s1 p1 h n e"
      using post unfolding map_post_def by blast+
    have lvl: "level p1 = level (pt self)" using loc by (simp add: pt_local_def)
    have run: "(res, (s', self')) = (case r1 of
        Ok _ \<Rightarrow> (Ok (), (s1, self\<lparr>pt := p1, regions := btm_insert (start q) q (regions self)\<rparr>))
      | Err e \<Rightarrow> (Err e, (s1, self\<lparr>pt := p1\<rparr>)) | Panic \<Rightarrow> (Panic, (s1, self\<lparr>pt := p1\<rparr>))
      | Hang \<Rightarrow> (Hang, (s1, self\<lparr>pt := p1\<rparr>)) | Fault \<Rightarrow> (Fault, (s1, self\<lparr>pt := p1\<rparr>)))"
      using call al m(2) tf dis pm
      by (cases r1) (auto simp: ms_insert_def bindP_def with_pt_run [where m = "pt_map P A q", OF pm])
    have kept: "\<forall>(k, r) \<in> set (regions self). region_mapped P s1 p1 r"
      using mp region_mapped_mono [OF _ up] by blast
    have "r1 = Ok () \<and> region_mapped P s1 p1 q \<or> (r1 = Err ENOMEM \<and> (\<forall>f. \<not> frame_free A (falloc s1) f) \<or>
        r1 = Err EFAULT \<and> \<not> clear_range P s (pt self) (unat (start q)) (region_end q))"
      using post unfolding map_post_def region_mapped_def by blast
    then show thesis
    proof
      assume r1: "r1 = Ok () \<and> region_mapped P s1 p1 q"
      with run have "res = Ok ()" "s' = s1"
        "self' = self\<lparr>pt := p1, regions := btm_insert (start q) q (regions self)\<rparr>" by simp_all
      moreover have "ms_ok P A s1 (self\<lparr>pt := p1, regions := btm_insert (start q) q (regions self)\<rparr>)"
        using pok1 kept r1 regions_ok_insert [OF rok dis m(2,1)]
        by (simp add: ms_ok_def regions_ok_cong [OF lvl] btm_insert_fresh [OF rok dis m(2)])
      ultimately show thesis using inserted dis loc post r1 by simp
    next
      assume r1: "r1 = Err ENOMEM \<and> (\<forall>f. \<not> frame_free A (falloc s1) f) \<or>
        r1 = Err EFAULT \<and> \<not> clear_range P s (pt self) (unat (start q)) (region_end q)"
      with run have "res = r1" "s' = s1" "self' = self\<lparr>pt := p1\<rparr>" by auto
      moreover have "ms_ok P A s1 (self\<lparr>pt := p1\<rparr>)"
        using pok1 kept rok by (simp add: ms_ok_def regions_ok_cong [OF lvl])
      ultimately show thesis using failed dis loc r1 post by simp
    qed
  qed
qed

lemma insert_exact:
  assumes ex: "ms_exact P s self" and ok: "ms_ok P A s self" and q: "sz q \<noteq> 0"
    and dis: "\<forall>(k, r) \<in> set (regions self). disjoint_regions r q"
    and reg: "regions self' = btm_insert (start q) q (regions self)"
    and post: "map_post P A q (unat (start q)) (region_end q) s (pt self) (Ok ()) s' (pt self')"
  shows "ms_exact P s' self'" "ms_tight P s self \<Longrightarrow> ms_tight P s' self'"
proof -
  have rok: "regions_ok (pt self) (regions self)" using ok by (simp add: ms_ok_def)
  have set': "set (regions self') = insert (start q, q) (set (regions self))"
    unfolding reg by (rule btm_insert_fresh [OF rok dis q])
  note p = post [unfolded map_post_def]
  show "ms_exact P s' self'"
    unfolding ms_exact_def set'
  proof (intro allI impI)
    fix h n e assume "pt_leaf P s' (pt self') h n e"
    with p consider "pt_leaf P s (pt self) h n e" | "region_leaf P q (unat (start q)) (region_end q) h n e" by blast
    then show "\<exists>(k, r) \<in> insert (start q, q) (set (regions self)). region_leaf P r (unat (start r)) (region_end r) h n e"
    proof cases
      case 1
      with ex show ?thesis unfolding ms_exact_def by blast
    qed blast
  qed
  assume tight: "ms_tight P s self"
  have L: "pt_height (pt self') = pt_height (pt self)"
    using post pt_local_same [of P A s "pt self" s' "pt self'"] by (simp add: map_post_def)
  show "ms_tight P s' self'"
    unfolding ms_tight_def L set'
  proof (intro allI impI)
    fix d n assume d: "0 < d \<and> d \<le> pt_height (pt self) \<and> pt_tab P s' (pt self') d n \<noteq> None"
    with p consider "pt_tab P s (pt self) d n \<noteq> None"
      | u where "unat (start q) \<le> u" "u < region_end q" "n = blk (Suc (pt_height (pt self) - d)) u" by blast
    then show "\<exists>(k, r) \<in> insert (start q, q) (set (regions self)). \<exists>u. unat (start r) \<le> u \<and> u < region_end r \<and>
        n = blk (Suc (pt_height (pt self) - d)) u"
    proof cases
      case 1
      with tight d show ?thesis unfolding ms_tight_def by blast
    qed blast
  qed
qed

lemma unmap_region:
  assumes ok: "pt_ok P A s p" and m: "mappable p r" and mp: "region_mapped P s p r"
  obtains s' where "pt_unmap P r (s, p) = (Ok (), (s', p))" "pt_ok P A s' p" "pt_local P A s p s' p"
    "\<And>h n e. pt_leaf P s' p h n e \<longleftrightarrow> pt_leaf P s p h n e \<and> \<not> (unat (start r) \<le> n * bsz h \<and> n * bsz h < region_end r)"
proof -
  have t: "tiled P s p (unat (start r)) (region_end r)"
    using mp unfolding tiled_def region_mapped_def region_leaf_def by blast
  have "region_end r \<le> bsz (Suc (pt_height p))" using m by (simp add: mappable_def va_limit_bsz)
  from unmap_loop_post [OF ok t this] that show thesis by (auto simp: pt_unmap_def)
qed

lemma unmap_keeps_mapped:
  assumes mp: "region_mapped P s p q" and dis: "disjoint_regions r q"
    and leaf: "\<And>h n e. pt_leaf P s' p h n e \<longleftrightarrow> pt_leaf P s p h n e \<and>
      \<not> (unat (start r) \<le> n * bsz h \<and> n * bsz h < region_end r)"
  shows "region_mapped P s' p q"
  unfolding region_mapped_def
proof (intro allI impI)
  fix u assume "unat (start q) \<le> u \<and> u < region_end q"
  with mp obtain h e where lf: "pt_leaf P s p h (blk h u) e"
    and rl: "region_leaf P q (unat (start q)) (region_end q) h (blk h u) e" unfolding region_mapped_def by blast
  have "\<not> (unat (start r) \<le> blk h u * bsz h \<and> blk h u * bsz h < region_end r)"
    using region_leaf_inside [OF rl] dis disjoint_no_common by blast
  with lf rl leaf show "\<exists>h e. pt_leaf P s' p h (blk h u) e \<and>
      region_leaf P q (unat (start q)) (region_end q) h (blk h u) e" by blast
qed

lemma delete_cases:
  assumes ok: "ms_ok P A s self" and call: "ms_delete P k (s, self) = (res, (s', self'))"
  obtains (deleted) r where "res = Ok ()" "(k, r) \<in> set (regions self)" "ms_ok P A s' self'"
      "regions self' = btm_remove k (regions self)" "pt_local P A s (pt self) s' (pt self')" "pt self' = pt self"
      "\<And>h n e. pt_leaf P s' (pt self) h n e \<longleftrightarrow> pt_leaf P s (pt self) h n e \<and>
        \<not> (unat (start r) \<le> n * bsz h \<and> n * bsz h < region_end r)"
    | (absent) "res = Err EINVAL" "\<And>r. (k, r) \<notin> set (regions self)" "s' = s" "self' = self"
proof -
  have pok: "pt_ok P A s (pt self)" and rok: "regions_ok (pt self) (regions self)"
    and mp: "\<And>k r. (k, r) \<in> set (regions self) \<Longrightarrow> region_mapped P s (pt self) r" using ok by (auto simp: ms_ok_def)
  have srt: "btm_sorted (regions self)" using rok by (simp add: regions_ok_def)
  show thesis
  proof (cases "map_of (regions self) k")
    case None
    with call have "res = Err EINVAL" "s' = s" "self' = self" by (simp_all add: ms_delete_def)
    moreover have "(k, r) \<notin> set (regions self)" for r using None btm_lookup [OF srt, of k r] by simp
    ultimately show thesis using absent by blast
  next
    case (Some r)
    then have r: "(k, r) \<in> set (regions self)" using btm_lookup [OF srt] by blast
    from unmap_region [OF pok regions_okD(3) [OF rok r] mp [OF r]] obtain s1 where
      um: "pt_unmap P r (s, pt self) = (Ok (), (s1, pt self))" and ok1: "pt_ok P A s1 (pt self)"
      and loc: "pt_local P A s (pt self) s1 (pt self)"
      and leaf: "\<And>h n e. pt_leaf P s1 (pt self) h n e \<longleftrightarrow> pt_leaf P s (pt self) h n e \<and>
        \<not> (unat (start r) \<le> n * bsz h \<and> n * bsz h < region_end r)" by blast
    from call Some have run: "res = Ok ()" "s' = s1" "self' = self\<lparr>regions := btm_remove k (regions self)\<rparr>"
      by (auto simp: ms_delete_def bindP_def with_pt_run [where m = "pt_unmap P r", OF um])
    have "region_mapped P s1 (pt self) q" if "(k', q) \<in> set (regions self)" "k' \<noteq> k" for k' q
      by (rule unmap_keeps_mapped [OF mp [OF that(1)] _ leaf]) (use regions_ok_disjoint [OF rok r that(1)] that(2) in simp)
    then have "ms_ok P A s1 (self\<lparr>regions := btm_remove k (regions self)\<rparr>)"
      using ok1 regions_ok_remove [OF rok] unfolding ms_ok_def by (auto simp: btm_remove_set)
    then show thesis
      by (intro deleted [OF run(1) r]) (use run loc leaf in simp_all)
  qed
qed

lemma delete_exact:
  assumes ex: "ms_exact P s self" and ok: "ms_ok P A s self" and k: "(k, r) \<in> set (regions self)"
    and reg: "regions self' = btm_remove k (regions self)" "pt self' = pt self"
    and leaf: "\<And>h n e. pt_leaf P s' (pt self) h n e \<longleftrightarrow> pt_leaf P s (pt self) h n e \<and>
      \<not> (unat (start r) \<le> n * bsz h \<and> n * bsz h < region_end r)"
  shows "ms_exact P s' self'"
  unfolding ms_exact_def reg
proof (intro allI impI)
  have srt: "btm_sorted (regions self)" using ok by (simp add: ms_ok_def regions_ok_def)
  fix h n e assume "pt_leaf P s' (pt self) h n e"
  with leaf have l: "pt_leaf P s (pt self) h n e"
    and out: "\<not> (unat (start r) \<le> n * bsz h \<and> n * bsz h < region_end r)" by auto
  from ex l obtain k' q where q: "(k', q) \<in> set (regions self)"
    "region_leaf P q (unat (start q)) (region_end q) h n e" unfolding ms_exact_def by blast
  have "k' \<noteq> k"
  proof
    assume "k' = k"
    with q(1) k btm_lookup [OF srt] have "q = r" by (metis option.inject)
    with out region_leaf_inside [OF q(2)] show False by blast
  qed
  with q show "\<exists>(k, r) \<in> set (btm_remove k (regions self)). region_leaf P r (unat (start r)) (region_end r) h n e"
    by (auto simp: btm_remove_set)
qed

lemma clear_loop:
  assumes "pt_ok P A s (pt self)" "\<forall>r \<in> set rs. mappable (pt self) r \<and> region_mapped P s (pt self) r"
    "sorted_wrt disjoint_regions rs"
  shows "\<exists>s'. forP rs (\<lambda>region. unwrapP (with_pt (pt_unmap P region))) (s, self) =
      (Ok () :: (HvErrorNum, unit) outcome, (s', self)) \<and>
    pt_ok P A s' (pt self) \<and> pt_local P A s (pt self) s' (pt self) \<and>
    (\<forall>h n e. pt_leaf P s' (pt self) h n e \<longleftrightarrow> pt_leaf P s (pt self) h n e \<and>
       (\<forall>r \<in> set rs. \<not> (unat (start r) \<le> n * bsz h \<and> n * bsz h < region_end r)))"
  using assms
proof (induction rs arbitrary: s)
  case Nil
  then show ?case using pt_local_refl [OF Nil(1)] by auto
next
  case (Cons r rs)
  then have m: "mappable (pt self) r" "region_mapped P s (pt self) r" by simp_all
  from unmap_region [OF Cons.prems(1) m] obtain s1 where
    um: "pt_unmap P r (s, pt self) = (Ok (), (s1, pt self))" and ok1: "pt_ok P A s1 (pt self)"
    and loc: "pt_local P A s (pt self) s1 (pt self)"
    and leaf: "\<And>h n e. pt_leaf P s1 (pt self) h n e \<longleftrightarrow> pt_leaf P s (pt self) h n e \<and>
      \<not> (unat (start r) \<le> n * bsz h \<and> n * bsz h < region_end r)" by blast
  have step: "unwrapP (with_pt (pt_unmap P r)) (s, self) =
      (Ok () :: (HvErrorNum, unit) outcome, (s1, self))"
    by (simp add: unwrapP_def with_pt_run [where m = "pt_unmap P r", OF um])
  have "\<forall>q \<in> set rs. mappable (pt self) q \<and> region_mapped P s1 (pt self) q"
    using Cons.prems(2,3) unmap_keeps_mapped [OF _ _ leaf] by auto
  with Cons.IH [OF ok1] Cons.prems(3) obtain s2 where
    run: "forP rs (\<lambda>region. unwrapP (with_pt (pt_unmap P region))) (s1, self) =
      (Ok () :: (HvErrorNum, unit) outcome, (s2, self))"
    and ok2: "pt_ok P A s2 (pt self)" and loc2: "pt_local P A s1 (pt self) s2 (pt self)"
    and leaf2: "\<forall>h n e. pt_leaf P s2 (pt self) h n e \<longleftrightarrow> pt_leaf P s1 (pt self) h n e \<and>
       (\<forall>r \<in> set rs. \<not> (unat (start r) \<le> n * bsz h \<and> n * bsz h < region_end r))" by force
  have "forP (r # rs) (\<lambda>region. unwrapP (with_pt (pt_unmap P region))) (s, self) =
      (Ok () :: (HvErrorNum, unit) outcome, (s2, self))"
    using step run by (simp add: bindP_def)
  moreover have "pt_leaf P s2 (pt self) h n e \<longleftrightarrow> pt_leaf P s (pt self) h n e \<and>
       (\<forall>r \<in> set (r # rs). \<not> (unat (start r) \<le> n * bsz h \<and> n * bsz h < region_end r))" for h n e
    using leaf [of h n e] leaf2 by auto
  ultimately show ?case using ok2 pt_local_trans [OF loc loc2] by blast
qed

lemma regions_sorted_disjoint: "regions_ok p m \<Longrightarrow> sorted_wrt disjoint_regions (map snd m)"
proof -
  assume ok: "regions_ok p m"
  then have "sorted_wrt (\<lambda>x y. fst x < fst y) m" by (simp add: regions_ok_def btm_sorted_def sorted_wrt_map)
  then have "sorted_wrt (\<lambda>x y. disjoint_regions (snd x) (snd y)) m"
  proof (rule sorted_wrt_mono_rel [rotated])
    fix x y :: "usize \<times> MemoryRegion"
    assume "x \<in> set m" "y \<in> set m" "fst x < fst y"
    then show "disjoint_regions (snd x) (snd y)"
      using regions_ok_disjoint [OF ok, of "fst x" "snd x" "fst y" "snd y"] by simp
  qed
  then show ?thesis by (simp add: sorted_wrt_map)
qed

lemma clear_all:
  assumes ok: "ms_ok P A s self"
  obtains s' where "ms_clear P (s, self) = (Ok (), (s', self\<lparr>regions := []\<rparr>))" "pt_ok P A s' (pt self)"
    "pt_local P A s (pt self) s' (pt self)" "ms_exact P s self \<Longrightarrow> (\<And>h n e. \<not> pt_leaf P s' (pt self) h n e)"
proof -
  have pok: "pt_ok P A s (pt self)" and rok: "regions_ok (pt self) (regions self)"
    and mp: "\<And>k r. (k, r) \<in> set (regions self) \<Longrightarrow> region_mapped P s (pt self) r" using ok by (auto simp: ms_ok_def)
  have "\<forall>r \<in> set (map snd (regions self)). mappable (pt self) r \<and> region_mapped P s (pt self) r"
    using mp regions_okD(3) [OF rok] by auto
  from clear_loop [OF pok this regions_sorted_disjoint [OF rok]] obtain s' where
    run: "forP (map snd (regions self)) (\<lambda>region. unwrapP (with_pt (pt_unmap P region))) (s, self)
      = (Ok () :: (HvErrorNum, unit) outcome, (s', self))"
    and ok': "pt_ok P A s' (pt self)" and loc: "pt_local P A s (pt self) s' (pt self)"
    and leaf: "\<forall>h n e. pt_leaf P s' (pt self) h n e \<longleftrightarrow> pt_leaf P s (pt self) h n e \<and>
       (\<forall>r \<in> set (map snd (regions self)). \<not> (unat (start r) \<le> n * bsz h \<and> n * bsz h < region_end r))" by blast
  have "ms_clear P (s, self) = (Ok (), (s', self\<lparr>regions := []\<rparr>))"
    using run by (simp add: ms_clear_def bindP_def)
  moreover have "\<not> pt_leaf P s' (pt self) h n e" if "ms_exact P s self" for h n e
  proof
    assume "pt_leaf P s' (pt self) h n e"
    with leaf have "pt_leaf P s (pt self) h n e"
      and out: "\<forall>r \<in> snd ` set (regions self). \<not> (unat (start r) \<le> n * bsz h \<and> n * bsz h < region_end r)" by auto
    with that obtain k r where "(k, r) \<in> set (regions self)"
      "region_leaf P r (unat (start r)) (region_end r) h n e" unfolding ms_exact_def by blast
    with out region_leaf_inside show False by force
  qed
  ultimately show thesis using that ok' loc by blast
qed

lemma drop_set:
  assumes ok: "ms_ok P A s self"
  shows "\<exists>s'. MemorySet_drop P A self s = (Ok (), s') \<and> falloc_ok A (falloc s') \<and>
    (\<forall>q. frame_free A (falloc s') q \<longleftrightarrow> frame_free A (falloc s) q \<or> q \<in> pt_tables P s (pt self))"
proof -
  obtain s1 where c: "ms_clear P (s, self) = (Ok () :: (HvErrorNum, unit) outcome, (s1, self\<lparr>regions := []\<rparr>))"
    and ok1: "pt_ok P A s1 (pt self)" and loc: "pt_local P A s (pt self) s1 (pt self)"
    by (rule clear_all [OF ok])
  note d = pt_okD [OF ok1]
  let ?fs = "root (pt self) # intrm_tables (pt self)"
  have "\<forall>f \<in> set ?fs. frame_count f = 1 \<and> in_pool (falloc s1) (start_paddr f) \<and>
      \<not> frame_free A (falloc s1) (start_paddr f)"
    using d(6,7,8) unfolding d(4) tracked_def set_map by blast
  from drop_frames_used [OF d(1) this d(5) [unfolded tracked_def]] obtain t where
    t: "drop_frames A ?fs s1 = (Ok () :: (HvErrorNum, unit) outcome, t)" "falloc_ok A (falloc t)"
      "\<forall>q. frame_free A (falloc t) q \<longleftrightarrow> frame_free A (falloc s1) q \<or> q \<in> start_paddr ` set ?fs"
    by blast
  have tr: "start_paddr ` set ?fs = pt_tables P s1 (pt self)" unfolding d(4) by (simp add: tracked_def)
  have okp: "pt_ok P A s (pt self)" using ok by (simp add: ms_ok_def)
  have "pt_tables P s1 (pt self) = pt_tables P s (pt self)"
    unfolding pt_okD(4) [OF okp] d(4) ..
  moreover have "frame_free A (falloc s1) q \<or> q \<in> pt_tables P s1 (pt self) \<longleftrightarrow>
      frame_free A (falloc s) q \<or> q \<in> pt_tables P s (pt self)" for q
    using loc unfolding pt_local_def by blast
  ultimately have "frame_free A (falloc t) q \<longleftrightarrow> frame_free A (falloc s) q \<or> q \<in> pt_tables P s (pt self)" for q
    using t(3) unfolding tr by blast
  with t c show ?thesis by (simp add: MemorySet_drop_def)
qed

end

section \<open>What a set translates\<close>

definition region_of :: "MemorySet \<Rightarrow> VirtAddr \<Rightarrow> MemoryRegion option" where
  "region_of self v = find (\<lambda>r. in_region r v) (map snd (regions self))"

definition all_offset :: "MemorySet \<Rightarrow> bool" where
  "all_offset self \<longleftrightarrow> (\<forall>(k, r) \<in> set (regions self). offset_aligned r)"

context hv_paging
begin

lemma mapped_query:
  assumes ok: "pt_ok P A s p" and m: "mappable p r" "offset_aligned r" "region_mapped P s p r"
    and v: "in_region r v"
  shows "\<exists>z. query P p v (bytes s) = Ok (map_fn (mapper r) v, norm (flags r), z)"
proof -
  have top: "blk (Suc (pt_height p)) (unat v) = 0"
    using v m(1) by (simp add: in_region_def mappable_def flip: va_limit_blk)
  from m(3) v obtain h e where lf: "pt_leaf P s p h (blk h (unat v)) e"
    and rl: "region_leaf P r (unat (start r)) (region_end r) h (blk h (unat v)) e"
    unfolding region_mapped_def in_region_def by blast
  obtain off where off: "mapper r = Offset off" "is_aligned off"
    using m(2) by (auto simp: offset_aligned_def split: Mapper.splits)
  note lp = region_leaf_props [OF rl m(1)]
  from query_leaf [OF pt_ok_wf [OF ok] top lf lp(2)] region_leaf_translation [OF rl off lp(1)]
  show ?thesis by simp
qed

lemma set_query:
  assumes ok: "ms_ok P A s self" and ex: "ms_exact P s self" "all_offset self"
    and v: "unat v < va_limit (pt self)"
  shows "case region_of self v of
      Some r \<Rightarrow> \<exists>z. query P (pt self) v (bytes s) = Ok (map_fn (mapper r) v, norm (flags r), z)
    | None \<Rightarrow> query P (pt self) v (bytes s) = Err NotMapped"
proof -
  have pok: "pt_ok P A s (pt self)" and rok: "regions_ok (pt self) (regions self)"
    and mp: "\<And>k r. (k, r) \<in> set (regions self) \<Longrightarrow> region_mapped P s (pt self) r" using ok by (auto simp: ms_ok_def)
  show ?thesis
  proof (cases "region_of self v")
    case None
    then have out: "\<And>k r. (k, r) \<in> set (regions self) \<Longrightarrow> \<not> in_region r v"
      by (auto simp: region_of_def find_None_iff)
    have "pt_no_leaf P s (pt self) (unat v)"
      unfolding no_leaf_def
    proof (intro allI notI)
      fix h e assume "pt_leaf P s (pt self) h (blk h (unat v)) e"
      with ex(1) obtain k r where "(k, r) \<in> set (regions self)"
        "region_leaf P r (unat (start r)) (region_end r) h (blk h (unat v)) e" unfolding ms_exact_def by blast
      with out region_leaf_covers show False unfolding in_region_def by blast
    qed
    with query_none [OF pt_ok_wf [OF pok]] v None show ?thesis by (simp add: va_limit_blk)
  next
    case (Some r)
    then obtain k where k: "(k, r) \<in> set (regions self)" "in_region r v"
      by (auto simp: region_of_def find_Some_iff in_set_conv_nth)
        (metis (no_types, lifting) nth_mem prod.collapse)
    have "offset_aligned r" using ex(2) k(1) by (auto simp: all_offset_def)
    from mapped_query [OF pok regions_okD(3) [OF rok k(1)] this mp [OF k(1)] k(2)] Some show ?thesis by simp
  qed
qed

end

end
