(* ===== verification/Hv_MsSpec.thy ===== *)
theory Hv_MsSpec
  imports Hv_MemorySet
begin

text \<open>
  What a \<open>MemorySet\<close> promises to the zones and to the hypervisor itself. The abstract view of a set
  is its list of regions: an address is translated by the region that contains it and by nothing
  else (\<open>spec_query\<close>), inserting adds a region that meets no other, deleting takes one away. The
  theorems state that \<open>ms_insert\<close>, \<open>ms_delete\<close>, \<open>page_table_query\<close> and \<open>MemorySet_drop\<close>
  of Hv_MemorySet, which work on the table bytes, implement this view for both entry formats.
\<close>

section \<open>The abstract view\<close>

definition spec_overlaps :: "MemorySet \<Rightarrow> MemoryRegion \<Rightarrow> bool" where
  "spec_overlaps self q \<longleftrightarrow> list_ex (\<lambda>(k, r). \<not> disjoint_regions r q) (regions self)"

lemma spec_overlaps_iff:
  "spec_overlaps self q \<longleftrightarrow> (\<exists>(k, r) \<in> set (regions self). \<not> disjoint_regions r q)"
  "\<not> spec_overlaps self q \<longleftrightarrow> (\<forall>(k, r) \<in> set (regions self). disjoint_regions r q)"
  by (auto simp: spec_overlaps_def list_ex_iff)

definition spec_query :: "MemorySet \<Rightarrow> VirtAddr \<Rightarrow> (PhysAddr \<times> MemFlags) option" where
  "spec_query self v = map_option (\<lambda>r. (map_fn (mapper r) v, norm_flags (flags r))) (region_of self v)"

definition translation :: "(PagingError, PhysAddr \<times> MemFlags \<times> PageSize) outcome \<Rightarrow> (PhysAddr \<times> MemFlags) option" where
  "translation r = (case r of Ok (p, f, _) \<Rightarrow> Some (p, f) | _ \<Rightarrow> None)"

section \<open>A set to evaluate\<close>

definition small_set :: MemorySet where
  "small_set = \<lparr>regions = [], pt = small_pt\<rparr>"

lemma small_set_new: "MemorySet_new list_bits 3 small_pool = (Ok small_set, small_state)"
  by (simp add: MemorySet_new_def bindP_def small_new small_set_def)

lemma small_leaf_free: "\<not> pt_leaf S2_pte small_state small_pt h n e"
proof -
  have "pt_no_leaf S2_pte small_state small_pt (n * bsz h)"
    using small_clear(2) [of "n * bsz h" "n * bsz h + 1"] by (simp add: clear_range_def)
  moreover have "blk h (n * bsz h) = n" using bsz_pos by (simp add: blk_bsz)
  ultimately show ?thesis unfolding no_leaf_def by metis
qed

lemma small_set_ok: "ms_ok S2_pte list_bits small_state small_set" "ms_exact S2_pte small_state small_set"
  by (simp_all add: ms_ok_def small_set_def small_clear regions_ok_def btm_sorted_def ms_exact_def small_leaf_free)

lemma small_set_insert: "\<exists>t. ms_insert S2_pte list_bits small_region (small_state, small_set) =
  (Ok (), (t, \<lparr>regions = [(0x40000000, small_region)], pt = small_pt\<rparr>))"
proof -
  obtain t where t: "pt_map S2_pte list_bits small_region (small_state, pt small_set) = (Ok (), (t, small_pt))"
    using small_map by (auto simp: small_set_def)
  show ?thesis
    using with_pt_run [where m = "pt_map S2_pte list_bits small_region", OF t]
    by (simp add: ms_insert_def bindP_def small_region_props is_aligned_iff test_free_area_def
        range_to_last_def range_from_next_def small_set_def)
qed

definition full_set :: MemorySet where
  "full_set = \<lparr>regions = [(0x40000000, small_region)], pt = small_pt\<rparr>"

lemma full_set_ok:
  obtains t where "ms_insert S2_pte list_bits small_region (small_state, small_set) = (Ok (), (t, full_set))"
    "ms_ok S2_pte list_bits t full_set" "ms_exact S2_pte t full_set" "all_offset full_set"
proof -
  obtain t where t: "ms_insert S2_pte list_bits small_region (small_state, small_set) = (Ok (), (t, full_set))"
    using small_set_insert by (auto simp: full_set_def)
  have m: "mappable (pt small_set) small_region" "sz small_region \<noteq> 0"
    using small_mappable(1) by (simp_all add: small_set_def small_region_props)
  have off: "all_offset full_set" by (simp add: all_offset_def full_set_def small_mappable)
  show thesis
  proof (cases rule: s2_list.insert_cases [OF small_set_ok(1) m t])
    case 1
    from s2_list.insert_exact(1) [OF small_set_ok(2,1) m(2) 1(2,5,6)] 1(3) t off that show thesis by blast
  qed simp_all
qed

section \<open>Properties\<close>

text \<open>
  C14: inserting a page aligned region into a set in which nothing is mapped but the recorded regions
  either adds it (it met none of them; it is recorded, and again nothing is mapped but the recorded regions),
  or is refused with \<open>EINVAL\<close> and changes nothing (exactly when it meets a recorded region),
  or fails with \<open>ENOMEM\<close> once no free frame is left, or with \<open>EFAULT\<close>, which needs a table left
  over from a region deleted earlier. After such a failure the recorded regions are those of before and still mapped, but pages of
  the new region may be mapped beside them, and nothing else. The insertion never panics, and never touches memory that is neither a
  table of this set nor a free frame.
\<close>

theorem ms_insert_refines:
  assumes "P \<in> {S1_pte, S2_pte}" and "bit_alloc A" and "ms_ok P A s self" and "ms_exact P s self"
    and "mappable (pt self) q" and "sz q \<noteq> 0"
    and "ms_insert P A q (s, self) = (res, (s', self'))"
  shows "ms_ok P A s' self' \<and>
    (if spec_overlaps self q then res = Err EINVAL \<and> s' = s \<and> self' = self
     else pt_local P A s (pt self) s' (pt self') \<and>
      (if res = Ok () then ms_exact P s' self' \<and> regions self' = btm_insert (start q) q (regions self) \<and>
         (ms_tight P s self \<longrightarrow> ms_tight P s' self')
       else regions self' = regions self \<and>
         (\<forall>h n e. pt_leaf P s' (pt self') h n e \<longrightarrow> region_leaf P q (unat (start q)) (region_end q) h n e \<or>
            (\<exists>(k, r) \<in> set (regions self). region_leaf P r (unat (start r)) (region_end r) h n e)) \<and>
         (res = Err ENOMEM \<and> (\<forall>f. \<not> frame_free A (falloc s') f) \<or> res = Err EFAULT \<and> \<not> ms_tight P s self)))"
proof -
  note hp = hv_paging_formats [OF assms(1,2)]
  show ?thesis
  proof (cases rule: hv_paging.insert_cases [OF hp assms(3,5,6,7)])
    case 1
    then show ?thesis
      using hv_paging.insert_exact [OF hp assms(4,3,6) 1(2,5,6)] spec_overlaps_iff(2) [of self q] by simp
  next
    case 2
    then show ?thesis using assms(3) spec_overlaps_iff(1) [of self q] by simp
  next
    case 3
    have "clear_range P s (pt self) (unat (start q)) (region_end q)" if "ms_tight P s self"
      by (rule hv_paging.ms_clear_range [OF hp assms(4) that 3(2)])
    moreover have "region_leaf P q (unat (start q)) (region_end q) h n e \<or>
        (\<exists>(k, r) \<in> set (regions self). region_leaf P r (unat (start r)) (region_end r) h n e)"
      if "pt_leaf P s' (pt self') h n e" for h n e
      using that 3(6) assms(4) unfolding map_post_def ms_exact_def by blast
    moreover have "res \<noteq> Ok ()" using 3(1) by auto
    moreover have "\<not> spec_overlaps self q" using 3(2) spec_overlaps_iff(2) [of self q] by blast
    ultimately show ?thesis using 3(1,3,4,5) by (simp only: if_False) blast
  qed
qed

theorem ms_insert_refines_witness:
  "\<exists>t. ms_insert S2_pte list_bits small_region (small_state, small_set) = (Ok (), (t, full_set)) \<and>
     ms_ok S2_pte list_bits t full_set \<and> ms_exact S2_pte t full_set"
proof -
  obtain t where t: "ms_insert S2_pte list_bits small_region (small_state, small_set) = (Ok (), (t, full_set))"
    using small_set_insert by (auto simp: full_set_def)
  have "S2_pte \<in> {S1_pte, S2_pte}" "mappable (pt small_set) small_region" "sz small_region \<noteq> 0"
    using small_mappable(1) by (simp_all add: small_set_def small_region_props)
  from ms_insert_refines [OF this(1) list_bits.bit_alloc_axioms small_set_ok this(2,3) t]
  have "ms_ok S2_pte list_bits t full_set \<and> ms_exact S2_pte t full_set"
    by (simp add: spec_overlaps_def small_set_def)
  with t show ?thesis by blast
qed

text \<open>
  C17: in such a set the page table walk of \<open>query\<close> returns, for every address the table can
  translate, what the region containing the address says, with the mapper's physical address and
  the region's flags, and \<open>NotMapped\<close> where no region contains it.
\<close>

theorem ms_query_refines:
  assumes "P \<in> {S1_pte, S2_pte}" and "bit_alloc A" and "ms_ok P A s self" and "ms_exact P s self"
    and "all_offset self" and "unat v < va_limit (pt self)"
  shows "translation (page_table_query P self v (bytes s)) = spec_query self v \<and>
    (spec_query self v = None \<longleftrightarrow> page_table_query P self v (bytes s) = Err NotMapped)"
proof -
  note hp = hv_paging_formats [OF assms(1,2)]
  from hv_paging.set_query [OF hp assms(3-6)] show ?thesis
    by (auto simp: page_table_query_def spec_query_def translation_def split: option.splits)
qed

theorem ms_query_refines_witness:
  "\<exists>t. ms_insert S2_pte list_bits small_region (small_state, small_set) = (Ok (), (t, full_set)) \<and>
     translation (page_table_query S2_pte full_set 0x40001234 (bytes t)) = Some (0xC0001234, READ OR WRITE) \<and>
     page_table_query S2_pte full_set 0x80000000 (bytes t) = Err NotMapped"
proof -
  obtain t where t: "ms_insert S2_pte list_bits small_region (small_state, small_set) = (Ok (), (t, full_set))"
    "ms_ok S2_pte list_bits t full_set" "ms_exact S2_pte t full_set" "all_offset full_set" by (rule full_set_ok)
  have v: "unat (0x40001234 :: usize) < va_limit (pt full_set)" "unat (0x80000000 :: usize) < va_limit (pt full_set)"
    by (simp_all add: va_limit_def)
  have q: "spec_query full_set 0x40001234 = Some (0xC0001234, READ OR WRITE)" "spec_query full_set 0x80000000 = None"
    by (simp_all add: spec_query_def region_of_def full_set_def in_region_def small_region_props norm_flags_def MemFlags_defs)
  have "S2_pte \<in> {S1_pte, S2_pte}" by simp
  note r = ms_query_refines [OF this list_bits.bit_alloc_axioms t(2-4)]
  from r [OF v(1)] r [OF v(2)] q t(1) show ?thesis by auto
qed



text \<open>
  C20: dropping a set never panics and leaks nothing: afterwards the free frames are those that
  were free before together with every table the set had allocated.
\<close>

theorem ms_drop_frees:
  assumes "P \<in> {S1_pte, S2_pte}" and "bit_alloc A" and "ms_ok P A s self"
  shows "\<exists>s'. MemorySet_drop P A self s = (Ok (), s') \<and> falloc_ok A (falloc s') \<and>
    (\<forall>q. frame_free A (falloc s') q \<longleftrightarrow> frame_free A (falloc s) q \<or> q \<in> pt_tables P s (pt self))"
  by (rule hv_paging.drop_set [OF hv_paging_formats [OF assms(1,2)] assms(3)])

theorem ms_drop_frees_witness:
  "\<exists>s'. MemorySet_drop S2_pte list_bits small_set small_state = (Ok (), s') \<and>
     frame_free list_bits (falloc s') 0x80000000"
proof -
  have "S2_pte \<in> {S1_pte, S2_pte}" by simp
  from ms_drop_frees [OF this list_bits.bit_alloc_axioms small_set_ok(1)] obtain s' where
    "MemorySet_drop S2_pte list_bits small_set small_state = (Ok (), s')"
    "\<And>q. q \<in> pt_tables S2_pte small_state (pt small_set) \<Longrightarrow> frame_free list_bits (falloc s') q" by blast
  moreover have "0x80000000 \<in> pt_tables S2_pte small_state (pt small_set)"
    using pt_okD(4) [OF small_clear(1)] by (simp add: small_set_def tracked_def small_pt_def)
  ultimately show ?thesis by blast
qed

end
