(* ===== verification/Hv_Config.thy ===== *)
theory Hv_Config
  imports Hv_Error Hv_Addr
begin

text \<open>
  The zone configurations of \<open>config.rs\<close> and \<open>arch/aarch64/zone.rs\<close>, the root zone configurations
  of the two aarch64 platforms (\<open>platform/\<close>), and the CPU sets of \<open>percpu.rs\<close>. A CPU set is a
  bitmap with a largest identifier; its abstraction \<open>members\<close> is the set of CPU numbers in it, and
  the lemmas show that the iterators visit exactly the members in increasing order.
\<close>

section \<open>Configurations\<close>

definition MEM_TYPE_RAM :: u32 where
  "MEM_TYPE_RAM = 0"

definition MEM_TYPE_IO :: u32 where
  "MEM_TYPE_IO = 1"

definition MEM_TYPE_VIRTIO :: u32 where
  "MEM_TYPE_VIRTIO = 2"

definition CONFIG_MAX_MEMORY_REGIONS :: nat where
  "CONFIG_MAX_MEMORY_REGIONS = 16"

definition CONFIG_MAX_INTERRUPTS :: nat where
  "CONFIG_MAX_INTERRUPTS = 32"

record HvConfigMemoryRegion =
  mem_type :: u32
  physical_start :: u64
  virtual_start :: u64
  mr_size :: u64

definition HvConfigMemoryRegion_new_empty :: HvConfigMemoryRegion where
  "HvConfigMemoryRegion_new_empty = \<lparr>mem_type = 0, physical_start = 0, virtual_start = 0, mr_size = 0\<rparr>"

record HvArchZoneConfig =
  gicd_base :: usize
  gicr_base :: usize
  gicd_size :: usize
  gicr_size :: usize

text \<open>The two arrays have fixed lengths in the sources; \<open>config_wf\<close> states them.\<close>

record HvZoneConfig =
  zone_id :: u32
  cfg_cpus :: u64
  num_memory_regions :: u32
  memory_regions_arr :: "HvConfigMemoryRegion list"
  num_interrupts :: u32
  interrupts_arr :: "u32 list"
  entry_point :: u64
  kernel_load_paddr :: u64
  kernel_size :: u64
  dtb_load_paddr :: u64
  dtb_size :: u64
  arch :: HvArchZoneConfig

definition config_wf :: "HvZoneConfig \<Rightarrow> bool" where
  "config_wf c \<longleftrightarrow> length (memory_regions_arr c) = CONFIG_MAX_MEMORY_REGIONS \<and>
     length (interrupts_arr c) = CONFIG_MAX_INTERRUPTS"

definition memory_regions :: "HvZoneConfig \<Rightarrow> (HvErrorNum, HvConfigMemoryRegion list) outcome" where
  "memory_regions self =
     (if of_nat CONFIG_MAX_MEMORY_REGIONS < num_memory_regions self then Panic
      else Ok (take (unat (num_memory_regions self)) (memory_regions_arr self)))"

definition interrupts :: "HvZoneConfig \<Rightarrow> (HvErrorNum, u32 list) outcome" where
  "interrupts self =
     (if of_nat CONFIG_MAX_INTERRUPTS < num_interrupts self then Panic
      else Ok (take (unat (num_interrupts self)) (interrupts_arr self)))"

definition cpus :: "HvZoneConfig \<Rightarrow> u64 list" where
  "cpus self = filter (\<lambda>i. drop_bit (unat i) (cfg_cpus self) AND 1 = 1) (map of_nat [0..<64])"

section \<open>Platforms\<close>

definition ROOT_ZONE_DTB_ADDR :: u64 where
  "ROOT_ZONE_DTB_ADDR = 0xa0000000"

definition ROOT_ZONE_KERNEL_ADDR :: u64 where
  "ROOT_ZONE_KERNEL_ADDR = 0xa0400000"

definition ROOT_ZONE_ENTRY :: u64 where
  "ROOT_ZONE_ENTRY = 0xa0400000"

definition ROOT_ZONE_CPUS :: u64 where
  "ROOT_ZONE_CPUS = push_bit 0 1 OR push_bit 1 1"

text \<open>What a platform module defines: the regions, the interrupts and the addresses of the GIC.\<close>

record platform =
  ROOT_ZONE_MEMORY_REGIONS :: "HvConfigMemoryRegion list"
  ROOT_ZONE_IRQS :: "u32 list"
  ROOT_ARCH_ZONE_CONFIG :: HvArchZoneConfig

definition mem_region :: "u32 \<Rightarrow> u64 \<Rightarrow> u64 \<Rightarrow> u64 \<Rightarrow> HvConfigMemoryRegion" where
  "mem_region t p v n = \<lparr>mem_type = t, physical_start = p, virtual_start = v, mr_size = n\<rparr>"

definition qemu_aarch64 :: platform where
  "qemu_aarch64 = \<lparr>
     ROOT_ZONE_MEMORY_REGIONS =
       [mem_region MEM_TYPE_RAM 0x50000000 0x50000000 0x80000000,
        mem_region MEM_TYPE_IO 0x9000000 0x9000000 0x1000,
        mem_region MEM_TYPE_IO 0xa000000 0xa000000 0x4000],
     ROOT_ZONE_IRQS = [33, 64, 77, 79],
     ROOT_ARCH_ZONE_CONFIG =
       \<lparr>gicd_base = 0x8000000, gicr_base = 0x80a0000, gicd_size = 0x10000, gicr_size = 0xf60000\<rparr>\<rparr>"

definition imx8mp_aarch64 :: platform where
  "imx8mp_aarch64 = \<lparr>
     ROOT_ZONE_MEMORY_REGIONS =
       [mem_region MEM_TYPE_RAM 0x50000000 0x50000000 0x80000000,
        mem_region MEM_TYPE_IO 0x30000000 0x30000000 0x400000,
        mem_region MEM_TYPE_IO 0x30800000 0x30800000 0x400000],
     ROOT_ZONE_IRQS = [36, 52, 55, 59, 64, 67, 96, 97, 98, 99, 100, 101, 102, 103, 104, 105, 150, 151, 152],
     ROOT_ARCH_ZONE_CONFIG =
       \<lparr>gicd_base = 0x38800000, gicr_base = 0x38880000, gicd_size = 0x10000, gicr_size = 0xc0000\<rparr>\<rparr>"

text \<open>\<open>copy_from_slice\<close> into a prefix; slicing panics when the array is too short.\<close>

definition fill_prefix :: "'a list \<Rightarrow> nat \<Rightarrow> 'a \<Rightarrow> (HvErrorNum, 'a list) outcome" where
  "fill_prefix xs n z = (if length xs \<le> n then Ok (xs @ replicate (n - length xs) z) else Panic)"

definition platform_root_zone_config :: "platform \<Rightarrow> (HvErrorNum, HvZoneConfig) outcome" where
  "platform_root_zone_config p =
     bind_out (fill_prefix (ROOT_ZONE_MEMORY_REGIONS p) CONFIG_MAX_MEMORY_REGIONS HvConfigMemoryRegion_new_empty) (\<lambda>rs.
     bind_out (fill_prefix (ROOT_ZONE_IRQS p) CONFIG_MAX_INTERRUPTS 0) (\<lambda>irqs.
     Ok \<lparr>zone_id = 0, cfg_cpus = ROOT_ZONE_CPUS,
         num_memory_regions = of_nat (length (ROOT_ZONE_MEMORY_REGIONS p)), memory_regions_arr = rs,
         num_interrupts = of_nat (length (ROOT_ZONE_IRQS p)), interrupts_arr = irqs,
         entry_point = ROOT_ZONE_ENTRY, kernel_load_paddr = ROOT_ZONE_KERNEL_ADDR,
         kernel_size = INVALID_ADDRESS, dtb_load_paddr = ROOT_ZONE_DTB_ADDR, dtb_size = INVALID_ADDRESS,
         arch = ROOT_ARCH_ZONE_CONFIG p\<rparr>))"

lemma root_config_regions:
  assumes "length (ROOT_ZONE_MEMORY_REGIONS p) \<le> CONFIG_MAX_MEMORY_REGIONS"
    "length (ROOT_ZONE_IRQS p) \<le> CONFIG_MAX_INTERRUPTS"
  obtains c where "platform_root_zone_config p = Ok c" "config_wf c"
    "memory_regions c = Ok (ROOT_ZONE_MEMORY_REGIONS p)" "interrupts c = Ok (ROOT_ZONE_IRQS p)"
proof -
  let ?c = "\<lparr>zone_id = 0, cfg_cpus = ROOT_ZONE_CPUS,
         num_memory_regions = of_nat (length (ROOT_ZONE_MEMORY_REGIONS p)),
         memory_regions_arr = ROOT_ZONE_MEMORY_REGIONS p @
           replicate (CONFIG_MAX_MEMORY_REGIONS - length (ROOT_ZONE_MEMORY_REGIONS p)) HvConfigMemoryRegion_new_empty,
         num_interrupts = of_nat (length (ROOT_ZONE_IRQS p)),
         interrupts_arr = ROOT_ZONE_IRQS p @ replicate (CONFIG_MAX_INTERRUPTS - length (ROOT_ZONE_IRQS p)) 0,
         entry_point = ROOT_ZONE_ENTRY, kernel_load_paddr = ROOT_ZONE_KERNEL_ADDR,
         kernel_size = INVALID_ADDRESS, dtb_load_paddr = ROOT_ZONE_DTB_ADDR, dtb_size = INVALID_ADDRESS,
         arch = ROOT_ARCH_ZONE_CONFIG p\<rparr>"
  have n: "unat (of_nat (length (ROOT_ZONE_MEMORY_REGIONS p)) :: u32) = length (ROOT_ZONE_MEMORY_REGIONS p)"
    "unat (of_nat (length (ROOT_ZONE_IRQS p)) :: u32) = length (ROOT_ZONE_IRQS p)"
    using assms by (simp_all add: unat_of_nat_exact CONFIG_MAX_MEMORY_REGIONS_def CONFIG_MAX_INTERRUPTS_def)
  show thesis
  proof (rule that)
    show "platform_root_zone_config p = Ok ?c"
      using assms by (simp add: platform_root_zone_config_def fill_prefix_def)
    show "config_wf ?c" using assms by (simp add: config_wf_def)
    show "memory_regions ?c = Ok (ROOT_ZONE_MEMORY_REGIONS p)" "interrupts ?c = Ok (ROOT_ZONE_IRQS p)"
      using assms n
      by (simp_all add: memory_regions_def interrupts_def word_less_nat_alt CONFIG_MAX_MEMORY_REGIONS_def
          CONFIG_MAX_INTERRUPTS_def)
  qed
qed

section \<open>CPU sets\<close>

record CpuSet =
  max_cpu_id :: usize
  bitmap :: u64

definition CpuSet_new :: "usize \<Rightarrow> u64 \<Rightarrow> CpuSet" where
  "CpuSet_new m b = \<lparr>max_cpu_id = m, bitmap = b\<rparr>"

definition set_bit_cpu :: "CpuSet \<Rightarrow> usize \<Rightarrow> (HvErrorNum, CpuSet) outcome" where
  "set_bit_cpu self i = bind_out (rust_assert (i \<le> max_cpu_id self)) (\<lambda>_.
     bind_out (shl_chk 1 (unat i)) (\<lambda>b. Ok (self\<lparr>bitmap := bitmap self OR b\<rparr>)))"

definition clear_bit_cpu :: "CpuSet \<Rightarrow> usize \<Rightarrow> (HvErrorNum, CpuSet) outcome" where
  "clear_bit_cpu self i = bind_out (rust_assert (i \<le> max_cpu_id self)) (\<lambda>_.
     bind_out (shl_chk 1 (unat i)) (\<lambda>b. Ok (self\<lparr>bitmap := bitmap self AND NOT b\<rparr>)))"

definition contains_cpu :: "CpuSet \<Rightarrow> usize \<Rightarrow> (HvErrorNum, bool) outcome" where
  "contains_cpu self i =
     (if i \<le> max_cpu_id self then bind_out (shl_chk 1 (unat i)) (\<lambda>b. Ok (bitmap self AND b \<noteq> 0)) else Ok False)"

definition cpu_range :: "CpuSet \<Rightarrow> usize list" where
  "cpu_range self = map of_nat [0..<Suc (unat (max_cpu_id self))]"

definition first_cpu :: "CpuSet \<Rightarrow> (HvErrorNum, usize option) outcome" where
  "first_cpu self = find_out (contains_cpu self) (cpu_range self)"

definition cpu_iter :: "CpuSet \<Rightarrow> (HvErrorNum, usize list) outcome" where
  "cpu_iter self = filter_out (contains_cpu self) (cpu_range self)"

definition cpu_iter_except :: "CpuSet \<Rightarrow> usize \<Rightarrow> (HvErrorNum, usize list) outcome" where
  "cpu_iter_except self i =
     filter_out (\<lambda>j. bind_out (contains_cpu self j) (\<lambda>b. Ok (b \<and> j \<noteq> i))) (cpu_range self)"

definition members :: "CpuSet \<Rightarrow> nat set" where
  "members self = {i. i \<le> unat (max_cpu_id self) \<and> bit (bitmap self) i}"

definition cpuset_wf :: "CpuSet \<Rightarrow> bool" where
  "cpuset_wf self \<longleftrightarrow> unat (max_cpu_id self) < 64"

lemma bit_pow: "bit (2 ^ n :: 'w::len word) k \<longleftrightarrow> k = n \<and> n < LENGTH('w)"
  by (auto simp: bit_exp_iff)

lemma bit_push_1: "m < LENGTH('w) \<Longrightarrow> bit (push_bit m 1 :: 'w::len word) k \<longleftrightarrow> k = m"
  by (auto simp: bit_pow)

lemma and_bit_iff: "(b :: 'w::len word) AND 2 ^ n \<noteq> 0 \<longleftrightarrow> n < LENGTH('w) \<and> bit b n"
proof -
  have "b AND 2 ^ n = 0 \<longleftrightarrow> \<not> (n < LENGTH('w) \<and> bit b n)"
    by (auto simp: bit_and_iff bit_pow intro!: bit_word_eqI dest: arg_cong [where f = "\<lambda>x. bit x n"])
  then show ?thesis by blast
qed

lemma contains_cpu_Ok: "cpuset_wf self \<Longrightarrow> contains_cpu self i = Ok (unat i \<in> members self)"
  by (auto simp: contains_cpu_def shl_chk_def members_def cpuset_wf_def word_le_nat_alt and_bit_iff [simplified])

lemma shl_1_Ok: "n < 64 \<Longrightarrow> shl_chk (1 :: u64) n = Ok (push_bit n 1)"
  by (simp add: shl_chk_def)

lemma members_set_bit:
  assumes "cpuset_wf self" "i \<le> max_cpu_id self"
  obtains self' where "set_bit_cpu self i = (Ok self')" "members self' = insert (unat i) (members self)"
    "max_cpu_id self' = max_cpu_id self" "cpuset_wf self'" "bitmap self' = bitmap self OR push_bit (unat i) 1"
proof -
  have "unat i < 64" using assms by (simp add: cpuset_wf_def word_le_nat_alt)
  with assms show thesis
    by (intro that [of "self\<lparr>bitmap := bitmap self OR push_bit (unat i) 1\<rparr>"])
      (auto simp: set_bit_cpu_def shl_1_Ok members_def cpuset_wf_def word_le_nat_alt bit_or_iff bit_pow)
qed

lemma members_clear_bit:
  assumes "cpuset_wf self" "i \<le> max_cpu_id self"
  shows "\<exists>self'. clear_bit_cpu self i = Ok self' \<and> members self' = members self - {unat i} \<and> cpuset_wf self'"
proof -
  have "unat i < 64" using assms by (simp add: cpuset_wf_def word_le_nat_alt)
  with assms show ?thesis
    by (intro exI [of _ "self\<lparr>bitmap := bitmap self AND NOT (push_bit (unat i) 1)\<rparr>"])
      (auto simp: clear_bit_cpu_def shl_1_Ok members_def cpuset_wf_def bit_and_iff bit_not_iff bit_pow)
qed

lemma cpu_range_set: "set (cpu_range self) = {i. i \<le> max_cpu_id self}"
proof (intro set_eqI iffI)
    fix i assume "i \<in> set (cpu_range self)"
    then obtain n where n: "i = of_nat n" "n \<le> unat (max_cpu_id self)"
      by (auto simp: cpu_range_def simp del: upt_Suc)
    moreover have "unat (of_nat n :: usize) = n"
      using n(2) unat_word_less_64 [of "max_cpu_id self"]
      by (intro unat_of_nat_exact) (simp del: unat_word_less_64)
    ultimately show "i \<in> {i. i \<le> max_cpu_id self}" by (simp add: word_le_nat_alt)
  next
    fix i assume "i \<in> {i. i \<le> max_cpu_id self}"
    then show "i \<in> set (cpu_range self)"
      by (auto simp: cpu_range_def word_le_nat_alt simp del: upt_Suc intro!: image_eqI [of _ _ "unat i"])
qed

lemma cpu_range_unat: "map unat (cpu_range self) = [0..<Suc (unat (max_cpu_id self))]"
proof -
  have "unat (of_nat n :: usize) = n" if "n < Suc (unat (max_cpu_id self))" for n
    using that unat_word_less_64 [of "max_cpu_id self"]
    by (intro unat_of_nat_exact) (simp del: unat_word_less_64)
  then show ?thesis unfolding cpu_range_def map_map by (intro map_idI) (simp del: upt_Suc)
qed

lemma cpu_iter_Ok:
  assumes "cpuset_wf self"
  shows "cpu_iter self = Ok (filter (\<lambda>i. unat i \<in> members self) (cpu_range self))"
    "first_cpu self = Ok (find (\<lambda>i. unat i \<in> members self) (cpu_range self))"
    "cpu_iter_except self j = Ok (filter (\<lambda>i. unat i \<in> members self \<and> i \<noteq> j) (cpu_range self))"
  using contains_cpu_Ok [OF assms]
  by (auto simp: cpu_iter_def first_cpu_def cpu_iter_except_def intro!: filter_out_Ok find_out_Ok)

lemma cpu_iter_members:
  assumes "cpuset_wf self" "cpu_iter self = Ok cs"
  shows "unat ` set cs = members self" "sorted_wrt (<) (map unat cs)" "set cs \<subseteq> {i. i \<le> max_cpu_id self}"
proof -
  have cs: "cs = filter (\<lambda>i. unat i \<in> members self) (cpu_range self)" using assms cpu_iter_Ok(1) by force
  then show sub: "set cs \<subseteq> {i. i \<le> max_cpu_id self}" by (auto simp: cpu_range_set)
  show "unat ` set cs = members self"
  proof (intro set_eqI iffI)
    fix i assume i: "i \<in> members self"
    then have "i \<in> set (map unat (cpu_range self))" unfolding cpu_range_unat by (auto simp: members_def)
    with i cs show "i \<in> unat ` set cs" by auto
  qed (use cs in auto)
  have "map unat cs = filter (\<lambda>i. i \<in> members self) (map unat (cpu_range self))"
    unfolding cs by (simp add: filter_map comp_def)
  then show "sorted_wrt (<) (map unat cs)"
    unfolding cpu_range_unat by (simp add: sorted_wrt_filter sorted_wrt_upt del: upt_Suc)
qed

lemma first_cpu_hd:
  assumes "cpuset_wf self" "cpu_iter self = Ok cs"
  shows "first_cpu self = Ok (case cs of [] \<Rightarrow> None | c # _ \<Rightarrow> Some c)"
proof -
  have "find p xs = (case filter p xs of [] \<Rightarrow> None | c # _ \<Rightarrow> Some c)" for p and xs :: "usize list"
    by (induction xs) auto
  with assms cpu_iter_Ok [OF assms(1)] show ?thesis by force
qed

lemma first_cpu_cases:
  assumes "cpuset_wf self"
  obtains (none) "first_cpu self = (Ok None)" "members self = {}"
    | (some) c where "first_cpu self = (Ok (Some c))" "unat c \<in> members self"
        "\<And>i. i \<in> members self \<Longrightarrow> unat c \<le> i"
proof -
  obtain cs where cs: "cpu_iter self = (Ok cs)" using cpu_iter_Ok(1) [OF assms] by blast
  note m = cpu_iter_members [OF assms cs] and f = first_cpu_hd [OF assms cs]
  show thesis
  proof (cases cs)
    case Nil
    with m(1) f none show thesis by simp
  next
    case (Cons c rest)
    with f have "first_cpu self = Ok (Some c)" by simp
    then show thesis
    proof (rule some)
      show "unat c \<in> members self" using m(1) Cons by auto
      show "unat c \<le> i" if "i \<in> members self" for i
        using that m(2) unfolding m(1) [symmetric] Cons by auto
    qed
  qed
qed

section \<open>CPUs of a configuration\<close>

lemma cpus_set: "set (cpus c) = {i :: u64. unat i < 64 \<and> bit (cfg_cpus c) (unat i)}" and cpus_distinct: "distinct (cpus c)"
proof -
  have n: "unat (of_nat n :: u64) = n" if "n < 64" for n using that by (intro unat_of_nat_exact) simp
  have one: "(drop_bit k (x :: u64) AND 1 = 1) \<longleftrightarrow> bit x k" for x k
    by (simp add: and_one_eq bit_iff_odd_drop_bit mod_2_eq_odd)
  show "set (cpus c) = {i. unat i < 64 \<and> bit (cfg_cpus c) (unat i)}"
  proof (intro set_eqI iffI)
    fix i :: u64 assume "i \<in> set (cpus c)"
    then show "i \<in> {i. unat i < 64 \<and> bit (cfg_cpus c) (unat i)}" by (auto simp: cpus_def one n)
  next
    fix i :: u64 assume "i \<in> {i. unat i < 64 \<and> bit (cfg_cpus c) (unat i)}"
    then have "i = of_nat (unat i)" "unat i \<in> set [0..<64]" "bit (cfg_cpus c) (unat i)" by simp_all
    then show "i \<in> set (cpus c)" by (auto simp: cpus_def one intro!: image_eqI [of _ _ "unat i"])
  qed
  have "distinct (map (of_nat :: nat \<Rightarrow> u64) [0..<64])"
    by (auto simp: distinct_map inj_on_def) (metis n)
  then show "distinct (cpus c)" by (simp add: cpus_def)
qed

text \<open>What \<open>zone_create\<close> does with them: every CPU of the configuration enters the set.\<close>

fun set_bits :: "usize list \<Rightarrow> CpuSet \<Rightarrow> (HvErrorNum, CpuSet) outcome" where
  "set_bits [] self = Ok self"
| "set_bits (i # is) self = bind_out (set_bit_cpu self i) (set_bits is)"

lemma set_bits_Ok:
  assumes "cpuset_wf self" "\<forall>i \<in> set is. i \<le> max_cpu_id self"
  shows "\<exists>self'. set_bits is self = Ok self' \<and> members self' = unat ` set is \<union> members self \<and>
    max_cpu_id self' = max_cpu_id self \<and> cpuset_wf self'"
  using assms
proof (induction "is" arbitrary: self)
  case (Cons i "is")
  from Cons.prems obtain s1 where s1: "set_bit_cpu self i = Ok s1" "members s1 = insert (unat i) (members self)"
    "max_cpu_id s1 = max_cpu_id self" "cpuset_wf s1" by (auto elim: members_set_bit)
  with Cons.IH [of s1] Cons.prems obtain s2 where "set_bits is s1 = Ok s2"
    "members s2 = unat ` set is \<union> members s1" "max_cpu_id s2 = max_cpu_id s1" "cpuset_wf s2" by auto
  with s1 show ?case by auto
qed auto

lemma set_bits_Panic:
  assumes "cpuset_wf self" "\<exists>i \<in> set is. \<not> i \<le> max_cpu_id self"
  shows "set_bits is self = Panic"
  using assms
proof (induction "is" arbitrary: self)
  case (Cons i "is")
  show ?case
  proof (cases "i \<le> max_cpu_id self")
    case True
    from Cons.prems True obtain s1 where s1: "set_bit_cpu self i = Ok s1"
      "max_cpu_id s1 = max_cpu_id self" "cpuset_wf s1" by (auto elim: members_set_bit)
    with Cons.IH [of s1] Cons.prems True show ?thesis by auto
  qed (simp add: set_bit_cpu_def)
qed auto

section \<open>Properties\<close>

text \<open>
  The iterators of a CPU set visit exactly its members, in increasing order, \<open>iter_except\<close> all
  but the given one, and \<open>first_cpu\<close> is the smallest member or \<open>None\<close> for the empty set;
  \<open>set_bit\<close> and \<open>clear_bit\<close> add and remove one member. None of them panics while the largest
  identifier is below 64.
\<close>

lemma cpuset_refines:
  assumes "cpuset_wf self" and "i \<le> max_cpu_id self"
  shows "(\<exists>cs. cpu_iter self = Ok cs \<and> unat ` set cs = members self \<and> sorted_wrt (<) (map unat cs) \<and>
       first_cpu self = Ok (if members self = {} then None else Some (hd cs)) \<and>
       cpu_iter_except self i = Ok (filter (\<lambda>j. j \<noteq> i) cs)) \<and>
     (\<exists>t. set_bit_cpu self i = Ok t \<and> members t = insert (unat i) (members self)) \<and>
     (\<exists>t. clear_bit_cpu self i = Ok t \<and> members t = members self - {unat i})"
proof -
  obtain cs where cs: "cpu_iter self = Ok cs" using cpu_iter_Ok(1) [OF assms(1)] by blast
  note m = cpu_iter_members [OF assms(1) cs]
  have "cs = filter (\<lambda>i. unat i \<in> members self) (cpu_range self)" using cs cpu_iter_Ok(1) [OF assms(1)] by force
  then have ex: "cpu_iter_except self i = Ok (filter (\<lambda>j. j \<noteq> i) cs)"
    by (simp add: cpu_iter_Ok(3) [OF assms(1)] conj_commute)
  have f: "first_cpu self = Ok (if members self = {} then None else Some (hd cs))"
    unfolding first_cpu_hd [OF assms(1) cs] m(1) [symmetric] by (cases cs) simp_all
  have "\<exists>t. set_bit_cpu self i = Ok t \<and> members t = insert (unat i) (members self)"
    using members_set_bit [OF assms] by metis
  with cs m ex f members_clear_bit [OF assms] show ?thesis by blast
qed

end
