(* ===== verification/Hv_Machine.thy ===== *)
theory Hv_Machine
  imports Hv_MsSpec Hv_Config
begin

text \<open>
  The state of the running hypervisor and its accessors. Statics of the crate are fields of one
  record; an \<open>Arc<RwLock<Zone>>\<close> is an index into a heap of zones that is never reused, so that
  \<open>Arc::ptr_eq\<close> is equality of indices and the strong count is the number of holders. The per-CPU
  areas are a list of \<open>MAX_CPU_NUM\<close> records; \<open>get_cpu_data\<close> computes the address like the source
  and is a \<open>Fault\<close> outside that array. Handlers run to completion on one core; the spin locks of the
  source are what makes this the granularity, and are not part of the state.

  What the sources take from the hardware and from crates (system registers, device registers, the
  register field encoders of \<open>aarch64_cpu\<close>, firmware calls of \<open>psci\<close>, the bitmap allocator) is the
  record \<open>env\<close>, an argument of the operations.
\<close>

section \<open>Hardware and crates\<close>

datatype sysreg =
    MPIDR_EL1 | ESR_EL2 | ELR_EL2 | FAR_EL2 | HPFAR_EL2 | SPSR_EL2 | VTCR_EL2 | VTTBR_EL2 | HCR_EL2 | VBAR_EL2
  | SCTLR_EL1 | ID_AA64MMFR0_EL1
  | ICC_IAR1_EL1 | ICC_EOIR1_EL1 | ICC_DIR_EL1 | ICC_SGI1R_EL1 | ICC_CTLR_EL1 | ICC_PMR_EL1 | ICC_IGRPEN1_EL1
  | ICH_VTR_EL2 | ICH_VMCR_EL2 | ICH_HCR_EL2 | ICH_ELRSR_EL2 | ICH_AP1R nat | ICH_LR nat
  | CNTKCTL_EL1 | PMCR_EL0 | SP_EL0 | SP_EL1 | SPSR_EL1 | AFSR0_EL1 | AFSR1_EL1 | AMAIR_EL1 | CONTEXTIDR_EL1
  | CPACR_EL1 | CSSELR_EL1 | ESR_EL1 | FAR_EL1 | MAIR_EL1 | PAR_EL1 | TCR_EL1 | TPIDRRO_EL0 | TPIDR_EL0
  | TPIDR_EL1 | TTBR0_EL1 | TTBR1_EL1 | VBAR_EL1 | CNTVOFF_EL2 | CNTP_CTL_EL0 | CNTP_CVAL_EL0 | CNTP_TVAL_EL0
  | CNTV_CTL_EL0 | CNTV_CVAL_EL0 | CNTV_TVAL_EL0

datatype exception_class = HVC64 | SMC64 | TrappedMsrMrs | DataAbortLowerEL | InstrAbortLowerEL
  | DataAbortCurrentEL | InstrAbortCurrentEL | OtherEC

datatype psci_error = AlreadyOn | OtherPsciError

text \<open>
  Registers are banked: accesses name the core by the value of its \<open>MPIDR_EL1\<close>. \<open>load\<close> and \<open>store\<close>
  are volatile accesses of 1, 2, 4 or 8 bytes at a device address.
\<close>

record ('b, 'd) env =
  bits :: "'b bitalloc"
  core_end :: VirtAddr
  parking_page :: PhysAddr
  mrs :: "u64 \<Rightarrow> sysreg \<Rightarrow> 'd \<Rightarrow> u64 \<times> 'd"
  msr :: "u64 \<Rightarrow> sysreg \<Rightarrow> u64 \<Rightarrow> 'd \<Rightarrow> 'd"
  load :: "usize \<Rightarrow> nat \<Rightarrow> 'd \<Rightarrow> u64 \<times> 'd"
  store :: "usize \<Rightarrow> nat \<Rightarrow> u64 \<Rightarrow> 'd \<Rightarrow> 'd"
  smc_call :: "u64 \<Rightarrow> 'd \<Rightarrow> u64 \<times> 'd"
  psci_cpu_on :: "u64 \<Rightarrow> u64 \<Rightarrow> u64 \<Rightarrow> 'd \<Rightarrow> psci_error option \<times> 'd"
  psci_system_off :: "'d \<Rightarrow> psci_error option \<times> 'd"
  psci_INVALID_ADDRESS :: u64
  wfi :: "u64 \<Rightarrow> 'd \<Rightarrow> 'd"
  daifclr :: "u64 \<Rightarrow> 'd \<Rightarrow> 'd"
  esr_EC :: "u64 \<Rightarrow> exception_class"
  esr_ISS :: "u64 \<Rightarrow> u64"
  esr_IL :: "u64 \<Rightarrow> u64"
  vttbr_baddr :: "PhysAddr \<Rightarrow> u64"
  vtcr_value :: "u64 \<Rightarrow> u64 \<Rightarrow> u64 \<Rightarrow> u64"
  hcr_value :: u64

section \<open>State\<close>

datatype MMIOHandler = Mmio_virtio_handler | Vgicv3_dist_handler | Vgicv3_redist_handler | Mmio_generic_handler

record MMIORegion =
  mmio_start :: GuestPhysAddr
  mmio_size :: usize

record MMIOConfig =
  region :: MMIORegion
  handler :: MMIOHandler
  arg :: usize

record Zone =
  zid :: usize
  mmio :: "MMIOConfig list"
  cpu_set :: CpuSet
  irq_bitmap :: "u32 list"
  gpm :: MemorySet

type_synonym zone_ptr = nat

record ArchCpu =
  cpuid :: usize
  psci_on :: bool

record PerCpu =
  cpu_id :: usize
  cpu_on_entry :: usize
  dtb_ipa :: usize
  arch_cpu :: ArchCpu
  zone :: "zone_ptr option"
  boot_cpu :: bool

record GeneralRegisters =
  exit_reason :: u64
  usr :: "u64 list"

record VirtioBridgeRegion =
  base_address :: usize
  is_enable :: bool

record HvisorDeviceReq =
  src_cpu :: u64
  req_address :: u64
  req_size :: u64
  req_value :: u64
  src_zone :: u32
  req_is_write :: u8
  need_interrupt :: u8

record HvisorDeviceRes =
  target_zone :: u32
  irq_id :: u32

record VirtioBridge =
  req_front :: u32
  req_rear :: u32
  res_front :: u32
  res_rear :: u32
  req_list :: "HvisorDeviceReq list"
  res_list :: "HvisorDeviceRes list"
  cfg_flags :: "u64 list"
  cfg_values :: "u64 list"
  mmio_addrs :: "u64 list"
  mmio_avail :: u8
  need_wakeup_flag :: u8

record Gic =
  host_gicd :: usize
  host_gicr :: usize
  host_gicd_sz :: usize
  host_gicr_sz :: usize

record ('b, 'd) hv =
  mem :: "'b pmem"
  dev :: 'd
  zone_heap :: "Zone option list"
  ZONE_LIST :: "zone_ptr list"
  percpu :: "PerCpu list"
  stacks :: "GeneralRegisters list"
  EVENT_MANAGER :: "usize list list option"
  VIRTIO_BRIDGE :: VirtioBridgeRegion
  shared :: "usize \<Rightarrow> VirtioBridge"
  VIRTIO_IRQS :: "u64 list btree_map"
  GIC :: "Gic option"
  PARKING_MEMORY_SET :: "MemorySet option"
  MIN_PARANGE :: u64
  PARANGE_OK_CPUS :: u32
  TIMER_INTERRUPT_COUNTER :: u64

type_synonym ('b, 'd, 'a) hvp = "(('b, 'd) hv, HvErrorNum, 'a) prog"

text \<open>A function that may leave for the guest through \<open>vmreturn\<close> does not return to its caller.\<close>

datatype 'a ctl = Returns 'a | Vmreturn

definition with_mem :: "('b pmem, HvErrorNum, 'a) prog \<Rightarrow> ('b, 'd, 'a) hvp" where
  "with_mem m s = (let (r, m') = m (mem s) in (r, s\<lparr>mem := m'\<rparr>))"

definition read_sysreg :: "('b, 'd) env \<Rightarrow> u64 \<Rightarrow> sysreg \<Rightarrow> ('b, 'd, u64) hvp" where
  "read_sysreg E me r s = (let (v, d) = mrs E me r (dev s) in (Ok v, s\<lparr>dev := d\<rparr>))"

definition write_sysreg :: "('b, 'd) env \<Rightarrow> u64 \<Rightarrow> sysreg \<Rightarrow> u64 \<Rightarrow> ('b, 'd, unit) hvp" where
  "write_sysreg E me r v s = (Ok (), s\<lparr>dev := msr E me r v (dev s)\<rparr>)"

definition read_volatile :: "('b, 'd) env \<Rightarrow> usize \<Rightarrow> nat \<Rightarrow> ('b, 'd, u64) hvp" where
  "read_volatile E a n s = (let (v, d) = load E a n (dev s) in (Ok (take_bit (8 * n) v), s\<lparr>dev := d\<rparr>))"

definition write_volatile :: "('b, 'd) env \<Rightarrow> usize \<Rightarrow> nat \<Rightarrow> u64 \<Rightarrow> ('b, 'd, unit) hvp" where
  "write_volatile E a n v s = (Ok (), s\<lparr>dev := store E a n (take_bit (8 * n) v) (dev s)\<rparr>)"

section \<open>Per-CPU data\<close>

definition mpidr_to_cpuid :: "u64 \<Rightarrow> u64" where
  "mpidr_to_cpuid mpidr = mpidr AND 0xff00ffffff"

definition this_cpu_id :: "u64 \<Rightarrow> usize" where
  "this_cpu_id me = mpidr_to_cpuid me"

definition cpu_data_addr :: "('b, 'd) env \<Rightarrow> usize \<Rightarrow> (HvErrorNum, VirtAddr) outcome" where
  "cpu_data_addr E i = bind_out (mul_chk i PER_CPU_SIZE) (add_chk (core_end E))"

definition get_cpu_data :: "('b, 'd) env \<Rightarrow> usize \<Rightarrow> ('b, 'd, PerCpu) hvp" where
  "get_cpu_data E i = bindP (liftP (cpu_data_addr E i)) (\<lambda>_ s.
     (if unat i < length (percpu s) then Ok (percpu s ! unat i) else Fault, s))"

definition update_cpu_data :: "('b, 'd) env \<Rightarrow> usize \<Rightarrow> (PerCpu \<Rightarrow> PerCpu) \<Rightarrow> ('b, 'd, unit) hvp" where
  "update_cpu_data E i f = bindP (get_cpu_data E i) (\<lambda>c.
     modifyP (\<lambda>s. s\<lparr>percpu := (percpu s)[unat i := f c]\<rparr>))"

definition this_cpu_data :: "('b, 'd) env \<Rightarrow> u64 \<Rightarrow> ('b, 'd, PerCpu) hvp" where
  "this_cpu_data E me = get_cpu_data E (this_cpu_id me)"

definition ArchCpu_new :: "usize \<Rightarrow> ArchCpu" where
  "ArchCpu_new i = \<lparr>cpuid = i, psci_on = False\<rparr>"

definition PerCpu_new :: "('b, 'd) env \<Rightarrow> usize \<Rightarrow> ('b, 'd, unit) hvp" where
  "PerCpu_new E i = update_cpu_data E i (\<lambda>_. \<lparr>cpu_id = i, cpu_on_entry = INVALID_ADDRESS,
     dtb_ipa = INVALID_ADDRESS, arch_cpu = ArchCpu_new i, zone = None, boot_cpu = False\<rparr>)"

definition this_zone :: "('b, 'd) env \<Rightarrow> u64 \<Rightarrow> ('b, 'd, zone_ptr) hvp" where
  "this_zone E me = bindP (this_cpu_data E me) (\<lambda>c. liftP (unwrap_opt (zone c)))"

section \<open>Zones and their list\<close>

definition zone_at :: "('b, 'd) hv \<Rightarrow> zone_ptr \<Rightarrow> Zone option" where
  "zone_at s z = (if z < length (zone_heap s) then zone_heap s ! z else None)"

definition read_zone :: "zone_ptr \<Rightarrow> ('b, 'd, Zone) hvp" where
  "read_zone z s = (case zone_at s z of Some zn \<Rightarrow> (Ok zn, s) | None \<Rightarrow> (Fault, s))"

definition Arc_new :: "Zone \<Rightarrow> ('b, 'd, zone_ptr) hvp" where
  "Arc_new zn s = (Ok (length (zone_heap s)), s\<lparr>zone_heap := zone_heap s @ [Some zn]\<rparr>)"

definition root_zone :: "('b, 'd, zone_ptr) hvp" where
  "root_zone s = (case ZONE_LIST s of z # _ \<Rightarrow> (Ok z, s) | [] \<Rightarrow> (Panic, s))"

definition is_this_root_zone :: "('b, 'd) env \<Rightarrow> u64 \<Rightarrow> ('b, 'd, bool) hvp" where
  "is_this_root_zone E me = bindP (this_zone E me) (\<lambda>z. bindP root_zone (\<lambda>r. retP (z = r)))"

definition add_zone :: "zone_ptr \<Rightarrow> ('b, 'd, unit) hvp" where
  "add_zone z = modifyP (\<lambda>s. s\<lparr>ZONE_LIST := ZONE_LIST s @ [z]\<rparr>)"

fun find_zone_in :: "usize \<Rightarrow> zone_ptr list \<Rightarrow> ('b, 'd, zone_ptr option) hvp" where
  "find_zone_in i [] s = (Ok None, s)"
| "find_zone_in i (z # zs) s =
     bindP (read_zone z) (\<lambda>zn. if zid zn = i then retP (Some z) else find_zone_in i zs) s"

definition find_zone :: "usize \<Rightarrow> ('b, 'd, zone_ptr option) hvp" where
  "find_zone i = bindP (getP ZONE_LIST) (find_zone_in i)"

definition this_zone_id :: "('b, 'd) env \<Rightarrow> u64 \<Rightarrow> ('b, 'd, usize) hvp" where
  "this_zone_id E me = bindP (this_zone E me) (\<lambda>z. bindP (read_zone z) (\<lambda>zn. retP (zid zn)))"

text \<open>
  \<open>strong_count\<close> of the handle taken out of the list: itself, the CPUs that hold a clone, and
  further entries of the list. Dropping the last handle drops the zone and with it its page tables.
\<close>

definition strong_count :: "('b, 'd) hv \<Rightarrow> zone_ptr \<Rightarrow> nat" where
  "strong_count s z = 1 + length (filter (\<lambda>c. zone c = Some z) (percpu s)) + count_list (ZONE_LIST s) z"

definition drop_zone :: "('b, 'd) env \<Rightarrow> zone_ptr \<Rightarrow> ('b, 'd, unit) hvp" where
  "drop_zone E z = bindP (read_zone z) (\<lambda>zn.
     bindP (with_mem (MemorySet_drop S2_pte (bits E) (gpm zn))) (\<lambda>_.
     modifyP (\<lambda>s. s\<lparr>zone_heap := (zone_heap s)[z := None]\<rparr>)))"

definition remove_zone :: "('b, 'd) env \<Rightarrow> usize \<Rightarrow> ('b, 'd, unit) hvp" where
  "remove_zone E i =
     bindP (find_zone i) (\<lambda>found.
     bindP (liftP (unwrap_opt found)) (\<lambda>z.
     bindP (modifyP (\<lambda>s. s\<lparr>ZONE_LIST := remove1 z (ZONE_LIST s)\<rparr>)) (\<lambda>_.
     bindP (getP (\<lambda>s. strong_count s z)) (\<lambda>n.
     bindP (liftP (rust_assert (n = 1))) (\<lambda>_.
     drop_zone E z)))))"

section \<open>Evaluating the accessors\<close>

text \<open>The per-CPU array has \<open>MAX_CPU_NUM\<close> entries and ends below the top of the address space.\<close>

definition cpus_wf :: "('b, 'd) env \<Rightarrow> ('b, 'd) hv \<Rightarrow> bool" where
  "cpus_wf E s \<longleftrightarrow> length (percpu s) = unat MAX_CPU_NUM \<and>
     unat (core_end E) + unat MAX_CPU_NUM * unat PER_CPU_SIZE < 2 ^ 64"

lemma cpus_wf_D: "cpus_wf E s \<Longrightarrow> length (percpu s) = 4"
  by (simp add: cpus_wf_def MAX_CPU_NUM_def)

lemma get_cpu_data_in:
  assumes "cpus_wf E s" "unat i < 4"
  shows "get_cpu_data E i s = (Ok (percpu s ! unat i), s)"
proof -
  have p: "unat PER_CPU_SIZE = 524288" by (simp add: PER_CPU_SIZE_def)
  have "unat i * unat PER_CPU_SIZE < 2 ^ 64" using assms(2) by (simp add: p)
  moreover from this have "unat (core_end E) + unat (i * PER_CPU_SIZE) < 2 ^ 64"
    using assms by (simp add: cpus_wf_def MAX_CPU_NUM_def unat_mul_exact p)
  ultimately have *: "unat i * unat PER_CPU_SIZE < 2 ^ 64"
    "unat (core_end E) + unat (i * PER_CPU_SIZE) < 2 ^ 64" by blast+
  then have "cpu_data_addr E i = Ok (core_end E + i * PER_CPU_SIZE)"
    by (simp add: cpu_data_addr_def mul_chk_def add_chk_def)
  with assms show ?thesis by (simp add: get_cpu_data_def cpus_wf_D)
qed

lemma get_cpu_data_out:
  assumes "cpus_wf E s" "4 \<le> unat i"
  shows "get_cpu_data E i s = (Fault, s) \<or> get_cpu_data E i s = (Panic, s)"
  using assms by (auto simp: get_cpu_data_def cpu_data_addr_def mul_chk_def add_chk_def cpus_wf_D)

lemma get_cpu_data_state: "get_cpu_data E i s = (r, t) \<Longrightarrow> t = s"
  by (auto simp: get_cpu_data_def cpu_data_addr_def mul_chk_def add_chk_def split: if_splits)

lemma update_cpu_data_in:
  assumes "cpus_wf E s" "unat i < 4"
  shows "update_cpu_data E i f s = (Ok (), s\<lparr>percpu := (percpu s)[unat i := f (percpu s ! unat i)]\<rparr>)"
  using get_cpu_data_in [OF assms] by (simp add: update_cpu_data_def bindP_def)

lemma cpus_wf_update [simp]:
  "cpus_wf E (s\<lparr>percpu := (percpu s)[n := c]\<rparr>) = cpus_wf E s"
  "cpus_wf E (s\<lparr>dev := d\<rparr>) = cpus_wf E s" "cpus_wf E (s\<lparr>mem := m\<rparr>) = cpus_wf E s"
  "cpus_wf E (s\<lparr>zone_heap := h\<rparr>) = cpus_wf E s" "cpus_wf E (s\<lparr>ZONE_LIST := l\<rparr>) = cpus_wf E s"
  "cpus_wf E (s\<lparr>EVENT_MANAGER := e\<rparr>) = cpus_wf E s"
  by (simp_all add: cpus_wf_def)

lemma this_zone_in:
  assumes "cpus_wf E s" "unat (this_cpu_id me) < 4"
  shows "this_zone E me s = (unwrap_opt (zone (percpu s ! unat (this_cpu_id me))), s)"
  by (simp add: this_zone_def this_cpu_data_def bindP_def get_cpu_data_in [OF assms])

lemma read_zone_state: "read_zone z s = (r, t) \<Longrightarrow> t = s"
  by (auto simp: read_zone_def split: option.splits)

lemma find_zone_in_state: "find_zone_in i zs s = (r, t) \<Longrightarrow> t = s"
proof (induction i zs s arbitrary: r rule: find_zone_in.induct)
  case (2 i z zs s)
  from 2(2) have "bindP (read_zone z) (\<lambda>zn. if zid zn = i then retP (Some z) else find_zone_in i zs) s = (r, t)" by simp
  then show ?case
  proof (cases rule: bindP_cases)
    case (cont zn s')
    with read_zone_state [OF cont(1)] 2(1) show ?thesis by (auto split: if_splits)
  qed (auto dest: read_zone_state)
qed simp

lemma find_zone_state: "find_zone i s = (r, t) \<Longrightarrow> t = s"
  by (auto simp: find_zone_def dest: find_zone_in_state)

lemma zone_at_simps [simp]:
  "zone_at (s\<lparr>dev := d\<rparr>) z = zone_at s z" "zone_at (s\<lparr>mem := m\<rparr>) z = zone_at s z"
  "zone_at (s\<lparr>percpu := p\<rparr>) z = zone_at s z" "zone_at (s\<lparr>ZONE_LIST := l\<rparr>) z = zone_at s z"
  "zone_at (s\<lparr>EVENT_MANAGER := e\<rparr>) z = zone_at s z"
  by (simp_all add: zone_at_def)

lemma find_zone_in_Ok:
  assumes "\<And>z. z \<in> set zs \<Longrightarrow> zone_at s z \<noteq> None"
  shows "find_zone_in i zs s = (Ok (find (\<lambda>z. map_option zid (zone_at s z) = Some i) zs), s)"
  using assms
proof (induction zs)
  case (Cons z zs)
  then obtain zn where "zone_at s z = Some zn" by force
  with Cons show ?case by (simp add: bindP_def read_zone_def)
qed simp

lemma find_zone_Ok:
  assumes "\<And>z. z \<in> set (ZONE_LIST s) \<Longrightarrow> zone_at s z \<noteq> None"
  shows "find_zone i s = (Ok (find (\<lambda>z. map_option zid (zone_at s z) = Some i) (ZONE_LIST s)), s)"
  using find_zone_in_Ok [OF assms] by (simp add: find_zone_def)

lemma is_this_root_zone_in:
  assumes "cpus_wf E s" "unat (this_cpu_id me) < 4" "zone (percpu s ! unat (this_cpu_id me)) = Some z"
    "ZONE_LIST s = rz # zs"
  shows "is_this_root_zone E me s = (Ok (z = rz), s)"
  by (simp add: is_this_root_zone_def bindP_def this_zone_in [OF assms(1,2)] assms(3,4) root_zone_def)

end
