(* ===== verification/Hv_Mmio.thy ===== *)
theory Hv_Mmio
  imports Hv_Machine
begin

text \<open>
  \<open>memory/mmio.rs\<close> and the MMIO and interrupt tables of a zone (\<open>zone.rs\<close>): performing an access on
  a device register, and the list of trapped regions a zone registers. The lookup finds the region
  that was registered for an address and no other, as long as the regions do not overlap.
\<close>

section \<open>Accesses\<close>

record MMIOAccess =
  address :: GuestPhysAddr
  acc_size :: usize
  is_write :: bool
  acc_value :: usize

definition contains_region :: "MMIORegion \<Rightarrow> GuestPhysAddr \<Rightarrow> usize \<Rightarrow> (HvErrorNum, bool) outcome" where
  "contains_region self addr n =
     (if mmio_start self \<le> addr then
        bind_out (add_chk addr n) (\<lambda>e. bind_out (add_chk (mmio_start self) (mmio_size self)) (\<lambda>f. Ok (e \<le> f)))
      else Ok False)"

definition mmio_perform_access :: "('b, 'd) env \<Rightarrow> usize \<Rightarrow> MMIOAccess \<Rightarrow> ('b, 'd, MMIOAccess) hvp" where
  "mmio_perform_access E b acc =
     bindP (liftP (add_chk b (address acc))) (\<lambda>addr.
     if is_write acc then
       (if acc_size acc \<in> {1, 2, 4, 8} then
          bindP (write_volatile E addr (unat (acc_size acc)) (acc_value acc)) (\<lambda>_. retP acc)
        else liftP Panic)
     else
       (if acc_size acc \<in> {1, 2, 4, 8} then
          bindP (read_volatile E addr (unat (acc_size acc))) (\<lambda>v. retP (acc\<lparr>acc_value := v\<rparr>))
        else liftP Panic))"

definition mmio_generic_handler :: "('b, 'd) env \<Rightarrow> MMIOAccess \<Rightarrow> usize \<Rightarrow> ('b, 'd, MMIOAccess) hvp" where
  "mmio_generic_handler E acc b = mmio_perform_access E b acc"

section \<open>Regions of a zone\<close>

fun register_in :: "GuestPhysAddr \<Rightarrow> usize \<Rightarrow> MMIOHandler \<Rightarrow> usize \<Rightarrow> MMIOConfig list \<Rightarrow> (HvErrorNum, MMIOConfig list) outcome" where
  "register_in st n h a [] = Ok [\<lparr>region = \<lparr>mmio_start = st, mmio_size = n\<rparr>, handler = h, arg = a\<rparr>]"
| "register_in st n h a (c # cs) =
     (if mmio_start (region c) = st then
        (if mmio_size (region c) \<noteq> n then Panic else Ok (c\<lparr>handler := h, arg := a\<rparr> # cs))
      else bind_out (register_in st n h a cs) (\<lambda>cs'. Ok (c # cs')))"

definition mmio_region_register :: "Zone \<Rightarrow> GuestPhysAddr \<Rightarrow> usize \<Rightarrow> MMIOHandler \<Rightarrow> usize \<Rightarrow> (HvErrorNum, Zone) outcome" where
  "mmio_region_register self st n h a =
     bind_out (register_in st n h a (mmio self)) (\<lambda>cs. Ok (self\<lparr>mmio := cs\<rparr>))"

fun remove_first :: "('a \<Rightarrow> bool) \<Rightarrow> 'a list \<Rightarrow> 'a list" where
  "remove_first p [] = []"
| "remove_first p (x # xs) = (if p x then xs else x # remove_first p xs)"

definition mmio_region_remove :: "Zone \<Rightarrow> GuestPhysAddr \<Rightarrow> Zone" where
  "mmio_region_remove self st = self\<lparr>mmio := remove_first (\<lambda>c. mmio_start (region c) = st) (mmio self)\<rparr>"

definition find_mmio_region ::
  "Zone \<Rightarrow> GuestPhysAddr \<Rightarrow> usize \<Rightarrow> (HvErrorNum, (MMIORegion \<times> MMIOHandler \<times> usize) option) outcome" where
  "find_mmio_region self addr n =
     bind_out (find_out (\<lambda>c. contains_region (region c) addr n) (mmio self))
       (\<lambda>found. Ok (map_option (\<lambda>c. (region c, handler c, arg c)) found))"

definition irq_in_zone :: "Zone \<Rightarrow> u32 \<Rightarrow> (HvErrorNum, bool) outcome" where
  "irq_in_zone self irq =
     (let idx = unat (irq div 32); bit_pos = unat (irq mod 32) in
      if idx < length (irq_bitmap self) then Ok (irq_bitmap self ! idx AND push_bit bit_pos 1 \<noteq> 0) else Panic)"

section \<open>The table as a map from ranges\<close>

definition mmio_end :: "MMIORegion \<Rightarrow> nat" where
  "mmio_end r = unat (mmio_start r) + unat (mmio_size r)"

definition inside :: "MMIORegion \<Rightarrow> GuestPhysAddr \<Rightarrow> usize \<Rightarrow> bool" where
  "inside r addr n \<longleftrightarrow> unat (mmio_start r) \<le> unat addr \<and> unat addr + unat n \<le> mmio_end r"

definition ranges_apart :: "MMIORegion \<Rightarrow> MMIORegion \<Rightarrow> bool" where
  "ranges_apart r q \<longleftrightarrow> mmio_end r \<le> unat (mmio_start q) \<or> mmio_end q \<le> unat (mmio_start r)"

text \<open>Regions end within the address space, are not empty and do not overlap.\<close>

definition mmio_wf :: "MMIOConfig list \<Rightarrow> bool" where
  "mmio_wf cs \<longleftrightarrow> (\<forall>c \<in> set cs. mmio_end (region c) < 2 ^ 64 \<and> mmio_size (region c) \<noteq> 0) \<and>
     sorted_wrt (\<lambda>c d. ranges_apart (region c) (region d)) cs"

lemma contains_region_Ok:
  assumes "mmio_end r < 2 ^ 64" "unat addr + unat n < 2 ^ 64"
  shows "contains_region r addr n = Ok (inside r addr n)"
  using assms
  by (auto simp: contains_region_def add_chk_def inside_def mmio_end_def word_le_nat_alt unat_add_exact)

lemma inside_apart:
  "inside r addr n \<Longrightarrow> inside q addr n \<Longrightarrow> n \<noteq> 0 \<Longrightarrow> \<not> ranges_apart r q"
  by (auto simp: inside_def ranges_apart_def unat_eq_0 [symmetric])

lemma ranges_apart_sym: "ranges_apart r q \<longleftrightarrow> ranges_apart q r"
  by (auto simp: ranges_apart_def)

text \<open>What the lookup answers: the one region the access lies in.\<close>

lemma find_mmio_region_iff:
  assumes "mmio_wf (mmio self)" "unat addr + unat n < 2 ^ 64" "n \<noteq> 0"
  shows "find_mmio_region self addr n = Ok (Some (r, h, a)) \<longleftrightarrow>
      (\<exists>c \<in> set (mmio self). inside (region c) addr n \<and> r = region c \<and> h = handler c \<and> a = arg c)" (is ?t1)
    and "find_mmio_region self addr n = Ok None \<longleftrightarrow> (\<forall>c \<in> set (mmio self). \<not> inside (region c) addr n)" (is ?t2)
proof -
  have f: "find_mmio_region self addr n =
      Ok (map_option (\<lambda>c. (region c, handler c, arg c)) (find (\<lambda>c. inside (region c) addr n) (mmio self)))"
    using find_out_Ok [of "mmio self" "\<lambda>c. contains_region (region c) addr n" "\<lambda>c. inside (region c) addr n"]
      contains_region_Ok assms(1,2) by (simp add: find_mmio_region_def mmio_wf_def)
  have "find (\<lambda>c. inside (region c) addr n) cs = Some c \<longleftrightarrow> c \<in> set cs \<and> inside (region c) addr n"
    if "mmio_wf cs" for c cs
    using that
  proof (induction cs)
    case (Cons d cs)
    then have "mmio_wf cs" "\<forall>c \<in> set cs. ranges_apart (region d) (region c)" by (simp_all add: mmio_wf_def)
    with Cons.IH inside_apart [OF _ _ assms(3)] show ?case by auto
  qed simp
  with f assms(1) show ?t1 by auto
  from f show ?t2 by (auto simp: find_None_iff)
qed

lemma register_in_new:
  assumes "\<forall>c \<in> set cs. mmio_start (region c) \<noteq> st"
  shows "register_in st n h a cs = Ok (cs @ [\<lparr>region = \<lparr>mmio_start = st, mmio_size = n\<rparr>, handler = h, arg = a\<rparr>])"
  using assms by (induction cs) auto

lemma apart_starts:
  "ranges_apart r q \<Longrightarrow> mmio_size r \<noteq> 0 \<Longrightarrow> mmio_size q \<noteq> 0 \<Longrightarrow> mmio_start r \<noteq> mmio_start q"
  by (auto simp: ranges_apart_def mmio_end_def unat_eq_0 [symmetric])

lemma register_wf:
  assumes "mmio_wf (mmio self)" "unat st + unat n < 2 ^ 64" "n \<noteq> 0"
    and "\<forall>c \<in> set (mmio self). ranges_apart (region c) \<lparr>mmio_start = st, mmio_size = n\<rparr>"
  obtains self' where "mmio_region_register self st n h a = Ok self'" "mmio_wf (mmio self')"
    "set (mmio self') = insert \<lparr>region = \<lparr>mmio_start = st, mmio_size = n\<rparr>, handler = h, arg = a\<rparr> (set (mmio self))"
    "self' = self\<lparr>mmio := mmio self'\<rparr>"
proof -
  let ?new = "\<lparr>region = \<lparr>mmio_start = st, mmio_size = n\<rparr>, handler = h, arg = a\<rparr>"
  have "\<forall>c \<in> set (mmio self). mmio_start (region c) \<noteq> st"
    using assms(1,3,4) apart_starts [of _ "\<lparr>mmio_start = st, mmio_size = n\<rparr>"] by (fastforce simp: mmio_wf_def)
  then have "mmio_region_register self st n h a = Ok (self\<lparr>mmio := mmio self @ [?new]\<rparr>)"
    by (simp add: mmio_region_register_def register_in_new)
  moreover have "mmio_wf (mmio self @ [?new])"
    using assms by (auto simp: mmio_wf_def sorted_wrt_append mmio_end_def)
  ultimately show thesis using that [of "self\<lparr>mmio := mmio self @ [?new]\<rparr>"] by simp
qed

section \<open>Properties\<close>

text \<open>
  C38: registering a region that meets no registered one keeps the table free of overlaps; a later
  lookup of an access inside the new region answers with its handler and argument, and a lookup of
  any other access answers as before.
\<close>

theorem mmio_register_find:
  assumes "mmio_wf (mmio self)" and "unat st + unat n < 2 ^ 64" and "n \<noteq> 0"
    and "\<forall>c \<in> set (mmio self). ranges_apart (region c) \<lparr>mmio_start = st, mmio_size = n\<rparr>"
    and "unat addr + unat k < 2 ^ 64" and "k \<noteq> 0"
  shows "\<exists>self'. mmio_region_register self st n h a = Ok self' \<and> mmio_wf (mmio self') \<and>
    find_mmio_region self' addr k =
      (if inside \<lparr>mmio_start = st, mmio_size = n\<rparr> addr k then Ok (Some (\<lparr>mmio_start = st, mmio_size = n\<rparr>, h, a))
       else find_mmio_region self addr k)"
proof -
  obtain self' where s: "mmio_region_register self st n h a = Ok self'" "mmio_wf (mmio self')"
    "set (mmio self') = insert \<lparr>region = \<lparr>mmio_start = st, mmio_size = n\<rparr>, handler = h, arg = a\<rparr> (set (mmio self))"
    using register_wf [OF assms(1-4)] by metis
  note f' = find_mmio_region_iff [OF s(2) assms(5,6)] and f = find_mmio_region_iff [OF assms(1,5,6)]
  show ?thesis
  proof (cases "inside \<lparr>mmio_start = st, mmio_size = n\<rparr> addr k")
    case True
    with f'(1) s show ?thesis by auto
  next
    case False
    obtain x where x: "find_mmio_region self addr k = Ok x"
      using find_out_Ok [of "mmio self" "\<lambda>c. contains_region (region c) addr k" "\<lambda>c. inside (region c) addr k"]
        contains_region_Ok assms(1,5) by (simp add: find_mmio_region_def mmio_wf_def)
    have "find_mmio_region self' addr k = Ok x"
    proof (cases x)
      case None
      with x f(2) False s(3) f'(2) show ?thesis by auto
    next
      case (Some y)
      obtain r h' a' where y: "y = (r, h', a')" by (metis prod_cases3)
      with x Some f(1) obtain c where "c \<in> set (mmio self)" "inside (region c) addr k"
        "r = region c" "h' = handler c" "a' = arg c" by auto
      with s(3) f'(1) [of r h' a'] show ?thesis unfolding Some y by auto
    qed
    with False s x show ?thesis by auto
  qed
qed

definition empty_zone :: Zone where
  "empty_zone = \<lparr>zid = 0, mmio = [], cpu_set = CpuSet_new 4 0, irq_bitmap = replicate 32 0, gpm = small_set\<rparr>"

theorem mmio_register_find_witness:
  "\<exists>z. mmio_region_register empty_zone 0x8000000 0x10000 Vgicv3_dist_handler 0 = Ok z \<and>
     find_mmio_region z 0x8000100 4 =
       Ok (Some (\<lparr>mmio_start = 0x8000000, mmio_size = 0x10000\<rparr>, Vgicv3_dist_handler, 0))"
  using mmio_register_find [of empty_zone "0x8000000" "0x10000" "0x8000100" 4 Vgicv3_dist_handler 0]
  by (auto simp: empty_zone_def mmio_wf_def inside_def mmio_end_def)

end
