(* ===== verification/Hv_Gic.thy ===== *)
theory Hv_Gic
  imports Hv_Mmio
begin

text \<open>
  The GICv3 driver: \<open>device/irqchip/gicv3/mod.rs\<close>, \<open>gicd.rs\<close> and \<open>gicr.rs\<close>. The list registers
  through which virtual interrupts reach a guest are described by the hypothesis
  \<open>list_registers\<close> (what the architecture says of \<open>ICH_LR<n>_EL2\<close>, \<open>ICH_ELRSR_EL2\<close> and
  \<open>ICH_VTR_EL2\<close>); under it \<open>inject_irq\<close> is shown to implement \<open>spec_inject\<close> on the abstract list of registers. The handler
  of physical interrupts is in Hv_Cpu, since it can leave for the guest.
\<close>

section \<open>Registers\<close>

definition GICD_CTLR :: usize where "GICD_CTLR = 0x0000"
definition GICD_CTLR_ARE_NS :: usize where "GICD_CTLR_ARE_NS = push_bit 5 1"
definition GICD_CTLR_GRP1NS_ENA :: usize where "GICD_CTLR_GRP1NS_ENA = push_bit 1 1"
definition GICD_TYPER :: usize where "GICD_TYPER = 0x0004"
definition GICD_IIDR :: usize where "GICD_IIDR = 0x0008"
definition GICD_IGROUPR :: usize where "GICD_IGROUPR = 0x0080"
definition GICD_ISENABLER :: usize where "GICD_ISENABLER = 0x0100"
definition GICD_ICENABLER :: usize where "GICD_ICENABLER = 0x0180"
definition GICD_ISPENDR :: usize where "GICD_ISPENDR = 0x0200"
definition GICD_ICPENDR :: usize where "GICD_ICPENDR = 0x0280"
definition GICD_ISACTIVER :: usize where "GICD_ISACTIVER = 0x0300"
definition GICD_ICACTIVER :: usize where "GICD_ICACTIVER = 0x0380"
definition GICD_IPRIORITYR :: usize where "GICD_IPRIORITYR = 0x0400"
definition GICD_ITARGETSR :: usize where "GICD_ITARGETSR = 0x0800"
definition GICD_ICFGR :: usize where "GICD_ICFGR = 0x0c00"
definition GICD_IROUTER :: usize where "GICD_IROUTER = 0x6000"
definition GICDV3_CIDR0 :: usize where "GICDV3_CIDR0 = 0xfff0"
definition GICDV3_PIDR0 :: usize where "GICDV3_PIDR0 = 0xffe0"
definition GICDV3_PIDR4 :: usize where "GICDV3_PIDR4 = 0xffd0"

lemmas GICD_defs = GICD_CTLR_def GICD_TYPER_def GICD_IIDR_def GICD_IGROUPR_def GICD_ISENABLER_def GICD_ICENABLER_def
  GICD_ISPENDR_def GICD_ICPENDR_def GICD_ISACTIVER_def GICD_ICACTIVER_def GICD_IPRIORITYR_def GICD_ITARGETSR_def
  GICD_ICFGR_def GICD_IROUTER_def GICDV3_CIDR0_def GICDV3_PIDR0_def GICDV3_PIDR4_def

definition GICR_IIDR :: usize where "GICR_IIDR = 0x0004"
definition GICR_TYPER :: usize where "GICR_TYPER = 0x0008"
definition GICR_WAKER :: usize where "GICR_WAKER = 0x0014"
definition GICR_SYNCR :: usize where "GICR_SYNCR = 0x00c0"
definition GICR_SGI_BASE :: usize where "GICR_SGI_BASE = 0x10000"
definition GICR_IGROUPR :: usize where "GICR_IGROUPR = GICD_IGROUPR"
definition GICR_ISENABLER :: usize where "GICR_ISENABLER = GICD_ISENABLER"
definition GICR_IPRIORITYR :: usize where "GICR_IPRIORITYR = GICD_IPRIORITYR"
definition GICR_TYPER_LAST :: usize where "GICR_TYPER_LAST = push_bit 4 1"

definition SGI_IPI_ID :: u64 where "SGI_IPI_ID = 7"
definition PER_GICR_SIZE :: usize where "PER_GICR_SIZE = 0x20000"

section \<open>The controller's addresses\<close>

definition gic_get :: "(Gic \<Rightarrow> 'a) \<Rightarrow> ('b, 'd, 'a) hvp" where
  "gic_get f = bindP (getP GIC) (\<lambda>g. bindP (liftP (unwrap_opt g)) (\<lambda>g. retP (f g)))"

definition host_gicd_base :: "('b, 'd, usize) hvp" where
  "host_gicd_base = gic_get host_gicd"

definition host_gicr_base :: "usize \<Rightarrow> ('b, 'd, usize) hvp" where
  "host_gicr_base i = bindP (liftP (rust_assert (i < MAX_CPU_NUM))) (\<lambda>_.
     bindP (gic_get host_gicr) (\<lambda>b.
     bindP (liftP (mul_chk i PER_GICR_SIZE)) (\<lambda>off. liftP (add_chk b off))))"

definition host_gicd_size :: "('b, 'd, usize) hvp" where
  "host_gicd_size = gic_get host_gicd_sz"

definition host_gicr_size :: "('b, 'd, usize) hvp" where
  "host_gicr_size = gic_get host_gicr_sz"

definition is_spi :: "u32 \<Rightarrow> bool" where
  "is_spi irqn \<longleftrightarrow> 31 < irqn \<and> irqn < 1020"

definition is_sgi :: "u32 \<Rightarrow> bool" where
  "is_sgi irqn \<longleftrightarrow> irqn < 16"

text \<open>\<open>Once::call_once\<close> keeps the first value.\<close>

definition gic_primary_init_early :: "HvZoneConfig \<Rightarrow> ('b, 'd, unit) hvp" where
  "gic_primary_init_early root_config = modifyP (\<lambda>s. case GIC s of Some _ \<Rightarrow> s
     | None \<Rightarrow> s\<lparr>GIC := Some \<lparr>host_gicd = gicd_base (arch root_config), host_gicr = gicr_base (arch root_config),
         host_gicd_sz = gicd_size (arch root_config), host_gicr_sz = gicr_size (arch root_config)\<rparr>\<rparr>)"

definition enable_gic_are_ns :: "('b, 'd) env \<Rightarrow> ('b, 'd, unit) hvp" where
  "enable_gic_are_ns E = bindP host_gicd_base (\<lambda>b. bindP (liftP (add_chk b GICD_CTLR)) (\<lambda>a.
     write_volatile E a 4 (GICD_CTLR_ARE_NS OR GICD_CTLR_GRP1NS_ENA)))"

definition enable_irqs :: "('b, 'd) env \<Rightarrow> u64 \<Rightarrow> ('b, 'd, unit) hvp" where
  "enable_irqs E me = modifyP (\<lambda>s. s\<lparr>dev := daifclr E me (dev s)\<rparr>)"

definition gic_primary_init_late :: "('b, 'd) env \<Rightarrow> u64 \<Rightarrow> ('b, 'd, unit) hvp" where
  "gic_primary_init_late E me = bindP (enable_gic_are_ns E) (\<lambda>_. enable_irqs E me)"

section \<open>List registers\<close>

definition read_lr :: "('b, 'd) env \<Rightarrow> u64 \<Rightarrow> usize \<Rightarrow> ('b, 'd, u64) hvp" where
  "read_lr E me i = (if i < 16 then read_sysreg E me (ICH_LR (unat i)) else liftP Hang)"

definition write_lr :: "('b, 'd) env \<Rightarrow> u64 \<Rightarrow> usize \<Rightarrow> u64 \<Rightarrow> ('b, 'd, unit) hvp" where
  "write_lr E me i v = (if i < 16 then write_sysreg E me (ICH_LR (unat i)) v else liftP Hang)"

definition lr_indices :: "u64 \<Rightarrow> usize list" where
  "lr_indices vtr = map of_nat [0..<unat ((vtr AND 0xf) + 1)]"

definition gicv3_clear_pending_irqs :: "('b, 'd) env \<Rightarrow> u64 \<Rightarrow> ('b, 'd, unit) hvp" where
  "gicv3_clear_pending_irqs E me =
     bindP (read_sysreg E me ICH_VTR_EL2) (\<lambda>vtr.
     bindP (forP (lr_indices vtr) (\<lambda>i. write_lr E me i 0)) (\<lambda>_.
     let num_priority_bits = drop_bit 29 vtr + 1 in
     bindP (if 5 \<le> num_priority_bits then write_sysreg E me (ICH_AP1R 0) 0 else retP ()) (\<lambda>_.
     bindP (if 6 \<le> num_priority_bits then write_sysreg E me (ICH_AP1R 1) 0 else retP ()) (\<lambda>_.
     if 6 < num_priority_bits then
       bindP (write_sysreg E me (ICH_AP1R 2) 0) (\<lambda>_. write_sysreg E me (ICH_AP1R 3) 0)
     else retP ()))))"

definition gicc_init :: "('b, 'd) env \<Rightarrow> u64 \<Rightarrow> ('b, 'd, unit) hvp" where
  "gicc_init E me =
     bindP (modifyP (\<lambda>s. s\<lparr>dev := snd (smc_call E 0xc4000020 (dev s))\<rparr>)) (\<lambda>_.
     bindP (read_sysreg E me ICC_CTLR_EL1) (\<lambda>_.
     bindP (write_sysreg E me ICC_CTLR_EL1 0x2) (\<lambda>_.
     bindP (read_sysreg E me ICC_PMR_EL1) (\<lambda>pmr.
     bindP (write_sysreg E me ICC_PMR_EL1 0xf0) (\<lambda>_.
     bindP (read_sysreg E me ICC_IGRPEN1_EL1) (\<lambda>_.
     bindP (write_sysreg E me ICC_IGRPEN1_EL1 0x1) (\<lambda>_.
     bindP (gicv3_clear_pending_irqs E me) (\<lambda>_.
     bindP (read_sysreg E me ICH_VTR_EL2) (\<lambda>_.
     bindP (write_sysreg E me ICH_VMCR_EL2 (push_bit 24 (pmr AND 0xff) OR push_bit 1 1 OR push_bit 9 1)) (\<lambda>_.
     write_sysreg E me ICH_HCR_EL2 0x1))))))))))"

definition pending_irq :: "('b, 'd) env \<Rightarrow> u64 \<Rightarrow> ('b, 'd, usize option) hvp" where
  "pending_irq E me = bindP (read_sysreg E me ICC_IAR1_EL1) (\<lambda>iar.
     retP (if 0x3fe \<le> iar then None else Some iar))"

definition deactivate_irq :: "('b, 'd) env \<Rightarrow> u64 \<Rightarrow> usize \<Rightarrow> ('b, 'd, unit) hvp" where
  "deactivate_irq E me i = bindP (write_sysreg E me ICC_EOIR1_EL1 i) (\<lambda>_.
     if i < 16 then write_sysreg E me ICC_DIR_EL1 i else retP ())"

text \<open>
  The loop of \<open>inject_irq\<close>: \<open>None\<close> when it returns because the interrupt is in a register
  already, else the value of \<open>free_ir\<close> after the loop, with \<open>None\<close> for \<open>-1\<close>.
\<close>

fun inject_scan :: "('b, 'd) env \<Rightarrow> u64 \<Rightarrow> u64 \<Rightarrow> usize \<Rightarrow> usize list \<Rightarrow> usize option \<Rightarrow> ('b, 'd, usize option option) hvp" where
  "inject_scan E me elsr irq [] free s = (Ok (Some free), s)"
| "inject_scan E me elsr irq (i # is) free s =
     (if push_bit (unat i) 1 AND elsr > 0 then
        inject_scan E me elsr irq is (case free of None \<Rightarrow> Some i | Some f \<Rightarrow> Some f) s
      else bindP (read_lr E me i) (\<lambda>lr_val.
        if lr_val AND 0xffffffff = irq then retP None else inject_scan E me elsr irq is free) s)"

definition lr_entry :: "usize \<Rightarrow> bool \<Rightarrow> u64" where
  "lr_entry irq is_hardware =
     (let val = irq OR push_bit 60 1 OR push_bit 62 1 in
      if \<not> is_sgi (ucast irq) \<and> is_hardware then val OR push_bit 61 1 OR push_bit 32 irq else val)"

definition inject_irq :: "('b, 'd) env \<Rightarrow> u64 \<Rightarrow> usize \<Rightarrow> bool \<Rightarrow> ('b, 'd, unit) hvp" where
  "inject_irq E me irq is_hardware =
     bindP (read_sysreg E me ICH_ELRSR_EL2) (\<lambda>elsr.
     bindP (read_sysreg E me ICH_VTR_EL2) (\<lambda>vtr.
     bindP (inject_scan E me elsr irq (lr_indices vtr) None) (\<lambda>found.
     case found of None \<Rightarrow> retP ()
     | Some None \<Rightarrow> liftP Panic
     | Some (Some free_ir) \<Rightarrow> write_lr E me free_ir (lr_entry irq is_hardware))))"

section \<open>Redistributor\<close>

text \<open>Reading a register until a condition fails; a loop that never ends is \<open>None\<close>.\<close>

partial_function (option) poll_while :: "('b, 'd) env \<Rightarrow> (u64 \<Rightarrow> bool) \<Rightarrow> usize \<Rightarrow> 'd \<Rightarrow> 'd option" where
  "poll_while E c a d = (if c (fst (load E a 4 d)) then poll_while E c a (snd (load E a 4 d))
     else Some (snd (load E a 4 d)))"

definition wait_while :: "('b, 'd) env \<Rightarrow> (u64 \<Rightarrow> bool) \<Rightarrow> usize \<Rightarrow> ('b, 'd, unit) hvp" where
  "wait_while E c a s = (case poll_while E c a (dev s) of Some d \<Rightarrow> (Ok (), s\<lparr>dev := d\<rparr>) | None \<Rightarrow> (Hang, s))"

definition update_reg :: "('b, 'd) env \<Rightarrow> usize \<Rightarrow> (u64 \<Rightarrow> u64) \<Rightarrow> ('b, 'd, unit) hvp" where
  "update_reg E a f = bindP (read_volatile E a 4) (\<lambda>v. write_volatile E a 4 (f v))"

definition enable_ipi :: "('b, 'd) env \<Rightarrow> u64 \<Rightarrow> ('b, 'd, unit) hvp" where
  "enable_ipi E me =
     bindP (host_gicr_base (this_cpu_id me)) (\<lambda>rd.
     bindP (liftP (add_chk rd GICR_SGI_BASE)) (\<lambda>b.
     bindP (liftP (add_chk b GICR_WAKER)) (\<lambda>waker.
     bindP (update_reg E waker (\<lambda>v. v AND NOT 0x02)) (\<lambda>_.
     bindP (wait_while E (\<lambda>v. v AND 0x04 \<noteq> 0) waker) (\<lambda>_.
     bindP (liftP (add_chk b GICR_IGROUPR)) (\<lambda>igroupr0.
     bindP (update_reg E igroupr0 (\<lambda>v. v OR push_bit (unat SGI_IPI_ID) 1)) (\<lambda>_.
     bindP (liftP (add_chk b GICR_ISENABLER)) (\<lambda>isenabler0.
     bindP (write_volatile E isenabler0 4 (push_bit (unat SGI_IPI_ID) 1)) (\<lambda>_.
     bindP (liftP (add_chk b GICR_IPRIORITYR)) (\<lambda>ipriorityr0.
     let reg = SGI_IPI_ID div 4; off = unat (SGI_IPI_ID mod 4 * 8); mask = push_bit off (push_bit 8 1 - 1) in
     update_reg E (ipriorityr0 + 4 * reg) (\<lambda>prio. prio AND NOT mask OR push_bit off 0x01)))))))))))"

definition percpu_init :: "('b, 'd) env \<Rightarrow> u64 \<Rightarrow> ('b, 'd, unit) hvp" where
  "percpu_init E me = bindP (gicc_init E me) (\<lambda>_. enable_ipi E me)"

section \<open>Reset\<close>

definition arch_irqchip_reset :: "('b, 'd) env \<Rightarrow> Zone \<Rightarrow> ('b, 'd, unit) hvp" where
  "arch_irqchip_reset E self = bindP host_gicd_base (\<lambda>b.
     forP (enumerate 0 (irq_bitmap self)) (\<lambda>e.
       if fst e = 0 then retP ()
       else bindP (liftP (add_chk b (GICD_ICENABLER + of_nat (fst e) * 4))) (\<lambda>en.
         bindP (write_volatile E en 4 (ucast (snd e))) (\<lambda>_.
         bindP (liftP (add_chk b (GICD_ICACTIVER + of_nat (fst e) * 4))) (\<lambda>ac.
         write_volatile E ac 4 (ucast (snd e)))))))"

section \<open>Virtual interrupts in the list registers\<close>

text \<open>
  What the architecture says of the list registers: \<open>ICH_VTR_EL2\<close> gives their number less one, a
  register reads back what was written, and \<open>ICH_ELRSR_EL2\<close> has the bit of every register that
  holds no valid interrupt: its state is zero and no maintenance interrupt is due for it.
\<close>

definition lr_free :: "u64 \<Rightarrow> bool" where
  "lr_free v \<longleftrightarrow> \<not> bit v 62 \<and> \<not> bit v 63 \<and> (bit v 61 \<or> \<not> bit v 41)"

definition list_registers :: "('b, 'd) env \<Rightarrow> (u64 \<Rightarrow> 'd \<Rightarrow> u64 list) \<Rightarrow> bool" where
  "list_registers E lrs \<longleftrightarrow>
     (\<forall>me d. snd (mrs E me ICH_VTR_EL2 d) = d \<and>
        unat ((fst (mrs E me ICH_VTR_EL2 d) AND 0xf) + 1) = length (lrs me d)) \<and>
     (\<forall>me d. snd (mrs E me ICH_ELRSR_EL2 d) = d \<and>
        (\<forall>i < length (lrs me d). bit (fst (mrs E me ICH_ELRSR_EL2 d)) i \<longleftrightarrow> lr_free (lrs me d ! i))) \<and>
     (\<forall>me d. \<forall>i < length (lrs me d). mrs E me (ICH_LR i) d = (lrs me d ! i, d)) \<and>
     (\<forall>me me' d v. \<forall>i < length (lrs me d). lrs me' (msr E me (ICH_LR i) v d) =
        (if me' = me then (lrs me d)[i := v] else lrs me' d))"

definition vintid :: "u64 \<Rightarrow> u64" where
  "vintid v = v AND 0xffffffff"

lemma vintid_take: "vintid v = take_bit 32 v"
  by (simp add: vintid_def take_bit_eq_mask mask_eq_exp_minus_1)

definition occupied :: "u64 list \<Rightarrow> u64 set" where
  "occupied ls = vintid ` {v \<in> set ls. \<not> lr_free v}"

text \<open>Nothing happens when the interrupt is in a register already, else the first free one takes it.\<close>

definition spec_inject :: "usize \<Rightarrow> bool \<Rightarrow> u64 list \<Rightarrow> u64 list option" where
  "spec_inject irq hw ls =
     (if list_ex (\<lambda>v. \<not> lr_free v \<and> vintid v = irq) ls then Some ls
      else map_option (\<lambda>i. ls[i := lr_entry irq hw]) (find (\<lambda>i. lr_free (ls ! i)) [0..<length ls]))"

lemma lr_indices_eq:
  assumes "list_registers E lrs"
  shows "lr_indices (fst (mrs E me ICH_VTR_EL2 d)) = map of_nat [0..<length (lrs me d)]" "length (lrs me d) \<le> 16"
proof -
  let ?v = "fst (mrs E me ICH_VTR_EL2 d)"
  have n: "unat ((?v AND 0xf) + 1) = length (lrs me d)" using assms by (simp add: list_registers_def)
  then show "lr_indices ?v = map of_nat [0..<length (lrs me d)]" by (simp add: lr_indices_def)
  have "?v AND 0xf = take_bit 4 ?v" by (simp add: take_bit_eq_mask mask_eq_exp_minus_1)
  then have "unat (?v AND 0xf) < 16" by (simp add: unsigned_take_bit_eq take_bit_nat_less_exp [of 4, simplified])
  then have "unat ((?v AND 0xf) + 1) \<le> 16" by (simp add: unat_add_exact)
  with n show "length (lrs me d) \<le> 16" by simp
qed

lemma inject_scan_run:
  assumes hw: "list_registers E lrs" and js: "\<forall>i \<in> set js. i < length (lrs me (dev s))"
    and e: "\<forall>i \<in> set js. bit elsr i \<longleftrightarrow> lr_free (lrs me (dev s) ! i)"
  shows "inject_scan E me elsr irq (map of_nat js) free s =
    (Ok (if list_ex (\<lambda>i. \<not> lr_free (lrs me (dev s) ! i) \<and> vintid (lrs me (dev s) ! i) = irq) js then None
         else Some (case free of Some f \<Rightarrow> Some f
           | None \<Rightarrow> map_option of_nat (find (\<lambda>i. lr_free (lrs me (dev s) ! i)) js))), s)"
  using js e
proof (induction js arbitrary: free)
  case (Cons i js)
  have i: "i < length (lrs me (dev s))" "i < 16" using Cons.prems lr_indices_eq(2) [OF hw, of me "dev s"] by auto
  then have u: "unat (of_nat i :: usize) = i" by (intro unat_of_nat_exact) simp
  have b: "push_bit i 1 AND elsr > 0 \<longleftrightarrow> lr_free (lrs me (dev s) ! i)"
    using Cons.prems i and_bit_iff [of elsr i] by (simp add: and.commute word_gt_0)
  have r: "read_lr E me (of_nat i) s = (Ok (lrs me (dev s) ! i), s)"
    using i hw u by (simp add: read_lr_def word_less_nat_alt read_sysreg_def list_registers_def)
  show ?case
    using Cons b r by (auto simp: u bindP_def vintid_def split: option.splits)
qed (simp split: option.split)

lemma find_upt_less: "find p [0..<n] = Some i \<Longrightarrow> i < n"
  by (auto simp: find_Some_iff)

lemma inject_irq_run:
  assumes hw: "list_registers E lrs"
  shows "case spec_inject irq h (lrs me (dev s)) of
      Some ls \<Rightarrow> \<exists>d. inject_irq E me irq h s = (Ok (), s\<lparr>dev := d\<rparr>) \<and> lrs me d = ls \<and>
        (\<forall>me'. me' \<noteq> me \<longrightarrow> lrs me' d = lrs me' (dev s))
    | None \<Rightarrow> inject_irq E me irq h s = (Panic, s)"
proof -
  let ?ls = "lrs me (dev s)" and ?e = "fst (mrs E me ICH_ELRSR_EL2 (dev s))"
  have e: "read_sysreg E me ICH_ELRSR_EL2 s = (Ok ?e, s)"
    "\<forall>i < length ?ls. bit ?e i \<longleftrightarrow> lr_free (?ls ! i)"
    using hw by (simp_all add: read_sysreg_def list_registers_def split_beta)
  have v: "read_sysreg E me ICH_VTR_EL2 s = (Ok (fst (mrs E me ICH_VTR_EL2 (dev s))), s)"
    using hw by (simp add: read_sysreg_def list_registers_def split_beta)
  have sc: "inject_scan E me ?e irq (map of_nat [0..<length ?ls]) None s =
    (Ok (if list_ex (\<lambda>v. \<not> lr_free v \<and> vintid v = irq) ?ls then None
         else Some (map_option of_nat (find (\<lambda>i. lr_free (?ls ! i)) [0..<length ?ls]))), s)"
    using inject_scan_run [OF hw, of "[0..<length ?ls]" me s ?e irq None] e(2)
    by (auto simp: list_ex_length list_ex_iff)
  show ?thesis
  proof (cases "list_ex (\<lambda>v. \<not> lr_free v \<and> vintid v = irq) ?ls")
    case True
    then have "inject_irq E me irq h s = (Ok (), s\<lparr>dev := dev s\<rparr>)"
      using e(1) v sc by (simp add: inject_irq_def bindP_def lr_indices_eq [OF hw])
    with True show ?thesis by (auto simp: spec_inject_def intro!: exI [of _ "dev s"])
  next
    case False
    show ?thesis
    proof (cases "find (\<lambda>i. lr_free (?ls ! i)) [0..<length ?ls]")
      case None
      with False show ?thesis
        using e(1) v sc by (simp add: inject_irq_def bindP_def lr_indices_eq [OF hw] spec_inject_def)
    next
      case (Some i)
      then have i: "i < length ?ls" "i < 16" using find_upt_less lr_indices_eq(2) [OF hw, of me "dev s"] by fastforce+
      then have u: "unat (of_nat i :: usize) = i" by (intro unat_of_nat_exact) simp
      let ?d = "msr E me (ICH_LR i) (lr_entry irq h) (dev s)"
      have "inject_irq E me irq h s = (Ok (), s\<lparr>dev := ?d\<rparr>)"
        using e(1) v sc False Some i u
        by (simp add: inject_irq_def bindP_def lr_indices_eq [OF hw] write_lr_def word_less_nat_alt write_sysreg_def)
      moreover have "lrs me ?d = ?ls[i := lr_entry irq h]" "\<forall>me'. me' \<noteq> me \<longrightarrow> lrs me' ?d = lrs me' (dev s)"
        using hw i by (simp_all add: list_registers_def)
      ultimately show ?thesis using False Some by (auto simp: spec_inject_def)
    qed
  qed
qed

text \<open>The fields of a new entry.\<close>

lemma irq_high_bits:
  assumes "unat (irq :: u64) < 2 ^ 32" "32 \<le> k"
  shows "\<not> bit irq k"
proof -
  have "take_bit 32 irq = irq"
    using assms(1) by (intro word_unat_eq_iff [THEN iffD2]) (simp add: unsigned_take_bit_eq take_bit_nat_eq_self)
  with assms(2) show ?thesis by (metis bit_take_bit_iff linorder_not_less)
qed

lemma lr_entry_fields:
  assumes "unat irq < 2 ^ 32"
  shows "vintid (lr_entry irq h) = irq" "bit (lr_entry irq h) 62" "\<not> lr_free (lr_entry irq h)"
    "bit (lr_entry irq h) 60" "bit (lr_entry irq h) 61 \<longleftrightarrow> h \<and> 16 \<le> unat irq"
proof -
  note hi = irq_high_bits [OF assms]
  have sg: "is_sgi (ucast irq) \<longleftrightarrow> unat irq < 16"
    using assms by (simp add: is_sgi_def word_less_nat_alt unsigned_ucast_eq take_bit_nat_eq_self)
  have b: "bit (lr_entry irq h) k \<longleftrightarrow> k < 64 \<and> (bit irq k \<or> k = 60 \<or> k = 62 \<or>
      (h \<and> 16 \<le> unat irq \<and> (k = 61 \<or> (32 \<le> k \<and> bit irq (k - 32)))))" for k
  proof -
    have one: "bit (push_bit 60 1 :: u64) k \<longleftrightarrow> k = 60" "bit (push_bit 61 1 :: u64) k \<longleftrightarrow> k = 61"
      "bit (push_bit 62 1 :: u64) k \<longleftrightarrow> k = 62" by (rule bit_push_1, simp)+
    have "bit (push_bit 32 irq) k \<longleftrightarrow> k < 64 \<and> 32 \<le> k \<and> bit irq (k - 32)"
      by (auto simp: bit_push_bit_iff)
    then have "bit (lr_entry irq h) k \<longleftrightarrow> bit irq k \<or> k = 60 \<or> k = 62 \<or>
      (h \<and> \<not> is_sgi (ucast irq) \<and> (k = 61 \<or> (k < 64 \<and> 32 \<le> k \<and> bit irq (k - 32))))"
      unfolding lr_entry_def Let_def by (simp only: bit_or_iff one split: if_split) blast
    then show ?thesis using sg by (auto dest: bit_imp_le_length)
  qed
  show "bit (lr_entry irq h) 62" "bit (lr_entry irq h) 60" by (simp_all add: b)
  then show "\<not> lr_free (lr_entry irq h)" by (simp add: lr_free_def)
  have "\<not> bit irq 61" "\<not> bit irq 29 \<or> bit irq 29" using hi by simp_all
  then show "bit (lr_entry irq h) 61 \<longleftrightarrow> h \<and> 16 \<le> unat irq" by (auto simp: b)
  show "vintid (lr_entry irq h) = irq"
    unfolding vintid_take
    by (rule bit_word_eqI) (use hi in \<open>auto simp: bit_take_bit_iff b simp flip: linorder_not_less\<close>)
qed

text \<open>An abstract injection adds the interrupt once and keeps the identifiers in use distinct.\<close>

lemma spec_inject_Some:
  assumes "spec_inject irq h ls = Some ls'" "unat irq < 2 ^ 32"
  shows "occupied ls' = insert irq (occupied ls)" "length ls' = length ls"
    "distinct (map vintid (filter (\<lambda>v. \<not> lr_free v) ls)) \<Longrightarrow> distinct (map vintid (filter (\<lambda>v. \<not> lr_free v) ls'))"
proof (atomize (full), cases "list_ex (\<lambda>v. \<not> lr_free v \<and> vintid v = irq) ls")
  case True
  with assms show "occupied ls' = insert irq (occupied ls) \<and> length ls' = length ls \<and>
    (distinct (map vintid (filter (\<lambda>v. \<not> lr_free v) ls)) \<longrightarrow> distinct (map vintid (filter (\<lambda>v. \<not> lr_free v) ls')))"
    by (auto simp: spec_inject_def occupied_def list_ex_iff)
next
  case False
  with assms(1) obtain i where f: "find (\<lambda>i. lr_free (ls ! i)) [0..<length ls] = Some i"
    and ls': "ls' = ls[i := lr_entry irq h]" by (auto simp: spec_inject_def)
  then have i: "i < length ls" "lr_free (ls ! i)" by (auto simp: find_Some_iff)
  note e = lr_entry_fields [OF assms(2), of h]
  define xs ys where "xs = take i ls" and "ys = drop (Suc i) ls"
  have ls: "ls = xs @ ls ! i # ys" using i(1) by (simp add: xs_def ys_def id_take_nth_drop)
  have ls'2: "ls' = xs @ lr_entry irq h # ys"
    unfolding ls' xs_def ys_def using i(1) by (simp add: upd_conv_take_nth_drop)
  have n: "irq \<notin> occupied ls" using False by (auto simp: occupied_def list_ex_iff)
  have "occupied ls = vintid ` {v \<in> set (xs @ ys). \<not> lr_free v}" using i(2) by (subst ls) (auto simp: occupied_def)
  moreover have "{v \<in> set ls'. \<not> lr_free v} = insert (lr_entry irq h) {v \<in> set (xs @ ys). \<not> lr_free v}"
    using e(3) unfolding ls'2 by auto
  ultimately have "occupied ls' = insert irq (occupied ls)" "irq \<notin> vintid ` {v \<in> set (xs @ ys). \<not> lr_free v}"
    using n e(1) by (simp_all add: occupied_def)
  moreover have "filter (\<lambda>v. \<not> lr_free v) ls = filter (\<lambda>v. \<not> lr_free v) (xs @ ys)"
    using i(2) by (subst ls) simp
  moreover have "filter (\<lambda>v. \<not> lr_free v) ls' =
    filter (\<lambda>v. \<not> lr_free v) xs @ lr_entry irq h # filter (\<lambda>v. \<not> lr_free v) ys"
    using e(3) unfolding ls'2 by simp
  ultimately show "occupied ls' = insert irq (occupied ls) \<and> length ls' = length ls \<and>
    (distinct (map vintid (filter (\<lambda>v. \<not> lr_free v) ls)) \<longrightarrow> distinct (map vintid (filter (\<lambda>v. \<not> lr_free v) ls')))"
    using e(1) ls' by auto
qed

text \<open>Polling ends exactly when some read fails the condition.\<close>

fun nth_read :: "('b, 'd) env \<Rightarrow> usize \<Rightarrow> nat \<Rightarrow> 'd \<Rightarrow> u64 \<times> 'd" where
  "nth_read E a 0 d = load E a 4 d"
| "nth_read E a (Suc n) d = nth_read E a n (snd (load E a 4 d))"

lemma poll_while_ends:
  assumes "\<not> c (fst (nth_read E a n d))" "\<forall>m < n. c (fst (nth_read E a m d))"
  shows "poll_while E c a d = Some (snd (nth_read E a n d))"
  using assms
proof (induction n arbitrary: d)
  case 0
  then show ?case by (subst poll_while.simps) simp
next
  case (Suc n)
  then have "c (fst (load E a 4 d))" by (metis nth_read.simps(1) zero_less_Suc)
  moreover have "\<forall>m < n. c (fst (nth_read E a m (snd (load E a 4 d))))"
    using Suc.prems(2) by (metis Suc_mono nth_read.simps(2))
  ultimately show ?case using Suc by (subst poll_while.simps) simp
qed

lemma poll_while_Some:
  assumes "poll_while E c a d = Some d'"
  shows "\<exists>n. \<not> c (fst (nth_read E a n d)) \<and> d' = snd (nth_read E a n d)"
  using assms
proof (rule poll_while.raw_induct [where P = "\<lambda>E c a d d'. \<exists>n. \<not> c (fst (nth_read E a n d)) \<and> d' = snd (nth_read E a n d)", rotated])
  fix poll :: "('b, 'd) env \<Rightarrow> (u64 \<Rightarrow> bool) \<Rightarrow> usize \<Rightarrow> 'd \<Rightarrow> 'd option" and E c a d y
  assume ih: "\<And>E c a d y. poll E c a d = Some y \<Longrightarrow> \<exists>n. \<not> c (fst (nth_read E a n d)) \<and> y = snd (nth_read E a n d)"
    and run: "(if c (fst (load E a 4 d)) then poll E c a (snd (load E a 4 d)) else Some (snd (load E a 4 d))) = Some y"
  show "\<exists>n. \<not> c (fst (nth_read E a n d)) \<and> y = snd (nth_read E a n d)"
  proof (cases "c (fst (load E a 4 d))")
    case True
    with run ih obtain n where "\<not> c (fst (nth_read E a (Suc n) d))" "y = snd (nth_read E a (Suc n) d)" by force
    then show ?thesis by blast
  next
    case False
    with run have "\<not> c (fst (nth_read E a 0 d))" "y = snd (nth_read E a 0 d)" by auto
    then show ?thesis by blast
  qed
qed

section \<open>A register file to evaluate\<close>

text \<open>
  Registers that read back what was written, four list registers per core with their status
  register computed from them, device registers as a store of 64-bit values.
\<close>

record regdev =
  sregs :: "u64 \<Rightarrow> sysreg \<Rightarrow> u64"
  dregs :: "usize \<Rightarrow> u64"

definition plain_mrs :: "u64 \<Rightarrow> sysreg \<Rightarrow> regdev \<Rightarrow> u64 \<times> regdev" where
  "plain_mrs me r d = ((if r = ICH_VTR_EL2 then 3
     else if r = ICH_ELRSR_EL2 then
       horner_sum of_bool 2 (map (\<lambda>i. lr_free (sregs d me (ICH_LR i))) [0..<4])
     else sregs d me r), d)"

definition plain_env :: "'b bitalloc \<Rightarrow> ('b, regdev) env" where
  "plain_env A = \<lparr>bits = A, core_end = 0x40600000, parking_page = 0x40500000, mrs = plain_mrs,
     msr = (\<lambda>me r v d. d\<lparr>sregs := (sregs d)(me := (sregs d me)(r := v))\<rparr>),
     load = (\<lambda>a n d. (dregs d a, d)), store = (\<lambda>a n v d. d\<lparr>dregs := (dregs d)(a := v)\<rparr>),
     smc_call = (\<lambda>v d. (0, d)), psci_cpu_on = (\<lambda>c a o' d. (None, d)), psci_system_off = (\<lambda>d. (None, d)),
     psci_INVALID_ADDRESS = - 9, wfi = (\<lambda>me d. d), daifclr = (\<lambda>me d. d),
     esr_EC = (\<lambda>v. let e = drop_bit 26 v AND 0x3f in
       if e = 0x16 then HVC64 else if e = 0x17 then SMC64 else if e = 0x18 then TrappedMsrMrs
       else if e = 0x24 then DataAbortLowerEL else if e = 0x20 then InstrAbortLowerEL
       else if e = 0x25 then DataAbortCurrentEL else if e = 0x21 then InstrAbortCurrentEL else OtherEC),
     esr_ISS = (\<lambda>v. v AND 0x1ffffff), esr_IL = (\<lambda>v. drop_bit 25 v AND 1),
     vttbr_baddr = (\<lambda>p. p), vtcr_value = (\<lambda>ps sl t. ps OR sl OR t), hcr_value = 0x80080019\<rparr>"

definition plain_lrs :: "u64 \<Rightarrow> regdev \<Rightarrow> u64 list" where
  "plain_lrs me d = map (\<lambda>i. sregs d me (ICH_LR i)) [0..<4]"

lemma plain_lrs_nth: "length (plain_lrs me d) = 4" "i < 4 \<Longrightarrow> plain_lrs me d ! i = sregs d me (ICH_LR i)"
  by (simp_all add: plain_lrs_def)

lemma plain_list_registers: "list_registers (plain_env A) plain_lrs"
  unfolding list_registers_def
proof (intro conjI allI impI)
  fix me me' d v i
  show "snd (mrs (plain_env A) me ICH_VTR_EL2 d) = d" "snd (mrs (plain_env A) me ICH_ELRSR_EL2 d) = d"
    "unat ((fst (mrs (plain_env A) me ICH_VTR_EL2 d) AND 0xf) + 1) = length (plain_lrs me d)"
    by (simp_all add: plain_env_def plain_mrs_def plain_lrs_nth)
  assume "i < length (plain_lrs me d)"
  then have i: "i < 4" by (simp add: plain_lrs_nth)
  then show "bit (fst (mrs (plain_env A) me ICH_ELRSR_EL2 d)) i = lr_free (plain_lrs me d ! i)"
    by (simp add: plain_env_def plain_mrs_def plain_lrs_nth bit_horner_sum_bit_word_iff)
  show "mrs (plain_env A) me (ICH_LR i) d = (plain_lrs me d ! i, d)"
    using i by (simp add: plain_env_def plain_mrs_def plain_lrs_nth)
  show "plain_lrs me' (msr (plain_env A) me (ICH_LR i) v d) =
      (if me' = me then (plain_lrs me d)[i := v] else plain_lrs me' d)"
    using i by (auto intro!: nth_equalityI simp: plain_env_def plain_lrs_nth nth_list_update)
qed

section \<open>Properties\<close>

text \<open>
  C30: injecting a virtual interrupt makes it pending exactly once. If a list register holds it
  already nothing changes; else the first free register takes the entry, so that the interrupts
  held are those before and the new one, still with distinct identifiers; the hypervisor panics
  exactly when all registers hold other interrupts. Registers of other cores do not change, and
  the code equals the abstract injection \<open>spec_inject\<close>.
\<close>

theorem inject_irq_refines:
  assumes "list_registers E lrs" and "unat irq < 2 ^ 32"
  shows "case spec_inject irq h (lrs me (dev s)) of
      None \<Rightarrow> inject_irq E me irq h s = (Panic, s) \<and> (\<forall>v \<in> set (lrs me (dev s)). \<not> lr_free v) \<and>
        irq \<notin> occupied (lrs me (dev s))
    | Some ls \<Rightarrow> occupied ls = insert irq (occupied (lrs me (dev s))) \<and>
        (distinct (map vintid (filter (\<lambda>v. \<not> lr_free v) (lrs me (dev s)))) \<longrightarrow>
           distinct (map vintid (filter (\<lambda>v. \<not> lr_free v) ls))) \<and>
        (\<exists>d. inject_irq E me irq h s = (Ok (), s\<lparr>dev := d\<rparr>) \<and> lrs me d = ls \<and>
           (\<forall>me'. me' \<noteq> me \<longrightarrow> lrs me' d = lrs me' (dev s)))"
proof (cases "spec_inject irq h (lrs me (dev s))")
  case None
  then have "\<not> list_ex (\<lambda>v. \<not> lr_free v \<and> vintid v = irq) (lrs me (dev s))"
    "find (\<lambda>i. lr_free (lrs me (dev s) ! i)) [0..<length (lrs me (dev s))] = None"
    by (auto simp: spec_inject_def split: if_splits)
  then have "irq \<notin> occupied (lrs me (dev s))" "\<forall>v \<in> set (lrs me (dev s)). \<not> lr_free v"
    by (auto simp: occupied_def list_ex_iff find_None_iff) (metis in_set_conv_nth)
  with None inject_irq_run [OF assms(1), where irq = irq and h = h and me = me and s = s] show ?thesis by simp
next
  case (Some ls)
  with inject_irq_run [OF assms(1), where irq = irq and h = h and me = me and s = s] spec_inject_Some [OF Some assms(2)] show ?thesis by simp
qed

definition idle_regs :: regdev where
  "idle_regs = \<lparr>sregs = (\<lambda>_ _. 0), dregs = (\<lambda>_. 0)\<rparr>"

definition bare_hv :: "(usize list, regdev) hv" where
  "bare_hv = \<lparr>mem = small_pool, dev = idle_regs, zone_heap = [], ZONE_LIST = [],
     percpu = map (\<lambda>i. \<lparr>cpu_id = i, cpu_on_entry = INVALID_ADDRESS, dtb_ipa = INVALID_ADDRESS,
       arch_cpu = ArchCpu_new i, zone = None, boot_cpu = False\<rparr>) [0, 1, 2, 3],
     stacks = replicate 4 \<lparr>exit_reason = 0, usr = replicate 31 0\<rparr>, EVENT_MANAGER = Some (replicate 4 []),
     VIRTIO_BRIDGE = \<lparr>base_address = 0, is_enable = False\<rparr>,
     shared = (\<lambda>_. \<lparr>req_front = 0, req_rear = 0, res_front = 0, res_rear = 0,
       req_list = replicate 32 \<lparr>src_cpu = 0, req_address = 0, req_size = 0, req_value = 0, src_zone = 0,
         req_is_write = 0, need_interrupt = 0\<rparr>,
       res_list = replicate 32 \<lparr>target_zone = 0, irq_id = 0\<rparr>, cfg_flags = replicate 16 0,
       cfg_values = replicate 16 0, mmio_addrs = replicate 4 0, mmio_avail = 0, need_wakeup_flag = 0\<rparr>),
     VIRTIO_IRQS = [], GIC = Some \<lparr>host_gicd = 0x8000000, host_gicr = 0x80a0000, host_gicd_sz = 0x10000,
       host_gicr_sz = 0xf60000\<rparr>, PARKING_MEMORY_SET = None, MIN_PARANGE = 2, PARANGE_OK_CPUS = 4,
     TIMER_INTERRUPT_COUNTER = 0\<rparr>"

theorem inject_irq_refines_witness:
  "\<exists>d. inject_irq (plain_env list_bits) 0 64 True bare_hv = (Ok (), bare_hv\<lparr>dev := d\<rparr>) \<and>
     plain_lrs 0 d = [0x7000004000000040, 0, 0, 0]"
proof -
  have "unat (64 :: u64) < 2 ^ 32" by simp
  note r = inject_irq_refines [OF plain_list_registers [of list_bits] this, where h = True and me = 0 and s = bare_hv]
  have "plain_lrs 0 (dev bare_hv) = [0, 0, 0, 0]"
    by (simp add: bare_hv_def plain_lrs_def idle_regs_def upt_rec)
  moreover have "spec_inject 64 True [0, 0, 0, 0] = Some [0x7000004000000040, 0, 0, 0]" by code_simp
  ultimately show ?thesis using r by auto
qed

end
