(* ===== verification/Hv_Vgic.thy ===== *)
theory Hv_Vgic
  imports Hv_Gic
begin

text \<open>
  The emulated GICv3 of \<open>device/irqchip/gicv3/vgic.rs\<close>: the MMIO handlers of the distributor and of
  the redistributors, and the interrupt bitmap of a zone. The lemmas compute the mask under which
  a zone sees a distributor register and what reaches the device on every branch.
\<close>

section \<open>Registering the controller\<close>

definition reg_range :: "usize \<Rightarrow> usize \<Rightarrow> usize \<Rightarrow> usize \<Rightarrow> bool" where
  "reg_range b n w reg \<longleftrightarrow> b \<le> reg \<and> reg < b + (n - 1) * w"

fun register_gicrs :: "usize \<Rightarrow> usize list \<Rightarrow> Zone \<Rightarrow> (HvErrorNum, Zone) outcome" where
  "register_gicrs gicr [] self = Ok self"
| "register_gicrs gicr (cpu # rest) self =
     bind_out (add_chk gicr (cpu * PER_GICR_SIZE)) (\<lambda>b.
     bind_out (mmio_region_register self b PER_GICR_SIZE Vgicv3_redist_handler cpu) (register_gicrs gicr rest))"

definition vgicv3_mmio_init :: "Zone \<Rightarrow> HvArchZoneConfig \<Rightarrow> ('b, 'd, Zone) hvp" where
  "vgicv3_mmio_init self a =
     bindP (if gicd_base a = 0 then host_gicd_base else retP (gicd_base a)) (\<lambda>gicd.
     bindP (if gicr_base a = 0 then host_gicr_base 0 else retP (gicr_base a)) (\<lambda>gicr.
     bindP (if gicd_size a = 0 then host_gicd_size else retP (gicd_size a)) (\<lambda>n.
     bindP (liftP (mmio_region_register self gicd n Vgicv3_dist_handler 0)) (\<lambda>z.
     liftP (register_gicrs gicr (map of_nat [0..<unat MAX_CPU_NUM]) z)))))"

definition insert_irq_to_bitmap :: "Zone \<Rightarrow> u32 \<Rightarrow> (HvErrorNum, Zone) outcome" where
  "insert_irq_to_bitmap self irq =
     (if irq < 1024 then
        (let i = unat (irq div 32) in
         if i < length (irq_bitmap self) then
           Ok (self\<lparr>irq_bitmap := (irq_bitmap self)[i := irq_bitmap self ! i OR push_bit (unat (irq mod 32)) 1]\<rparr>)
         else Panic)
      else Panic)"

fun irq_bitmap_init :: "u32 list \<Rightarrow> Zone \<Rightarrow> (HvErrorNum, Zone) outcome" where
  "irq_bitmap_init [] self = Ok self"
| "irq_bitmap_init (irq # irqs) self = bind_out (insert_irq_to_bitmap self irq) (irq_bitmap_init irqs)"

section \<open>Handlers\<close>

fun mask_loop :: "Zone \<Rightarrow> usize \<Rightarrow> usize \<Rightarrow> usize list \<Rightarrow> usize \<Rightarrow> (HvErrorNum, usize) outcome" where
  "mask_loop zone_r first_irq bits_per_irq [] access_mask = Ok access_mask"
| "mask_loop zone_r first_irq bits_per_irq (irq # irqs) access_mask =
     bind_out (irq_in_zone zone_r (ucast (first_irq + irq))) (\<lambda>b.
     mask_loop zone_r first_irq bits_per_irq irqs
       (if b then access_mask OR push_bit (unat (irq * bits_per_irq)) (push_bit (unat bits_per_irq) 1 - 1)
        else access_mask))"

definition restrict_bitmask_access ::
  "('b, 'd) env \<Rightarrow> u64 \<Rightarrow> MMIOAccess \<Rightarrow> usize \<Rightarrow> usize \<Rightarrow> bool \<Rightarrow> usize \<Rightarrow> ('b, 'd, MMIOAccess) hvp" where
  "restrict_bitmask_access E me acc reg_index bits_per_irq is_poke gicd =
     bindP (this_zone E me) (\<lambda>z. bindP (read_zone z) (\<lambda>zone_r.
     let irqs_per_reg = 32 div bits_per_irq; first_irq = reg_index * irqs_per_reg in
     bindP (liftP (mask_loop zone_r first_irq bits_per_irq (map of_nat [0..<unat irqs_per_reg]) 0)) (\<lambda>access_mask.
     if \<not> is_write acc then
       bindP (mmio_perform_access E gicd acc) (\<lambda>acc. retP (acc\<lparr>acc_value := acc_value acc AND access_mask\<rparr>))
     else if \<not> is_poke then
       bindP (mmio_perform_access E gicd (acc\<lparr>is_write := False\<rparr>)) (\<lambda>old.
       mmio_perform_access E gicd (old\<lparr>is_write := True,
         acc_value := acc_value old AND NOT access_mask OR acc_value acc AND access_mask\<rparr>))
     else mmio_perform_access E gicd (acc\<lparr>acc_value := acc_value acc AND access_mask\<rparr>))))"

definition vgicv3_redist_handler :: "('b, 'd) env \<Rightarrow> u64 \<Rightarrow> MMIOAccess \<Rightarrow> usize \<Rightarrow> ('b, 'd, MMIOAccess) hvp" where
  "vgicv3_redist_handler E me acc cpu =
     bindP (host_gicr_base cpu) (\<lambda>gicr.
     if address acc = GICR_TYPER then
       bindP (mmio_perform_access E gicr acc) (\<lambda>acc.
       retP (if cpu = MAX_CPU_NUM - 1 then acc\<lparr>acc_value := acc_value acc OR GICR_TYPER_LAST\<rparr> else acc))
     else if address acc = GICR_IIDR \<or> (0xffd0 \<le> address acc \<and> address acc \<le> 0xfffc) then
       mmio_perform_access E gicr acc
     else if address acc = GICR_SYNCR then retP (acc\<lparr>acc_value := 0\<rparr>)
     else
       bindP (this_zone E me) (\<lambda>z.
       bindP (get_cpu_data E cpu) (\<lambda>c.
       bindP (liftP (unwrap_opt (zone c))) (\<lambda>owner.
       if z = owner then mmio_perform_access E gicr acc else retP acc))))"

definition vgicv3_handle_irq_ops :: "('b, 'd) env \<Rightarrow> u64 \<Rightarrow> MMIOAccess \<Rightarrow> u32 \<Rightarrow> ('b, 'd, MMIOAccess) hvp" where
  "vgicv3_handle_irq_ops E me acc irq =
     bindP (this_zone E me) (\<lambda>z. bindP (read_zone z) (\<lambda>zone_r.
     bindP (if is_spi irq then liftP (irq_in_zone zone_r irq) else retP False) (\<lambda>mine.
     if \<not> mine then retP acc
     else bindP host_gicd_base (\<lambda>gicd. mmio_perform_access E gicd acc))))"

definition vgicv3_dist_misc_access :: "('b, 'd) env \<Rightarrow> MMIOAccess \<Rightarrow> usize \<Rightarrow> ('b, 'd, MMIOAccess) hvp" where
  "vgicv3_dist_misc_access E acc gicd =
     (let reg = address acc in
      if reg_range GICDV3_PIDR0 4 4 reg \<or> reg_range GICDV3_PIDR4 4 4 reg \<or> reg_range GICDV3_CIDR0 4 4 reg \<or>
         reg = GICD_CTLR \<or> reg = GICD_TYPER \<or> reg = GICD_IIDR
      then (if \<not> is_write acc then mmio_perform_access E gicd acc else retP acc)
      else liftP Panic)"

definition vgicv3_dist_handler :: "('b, 'd) env \<Rightarrow> u64 \<Rightarrow> MMIOAccess \<Rightarrow> usize \<Rightarrow> ('b, 'd, MMIOAccess) hvp" where
  "vgicv3_dist_handler E me acc a =
     bindP host_gicd_base (\<lambda>gicd.
     let reg = address acc in
     if reg_range GICD_IROUTER 1024 8 reg then vgicv3_handle_irq_ops E me acc (ucast (reg - GICD_IROUTER) div 8)
     else if reg_range GICD_ITARGETSR 1024 1 reg then vgicv3_handle_irq_ops E me acc (ucast (reg - GICD_ITARGETSR))
     else if reg_range GICD_ICENABLER 32 4 reg \<or> reg_range GICD_ISENABLER 32 4 reg \<or>
       reg_range GICD_ICPENDR 32 4 reg \<or> reg_range GICD_ISPENDR 32 4 reg \<or>
       reg_range GICD_ICACTIVER 32 4 reg \<or> reg_range GICD_ISACTIVER 32 4 reg
     then restrict_bitmask_access E me acc ((reg AND 0x7f) div 4) 1 True gicd
     else if reg_range GICD_IGROUPR 32 4 reg then restrict_bitmask_access E me acc ((reg AND 0x7f) div 4) 1 False gicd
     else if reg_range GICD_ICFGR 64 4 reg then restrict_bitmask_access E me acc ((reg AND 0xff) div 4) 2 False gicd
     else if reg_range GICD_IPRIORITYR 255 4 reg then
       restrict_bitmask_access E me acc ((reg AND 0x3ff) div 4) 8 False gicd
     else vgicv3_dist_misc_access E acc gicd)"

section \<open>The interrupts of a zone\<close>

definition zone_irqs :: "Zone \<Rightarrow> nat set" where
  "zone_irqs self = {n. n < 32 * length (irq_bitmap self) \<and> bit (irq_bitmap self ! (n div 32)) (n mod 32)}"

lemma irq_in_zone_Ok:
  assumes "length (irq_bitmap self) = 32" "unat irq < 1024"
  shows "irq_in_zone self irq = Ok (unat irq \<in> zone_irqs self)"
proof -
  have "unat irq div 32 < 32" using assms(2) by (simp add: less_mult_imp_div_less)
  moreover have "unat (irq div 32) = unat irq div 32" "unat (irq mod 32) = unat irq mod 32"
    by (simp_all add: unat_div unat_mod)
  ultimately show ?thesis
    using assms and_bit_iff [of "irq_bitmap self ! (unat irq div 32)" "unat irq mod 32"]
    by (simp add: irq_in_zone_def zone_irqs_def Let_def)
qed

lemma insert_irq_Ok:
  assumes "length (irq_bitmap self) = 32" "irq < 1024"
  obtains self' where "insert_irq_to_bitmap self irq = Ok self'" "length (irq_bitmap self') = 32"
    "zone_irqs self' = insert (unat irq) (zone_irqs self)" "self' = self\<lparr>irq_bitmap := irq_bitmap self'\<rparr>"
proof -
  have irq: "unat irq < 1024" using assms(2) by (simp add: word_less_nat_alt)
  let ?i = "unat irq div 32" and ?b = "unat irq mod 32"
  have i: "?i < 32" using irq by (simp add: less_mult_imp_div_less)
  have d: "unat (irq div 32) = ?i" "unat (irq mod 32) = ?b" by (simp_all add: unat_div unat_mod)
  let ?z = "self\<lparr>irq_bitmap := (irq_bitmap self)[?i := irq_bitmap self ! ?i OR push_bit ?b 1]\<rparr>"
  have "n \<in> zone_irqs ?z \<longleftrightarrow> n = unat irq \<or> n \<in> zone_irqs self" for n
  proof (cases "n div 32 = ?i")
    case True
    then have "n < 1024" using i by linarith
    moreover have "n = unat irq \<longleftrightarrow> n mod 32 = ?b" using True by (metis div_mult_mod_eq)
    ultimately show ?thesis using True i assms(1) irq by (auto simp: zone_irqs_def bit_or_iff bit_pow)
  next
    case False
    then show ?thesis using assms(1) by (auto simp: zone_irqs_def)
  qed
  then have "zone_irqs ?z = insert (unat irq) (zone_irqs self)" by blast
  moreover have "insert_irq_to_bitmap self irq = Ok ?z"
    using assms i by (simp add: insert_irq_to_bitmap_def d Let_def)
  ultimately show thesis using that [of ?z] assms(1) by simp
qed

lemma irq_bitmap_init_Ok:
  assumes "length (irq_bitmap self) = 32" "\<forall>irq \<in> set irqs. irq < 1024"
  shows "\<exists>self'. irq_bitmap_init irqs self = Ok self' \<and> length (irq_bitmap self') = 32 \<and>
    zone_irqs self' = unat ` set irqs \<union> zone_irqs self \<and> self' = self\<lparr>irq_bitmap := irq_bitmap self'\<rparr>"
  using assms
proof (induction irqs arbitrary: self)
  case (Cons irq irqs)
  from Cons.prems obtain z where z: "insert_irq_to_bitmap self irq = Ok z" "length (irq_bitmap z) = 32"
    "zone_irqs z = insert (unat irq) (zone_irqs self)" "z = self\<lparr>irq_bitmap := irq_bitmap z\<rparr>"
    by (auto elim: insert_irq_Ok)
  from Cons.IH [OF z(2)] Cons.prems obtain y where y: "irq_bitmap_init irqs z = Ok y" "length (irq_bitmap y) = 32"
    "zone_irqs y = unat ` set irqs \<union> zone_irqs z" "y = z\<lparr>irq_bitmap := irq_bitmap y\<rparr>" by auto
  have "y = self\<lparr>irq_bitmap := irq_bitmap y\<rparr>" by (subst y(4), subst z(4)) simp
  with y z show ?case by auto
qed auto

section \<open>Masks\<close>

lemma bit_field:
  fixes j b k :: nat
  assumes "j + b \<le> 64"
  shows "bit (push_bit j (push_bit b 1 - 1) :: u64) k \<longleftrightarrow> j \<le> k \<and> k < j + b"
proof -
  have "push_bit b 1 - 1 = (mask b :: u64)" by (simp add: mask_eq_exp_minus_1)
  then show ?thesis using assms by (auto simp: bit_push_bit_iff bit_mask_iff)
qed

lemma mask_loop_Ok:
  assumes z: "length (irq_bitmap z) = 32" and b: "b < 64" and js: "\<forall>j \<in> set js. first + j < 1024 \<and> j * b + b \<le> 32"
  shows "\<exists>m'. mask_loop z (of_nat first) (of_nat b) (map of_nat js) m = Ok m' \<and>
    (\<forall>k. bit m' k \<longleftrightarrow> bit m k \<or> (\<exists>j \<in> set js. first + j \<in> zone_irqs z \<and> j * b \<le> k \<and> k < j * b + b))"
  using js
proof (induction js arbitrary: m)
  case (Cons j js)
  have j: "first + j < 1024" "j * b + b \<le> 32" using Cons.prems by auto
  have ub: "unat (of_nat b :: usize) = b" using b by (intro unat_of_nat_exact) simp
  have ujb: "unat (of_nat j * of_nat b :: usize) = j * b"
    unfolding of_nat_mult [symmetric] using j(2) by (intro unat_of_nat_exact) simp
  have "unat (ucast (of_nat first + of_nat j :: usize) :: u32) = first + j"
    unfolding of_nat_add [symmetric] using j(1)
    by (simp add: unsigned_ucast_eq unat_of_nat_exact take_bit_nat_eq_self del: of_nat_add)
  with j(1) have irq: "irq_in_zone z (ucast (of_nat first + of_nat j :: usize)) = Ok (first + j \<in> zone_irqs z)"
    by (simp add: irq_in_zone_Ok [OF z])
  let ?m = "if first + j \<in> zone_irqs z then m OR push_bit (j * b) (push_bit b 1 - 1) else m"
  have "bit ?m k \<longleftrightarrow> bit m k \<or> (first + j \<in> zone_irqs z \<and> j * b \<le> k \<and> k < j * b + b)" for k
    using bit_field [of "j * b" b k] j(2) by (simp add: bit_or_iff del: push_bit_of_1)
  with Cons.IH [of ?m] Cons.prems irq ub ujb show ?case by (auto simp del: push_bit_of_1)
qed simp

text \<open>The register groups the distributor emulation restricts: base, registers, bits per interrupt, whether a write pokes.\<close>

definition dist_groups :: "(nat \<times> nat \<times> nat \<times> bool) list" where
  "dist_groups = [(0x80, 32, 1, False), (0x100, 32, 1, True), (0x180, 32, 1, True), (0x200, 32, 1, True),
     (0x280, 32, 1, True), (0x300, 32, 1, True), (0x380, 32, 1, True), (0x400, 255, 8, False), (0xc00, 64, 2, False)]"

lemma len64: "LENGTH(64) = 64"
  by simp

lemma register_index:
  assumes "B mod 2 ^ w = 0" "4 * i < 2 ^ w" "B + 4 * i < 2 ^ 64" "w < 64"
  shows "((of_nat (B + 4 * i) :: usize) AND mask w) div 4 = of_nat i"
proof -
  have "unat ((of_nat (B + 4 * i) :: usize) AND mask w) = unat (take_bit w (of_nat (B + 4 * i) :: usize))"
    by (simp only: take_bit_eq_mask)
  also have "\<dots> = take_bit w (unat (of_nat (B + 4 * i) :: usize))" by (rule unsigned_take_bit_eq)
  also have "\<dots> = (B + 4 * i) mod 2 ^ w" using assms(3) by (simp only: unat_of_nat_exact take_bit_eq_mod len64)
  also have "\<dots> = 4 * i" using assms(1,2) by (simp add: mod_add_eq [symmetric, of B "4 * i"])
  finally have "unat (((of_nat (B + 4 * i) :: usize) AND mask w) div 4) = i" by (simp add: unat_div)
  moreover have "unat (of_nat i :: usize) = i" using assms(3) by (intro unat_of_nat_exact) simp
  ultimately show ?thesis by (simp only: word_unat_eq_iff)
qed

lemma dist_dispatch:
  assumes "(B, n, b, poke) \<in> set dist_groups" "i < n - 1" "address acc = of_nat (B + 4 * i)"
  shows "vgicv3_dist_handler E me acc a =
    bindP host_gicd_base (restrict_bitmask_access E me acc (of_nat i) (of_nat b) poke)"
proof -
  have lim: "B + 4 * i < 2 ^ 64" "B + 4 * i < 0x6000" using assms(1,2) by (auto simp: dist_groups_def)
  have u: "unat (address acc) = B + 4 * i" unfolding assms(3) using lim by (intro unat_of_nat_exact) simp
  have m: "mask 7 = (0x7f :: usize)" "mask 8 = (0xff :: usize)" "mask 10 = (0x3ff :: usize)"
    by (simp_all add: mask_eq_exp_minus_1)
  have idx1: "b = 1 \<Longrightarrow> (address acc AND 0x7f) div 4 = of_nat i"
    unfolding assms(3) m(1) [symmetric] by (rule register_index) (use assms(1,2) in \<open>auto simp: dist_groups_def\<close>)
  have idx2: "b = 2 \<Longrightarrow> (address acc AND 0xff) div 4 = of_nat i"
    unfolding assms(3) m(2) [symmetric] by (rule register_index) (use assms(1,2) in \<open>auto simp: dist_groups_def\<close>)
  have idx8: "b = 8 \<Longrightarrow> (address acc AND 0x3ff) div 4 = of_nat i"
    unfolding assms(3) m(3) [symmetric] by (rule register_index) (use assms(1,2) in \<open>auto simp: dist_groups_def\<close>)
  have r: "reg_range x k w (address acc) \<longleftrightarrow> unat x \<le> B + 4 * i \<and> B + 4 * i < unat (x + (k - 1) * w)" for x k w
    by (simp add: reg_range_def word_le_nat_alt word_less_nat_alt u)
  show ?thesis
    using assms(1) unfolding vgicv3_dist_handler_def Let_def r dist_groups_def list.set insert_iff empty_iff prod.inject
    by (elim disjE conjE FalseE; use assms(2) idx1 idx2 idx8 in \<open>simp add: GICD_defs\<close>)
qed

section \<open>What reaches the device\<close>

text \<open>A 4-byte access as the device sees it: the value and the device afterwards.\<close>

lemma perform_read:
  assumes "\<not> is_write acc" "acc_size acc \<in> {1, 2, 4, 8}" "unat b + unat (address acc) < 2 ^ 64"
    "load E (b + address acc) (unat (acc_size acc)) (dev s) = (v, d)"
  shows "mmio_perform_access E b acc s =
    (Ok (acc\<lparr>acc_value := take_bit (8 * unat (acc_size acc)) v\<rparr>), s\<lparr>dev := d\<rparr>)"
  using assms by (simp add: mmio_perform_access_def add_chk_def bindP_def read_volatile_def)

lemma perform_write:
  assumes "is_write acc" "acc_size acc \<in> {1, 2, 4, 8}" "unat b + unat (address acc) < 2 ^ 64"
  shows "mmio_perform_access E b acc s = (Ok acc, s\<lparr>dev := store E (b + address acc) (unat (acc_size acc))
    (take_bit (8 * unat (acc_size acc)) (acc_value acc)) (dev s)\<rparr>)"
  using assms by (simp add: mmio_perform_access_def add_chk_def bindP_def write_volatile_def)

text \<open>The handler's view of the caller: its zone and the address of the distributor.\<close>

definition gic_caller :: "('b, 'd) env \<Rightarrow> u64 \<Rightarrow> ('b, 'd) hv \<Rightarrow> zone_ptr \<Rightarrow> Zone \<Rightarrow> Gic \<Rightarrow> bool" where
  "gic_caller E me s z zn g \<longleftrightarrow> this_zone E me s = (Ok z, s) \<and> zone_at s z = Some zn \<and>
     length (irq_bitmap zn) = 32 \<and> GIC s = Some g"

lemma gicd_base_run: "GIC s = Some g \<Longrightarrow> host_gicd_base s = (Ok (host_gicd g), s)"
  by (simp add: host_gicd_base_def gic_get_def)

text \<open>The interrupts whose bits a zone may see and change in register \<open>i\<close> of a group.\<close>

definition zone_mask :: "Zone \<Rightarrow> nat \<Rightarrow> nat \<Rightarrow> usize" where
  "zone_mask zn b i = horner_sum of_bool 2 (map (\<lambda>k. i * (32 div b) + k div b \<in> zone_irqs zn) [0..<32])"

lemma bit_zone_mask: "bit (zone_mask zn b i) k \<longleftrightarrow> k < 32 \<and> i * (32 div b) + k div b \<in> zone_irqs zn"
  by (auto simp: zone_mask_def bit_horner_sum_bit_word_iff)

lemma mask_loop_zone_mask:
  assumes zn: "length (irq_bitmap zn) = 32" and b: "b \<in> {1, 2, 8}" and i: "(i + 1) * (32 div b) \<le> 1024"
  shows "mask_loop zn (of_nat i * (32 div of_nat b)) (of_nat b) (map of_nat [0..<unat (32 div of_nat b :: usize)]) 0
    = Ok (zone_mask zn b i)"
proof -
  let ?f = "i * (32 div b)"
  have q: "32 div of_nat b = (of_nat (32 div b) :: usize)" "unat (32 div of_nat b :: usize) = 32 div b" "b dvd 32"
    using b by auto
  have js: "\<forall>j \<in> set [0..<32 div b]. ?f + j < 1024 \<and> j * b + b \<le> 32"
    using i b by auto
  from b have b64: "b < 64" by auto
  from mask_loop_Ok [OF zn b64 js, of 0] obtain m' where
    m': "mask_loop zn (of_nat ?f) (of_nat b) (map of_nat [0..<32 div b]) 0 = Ok m'"
    and bits: "\<And>k. bit m' k \<longleftrightarrow> (\<exists>j \<in> set [0..<32 div b]. ?f + j \<in> zone_irqs zn \<and> j * b \<le> k \<and> k < j * b + b)"
    by (auto simp del: set_upt)
  have "j * b \<le> k \<and> k < j * b + b \<longleftrightarrow> k div b = j" for j k
    using b by (auto simp: div_nat_eqI mult.commute)
  moreover have "k div b < 32 div b \<longleftrightarrow> k < 32" for k using b by auto
  ultimately have "m' = zone_mask zn b i"
    by (intro bit_word_eqI) (auto simp: bits bit_zone_mask)
  with m' show ?thesis unfolding q(2) unfolding q(1) by simp
qed

lemma restrict_run:
  assumes c: "gic_caller E me s z zn g" and b: "b \<in> {1, 2, 8}" and i: "(i + 1) * (32 div b) \<le> 1024"
  shows "restrict_bitmask_access E me acc (of_nat i) (of_nat b) poke gicd s =
    (if \<not> is_write acc then
       bindP (mmio_perform_access E gicd acc) (\<lambda>acc. retP (acc\<lparr>acc_value := acc_value acc AND zone_mask zn b i\<rparr>)) s
     else if \<not> poke then
       bindP (mmio_perform_access E gicd (acc\<lparr>is_write := False\<rparr>)) (\<lambda>old.
       mmio_perform_access E gicd (old\<lparr>is_write := True,
         acc_value := acc_value old AND NOT (zone_mask zn b i) OR acc_value acc AND zone_mask zn b i\<rparr>)) s
     else mmio_perform_access E gicd (acc\<lparr>acc_value := acc_value acc AND zone_mask zn b i\<rparr>) s)"
proof -
  have "this_zone E me s = (Ok z, s)" "read_zone z s = (Ok zn, s)" "length (irq_bitmap zn) = 32"
    using c by (simp_all add: gic_caller_def read_zone_def)
  then show ?thesis
    by (simp add: restrict_bitmask_access_def bindP_simps Let_def mask_loop_zone_mask [OF _ b i])
qed

lemma mask_take: "take_bit n x AND take_bit n m = take_bit n x AND m" for x m :: usize
  by (rule bit_word_eqI) (auto simp: bit_take_bit_iff bit_and_iff)

text \<open>Accesses at the last register of a group leave the range and end in \<open>todo!()\<close>.\<close>

lemma dist_last_register:
  assumes "gic_caller E me s z zn g" "address acc \<in> {0xfc, 0x17c, 0x1fc, 0x27c, 0x2fc, 0x37c, 0x3fc, 0x7f8, 0x7fc, 0xcfc}"
  shows "vgicv3_dist_handler E me acc a s = (Panic, s)"
proof -
  have "host_gicd_base s = (Ok (host_gicd g), s)" using assms(1) by (simp add: gic_caller_def gicd_base_run)
  with assms(2) show ?thesis
    by (elim insertE emptyE)
      (simp_all add: vgicv3_dist_handler_def bindP_simps Let_def reg_range_def GICD_defs vgicv3_dist_misc_access_def)
qed

section \<open>Properties\<close>

text \<open>
  C23: a zone reaches a distributor register of the enable, pending, active, group, priority and
  configuration groups only through the mask of its own interrupts, when its access, of 1, 2, 4 or 8 bytes, starts at the
  address of the register. On a read the bits of other interrupts are zero; a set or clear write passes on only the zone's bits; a write to the other
  groups puts back the value just read for every bit that is not the zone's. (At any other byte address the handler applies the same mask without shifting it.)
\<close>

theorem vgic_dist_isolated:
  assumes "gic_caller E me s z zn g" and "(B, n, b, poke) \<in> set dist_groups" and "i < n - 1"
    and "address acc = of_nat (B + 4 * i)" and "acc_size acc \<in> {1, 2, 4, 8}" and "unat (host_gicd g) + 0x10000 < 2 ^ 64"
    and "w = unat (acc_size acc)" and "load E (host_gicd g + address acc) w (dev s) = (v, d)"
  shows "(\<forall>k. bit (zone_mask zn b i) k \<longleftrightarrow> k < 32 \<and> i * (32 div b) + k div b \<in> zone_irqs zn) \<and>
    (\<exists>acc'. vgicv3_dist_handler E me acc a s = (Ok acc', s\<lparr>dev :=
      (if \<not> is_write acc then d
       else if poke then store E (host_gicd g + address acc) w (take_bit (8 * w) (acc_value acc) AND zone_mask zn b i) (dev s)
       else store E (host_gicd g + address acc) w
         (take_bit (8 * w) v AND NOT (zone_mask zn b i) OR take_bit (8 * w) (acc_value acc) AND zone_mask zn b i) d)\<rparr>) \<and>
      (\<not> is_write acc \<longrightarrow> acc' = acc\<lparr>acc_value := take_bit (8 * w) v AND zone_mask zn b i\<rparr>))"
proof -
  have g: "host_gicd_base s = (Ok (host_gicd g), s)" using assms(1) by (simp add: gic_caller_def gicd_base_run)
  have b: "b \<in> {1, 2, 8}" "(i + 1) * (32 div b) \<le> 1024" "B + 4 * i < 0x10000"
    using assms(2,3) by (auto simp: dist_groups_def)
  have "unat (address acc) = B + 4 * i" unfolding assms(4) using b(3) by (intro unat_of_nat_exact) simp
  with b(3) assms(6) have a: "unat (host_gicd g) + unat (address acc) < 2 ^ 64" by simp
  have l: "load E (host_gicd g + address acc) (unat (acc_size acc)) (dev s) = (v, d)" using assms(7,8) by simp
  have "vgicv3_dist_handler E me acc a s =
      restrict_bitmask_access E me acc (of_nat i) (of_nat b) poke (host_gicd g) s"
    unfolding dist_dispatch [OF assms(2-4)] using g by (simp add: bindP_simps)
  moreover have "\<exists>acc'. \<dots> = (Ok acc', s\<lparr>dev :=
      (if \<not> is_write acc then d
       else if poke then store E (host_gicd g + address acc) w (take_bit (8 * w) (acc_value acc) AND zone_mask zn b i) (dev s)
       else store E (host_gicd g + address acc) w
         (take_bit (8 * w) v AND NOT (zone_mask zn b i) OR take_bit (8 * w) (acc_value acc) AND zone_mask zn b i) d)\<rparr>) \<and>
      (\<not> is_write acc \<longrightarrow> acc' = acc\<lparr>acc_value := take_bit (8 * w) v AND zone_mask zn b i\<rparr>)"
    unfolding restrict_run [OF assms(1) b(1,2)] using assms(5) a l
    by (simp add: bindP_simps perform_read [where v = v and d = d] perform_write mask_take assms(7) [symmetric])
  ultimately show ?thesis by (simp add: bit_zone_mask)
qed

definition one_zone_hv :: "(usize list, regdev) hv" where
  "one_zone_hv = bare_hv\<lparr>zone_heap := [Some (empty_zone\<lparr>irq_bitmap := (replicate 32 0)[1 := 2]\<rparr>)], ZONE_LIST := [0],
     percpu := (percpu bare_hv)[0 := (percpu bare_hv ! 0)\<lparr>zone := Some 0\<rparr>]\<rparr>"

lemma one_zone_caller:
  "gic_caller (plain_env A) 0 one_zone_hv 0 (empty_zone\<lparr>irq_bitmap := (replicate 32 0)[1 := 2]\<rparr>)
     \<lparr>host_gicd = 0x8000000, host_gicr = 0x80a0000, host_gicd_sz = 0x10000, host_gicr_sz = 0xf60000\<rparr>"
proof -
  have "cpus_wf (plain_env A) one_zone_hv"
    by (simp add: cpus_wf_def one_zone_hv_def bare_hv_def MAX_CPU_NUM_def PER_CPU_SIZE_def plain_env_def)
  moreover have "this_cpu_id 0 = 0" by (simp add: this_cpu_id_def mpidr_to_cpuid_def)
  ultimately have "this_zone (plain_env A) 0 one_zone_hv = (Ok 0, one_zone_hv)"
    by (simp add: this_zone_in) (simp add: one_zone_hv_def bare_hv_def)
  then show ?thesis by (simp add: gic_caller_def one_zone_hv_def zone_at_def) (simp add: bare_hv_def)
qed

lemma bit_two: "bit (2 :: nat) n \<longleftrightarrow> n = 1" "bit (2 :: int) n \<longleftrightarrow> n = 1"
  using bit_exp_iff [of 1 n, where ?'a = nat] bit_exp_iff [of 1 n, where ?'a = int] by auto

lemma one_zone_irqs: "zone_irqs (empty_zone\<lparr>irq_bitmap := (replicate 32 0)[1 := 2]\<rparr>) = {33}"
proof -
  have "bit ((replicate 32 0)[1 := 2 :: u32] ! (n div 32)) (n mod 32) \<longleftrightarrow> n = 33" if "n < 1024" for n
  proof -
    have "n div 32 < 32" using that by linarith
    then have "bit ((replicate 32 0)[1 := 2 :: u32] ! (n div 32)) (n mod 32) \<longleftrightarrow> n div 32 = 1 \<and> n mod 32 = 1"
      by (auto simp: nth_list_update bit_two)
    also have "\<dots> \<longleftrightarrow> n = 33" by auto presburger
    finally show ?thesis .
  qed
  then show ?thesis by (auto simp: zone_irqs_def)
qed

theorem vgic_dist_isolated_witness:
  "\<exists>acc' t. vgicv3_dist_handler (plain_env list_bits) 0 \<lparr>address = 0x104, acc_size = 4, is_write = True, acc_value = 0xffffffff\<rparr> 0
     one_zone_hv = (Ok acc', t) \<and> dregs (dev t) 0x8000104 = 2"
proof -
  let ?zn = "empty_zone\<lparr>irq_bitmap := (replicate 32 0)[1 := 2]\<rparr>"
  let ?acc = "\<lparr>address = 0x104, acc_size = 4, is_write = True, acc_value = 0xffffffff\<rparr> :: MMIOAccess"
  have g: "(0x100, 32, 1, True) \<in> set dist_groups" "(1 :: nat) < 32 - 1" "address ?acc = of_nat (0x100 + 4 * 1)"
    "acc_size ?acc \<in> {1, 2, 4, 8}" by (simp_all add: dist_groups_def)
  obtain v d where l: "load (plain_env list_bits) (0x8000000 + address ?acc) 4 (dev one_zone_hv) = (v, d)" by fastforce
  have m: "zone_mask ?zn 1 1 = 2"
    by (rule bit_word_eqI) (simp only: bit_zone_mask one_zone_irqs, auto simp: bit_two)
  have o: "unat (host_gicd \<lparr>host_gicd = 0x8000000, host_gicr = 0x80a0000, host_gicd_sz = 0x10000,
      host_gicr_sz = 0xf60000\<rparr>) + 0x10000 < 2 ^ 64" "4 = unat (acc_size ?acc)" by simp_all
  from vgic_dist_isolated [OF one_zone_caller [of list_bits] g o, of v d 0] l m obtain acc' where
    "vgicv3_dist_handler (plain_env list_bits) 0 ?acc 0 one_zone_hv =
      (Ok acc', one_zone_hv\<lparr>dev := store (plain_env list_bits) 0x8000104 4 2 (dev one_zone_hv)\<rparr>)" by auto
  then show ?thesis by (simp add: plain_env_def)
qed

text \<open>The identification registers of a redistributor.\<close>

definition ident_register :: "usize \<Rightarrow> bool" where
  "ident_register reg \<longleftrightarrow> reg = GICR_TYPER \<or> reg = GICR_IIDR \<or> 0xffd0 \<le> reg \<and> reg \<le> 0xfffc"

text \<open>
  C31: the redistributor of CPU \<open>cpu\<close>, at \<open>0x20000 * cpu\<close> from the first one. A guest access to a register that is neither an
  identification register nor \<open>GICR_SYNCR\<close> is performed for the zone that owns the CPU; from every other zone it changes neither the device nor the state of the hypervisor
  and gives the access back as it was; when the CPU belongs to no zone the hypervisor panics. \<open>GICR_SYNCR\<close> reads as zero without an access. The identification
  registers (\<open>GICR_TYPER\<close>, \<open>GICR_IIDR\<close>, 0xffd0 to 0xfffc) are accessed as asked for, reads and writes, whoever owns the CPU, and the last CPU's \<open>GICR_TYPER\<close> has the last flag.
\<close>

theorem vgic_redist_isolated:
  assumes "cpus_wf E s" and "this_zone E me s = (Ok z, s)" and "cpu < MAX_CPU_NUM" and "GIC s = Some g"
    and "unat (host_gicr g) + 4 * 0x20000 < 2 ^ 64"
  shows "vgicv3_redist_handler E me acc cpu s =
    (if ident_register (address acc) then
       (case mmio_perform_access E (host_gicr g + 0x20000 * cpu) acc s of
          (Ok acc', t) \<Rightarrow> (Ok (if address acc = GICR_TYPER \<and> cpu = 3 then acc'\<lparr>acc_value := acc_value acc' OR 0x10\<rparr> else acc'), t)
        | r \<Rightarrow> r)
     else if address acc = GICR_SYNCR then (Ok (acc\<lparr>acc_value := 0\<rparr>), s)
     else case zone (percpu s ! unat cpu) of
         None \<Rightarrow> (Panic, s)
       | Some owner \<Rightarrow> if z = owner then mmio_perform_access E (host_gicr g + 0x20000 * cpu) acc s else (Ok acc, s))"
proof -
  have c: "unat cpu < 4" using assms(3) by (simp add: MAX_CPU_NUM_def word_less_nat_alt)
  have "unat cpu * unat PER_GICR_SIZE < 2 ^ 64" "unat (host_gicr g) + unat (cpu * PER_GICR_SIZE) < 2 ^ 64"
    using c assms(5) by (simp_all add: PER_GICR_SIZE_def unat_mul_exact)
  with assms(3,4) have "host_gicr_base cpu s = (Ok (host_gicr g + 0x20000 * cpu), s)"
    by (simp add: host_gicr_base_def gic_get_def bindP_simps mul_chk_def add_chk_def) (simp add: PER_GICR_SIZE_def mult.commute)
  with assms(2) get_cpu_data_in [OF assms(1) c] show ?thesis
    by (auto simp: vgicv3_redist_handler_def ident_register_def bindP_def GICR_TYPER_LAST_def MAX_CPU_NUM_def GICR_TYPER_def GICR_SYNCR_def GICR_IIDR_def
        split: option.split outcome.split prod.split)
qed

definition two_zone_hv :: "(usize list, regdev) hv" where
  "two_zone_hv = bare_hv\<lparr>zone_heap := [Some empty_zone, Some (empty_zone\<lparr>zid := 1\<rparr>)], ZONE_LIST := [0, 1],
     percpu := (percpu bare_hv)[0 := (percpu bare_hv ! 0)\<lparr>zone := Some 0\<rparr>, 1 := (percpu bare_hv ! 1)\<lparr>zone := Some 1\<rparr>]\<rparr>"

lemma two_zone_cpus: "cpus_wf (plain_env A) two_zone_hv" "this_zone (plain_env A) 0 two_zone_hv = (Ok 0, two_zone_hv)"
proof -
  show wf: "cpus_wf (plain_env A) two_zone_hv"
    by (simp add: cpus_wf_def two_zone_hv_def bare_hv_def MAX_CPU_NUM_def PER_CPU_SIZE_def plain_env_def)
  have "this_cpu_id 0 = 0" by (simp add: this_cpu_id_def mpidr_to_cpuid_def)
  with wf show "this_zone (plain_env A) 0 two_zone_hv = (Ok 0, two_zone_hv)"
    by (simp add: this_zone_in) (simp add: two_zone_hv_def bare_hv_def)
qed

lemma two_zone_gic: "GIC two_zone_hv = Some \<lparr>host_gicd = 0x8000000, host_gicr = 0x80a0000, host_gicd_sz = 0x10000,
     host_gicr_sz = 0xf60000\<rparr>" "zone (percpu two_zone_hv ! 1) = Some 1"
  by (simp_all add: two_zone_hv_def bare_hv_def)

theorem vgic_redist_isolated_witness:
  "vgicv3_redist_handler (plain_env list_bits) 0 \<lparr>address = 0x14, acc_size = 4, is_write = True, acc_value = 7\<rparr> 1
     two_zone_hv = (Ok \<lparr>address = 0x14, acc_size = 4, is_write = True, acc_value = 7\<rparr>, two_zone_hv)"
  using vgic_redist_isolated [OF two_zone_cpus, of 1, OF _ two_zone_gic(1)] two_zone_gic(2)
  by (simp add: MAX_CPU_NUM_def ident_register_def GICR_TYPER_def GICR_IIDR_def GICR_SYNCR_def)

end
