(* ===== verification/Hv_Event.thy ===== *)
theory Hv_Event
  imports Hv_Gic
begin

text \<open>
  Events between CPUs: \<open>event.rs\<close> (one queue per CPU) and \<open>arch/aarch64/ipi.rs\<close> (the software
  interrupt that announces an event). The locale \<open>mailbox\<close> is what the senders and the handler
  rely on; its law of conservation says that each CPU takes exactly the events sent to it, in the
  order they were sent.
\<close>

section \<open>Queues\<close>

definition IPI_EVENT_WAKEUP :: usize where "IPI_EVENT_WAKEUP = 0"
definition IPI_EVENT_SHUTDOWN :: usize where "IPI_EVENT_SHUTDOWN = 1"
definition IPI_EVENT_VIRTIO_INJECT_IRQ :: usize where "IPI_EVENT_VIRTIO_INJECT_IRQ = 2"
definition IPI_EVENT_WAKEUP_VIRTIO_DEVICE :: usize where "IPI_EVENT_WAKEUP_VIRTIO_DEVICE = 3"

lemmas IPI_EVENT_defs = IPI_EVENT_WAKEUP_def IPI_EVENT_SHUTDOWN_def IPI_EVENT_VIRTIO_INJECT_IRQ_def
  IPI_EVENT_WAKEUP_VIRTIO_DEVICE_def

type_synonym EventManager = "usize list list"

definition EventManager_new :: "usize \<Rightarrow> EventManager" where
  "EventManager_new max_cpus = replicate (unat max_cpus) []"

definition EventManager_add_event :: "EventManager \<Rightarrow> usize \<Rightarrow> usize \<Rightarrow> unit option \<times> EventManager" where
  "EventManager_add_event self cpu event_id =
     (if unat cpu < length self then (Some (), self[unat cpu := self ! unat cpu @ [event_id]]) else (None, self))"

definition EventManager_fetch_event :: "EventManager \<Rightarrow> usize \<Rightarrow> usize option \<times> EventManager" where
  "EventManager_fetch_event self cpu =
     (if unat cpu < length self then
        (case self ! unat cpu of [] \<Rightarrow> (None, self) | e # es \<Rightarrow> (Some e, self[unat cpu := es]))
      else (None, self))"

definition with_events :: "(EventManager \<Rightarrow> 'a \<times> EventManager) \<Rightarrow> ('b, 'd, 'a) hvp" where
  "with_events f = bindP (getP EVENT_MANAGER) (\<lambda>m. bindP (liftP (unwrap_opt m)) (\<lambda>em s.
     (Ok (fst (f em)), s\<lparr>EVENT_MANAGER := Some (snd (f em))\<rparr>)))"

definition add_event :: "usize \<Rightarrow> usize \<Rightarrow> ('b, 'd, unit option) hvp" where
  "add_event cpu event_id = with_events (\<lambda>em. EventManager_add_event em cpu event_id)"

definition fetch_event :: "usize \<Rightarrow> ('b, 'd, usize option) hvp" where
  "fetch_event cpu = with_events (\<lambda>em. EventManager_fetch_event em cpu)"

definition event_init :: "usize \<Rightarrow> ('b, 'd, unit) hvp" where
  "event_init max_cpus = modifyP (\<lambda>s. case EVENT_MANAGER s of Some _ \<Rightarrow> s
     | None \<Rightarrow> s\<lparr>EVENT_MANAGER := Some (EventManager_new max_cpus)\<rparr>)"

text \<open>The shifts of constant zero fields of \<open>ICC_SGI1R_EL1\<close> leave zero.\<close>

definition sgi_value :: "u64 \<Rightarrow> u64 \<Rightarrow> (HvErrorNum, u64) outcome" where
  "sgi_value cpu sgi_num = bind_out (shl_chk 1 (unat cpu)) (\<lambda>target_list.
     Ok (push_bit 16 0 OR push_bit 32 0 OR push_bit 48 0 OR push_bit 40 0 OR push_bit 24 sgi_num OR target_list))"

definition arch_send_event :: "('b, 'd) env \<Rightarrow> u64 \<Rightarrow> u64 \<Rightarrow> u64 \<Rightarrow> ('b, 'd, unit) hvp" where
  "arch_send_event E me cpu sgi_num =
     bindP (liftP (sgi_value cpu sgi_num)) (write_sysreg E me ICC_SGI1R_EL1)"

definition send_event :: "('b, 'd) env \<Rightarrow> u64 \<Rightarrow> usize \<Rightarrow> usize \<Rightarrow> usize \<Rightarrow> ('b, 'd, unit) hvp" where
  "send_event E me cpu ipi_int_id event_id =
     bindP (add_event cpu event_id) (\<lambda>_. arch_send_event E me cpu ipi_int_id)"

section \<open>Mailboxes\<close>

datatype box_op = Post usize usize | Fetch usize

text \<open>A run of operations by any CPUs, with the list of events taken out.\<close>

fun box_run :: "('m \<Rightarrow> usize \<Rightarrow> usize \<Rightarrow> unit option \<times> 'm) \<Rightarrow> ('m \<Rightarrow> usize \<Rightarrow> usize option \<times> 'm) \<Rightarrow>
    box_op list \<Rightarrow> 'm \<Rightarrow> (usize \<times> usize) list \<times> 'm" where
  "box_run post fetch [] m = ([], m)"
| "box_run post fetch (Post c e # ops) m = box_run post fetch ops (snd (post m c e))"
| "box_run post fetch (Fetch c # ops) m =
     (case fetch m c of
        (Some e, m') \<Rightarrow> (let (out, m'') = box_run post fetch ops m' in ((c, e) # out, m''))
      | (None, m') \<Rightarrow> box_run post fetch ops m')"

fun posted :: "usize \<Rightarrow> box_op list \<Rightarrow> usize list" where
  "posted c [] = []"
| "posted c (Post d e # ops) = (if d = c then e # posted c ops else posted c ops)"
| "posted c (Fetch d # ops) = posted c ops"

definition fetched :: "usize \<Rightarrow> (usize \<times> usize) list \<Rightarrow> usize list" where
  "fetched c out = map snd (filter (\<lambda>p. fst p = c) out)"

locale mailbox =
  fixes post :: "'m \<Rightarrow> usize \<Rightarrow> usize \<Rightarrow> unit option \<times> 'm"
    and fetch :: "'m \<Rightarrow> usize \<Rightarrow> usize option \<times> 'm"
    and pending :: "'m \<Rightarrow> usize \<Rightarrow> usize list"
    and known :: "'m \<Rightarrow> usize \<Rightarrow> bool"
  assumes post_pending: "known m c \<Longrightarrow>
      pending (snd (post m c e)) d = (if d = c then pending m c @ [e] else pending m d)"
    and post_unknown: "\<not> known m c \<Longrightarrow> post m c e = (None, m)"
    and fetch_value: "fst (fetch m c) = (case pending m c of [] \<Rightarrow> None | e # es \<Rightarrow> Some e)"
    and fetch_pending: "pending (snd (fetch m c)) d = (if d = c then tl (pending m c) else pending m d)"
    and known_kept: "known (snd (post m c e)) d = known m d" "known (snd (fetch m c)) d = known m d"
begin

lemma fetch_cases:
  obtains (empty) m' where "fetch m c = (None, m')" "pending m c = []" "\<And>d. pending m' d = pending m d" "\<And>d. known m' d = known m d"
    | (event) e es m' where "fetch m c = (Some e, m')" "pending m c = e # es"
        "\<And>d. pending m' d = (if d = c then es else pending m d)" "\<And>d. known m' d = known m d"
proof -
  obtain r m' where r: "fetch m c = (r, m')" by fastforce
  show thesis
    using fetch_value [of m c] fetch_pending [of m c] known_kept(2) [of m c] empty event unfolding r
    by (cases "pending m c") (auto split: if_splits)
qed

lemma conservation:
  assumes "known m c" "box_run post fetch ops m = (out, m')"
  shows "pending m c @ posted c ops = fetched c out @ pending m' c"
  using assms
proof (induction ops arbitrary: m out)
  case Nil
  then show ?case by (simp add: fetched_def)
next
  case (Cons oper ops)
  show ?case
  proof (cases oper)
    case (Post d e)
    with Cons.prems have run: "box_run post fetch ops (snd (post m d e)) = (out, m')" by simp
    have "pending (snd (post m d e)) c = (if c = d then pending m c @ [e] else pending m c)"
      using post_pending [of m d e c] post_unknown [of m d e] Cons.prems(1) by (cases "known m d") auto
    with Cons.IH [OF _ run] Cons.prems(1) known_kept(1) [of m d e c] Post show ?thesis by auto
  next
    case (Fetch d)
    show ?thesis
    proof (cases rule: fetch_cases [of m d])
      case (empty m1)
      with Cons.prems Fetch have "box_run post fetch ops m1 = (out, m')" by simp
      with Cons.IH [of m1 out] Cons.prems(1) empty Fetch show ?thesis by simp
    next
      case (event e es m1)
      obtain out1 where o1: "box_run post fetch ops m1 = (out1, m')" "out = (d, e) # out1"
        using Cons.prems(2) event(1) Fetch by (auto split: prod.splits)
      with Cons.IH [of m1 out1] Cons.prems(1) event Fetch show ?thesis by (auto simp: fetched_def)
    qed
  qed
qed

end

text \<open>The queues of the event manager are such a mailbox.\<close>

definition event_queue :: "EventManager \<Rightarrow> usize \<Rightarrow> usize list" where
  "event_queue em c = (if unat c < length em then em ! unat c else [])"

interpretation events: mailbox EventManager_add_event EventManager_fetch_event event_queue
  "\<lambda>em c. unat c < length em"
proof
  fix em :: EventManager and c e d :: usize
  have eq: "unat d = unat c \<longleftrightarrow> d = c" by (simp add: word_unat_eq_iff)
  show "unat c < length em \<Longrightarrow> event_queue (snd (EventManager_add_event em c e)) d =
      (if d = c then event_queue em c @ [e] else event_queue em d)"
    by (auto simp: EventManager_add_event_def event_queue_def nth_list_update word_unat_eq_iff)
  show "\<not> unat c < length em \<Longrightarrow> EventManager_add_event em c e = (None, em)"
    by (simp add: EventManager_add_event_def)
  show "fst (EventManager_fetch_event em c) = (case event_queue em c of [] \<Rightarrow> None | e # es \<Rightarrow> Some e)"
    by (simp add: EventManager_fetch_event_def event_queue_def split: list.split)
  show "event_queue (snd (EventManager_fetch_event em c)) d = (if d = c then tl (event_queue em c) else event_queue em d)"
    by (auto simp: EventManager_fetch_event_def event_queue_def nth_list_update word_unat_eq_iff split: list.split)
  show "(unat d < length (snd (EventManager_add_event em c e))) = (unat d < length em)"
    "(unat d < length (snd (EventManager_fetch_event em c))) = (unat d < length em)"
    by (simp_all add: EventManager_add_event_def EventManager_fetch_event_def split: list.split)
qed

section \<open>Sending\<close>

lemma sgi_value_Ok: "unat cpu < 64 \<Longrightarrow> sgi_value cpu n = Ok (push_bit 24 n OR push_bit (unat cpu) 1)"
  by (simp add: sgi_value_def shl_chk_def)

lemma send_event_run:
  assumes "EVENT_MANAGER s = Some em" "unat cpu < 64"
  shows "send_event E me cpu n ev s = (Ok (), s\<lparr>EVENT_MANAGER := Some (snd (EventManager_add_event em cpu ev)),
    dev := msr E me ICC_SGI1R_EL1 (push_bit 24 n OR push_bit (unat cpu) 1) (dev s)\<rparr>)"
  using assms by (simp add: send_event_def add_event_def with_events_def arch_send_event_def bindP_def
      sgi_value_Ok write_sysreg_def)

lemma fetch_event_run:
  "EVENT_MANAGER s = Some em \<Longrightarrow> fetch_event cpu s =
     (Ok (fst (EventManager_fetch_event em cpu)), s\<lparr>EVENT_MANAGER := Some (snd (EventManager_fetch_event em cpu))\<rparr>)"
  by (simp add: fetch_event_def with_events_def bindP_def)

lemma send_event_frame:
  assumes "send_event E me cpu n ev s = (r, t)"
  shows "\<exists>em d. t = s\<lparr>EVENT_MANAGER := em, dev := d\<rparr>"
proof (cases "EVENT_MANAGER s")
  case None
  with assms have "t = s" by (simp add: send_event_def add_event_def with_events_def bindP_def)
  then show ?thesis by (intro exI [of _ "EVENT_MANAGER s"] exI [of _ "dev s"]) simp
next
  case (Some em)
  show ?thesis
  proof (cases "unat cpu < 64")
    case True
    with send_event_run [OF Some True] assms show ?thesis by auto
  next
    case False
    with Some assms have "t = s\<lparr>EVENT_MANAGER := Some (snd (EventManager_add_event em cpu ev)), dev := dev s\<rparr>"
      by (auto simp: send_event_def add_event_def with_events_def arch_send_event_def bindP_def
        sgi_value_def shl_chk_def)
    then show ?thesis by blast
  qed
qed

section \<open>Properties\<close>

text \<open>
  C32: whatever CPUs post and fetch in whatever order, the events a CPU has taken followed by those
  still queued for it are exactly the events queued before followed by those posted to it: nothing
  is lost, duplicated, reordered or delivered to another CPU.
\<close>

theorem events_conserved:
  assumes "unat c < length em" and "box_run EventManager_add_event EventManager_fetch_event ops em = (out, em')"
  shows "event_queue em c @ posted c ops = fetched c out @ event_queue em' c"
  by (rule events.conservation [OF assms])

theorem events_conserved_witness:
  "event_queue (EventManager_new 4) 1 @ posted 1 [Post 1 0, Post 2 3, Post 1 2, Fetch 1] =
     [0] @ event_queue [[], [2], [3], []] 1"
proof -
  have "unat (1 :: usize) < length (EventManager_new 4)" by (simp add: EventManager_new_def)
  moreover have "box_run EventManager_add_event EventManager_fetch_event
      [Post 1 0, Post 2 3, Post 1 2, Fetch 1] (EventManager_new 4) = ([(1, 0)], [[], [2], [3], []])" by code_simp
  ultimately show ?thesis using events_conserved [of 1 "EventManager_new 4"] by (fastforce simp: fetched_def)
qed

text \<open>
  \<open>send_event\<close> to a CPU of the machine appends the event to that CPU's queue, then writes
  the software interrupt register with the target bit of that CPU and no other, interrupt 7 in bits
  24 to 27 and zero affinity fields; nothing else changes. To an unknown CPU number below 64 it
  queues nothing but still raises the interrupt; from 64 on it panics.
\<close>

lemma send_event_spec:
  assumes "EVENT_MANAGER s = Some em"
  shows "send_event E me cpu SGI_IPI_ID ev s =
    (if unat cpu < 64 then
       (Ok (), s\<lparr>EVENT_MANAGER := Some (if unat cpu < length em then em[unat cpu := em ! unat cpu @ [ev]] else em),
          dev := msr E me ICC_SGI1R_EL1 (push_bit 24 7 OR push_bit (unat cpu) 1) (dev s)\<rparr>)
     else (Panic, s\<lparr>EVENT_MANAGER := Some (if unat cpu < length em then em[unat cpu := em ! unat cpu @ [ev]] else em)\<rparr>))"
proof (cases "unat cpu < 64")
  case True
  with send_event_run [OF assms True] show ?thesis by (simp add: EventManager_add_event_def SGI_IPI_ID_def)
next
  case False
  with assms show ?thesis
    by (simp add: send_event_def add_event_def with_events_def arch_send_event_def bindP_def
      sgi_value_def shl_chk_def EventManager_add_event_def)
qed

end
