(* ===== verification/Hv_Virtio.thy ===== *)
theory Hv_Virtio
  imports Hv_Event Hv_Vgic
begin

text \<open>
  \<open>device/virtio_trampoline.rs\<close>: the region shared with the virtio device of the root zone, the MMIO
  handler that turns an access of a guest into a request, and the delivery of device interrupts.
  The region lies in memory the root zone can write at any time. Where the source spins until the
  device moved, the argument \<open>tick\<close> is what the rest of the machine does between two polls.
  The requests in the ring are the abstract queue \<open>requests\<close>.
\<close>

section \<open>The shared region\<close>

definition QUEUE_NOTIFY :: usize where "QUEUE_NOTIFY = 0x50"
definition MAX_REQ :: u32 where "MAX_REQ = 32"
definition MAX_DEVS :: nat where "MAX_DEVS = 4"
definition MAX_CPUS :: nat where "MAX_CPUS = 16"
definition IRQ_WAKEUP_VIRTIO_DEVICE :: usize where "IRQ_WAKEUP_VIRTIO_DEVICE = 32 + 0x20"

definition VirtioBridgeRegion_default :: VirtioBridgeRegion where
  "VirtioBridgeRegion_default = \<lparr>base_address = 0, is_enable = False\<rparr>"

definition set_base_addr :: "usize \<Rightarrow> VirtioBridgeRegion \<Rightarrow> VirtioBridgeRegion" where
  "set_base_addr b self = self\<lparr>base_address := b, is_enable := True\<rparr>"

definition immut_region :: "('b, 'd, VirtioBridge) hvp" where
  "immut_region s = ((if is_enable (VIRTIO_BRIDGE s) then Ok (shared s (base_address (VIRTIO_BRIDGE s))) else Panic), s)"

definition set_region :: "VirtioBridge \<Rightarrow> ('b, 'd, unit) hvp" where
  "set_region r s = (if is_enable (VIRTIO_BRIDGE s)
     then (Ok (), s\<lparr>shared := (shared s)(base_address (VIRTIO_BRIDGE s) := r)\<rparr>) else (Panic, s))"

definition ring_full :: "VirtioBridge \<Rightarrow> (HvErrorNum, bool) outcome" where
  "ring_full r = bind_out (add_chk (req_rear r) 1) (\<lambda>n. Ok (n AND (MAX_REQ - 1) = req_front r))"

definition is_req_list_full :: "('b, 'd, bool) hvp" where
  "is_req_list_full = bindP immut_region (\<lambda>r. liftP (ring_full r))"

definition is_req_list_empty :: "('b, 'd, bool) hvp" where
  "is_req_list_empty = bindP immut_region (\<lambda>r. retP (req_rear r = req_front r))"

definition is_res_list_empty :: "('b, 'd, bool) hvp" where
  "is_res_list_empty = bindP immut_region (\<lambda>r. retP (res_rear r = res_front r))"

definition ring_push :: "HvisorDeviceReq \<Rightarrow> VirtioBridge \<Rightarrow> (HvErrorNum, VirtioBridge) outcome" where
  "ring_push req r =
     (let r' = r\<lparr>req_list := (req_list r)[unat (req_rear r mod MAX_REQ) := req]\<rparr> in
      bind_out (add_chk (req_rear r') 1) (\<lambda>n. Ok (r'\<lparr>req_rear := n mod MAX_REQ\<rparr>)))"

definition push_req :: "HvisorDeviceReq \<Rightarrow> ('b, 'd, unit) hvp" where
  "push_req req = bindP immut_region (\<lambda>r. bindP (liftP (ring_push req r)) set_region)"

definition need_wakeup :: "('b, 'd, bool) hvp" where
  "need_wakeup = bindP immut_region (\<lambda>r. retP (need_wakeup_flag r = 1))"

definition HvisorDeviceReq_new ::
  "u64 \<Rightarrow> u64 \<Rightarrow> u64 \<Rightarrow> u64 \<Rightarrow> u32 \<Rightarrow> bool \<Rightarrow> u8 \<Rightarrow> HvisorDeviceReq" where
  "HvisorDeviceReq_new cpu addr n v zn w ni =
     \<lparr>src_cpu = cpu, req_address = addr, req_size = n, req_value = v, src_zone = zn,
      req_is_write = (if w then 1 else 0), need_interrupt = ni\<rparr>"

section \<open>Requests of a guest\<close>

type_synonym ('b, 'd) tick = "('b, 'd) hv \<Rightarrow> ('b, 'd) hv"

text \<open>Waiting for room: the lock is released and taken again between two looks at the ring.\<close>

partial_function (option) wait_room :: "('b, 'd) tick \<Rightarrow> ('b, 'd) hv \<Rightarrow> ((HvErrorNum, bool) outcome \<times> ('b, 'd) hv) option" where
  "wait_room tick s = (if fst (is_req_list_full s) = Ok True then wait_room tick (tick s) else Some (is_req_list_full s))"

definition take_lock_with_room :: "('b, 'd) tick \<Rightarrow> ('b, 'd, unit) hvp" where
  "take_lock_with_room tick s = (case wait_room tick s of Some (r, t) \<Rightarrow> (bind_out r (\<lambda>_. Ok ()), t) | None \<Rightarrow> (Hang, s))"

text \<open>
  Waiting for the answer to a configuration access. The counter of polls is an \<open>i32\<close>: counting past
  its maximum panics, so that the loop always ends.
\<close>

function poll_cfg :: "('b, 'd) tick \<Rightarrow> usize \<Rightarrow> nat \<Rightarrow> u64 \<Rightarrow> nat \<Rightarrow> ('b, 'd) hv \<Rightarrow> (HvErrorNum, unit) outcome \<times> ('b, 'd) hv" where
  "poll_cfg tick b cpu old count s =
     (if cfg_flags (shared s b) ! cpu = old then
        (if count < 2 ^ 31 - 1 then poll_cfg tick b cpu old (count + 1) (tick s) else (Panic, s))
      else (Ok (), s))"
  by auto
termination by (relation "measure (\<lambda>(tick, b, cpu, old, count, s). 2 ^ 31 - count)") auto

declare poll_cfg.simps [simp del]

definition mmio_virtio_handler :: "('b, 'd) env \<Rightarrow> ('b, 'd) tick \<Rightarrow> u64 \<Rightarrow> MMIOAccess \<Rightarrow> usize \<Rightarrow> ('b, 'd, MMIOAccess) hvp" where
  "mmio_virtio_handler E tick me acc b =
     (let ni = (if address acc = QUEUE_NOTIFY then 1 else 0) in
     bindP (liftP (add_chk (address acc) b)) (\<lambda>addr.
     bindP (take_lock_with_room tick) (\<lambda>_.
     bindP (this_zone_id E me) (\<lambda>zn.
     let hreq = HvisorDeviceReq_new (this_cpu_id me) addr (acc_size acc) (acc_value acc) (ucast zn) (is_write acc) ni in
     bindP immut_region (\<lambda>r.
     bindP (getP (\<lambda>s. base_address (VIRTIO_BRIDGE s))) (\<lambda>rb.
     let cpu = unat (this_cpu_id me) in
     bindP (liftP (rust_assert (cpu < MAX_CPUS))) (\<lambda>_.
     let old_cfg_flag = cfg_flags r ! cpu in
     bindP (push_req hreq) (\<lambda>_.
     bindP need_wakeup (\<lambda>wake.
     bindP (if wake then
         bindP root_zone (\<lambda>rz. bindP (read_zone rz) (\<lambda>rzn. bindP (liftP (first_cpu (cpu_set rzn))) (\<lambda>fc.
         bindP (liftP (unwrap_opt fc)) (\<lambda>root_cpu.
         send_event E me root_cpu SGI_IPI_ID IPI_EVENT_WAKEUP_VIRTIO_DEVICE))))
       else retP ()) (\<lambda>_.
     if ni = 0 then
       bindP (poll_cfg tick rb cpu old_cfg_flag 0) (\<lambda>_.
       bindP (getP (\<lambda>s. cfg_values (shared s rb) ! cpu)) (\<lambda>v.
       retP (if is_write acc then acc\<lparr>address := addr\<rparr> else acc\<lparr>address := addr, acc_value := v\<rparr>)))
     else retP (acc\<lparr>address := addr\<rparr>)))))))))))"

section \<open>Interrupts for a guest\<close>

definition handle_virtio_irq :: "('b, 'd) env \<Rightarrow> u64 \<Rightarrow> ('b, 'd, unit) hvp" where
  "handle_virtio_irq E me =
     bindP (getP (\<lambda>s. map_of (VIRTIO_IRQS s) (this_cpu_id me))) (\<lambda>entry.
     bindP (liftP (unwrap_opt entry)) (\<lambda>irq_list.
     let len = unat (irq_list ! 0) in
     bindP (liftP (rust_assert (len < length irq_list))) (\<lambda>_.
     bindP (forP (take len (drop 1 irq_list)) (\<lambda>irq. inject_irq E me irq False)) (\<lambda>_.
     modifyP (\<lambda>s. s\<lparr>VIRTIO_IRQS := btm_insert (this_cpu_id me) (irq_list[0 := 0]) (VIRTIO_IRQS s)\<rparr>)))))"

text \<open>One turn of the loop of \<open>hv_virtio_inject_irq\<close> (\<open>hypercall/mod.rs\<close>), which moves a result to the target's list.\<close>

definition queue_irq :: "u64 \<Rightarrow> u64 list \<Rightarrow> (HvErrorNum, u64 list \<times> bool) outcome" where
  "queue_irq irq irq_list =
     (let len = unat (irq_list ! 0) in
      if len < length irq_list then
        (if irq \<in> set (take len (drop 1 irq_list)) then Ok (irq_list, False)
         else if len + 1 < MAX_DEVS then Ok (irq_list[len + 1 := irq, 0 := irq_list ! 0 + 1], True)
         else Panic)
      else Panic)"

definition inject_one :: "('b, 'd) env \<Rightarrow> u64 \<Rightarrow> ('b, 'd, unit) hvp" where
  "inject_one E me =
     bindP immut_region (\<lambda>r.
     let front = unat (res_front r) in
     bindP (liftP (rust_assert (front < length (res_list r)))) (\<lambda>_.
     let irq = ucast (irq_id (res_list r ! front)) in
     bindP (find_zone (ucast (target_zone (res_list r ! front)))) (\<lambda>found.
     bindP (liftP (unwrap_opt found)) (\<lambda>z. bindP (read_zone z) (\<lambda>zn.
     bindP (liftP (first_cpu (cpu_set zn))) (\<lambda>fc. bindP (liftP (unwrap_opt fc)) (\<lambda>target_cpu.
     bindP (getP (\<lambda>s. case map_of (VIRTIO_IRQS s) target_cpu of Some l \<Rightarrow> l | None \<Rightarrow> replicate (MAX_DEVS + 1) 0)) (\<lambda>irq_list.
     bindP (modifyP (\<lambda>s. s\<lparr>VIRTIO_IRQS := btm_insert target_cpu irq_list (VIRTIO_IRQS s)\<rparr>)) (\<lambda>_.
     bindP (liftP (queue_irq irq irq_list)) (\<lambda>q.
     bindP (modifyP (\<lambda>s. s\<lparr>VIRTIO_IRQS := btm_insert target_cpu (fst q) (VIRTIO_IRQS s)\<rparr>)) (\<lambda>_.
     bindP (if snd q then send_event E me target_cpu SGI_IPI_ID IPI_EVENT_VIRTIO_INJECT_IRQ else retP ()) (\<lambda>_.
     bindP (liftP (add_chk (res_front r) 1)) (\<lambda>n. set_region (r\<lparr>res_front := n AND (MAX_REQ - 1)\<rparr>))))))))))))))"

partial_function (option) inject_all ::
  "('b, 'd) env \<Rightarrow> u64 \<Rightarrow> ('b, 'd) hv \<Rightarrow> ((HvErrorNum, unit) outcome \<times> ('b, 'd) hv) option" where
  "inject_all E me s =
     (if fst (is_res_list_empty s) = Ok False then
        (if fst (inject_one E me s) = Ok () then inject_all E me (snd (inject_one E me s)) else Some (inject_one E me s))
      else Some (bind_out (fst (is_res_list_empty s)) (\<lambda>_. Ok ()), s))"

section \<open>The request ring as a queue\<close>

definition ring_wf :: "VirtioBridge \<Rightarrow> bool" where
  "ring_wf r \<longleftrightarrow> unat (req_front r) < 32 \<and> unat (req_rear r) < 32 \<and> length (req_list r) = 32"

definition requests :: "VirtioBridge \<Rightarrow> HvisorDeviceReq list" where
  "requests r = map (\<lambda>k. req_list r ! ((unat (req_front r) + k) mod 32))
     [0..<(unat (req_rear r) + 32 - unat (req_front r)) mod 32]"

lemma and_31: "(x :: u32) AND (MAX_REQ - 1) = x mod MAX_REQ"
  using take_bit_eq_mod [of 5 x] take_bit_eq_mask [of 5 x] by (simp add: MAX_REQ_def mask_eq_exp_minus_1)

text \<open>Positions modulo the size of the ring, without the modulus.\<close>

lemma ring_arith:
  fixes e f k :: nat
  assumes "e < 32" "f < 32"
  shows "(e + 32 - f) mod 32 = (if f \<le> e then e - f else e + 32 - f)"
    and "(e + 1) mod 32 = (if e = 31 then 0 else e + 1)"
    and "k < 32 \<Longrightarrow> (f + k) mod 32 = (if f + k < 32 then f + k else f + k - 32)"
proof -
  have "(e + 32 - f) mod 32 = e - f" if "f \<le> e"
  proof -
    have "e + 32 - f = e - f + 32" using that by simp
    then have "(e + 32 - f) mod 32 = (e - f) mod 32" by (simp only: mod_add_self2)
    then show ?thesis using assms by simp
  qed
  then show "(e + 32 - f) mod 32 = (if f \<le> e then e - f else e + 32 - f)" using assms by auto
  show "(e + 1) mod 32 = (if e = 31 then 0 else e + 1)" using assms by auto
  show "k < 32 \<Longrightarrow> (f + k) mod 32 = (if f + k < 32 then f + k else f + k - 32)"
    using assms by (auto simp: mod_if)
qed

lemma next_index:
  assumes "unat (x :: u32) < 32"
  shows "add_chk x 1 = Ok (x + 1)" "unat ((x + 1) mod MAX_REQ) = (unat x + 1) mod 32"
proof -
  have u: "unat (x + 1) = unat x + 1" using assms by (simp add: unat_add_exact)
  show "add_chk x 1 = Ok (x + 1)" using assms by (simp add: add_chk_def)
  show "unat ((x + 1) mod MAX_REQ) = (unat x + 1) mod 32" by (simp add: unat_mod u MAX_REQ_def)
qed

lemma ring_full_Ok:
  assumes "ring_wf r"
  shows "ring_full r = Ok (length (requests r) = 31)"
proof -
  have b: "unat (req_front r) < 32" "unat (req_rear r) < 32" using assms by (simp_all add: ring_wf_def)
  have "(req_rear r + 1) mod MAX_REQ = req_front r \<longleftrightarrow> (unat (req_rear r) + 1) mod 32 = unat (req_front r)"
    by (simp add: word_unat_eq_iff next_index(2) [OF b(2)])
  also have "\<dots> \<longleftrightarrow> (unat (req_rear r) + 32 - unat (req_front r)) mod 32 = 31"
    unfolding ring_arith [OF b(2,1)] using b by (auto split: if_splits)
  finally show ?thesis by (simp add: ring_full_def and_31 next_index(1) [OF b(2)] requests_def)
qed

lemma ring_push_queue:
  assumes "ring_wf r" "length (requests r) < 31"
  obtains r' where "ring_push req r = Ok r'" "ring_wf r'" "requests r' = requests r @ [req]"
    "r' = r\<lparr>req_list := req_list r', req_rear := req_rear r'\<rparr>"
proof -
  let ?f = "unat (req_front r)" and ?e = "unat (req_rear r)" and ?n = "(unat (req_rear r) + 32 - unat (req_front r)) mod 32"
  have b: "?f < 32" "?e < 32" "length (req_list r) = 32" using assms by (simp_all add: ring_wf_def)
  have n: "?n < 31" using assms(2) by (simp add: requests_def)
  let ?r = "r\<lparr>req_list := (req_list r)[?e := req], req_rear := (req_rear r + 1) mod MAX_REQ\<rparr>"
  have e: "unat (req_rear r mod MAX_REQ) = ?e" using b by (simp add: unat_mod MAX_REQ_def)
  have push: "ring_push req r = Ok ?r" by (simp add: ring_push_def Let_def e next_index [OF b(2)])
  have nn: "?n = (if ?f \<le> ?e then ?e - ?f else ?e + 32 - ?f)" by (rule ring_arith [OF b(2,1)])
  have e1: "(?e + 1) mod 32 = (if ?e = 31 then 0 else ?e + 1)" "(?e + 1) mod 32 < 32"
    by (rule ring_arith [OF b(2,1)]) simp
  have n': "((?e + 1) mod 32 + 32 - ?f) mod 32 = Suc ?n"
    unfolding ring_arith(1) [OF e1(2) b(1)] using n b unfolding nn e1(1) by (auto split: if_splits)
  have here: "(?f + ?n) mod 32 = ?e"
    unfolding ring_arith(3) [OF b(2,1) mod_less_divisor, simplified] using b unfolding nn by (auto split: if_splits)
  have other: "(?f + k) mod 32 \<noteq> ?e" if "k < ?n" for k
  proof -
    have "k < 32" using that n by simp
    then show ?thesis unfolding ring_arith(3) [OF b(2,1) \<open>k < 32\<close>] using that b unfolding nn by (auto split: if_splits)
  qed
  have "requests ?r = map (\<lambda>k. (req_list r)[?e := req] ! ((?f + k) mod 32)) [0..<Suc ?n]"
    unfolding requests_def using n' next_index(2) [OF b(2)] by simp
  also have "\<dots> = requests r @ [req]"
    unfolding requests_def using here b other [THEN not_sym] by (simp add: nth_list_update)
  finally have "requests ?r = requests r @ [req]" .
  moreover have "ring_wf ?r" using b next_index(2) [OF b(2)] by (simp add: ring_wf_def)
  ultimately show thesis using push by (intro that [of ?r]) simp_all
qed

text \<open>The device takes the oldest request by advancing \<open>req_front\<close>.\<close>

lemma ring_pop_queue:
  assumes "ring_wf r" "requests r = q # qs"
  shows "q = req_list r ! unat (req_front r)" "requests (r\<lparr>req_front := (req_front r + 1) mod MAX_REQ\<rparr>) = qs"
proof -
  let ?f = "unat (req_front r)" and ?e = "unat (req_rear r)" and ?n = "(unat (req_rear r) + 32 - unat (req_front r)) mod 32"
  have b: "?f < 32" "?e < 32" using assms by (simp_all add: ring_wf_def)
  have "?n = length (requests r)" by (simp add: requests_def)
  with assms(2) have n: "?n = Suc (length qs)" by simp
  have l: "requests r = map (\<lambda>k. req_list r ! ((?f + k) mod 32)) [0..<Suc (length qs)]"
    unfolding requests_def n ..
  have "requests r = req_list r ! ?f # map (\<lambda>k. req_list r ! ((?f + Suc k) mod 32)) [0..<length qs]"
    unfolding l using b by (simp add: upt_conv_Cons map_Suc_upt [symmetric] del: upt_Suc)
  with assms(2) have q: "q = req_list r ! ?f" "qs = map (\<lambda>k. req_list r ! ((?f + Suc k) mod 32)) [0..<length qs]" by auto
  then show "q = req_list r ! ?f" by simp
  have f1: "(?f + 1) mod 32 = (if ?f = 31 then 0 else ?f + 1)" "(?f + 1) mod 32 < 32"
    by (rule ring_arith [OF b]) simp
  have n': "(?e + 32 - (?f + 1) mod 32) mod 32 = length qs"
    unfolding ring_arith(1) [OF b(2) f1(2)] using n b unfolding ring_arith(1) [OF b(2,1)] f1(1) by (auto split: if_splits)
  have "((?f + 1) mod 32 + k) mod 32 = (?f + Suc k) mod 32" for k by (simp add: mod_add_left_eq)
  with n' q(2) next_index(2) [OF b(1)] show "requests (r\<lparr>req_front := (req_front r + 1) mod MAX_REQ\<rparr>) = qs"
    by (simp add: requests_def)
qed

section \<open>Waiting\<close>

lemma wait_room_now: "fst (is_req_list_full s) \<noteq> Ok True \<Longrightarrow> wait_room tick s = Some (is_req_list_full s)"
  by (subst wait_room.simps) simp

lemma poll_cfg_ends:
  assumes "cfg_flags (shared ((tick ^^ k) s) b) ! cpu \<noteq> old" "\<forall>j < k. cfg_flags (shared ((tick ^^ j) s) b) ! cpu = old"
    and "count + k < 2 ^ 31"
  shows "poll_cfg tick b cpu old count s = (Ok (), (tick ^^ k) s)"
  using assms
proof (induction k arbitrary: s count)
  case 0
  then show ?case by (subst poll_cfg.simps) simp
next
  case (Suc k)
  from Suc.prems(2) have now: "cfg_flags (shared s b) ! cpu = old" by (metis funpow_0 zero_less_Suc)
  have later: "\<forall>j < k. cfg_flags (shared ((tick ^^ j) (tick s)) b) ! cpu = old"
    using Suc.prems(2) by (metis Suc_mono funpow_Suc_right o_apply)
  have "cfg_flags (shared ((tick ^^ k) (tick s)) b) ! cpu \<noteq> old"
    using Suc.prems(1) by (simp add: funpow_Suc_right del: funpow.simps)
  from Suc.IH [OF this later] Suc.prems(3) now show ?case
    by (subst poll_cfg.simps) (simp add: funpow_Suc_right del: funpow.simps)
qed

lemma poll_cfg_panics:
  assumes "\<forall>j. cfg_flags (shared ((tick ^^ j) s) b) ! cpu = old" "count < 2 ^ 31"
  shows "fst (poll_cfg tick b cpu old count s) = Panic"
  using assms
proof (induction "2 ^ 31 - 1 - count" arbitrary: s count)
  case 0
  then have "cfg_flags (shared s b) ! cpu = old" by (metis funpow_0)
  with 0 show ?case by (subst poll_cfg.simps) simp
next
  case (Suc n)
  then have now: "cfg_flags (shared s b) ! cpu = old" by (metis funpow_0)
  have "\<forall>j. cfg_flags (shared ((tick ^^ j) (tick s)) b) ! cpu = old"
    using Suc.prems(1) by (metis funpow_Suc_right o_apply)
  with Suc.hyps(1) [of "count + 1" "tick s"] Suc.hyps(2) now show ?case by (subst poll_cfg.simps) simp
qed

section \<open>Delivering results\<close>

text \<open>The interrupts waiting for a CPU: the first element of its list is the number of valid ones.\<close>

definition waiting :: "u64 list \<Rightarrow> u64 set" where
  "waiting l = set (take (unat (l ! 0)) (drop 1 l))"

definition virq_list :: "u64 list btree_map \<Rightarrow> usize \<Rightarrow> u64 list" where
  "virq_list m c = (case map_of m c of Some l \<Rightarrow> l | None \<Rightarrow> replicate (MAX_DEVS + 1) 0)"

definition virq_wf :: "u64 list btree_map \<Rightarrow> bool" where
  "virq_wf m \<longleftrightarrow> (\<forall>c. length (virq_list m c) = 5 \<and> unat (virq_list m c ! 0) \<le> 3 \<and>
     distinct (take (unat (virq_list m c ! 0)) (drop 1 (virq_list m c))))"

lemma queue_irq_Ok:
  assumes "queue_irq irq l = Ok (l', new)" "length l = 5"
  shows "waiting l' = insert irq (waiting l)" "length l' = 5" "unat (l ! 0) \<le> 3 \<Longrightarrow> unat (l' ! 0) \<le> 3"
    "distinct (take (unat (l ! 0)) (drop 1 l)) \<Longrightarrow> distinct (take (unat (l' ! 0)) (drop 1 l'))"
proof -
  let ?n = "unat (l ! 0)"
  have "waiting l' = insert irq (waiting l) \<and> length l' = 5 \<and> (?n \<le> 3 \<longrightarrow> unat (l' ! 0) \<le> 3) \<and>
    (distinct (take ?n (drop 1 l)) \<longrightarrow> distinct (take (unat (l' ! 0)) (drop 1 l')))"
  proof (cases "irq \<in> set (take ?n (drop 1 l))")
    case True
    with assms show ?thesis by (auto simp: queue_irq_def Let_def waiting_def split: if_splits)
  next
    case False
    with assms have n: "?n + 1 < 4" and l': "l' = l[?n + 1 := irq, 0 := l ! 0 + 1]"
      by (auto simp: queue_irq_def Let_def MAX_DEVS_def split: if_splits)
    have u: "unat (l' ! 0) = ?n + 1" using n assms(2) by (simp add: l' unat_add_exact)
    obtain a as where l: "l = a # as" using assms(2) by (cases l) auto
    with l' have "drop 1 l' = as[?n := irq]" by simp
    moreover have "?n < length as" using assms(2) n l by simp
    ultimately have tk: "take (Suc ?n) (drop 1 l') = take ?n as @ [irq]" by (simp add: take_Suc_conv_app_nth)
    then have "waiting l' = insert irq (waiting l)" unfolding waiting_def u by (simp add: l)
    moreover have "distinct (take (unat (l' ! 0)) (drop 1 l'))" if "distinct (take ?n (drop 1 l))"
      using that False tk unfolding u by (simp add: l)
    ultimately show ?thesis using u n assms(2) by (simp add: l')
  qed
  then show "waiting l' = insert irq (waiting l)" "length l' = 5" "?n \<le> 3 \<Longrightarrow> unat (l' ! 0) \<le> 3"
    "distinct (take (unat (l ! 0)) (drop 1 l)) \<Longrightarrow> distinct (take (unat (l' ! 0)) (drop 1 l'))" by auto
qed

lemma queue_irq_full:
  assumes "length l = 5" "unat (l ! 0) = 3" "irq \<notin> waiting l"
  shows "queue_irq irq l = Panic"
  using assms by (auto simp: queue_irq_def Let_def waiting_def MAX_DEVS_def)

text \<open>The CPU a result goes to: the first one of the target zone.\<close>

definition result_cpu :: "('b, 'd) hv \<Rightarrow> HvisorDeviceRes \<Rightarrow> usize option" where
  "result_cpu s res = (case fst (find_zone (ucast (target_zone res)) s) of
       Ok (Some z) \<Rightarrow> (case zone_at s z of
            Some zn \<Rightarrow> (case first_cpu (cpu_set zn) of Ok fc \<Rightarrow> fc | _ \<Rightarrow> None) | None \<Rightarrow> None)
     | _ \<Rightarrow> None)"

definition bridge :: "('b, 'd) hv \<Rightarrow> VirtioBridge" where
  "bridge s = shared s (base_address (VIRTIO_BRIDGE s))"

lemma inject_one_Ok:
  assumes run: "inject_one E me s = (Ok (), t)" and wf: "virq_wf (VIRTIO_IRQS s)" and en: "is_enable (VIRTIO_BRIDGE s)"
    and fr: "unat (res_front (bridge s)) < 32"
  obtains c where "result_cpu s (res_list (bridge s) ! unat (res_front (bridge s))) = Some c"
    "ucast (irq_id (res_list (bridge s) ! unat (res_front (bridge s)))) \<in> waiting (virq_list (VIRTIO_IRQS t) c)"
    "\<And>c. waiting (virq_list (VIRTIO_IRQS s) c) \<subseteq> waiting (virq_list (VIRTIO_IRQS t) c)"
    "virq_wf (VIRTIO_IRQS t)" "VIRTIO_BRIDGE t = VIRTIO_BRIDGE s"
    "bridge t = (bridge s)\<lparr>res_front := (res_front (bridge s) + 1) mod MAX_REQ\<rparr>"
    "zone_heap t = zone_heap s" "ZONE_LIST t = ZONE_LIST s"
    "\<And>c'. waiting (virq_list (VIRTIO_IRQS t) c') = waiting (virq_list (VIRTIO_IRQS s) c') \<union>
       (if c' = c then {ucast (irq_id (res_list (bridge s) ! unat (res_front (bridge s))))} else {})"
proof -
  let ?r = "bridge s" and ?b = "base_address (VIRTIO_BRIDGE s)"
  let ?res = "res_list ?r ! unat (res_front ?r)"
  have im: "immut_region s = (Ok ?r, s)" using en by (simp add: immut_region_def bridge_def)
  from run [unfolded inject_one_def] im obtain z zn c q s1 s2 s3 where
    fz0: "find_zone (ucast (target_zone ?res)) s = (Ok (Some z), s2)"
    and zn0: "read_zone z s2 = (Ok zn, s3)" and fc: "first_cpu (cpu_set zn) = Ok (Some c)"
    and q0: "queue_irq (ucast (irq_id ?res)) (virq_list (VIRTIO_IRQS s3) c) = Ok q"
    and ev0: "(if snd q then send_event E me c SGI_IPI_ID IPI_EVENT_VIRTIO_INJECT_IRQ else retP ())
        (s3\<lparr>VIRTIO_IRQS := btm_insert c (fst q) (btm_insert c (virq_list (VIRTIO_IRQS s3) c) (VIRTIO_IRQS s3))\<rparr>) = (Ok (), s1)"
    and fin: "set_region (?r\<lparr>res_front := (res_front ?r + 1) AND (MAX_REQ - 1)\<rparr>) s1 = (Ok (), t)"
    by (auto simp: bindP_simps Let_def virq_list_def next_index(1) [OF fr] elim!: bindP_OkE)
  have st: "s2 = s" "s3 = s" using find_zone_state [OF fz0] read_zone_state [OF zn0] by simp_all
  note fz = fz0 [unfolded st] and zn = zn0 [unfolded st] and q = q0 [unfolded st] and ev = ev0 [unfolded st]
  let ?m = "VIRTIO_IRQS s"
  let ?m' = "btm_insert c (fst q) (btm_insert c (virq_list ?m c) ?m)"
  obtain em d where s1: "s1 = s\<lparr>VIRTIO_IRQS := ?m', EVENT_MANAGER := em, dev := d\<rparr>"
  proof (cases "snd q")
    case True
    with ev that send_event_frame show thesis by fastforce
  next
    case False
    with ev have "s1 = s\<lparr>VIRTIO_IRQS := ?m', EVENT_MANAGER := EVENT_MANAGER s, dev := dev s\<rparr>" by auto
    then show thesis by (rule that)
  qed
  have t: "t = s1\<lparr>shared := (shared s)(?b := ?r\<lparr>res_front := (res_front ?r + 1) mod MAX_REQ\<rparr>)\<rparr>"
    using fin en by (simp add: set_region_def s1 and_31)
  have l: "virq_list ?m' c' = (if c' = c then fst q else virq_list ?m c')" for c'
    by (simp add: virq_list_def btm_insert_lookup)
  have wfc: "length (virq_list ?m c) = 5" "unat (virq_list ?m c ! 0) \<le> 3"
    "distinct (take (unat (virq_list ?m c ! 0)) (drop 1 (virq_list ?m c)))" using wf by (simp_all add: virq_wf_def)
  have qq: "queue_irq (ucast (irq_id ?res)) (virq_list ?m c) = Ok (fst q, snd q)" using q by simp
  note k = queue_irq_Ok [OF qq wfc(1)]
  show thesis
  proof (rule that [of c])
    show "result_cpu s ?res = Some c"
      using fz zn fc by (simp add: result_cpu_def read_zone_def split: option.splits)
    show "ucast (irq_id ?res) \<in> waiting (virq_list (VIRTIO_IRQS t) c)"
      using k(1) by (simp add: t s1 l)
    show "waiting (virq_list ?m c') \<subseteq> waiting (virq_list (VIRTIO_IRQS t) c')" for c'
      using k(1) by (auto simp: t s1 l)
    show "virq_wf (VIRTIO_IRQS t)"
      using wf k(2) k(3) [OF wfc(2)] k(4) [OF wfc(3)] by (simp add: virq_wf_def t s1 l)
    show "waiting (virq_list (VIRTIO_IRQS t) c') = waiting (virq_list ?m c') \<union>
        (if c' = c then {ucast (irq_id ?res)} else {})" for c'
      using k(1) by (auto simp: t s1 l)
  qed (simp_all add: t s1 bridge_def)
qed

lemma find_zone_in_cong:
  assumes "zone_heap t = zone_heap s"
  shows "fst (find_zone_in i zs t) = fst (find_zone_in i zs s)"
proof (induction zs)
  case (Cons z zs)
  have "zone_at t z = zone_at s z" using assms by (simp add: zone_at_def)
  with Cons show ?case by (auto simp: bindP_def read_zone_def split: option.splits)
qed simp

lemma result_cpu_cong:
  assumes "zone_heap t = zone_heap s" "ZONE_LIST t = ZONE_LIST s"
  shows "result_cpu t res = result_cpu s res"
proof -
  have "fst (find_zone i t) = fst (find_zone i s)" for i
    using find_zone_in_cong [OF assms(1)] by (simp add: find_zone_def assms(2))
  moreover have "zone_at t = zone_at s" using assms by (auto simp: zone_at_def)
  ultimately show ?thesis by (simp add: result_cpu_def cong: outcome.case_cong option.case_cong)
qed

lemma first_cpu_outcome: "first_cpu cs \<noteq> Err e" "first_cpu cs \<noteq> Hang" "first_cpu cs \<noteq> Fault"
proof -
  have "find_out (contains_cpu cs) js \<notin> {Err e, Hang, Fault}" for js
    by (induction js) (auto simp: contains_cpu_def shl_chk_def)
  then show "first_cpu cs \<noteq> Err e" "first_cpu cs \<noteq> Hang" "first_cpu cs \<noteq> Fault" by (auto simp: first_cpu_def)
qed

lemma first_cpu_less: "first_cpu cs = Ok (Some c) \<Longrightarrow> unat c < 64"
proof -
  have "find_out (contains_cpu cs) js = Ok (Some c) \<Longrightarrow> unat c < 64" for js
    by (induction js) (auto simp: bind_out_Ok_iff contains_cpu_def shl_chk_def split: if_splits)
  then show "first_cpu cs = Ok (Some c) \<Longrightarrow> unat c < 64" by (simp add: first_cpu_def)
qed

lemma result_cpu_less: "result_cpu s res = Some c \<Longrightarrow> unat c < 64"
  by (auto simp: result_cpu_def first_cpu_less split: outcome.splits option.splits)

lemma inject_one_runs:
  assumes en: "is_enable (VIRTIO_BRIDGE s)" and fr: "unat (res_front (bridge s)) < 32" "length (res_list (bridge s)) = 32"
    and c: "result_cpu s (res_list (bridge s) ! unat (res_front (bridge s))) = Some c" "unat c < 64"
    and em: "EVENT_MANAGER s = Some em" and wf: "virq_wf (VIRTIO_IRQS s)"
    and room: "card (insert (ucast (irq_id (res_list (bridge s) ! unat (res_front (bridge s)))))
      (waiting (virq_list (VIRTIO_IRQS s) c))) \<le> 3"
  shows "\<exists>t em'. inject_one E me s = (Ok (), t) \<and> EVENT_MANAGER t = Some em'"
proof -
  let ?r = "bridge s" and ?l = "virq_list (VIRTIO_IRQS s) c"
  let ?res = "res_list ?r ! unat (res_front ?r)"
  have im: "immut_region s = (Ok ?r, s)" using en by (simp add: immut_region_def bridge_def)
  from c(1) obtain z zn where fz: "fst (find_zone (ucast (target_zone ?res)) s) = Ok (Some z)"
    and zn: "zone_at s z = Some zn" and fc: "first_cpu (cpu_set zn) = Ok (Some c)"
    by (auto simp: result_cpu_def split: prod.splits outcome.splits option.splits)
  then have fz': "find_zone (ucast (target_zone ?res)) s = (Ok (Some z), s)"
    using find_zone_state by (metis prod.collapse)
  have l: "length ?l = 5" "unat (?l ! 0) \<le> 3" "distinct (take (unat (?l ! 0)) (drop 1 ?l))"
    using wf by (simp_all add: virq_wf_def)
  have card: "card (waiting ?l) = unat (?l ! 0)"
    using l by (simp add: waiting_def distinct_card)
  have "finite (waiting ?l)" by (simp add: waiting_def)
  with room card have "ucast (irq_id ?res) \<in> waiting ?l \<or> unat (?l ! 0) < 3"
    by (auto simp: card_insert_if split: if_splits)
  then obtain l' new where q: "queue_irq (ucast (irq_id ?res)) ?l = Ok (l', new)"
    using l by (cases "queue_irq (ucast (irq_id ?res)) ?l") (auto simp: queue_irq_def Let_def waiting_def MAX_DEVS_def split: if_splits)
  show ?thesis
    using im fz' zn fc q em en c(2) fr
    by (simp add: inject_one_def bindP_simps Let_def read_zone_def virq_list_def [symmetric] next_index(1) [OF fr(1)]
        send_event_run [where em = em] set_region_def)
qed

section \<open>The whole list of results\<close>

definition results :: "VirtioBridge \<Rightarrow> HvisorDeviceRes list" where
  "results r = map (\<lambda>k. res_list r ! ((unat (res_front r) + k) mod 32))
     [0..<(unat (res_rear r) + 32 - unat (res_front r)) mod 32]"

definition res_wf :: "VirtioBridge \<Rightarrow> bool" where
  "res_wf r \<longleftrightarrow> unat (res_front r) < 32 \<and> unat (res_rear r) < 32 \<and> length (res_list r) = 32"

lemma results_cases:
  assumes "res_wf r"
  obtains (empty) "results r = []" "res_rear r = res_front r"
    | (result) q qs where "results r = q # qs" "res_rear r \<noteq> res_front r" "q = res_list r ! unat (res_front r)"
        "results (r\<lparr>res_front := (res_front r + 1) mod MAX_REQ\<rparr>) = qs"
        "res_wf (r\<lparr>res_front := (res_front r + 1) mod MAX_REQ\<rparr>)"
proof -
  let ?f = "unat (res_front r)" and ?e = "unat (res_rear r)" and ?n = "(unat (res_rear r) + 32 - unat (res_front r)) mod 32"
  have b: "?f < 32" "?e < 32" using assms by (simp_all add: res_wf_def)
  show thesis
  proof (cases "results r")
    case Nil
    then have "?n = 0" by (simp add: results_def)
    then have "?e = ?f" unfolding ring_arith(1) [OF b(2,1)] using b by (auto split: if_splits)
    with Nil empty show thesis by (simp add: word_unat_eq_iff)
  next
    case (Cons q qs)
    have "?n = length (results r)" by (simp add: results_def)
    with Cons have n: "?n = Suc (length qs)" by simp
    have l: "results r = map (\<lambda>k. res_list r ! ((?f + k) mod 32)) [0..<Suc (length qs)]"
      unfolding results_def n ..
    have "results r = res_list r ! ?f # map (\<lambda>k. res_list r ! ((?f + Suc k) mod 32)) [0..<length qs]"
      unfolding l using b by (simp add: upt_conv_Cons map_Suc_upt [symmetric] del: upt_Suc)
    with Cons have q: "q = res_list r ! ?f" "qs = map (\<lambda>k. res_list r ! ((?f + Suc k) mod 32)) [0..<length qs]" by auto
    have f1: "(?f + 1) mod 32 = (if ?f = 31 then 0 else ?f + 1)" "(?f + 1) mod 32 < 32"
      by (rule ring_arith [OF b]) simp
    have n': "(?e + 32 - (?f + 1) mod 32) mod 32 = length qs"
      unfolding ring_arith(1) [OF b(2) f1(2)] using n b unfolding ring_arith(1) [OF b(2,1)] f1(1) by (auto split: if_splits)
    have "((?f + 1) mod 32 + k) mod 32 = (?f + Suc k) mod 32" for k by (simp add: mod_add_left_eq)
    with n' q(2) next_index(2) [OF b(1)] have "results (r\<lparr>res_front := (res_front r + 1) mod MAX_REQ\<rparr>) = qs"
      by (simp add: results_def)
    moreover have "res_rear r \<noteq> res_front r" using n by (auto simp: word_unat_eq_iff)
    moreover have "res_wf (r\<lparr>res_front := (res_front r + 1) mod MAX_REQ\<rparr>)"
      using assms next_index(2) [OF b(1)] f1(2) by (simp add: res_wf_def)
    ultimately show thesis using result Cons q(1) by blast
  qed
qed

text \<open>Which interrupts go to which CPU.\<close>

definition targeted :: "('b, 'd) hv \<Rightarrow> HvisorDeviceRes list \<Rightarrow> usize \<Rightarrow> u64 set" where
  "targeted s rs c = (\<lambda>res. ucast (irq_id res)) ` {res \<in> set rs. result_cpu s res = Some c}"

lemma inject_all_step:
  assumes "is_enable (VIRTIO_BRIDGE s)"
  shows "inject_all E me s = (if res_rear (bridge s) = res_front (bridge s) then Some (Ok (), s)
    else if fst (inject_one E me s) = Ok () then inject_all E me (snd (inject_one E me s)) else Some (inject_one E me s))"
proof -
  have "is_res_list_empty s = (Ok (res_rear (bridge s) = res_front (bridge s)), s)"
    using assms by (simp add: is_res_list_empty_def bindP_def immut_region_def bridge_def)
  then show ?thesis by (subst inject_all.simps) simp
qed

lemma inject_all_ends:
  assumes "is_enable (VIRTIO_BRIDGE s)" "res_wf (bridge s)" "virq_wf (VIRTIO_IRQS s)"
  shows "\<exists>r t. inject_all E me s = Some (r, t) \<and> (r = Ok () \<longrightarrow>
    res_rear (bridge t) = res_front (bridge t) \<and> virq_wf (VIRTIO_IRQS t) \<and>
    (\<forall>res \<in> set (results (bridge s)). result_cpu s res \<noteq> None) \<and>
    (\<forall>c. waiting (virq_list (VIRTIO_IRQS t) c) = waiting (virq_list (VIRTIO_IRQS s) c) \<union> targeted s (results (bridge s)) c))"
  using assms
proof (induction "results (bridge s)" arbitrary: s)
  case Nil
  then show ?case
    by (cases rule: results_cases [OF Nil(3)]) (auto simp: inject_all_step targeted_def)
next
  case (Cons res rs)
  note en = Cons.prems(1) and wf = Cons.prems(2,3)
  show ?case
  proof (cases rule: results_cases [OF wf(1)])
    case 1
    with Cons.hyps(2) show ?thesis by simp
  next
    case (2 q qs)
    with Cons.hyps(2) have q: "q = res" "qs = rs" by auto
    show ?thesis
    proof (cases "fst (inject_one E me s) = Ok ()")
      case False
      with 2 en show ?thesis by (cases "inject_one E me s") (auto simp: inject_all_step)
    next
      case True
      then obtain t where t: "inject_one E me s = (Ok (), t)" by (cases "inject_one E me s") auto
      have fr: "unat (res_front (bridge s)) < 32" using wf(1) by (simp add: res_wf_def)
      from inject_one_Ok [OF t wf(2) en fr] obtain c where
        c: "result_cpu s res = Some c" and wft: "virq_wf (VIRTIO_IRQS t)" and vb: "VIRTIO_BRIDGE t = VIRTIO_BRIDGE s"
        and bt: "bridge t = (bridge s)\<lparr>res_front := (res_front (bridge s) + 1) mod MAX_REQ\<rparr>"
        and zs: "zone_heap t = zone_heap s" "ZONE_LIST t = ZONE_LIST s"
        and w: "\<And>c'. waiting (virq_list (VIRTIO_IRQS t) c') = waiting (virq_list (VIRTIO_IRQS s) c') \<union>
          (if c' = c then {ucast (irq_id res)} else {})"
        using 2(3) q(1) by metis
      have rt: "rs = results (bridge t)" and wfr: "res_wf (bridge t)" using 2 q bt by simp_all
      have ent: "is_enable (VIRTIO_BRIDGE t)" using en vb by simp
      from Cons.hyps(1) [OF rt ent wfr wft] obtain r u where u: "inject_all E me t = Some (r, u)"
        and ok: "r = Ok () \<longrightarrow> res_rear (bridge u) = res_front (bridge u) \<and> virq_wf (VIRTIO_IRQS u) \<and>
          (\<forall>res \<in> set rs. result_cpu t res \<noteq> None) \<and>
          (\<forall>c. waiting (virq_list (VIRTIO_IRQS u) c) = waiting (virq_list (VIRTIO_IRQS t) c) \<union> targeted t rs c)"
        unfolding rt by blast
      have "inject_all E me s = Some (r, u)" using inject_all_step [OF en] 2(2) t u by simp
      moreover have "targeted s (res # rs) c' = targeted t rs c' \<union> (if c' = c then {ucast (irq_id res)} else {})" for c'
        using c by (auto simp: targeted_def result_cpu_cong [OF zs])
      ultimately show ?thesis
        using ok c w unfolding Cons.hyps(2) [symmetric] result_cpu_cong [OF zs] by auto
    qed
  qed
qed

text \<open>Every interrupt has a CPU to go to, and no CPU is given more than it has room for.\<close>

definition deliverable :: "('b, 'd) hv \<Rightarrow> bool" where
  "deliverable s \<longleftrightarrow> (\<forall>res \<in> set (results (bridge s)). result_cpu s res \<noteq> None) \<and>
     (\<forall>c. card (waiting (virq_list (VIRTIO_IRQS s) c) \<union> targeted s (results (bridge s)) c) \<le> 3)"

lemma inject_all_delivers:
  assumes "is_enable (VIRTIO_BRIDGE s)" "res_wf (bridge s)" "virq_wf (VIRTIO_IRQS s)" "EVENT_MANAGER s \<noteq> None" "deliverable s"
  shows "\<exists>t. inject_all E me s = Some (Ok (), t)"
  using assms
proof (induction "results (bridge s)" arbitrary: s)
  case Nil
  then show ?case
    by (cases rule: results_cases [OF Nil(3)]) (auto simp: inject_all_step)
next
  case (Cons res rs)
  note en = Cons.prems(1) and wf = Cons.prems(2,3)
  show ?case
  proof (cases rule: results_cases [OF wf(1)])
    case 1
    with Cons.hyps(2) show ?thesis by simp
  next
    case (2 q qs)
    with Cons.hyps(2) have q: "q = res" "qs = rs" by auto
    have fr: "unat (res_front (bridge s)) < 32" "length (res_list (bridge s)) = 32" using wf(1) by (simp_all add: res_wf_def)
    let ?res = "res_list (bridge s) ! unat (res_front (bridge s))"
    have res: "?res = res" using 2(3) q(1) by simp
    from Cons.prems(4,5) Cons.hyps(2) [symmetric] obtain c em where c: "result_cpu s res = Some c"
      and em: "EVENT_MANAGER s = Some em"
      and room: "\<And>c. card (waiting (virq_list (VIRTIO_IRQS s) c) \<union> targeted s (res # rs) c) \<le> 3"
      by (auto simp: deliverable_def)
    have fin: "finite (waiting (virq_list (VIRTIO_IRQS s) c) \<union> targeted s (res # rs) c)"
      by (simp add: waiting_def targeted_def)
    have "insert (ucast (irq_id ?res)) (waiting (virq_list (VIRTIO_IRQS s) c)) \<subseteq>
        waiting (virq_list (VIRTIO_IRQS s) c) \<union> targeted s (res # rs) c"
      using c by (auto simp: targeted_def res)
    from card_mono [OF fin this] room [of c]
    have "card (insert (ucast (irq_id ?res)) (waiting (virq_list (VIRTIO_IRQS s) c))) \<le> 3" by linarith
    from inject_one_runs [OF en fr c [folded res] result_cpu_less [OF c] em wf(2) this, of E me] obtain t em'
      where t: "inject_one E me s = (Ok (), t)" and em': "EVENT_MANAGER t = Some em'" by auto
    from inject_one_Ok [OF t wf(2) en fr(1)] obtain c' where
      c': "result_cpu s res = Some c'" and wft: "virq_wf (VIRTIO_IRQS t)" and vb: "VIRTIO_BRIDGE t = VIRTIO_BRIDGE s"
      and bt: "bridge t = (bridge s)\<lparr>res_front := (res_front (bridge s) + 1) mod MAX_REQ\<rparr>"
      and zs: "zone_heap t = zone_heap s" "ZONE_LIST t = ZONE_LIST s"
      and w: "\<And>d. waiting (virq_list (VIRTIO_IRQS t) d) = waiting (virq_list (VIRTIO_IRQS s) d) \<union>
        (if d = c' then {ucast (irq_id res)} else {})"
      unfolding res by metis
    have rt: "rs = results (bridge t)" and wfr: "res_wf (bridge t)" using 2 q bt by simp_all
    have "waiting (virq_list (VIRTIO_IRQS t) d) \<union> targeted t rs d =
        waiting (virq_list (VIRTIO_IRQS s) d) \<union> targeted s (res # rs) d" for d
      using c' w by (auto simp: targeted_def result_cpu_cong [OF zs])
    then have "deliverable t"
      using Cons.prems(5) room unfolding deliverable_def rt [symmetric] Cons.hyps(2) [symmetric] result_cpu_cong [OF zs] by simp
    from Cons.hyps(1) [OF rt _ wfr wft _ this] em' en vb inject_all_step [OF en, of E me] 2(2) t show ?thesis by simp
  qed
qed

text \<open>Otherwise the loop ends in a panic.\<close>

lemma inject_one_ends:
  assumes en: "is_enable (VIRTIO_BRIDGE s)" and fr: "unat (res_front (bridge s)) < 32" "length (res_list (bridge s)) = 32"
    and wf: "virq_wf (VIRTIO_IRQS s)" and em: "EVENT_MANAGER s = Some em" and live: "\<forall>z \<in> set (ZONE_LIST s). zone_at s z \<noteq> None"
  shows "\<exists>t. inject_one E me s = (Ok (), t) \<and> EVENT_MANAGER t \<noteq> None \<or> inject_one E me s = (Panic, t)"
proof -
  let ?r = "bridge s"
  let ?res = "res_list ?r ! unat (res_front ?r)"
  have im: "immut_region s = (Ok ?r, s)" using en by (simp add: immut_region_def bridge_def)
  obtain found where fz: "find_zone (ucast (target_zone ?res)) s = (Ok found, s)" "\<And>z. found = Some z \<Longrightarrow> z \<in> set (ZONE_LIST s)"
    using find_zone_Ok [of s "ucast (target_zone ?res)"] live by (force simp: find_Some_iff)
  show ?thesis
  proof (cases found)
    case None
    then show ?thesis using im fz fr by (simp add: inject_one_def bindP_simps Let_def)
  next
    case (Some z)
    then obtain zn where zn: "zone_at s z = Some zn" using fz(2) live by force
    show ?thesis
    proof (cases "first_cpu (cpu_set zn) = Panic \<or> first_cpu (cpu_set zn) = Ok None")
      case True
      then show ?thesis using im fz fr Some zn by (auto simp: inject_one_def bindP_simps Let_def read_zone_def)
    next
      case False
      then obtain c where fc: "first_cpu (cpu_set zn) = Ok (Some c)" using first_cpu_outcome by (metis outcome.exhaust option.exhaust)
      have c: "unat c < 64" by (rule first_cpu_less [OF fc])
      let ?l = "virq_list (VIRTIO_IRQS s) c"
      consider "queue_irq (ucast (irq_id ?res)) ?l = Panic" | l' new where "queue_irq (ucast (irq_id ?res)) ?l = Ok (l', new)"
        by (cases "queue_irq (ucast (irq_id ?res)) ?l") (auto simp: queue_irq_def Let_def split: if_splits)
      then show ?thesis
      proof cases
        case 1
        then show ?thesis using im fz fr Some zn fc
          by (simp add: inject_one_def bindP_simps Let_def read_zone_def virq_list_def [symmetric])
      next
        case (2 l' new)
        then show ?thesis using im fz fr Some zn fc em en c
          by (simp add: inject_one_def bindP_simps Let_def read_zone_def virq_list_def [symmetric] next_index(1) [OF fr(1)]
            send_event_run [where em = em] set_region_def)
      qed
    qed
  qed
qed

lemma inject_all_outcome:
  assumes "is_enable (VIRTIO_BRIDGE s)" "res_wf (bridge s)" "virq_wf (VIRTIO_IRQS s)" "EVENT_MANAGER s \<noteq> None"
    "\<forall>z \<in> set (ZONE_LIST s). zone_at s z \<noteq> None"
  shows "\<exists>r t. inject_all E me s = Some (r, t) \<and> (r = Ok () \<or> r = Panic)"
  using assms
proof (induction "results (bridge s)" arbitrary: s)
  case Nil
  then show ?case by (cases rule: results_cases [OF Nil(3)]) (auto simp: inject_all_step)
next
  case (Cons res rs)
  note en = Cons.prems(1) and wf = Cons.prems(2,3)
  show ?case
  proof (cases rule: results_cases [OF wf(1)])
    case 1
    with Cons.hyps(2) show ?thesis by simp
  next
    case (2 q qs)
    have fr: "unat (res_front (bridge s)) < 32" "length (res_list (bridge s)) = 32" using wf(1) by (simp_all add: res_wf_def)
    from Cons.prems(4) obtain em where "EVENT_MANAGER s = Some em" by blast
    from inject_one_ends [OF en fr wf(2) this Cons.prems(5), of E me] consider
      t where "inject_one E me s = (Ok (), t)" "EVENT_MANAGER t \<noteq> None" | t where "inject_one E me s = (Panic, t)" by blast
    then show ?thesis
    proof cases
      case (1 t)
      from inject_one_Ok [OF 1(1) wf(2) en fr(1)] have t: "virq_wf (VIRTIO_IRQS t)" "VIRTIO_BRIDGE t = VIRTIO_BRIDGE s"
        "bridge t = (bridge s)\<lparr>res_front := (res_front (bridge s) + 1) mod MAX_REQ\<rparr>" "zone_heap t = zone_heap s" "ZONE_LIST t = ZONE_LIST s"
        by metis+
      have "rs = results (bridge t)" "res_wf (bridge t)" using 2 Cons.hyps(2) t(3) by simp_all
      moreover have "zone_at t = zone_at s" using t(4) by (auto simp: zone_at_def)
      ultimately have "\<exists>r u. inject_all E me t = Some (r, u) \<and> (r = Ok () \<or> r = Panic)"
        using Cons.hyps(1) [of t] en t(1,2,5) 1(2) Cons.prems(5) by simp
      with inject_all_step [OF en, of E me] 2(2) 1(1) show ?thesis by simp
    next
      case (2 t)
      with inject_all_step [OF en, of E me] results_cases [OF wf(1)] Cons.hyps(2) show ?thesis by (auto split: if_splits)
    qed
  qed
qed

lemma inject_all_iff:
  assumes "is_enable (VIRTIO_BRIDGE s)" "res_wf (bridge s)" "virq_wf (VIRTIO_IRQS s)" "EVENT_MANAGER s \<noteq> None"
    "\<forall>z \<in> set (ZONE_LIST s). zone_at s z \<noteq> None"
  shows "\<exists>r t. inject_all E me s = Some (r, t) \<and> (r = Ok () \<or> r = Panic) \<and> (r = Ok () \<longleftrightarrow> deliverable s)"
proof -
  obtain r t where rt: "inject_all E me s = Some (r, t)" "r = Ok () \<or> r = Panic" using inject_all_outcome [OF assms] by blast
  have "deliverable s" if "r = Ok ()"
  proof -
    from inject_all_ends [OF assms(1-3), of E me] rt that have e: "virq_wf (VIRTIO_IRQS t)" "\<forall>res \<in> set (results (bridge s)). result_cpu s res \<noteq> None"
      "\<And>c. waiting (virq_list (VIRTIO_IRQS t) c) = waiting (virq_list (VIRTIO_IRQS s) c) \<union> targeted s (results (bridge s)) c" by auto
    have "card (waiting (virq_list (VIRTIO_IRQS t) c)) \<le> 3" for c
    proof -
      let ?n = "unat (virq_list (VIRTIO_IRQS t) c ! 0)"
      have "?n \<le> 3" using e(1) by (simp add: virq_wf_def)
      moreover have "card (waiting (virq_list (VIRTIO_IRQS t) c)) \<le> ?n" unfolding waiting_def by (rule card_length [THEN order_trans]) simp
      ultimately show ?thesis by linarith
    qed
    with e(2,3) show ?thesis by (simp add: deliverable_def)
  qed
  moreover have "r = Ok ()" if "deliverable s" using inject_all_delivers [OF assms(1-4) that, of E me] rt by auto
  ultimately show ?thesis using rt by blast
qed

lemma wait_room_ends:
  assumes "\<forall>j < n. fst (is_req_list_full ((tick ^^ j) s)) = Ok True" "fst (is_req_list_full ((tick ^^ n) s)) \<noteq> Ok True"
  shows "wait_room tick s = Some (is_req_list_full ((tick ^^ n) s))"
  using assms
proof (induction n arbitrary: s)
  case 0
  then show ?case by (simp add: wait_room_now)
next
  case (Suc n)
  from Suc.prems(1) have "fst (is_req_list_full s) = Ok True" by (metis funpow_0 zero_less_Suc)
  moreover have "wait_room tick (tick s) = Some (is_req_list_full ((tick ^^ n) (tick s)))"
  proof (rule Suc.IH)
    show "\<forall>j < n. fst (is_req_list_full ((tick ^^ j) (tick s))) = Ok True"
      using Suc.prems(1) by (metis Suc_mono funpow_Suc_right o_apply)
    show "fst (is_req_list_full ((tick ^^ n) (tick s))) \<noteq> Ok True"
      using Suc.prems(2) by (simp add: funpow_Suc_right del: funpow.simps)
  qed
  ultimately show ?case by (subst wait_room.simps) (simp add: funpow_Suc_right del: funpow.simps)
qed

text \<open>
  A CPU ready to post a request: its zone is known, the ring has room, and if the device asks to be
  woken there is a CPU of the root zone to wake.
\<close>

definition can_post :: "('b, 'd) env \<Rightarrow> u64 \<Rightarrow> Zone \<Rightarrow> usize \<Rightarrow> ('b, 'd) hv \<Rightarrow> bool" where
  "can_post E me zn rc s \<longleftrightarrow> cpus_wf E s \<and> unat (this_cpu_id me) < 4 \<and>
     (case zone (percpu s ! unat (this_cpu_id me)) of Some z \<Rightarrow> zone_at s z = Some zn | None \<Rightarrow> False) \<and>
     is_enable (VIRTIO_BRIDGE s) \<and> ring_wf (bridge s) \<and> length (requests (bridge s)) < 31 \<and>
     (need_wakeup_flag (bridge s) = 1 \<longrightarrow> unat rc < 64 \<and> EVENT_MANAGER s \<noteq> None \<and>
       (case ZONE_LIST s of rz # _ \<Rightarrow> (case zone_at s rz of Some rzn \<Rightarrow> first_cpu (cpu_set rzn) = Ok (Some rc) | None \<Rightarrow> False)
        | [] \<Rightarrow> False))"

definition request_of :: "u64 \<Rightarrow> Zone \<Rightarrow> MMIOAccess \<Rightarrow> usize \<Rightarrow> HvisorDeviceReq" where
  "request_of me zn acc b = HvisorDeviceReq_new (this_cpu_id me) (address acc + b) (acc_size acc) (acc_value acc)
     (ucast (zid zn)) (is_write acc) (if address acc = QUEUE_NOTIFY then 1 else 0)"

text \<open>The state with the request in the ring and the device woken.\<close>

definition with_request :: "('b, 'd) env \<Rightarrow> u64 \<Rightarrow> usize \<Rightarrow> VirtioBridge \<Rightarrow> ('b, 'd) hv \<Rightarrow> ('b, 'd) hv" where
  "with_request E me rc r s = (let s' = s\<lparr>shared := (shared s)(base_address (VIRTIO_BRIDGE s) := r)\<rparr> in
     if need_wakeup_flag r = 1 then snd (send_event E me rc SGI_IPI_ID IPI_EVENT_WAKEUP_VIRTIO_DEVICE s') else s')"

definition cfg_flag :: "u64 \<Rightarrow> ('b, 'd) hv \<Rightarrow> u64" where
  "cfg_flag me s = cfg_flags (bridge s) ! unat (this_cpu_id me)"

definition finish_access :: "MMIOAccess \<Rightarrow> usize \<Rightarrow> u64 \<Rightarrow> MMIOAccess" where
  "finish_access acc b v = (if is_write acc then acc\<lparr>address := address acc + b\<rparr>
     else acc\<lparr>address := address acc + b, acc_value := v\<rparr>)"

lemma cpus_wf_shared [simp]: "cpus_wf E (s\<lparr>shared := h\<rparr>) = cpus_wf E s"
  by (simp add: cpus_wf_def)

lemma zone_at_shared [simp]: "zone_at (s\<lparr>shared := h\<rparr>) z = zone_at s z"
  by (simp add: zone_at_def)

lemma handler_posts:
  assumes room: "\<forall>j < n. fst (is_req_list_full ((tick ^^ j) s)) = Ok True"
    and s0: "s0 = (tick ^^ n) s" and c: "can_post E me zn rc s0" and a: "unat (address acc) + unat b < 2 ^ 64"
  obtains r where "ring_wf r" "requests r = requests (bridge s0) @ [request_of me zn acc b]"
    "r = (bridge s0)\<lparr>req_list := req_list r, req_rear := req_rear r\<rparr>"
    "mmio_virtio_handler E tick me acc b s =
      (if address acc = QUEUE_NOTIFY then (Ok (acc\<lparr>address := address acc + b\<rparr>), with_request E me rc r s0)
       else bindP (poll_cfg tick (base_address (VIRTIO_BRIDGE s0)) (unat (this_cpu_id me)) (cfg_flag me s0) 0) (\<lambda>_.
         bindP (getP (\<lambda>t. cfg_values (shared t (base_address (VIRTIO_BRIDGE s0))) ! unat (this_cpu_id me))) (\<lambda>v.
         retP (finish_access acc b v))) (with_request E me rc r s0))"
proof -
  from c obtain z where wf: "cpus_wf E s0" and cpu: "unat (this_cpu_id me) < 4"
    and z: "zone (percpu s0 ! unat (this_cpu_id me)) = Some z" "zone_at s0 z = Some zn"
    and en: "is_enable (VIRTIO_BRIDGE s0)" and rw: "ring_wf (bridge s0)" "length (requests (bridge s0)) < 31"
    by (auto simp: can_post_def split: option.splits)
  have full: "is_req_list_full s0 = (Ok False, s0)"
    using rw en by (simp add: is_req_list_full_def bindP_def immut_region_def bridge_def [symmetric] ring_full_Ok)
  have "wait_room tick s = Some (Ok False, s0)"
    using wait_room_ends [OF room] full unfolding s0 [symmetric] by simp
  then have lock: "take_lock_with_room tick s = (Ok (), s0)" by (simp add: take_lock_with_room_def)
  have ad: "add_chk (address acc) b = Ok (address acc + b)" using a by (simp add: add_chk_def)
  have tz: "this_zone_id E me s0 = (Ok (zid zn), s0)"
    using z by (simp add: this_zone_id_def bindP_def this_zone_in [OF wf cpu] read_zone_def)
  have im: "immut_region s0 = (Ok (bridge s0), s0)" using en by (simp add: immut_region_def bridge_def)
  obtain r where r: "ring_push (request_of me zn acc b) (bridge s0) = Ok r" "ring_wf r"
    "requests r = requests (bridge s0) @ [request_of me zn acc b]"
    "r = (bridge s0)\<lparr>req_list := req_list r, req_rear := req_rear r\<rparr>"
    by (rule ring_push_queue [OF rw])
  let ?t = "s0\<lparr>shared := (shared s0)(base_address (VIRTIO_BRIDGE s0) := r)\<rparr>"
  have push: "push_req (request_of me zn acc b) s0 = (Ok (), ?t)"
    using im r(1) en by (simp add: push_req_def bindP_def set_region_def)
  have wk: "need_wakeup ?t = (Ok (need_wakeup_flag r = 1), ?t)"
    using en by (simp add: need_wakeup_def bindP_def immut_region_def)
  have nw: "need_wakeup_flag r = need_wakeup_flag (bridge s0)" by (subst r(4)) simp
  have wake: "(if need_wakeup_flag r = 1 then
         bindP root_zone (\<lambda>rz. bindP (read_zone rz) (\<lambda>rzn. bindP (liftP (first_cpu (cpu_set rzn))) (\<lambda>fc.
         bindP (liftP (unwrap_opt fc)) (\<lambda>root_cpu.
         send_event E me root_cpu SGI_IPI_ID IPI_EVENT_WAKEUP_VIRTIO_DEVICE))))
       else retP ()) ?t = (Ok (), with_request E me rc r s0)"
  proof (cases "need_wakeup_flag r = 1")
    case True
    with c nw obtain rz zs rzn em where "ZONE_LIST s0 = rz # zs" "zone_at s0 rz = Some rzn"
      "first_cpu (cpu_set rzn) = Ok (Some rc)" "unat rc < 64" "EVENT_MANAGER s0 = Some em"
      by (auto simp: can_post_def split: option.splits list.splits)
    then show ?thesis using True
      by (simp add: bindP_def root_zone_def read_zone_def with_request_def Let_def
        send_event_run [where em = em])
  qed (simp add: with_request_def Let_def)
  have "mmio_virtio_handler E tick me acc b s =
      (if address acc = QUEUE_NOTIFY then (Ok (acc\<lparr>address := address acc + b\<rparr>), with_request E me rc r s0)
       else bindP (poll_cfg tick (base_address (VIRTIO_BRIDGE s0)) (unat (this_cpu_id me)) (cfg_flag me s0) 0) (\<lambda>_.
         bindP (getP (\<lambda>t. cfg_values (shared t (base_address (VIRTIO_BRIDGE s0))) ! unat (this_cpu_id me))) (\<lambda>v.
         retP (finish_access acc b v))) (with_request E me rc r s0))"
    using cpu push wk wake unfolding request_of_def
    by (simp add: mmio_virtio_handler_def bindP_simps Let_def ad lock tz im MAX_CPUS_def cfg_flag_def finish_access_def)
  with r show thesis using that by blast
qed

lemma with_request_bridge:
  "bridge (with_request E me rc r s) = r" "VIRTIO_BRIDGE (with_request E me rc r s) = VIRTIO_BRIDGE s"
  "shared (with_request E me rc r s) = (shared s)(base_address (VIRTIO_BRIDGE s) := r)"
proof -
  obtain em d where "snd (send_event E me rc SGI_IPI_ID IPI_EVENT_WAKEUP_VIRTIO_DEVICE
      (s\<lparr>shared := (shared s)(base_address (VIRTIO_BRIDGE s) := r)\<rparr>)) =
    s\<lparr>shared := (shared s)(base_address (VIRTIO_BRIDGE s) := r), EVENT_MANAGER := em, dev := d\<rparr>"
    by (metis send_event_frame prod.collapse)
  then show "bridge (with_request E me rc r s) = r" "VIRTIO_BRIDGE (with_request E me rc r s) = VIRTIO_BRIDGE s"
    "shared (with_request E me rc r s) = (shared s)(base_address (VIRTIO_BRIDGE s) := r)"
    by (simp_all add: with_request_def Let_def bridge_def)
qed

section \<open>Properties\<close>

text \<open>
  C26: the MMIO handler of a virtio device. As soon as the ring has room, the guest's access is
  appended to the requests of the ring, nothing else of the shared region changes, and the device is
  woken if it asked for it. A queue notification returns at once. Any other access returns at the
  first poll at which the device has changed the configuration flag of this CPU, with the value the
  device then gives for a read; a device that never answers makes the handler panic, when the poll
  counter of 32 bits overflows, so that it never spins forever once the ring has room.
\<close>

theorem virtio_request_answered:
  assumes "\<forall>j < n. fst (is_req_list_full ((tick ^^ j) s)) = Ok True" "s0 = (tick ^^ n) s" "can_post E me zn rc s0"
    "unat (address acc) + unat b < 2 ^ 64"
  shows "\<exists>r. requests r = requests (bridge s0) @ [request_of me zn acc b] \<and>
    r = (bridge s0)\<lparr>req_list := req_list r, req_rear := req_rear r\<rparr> \<and>
    (let t = with_request E me rc r s0; i = base_address (VIRTIO_BRIDGE s0);
         flag = (\<lambda>k. cfg_flags (shared ((tick ^^ k) t) i) ! unat (this_cpu_id me));
         result = mmio_virtio_handler E tick me acc b s in
     if address acc = QUEUE_NOTIFY then result = (Ok (acc\<lparr>address := address acc + b\<rparr>), t)
     else (\<forall>k < 2 ^ 31. flag k \<noteq> flag 0 \<and> (\<forall>j < k. flag j = flag 0) \<longrightarrow>
         result = (Ok (finish_access acc b (cfg_values (shared ((tick ^^ k) t) i) ! unat (this_cpu_id me))), (tick ^^ k) t)) \<and>
       ((\<forall>k. flag k = flag 0) \<longrightarrow> fst result = Panic))"
proof -
  from handler_posts [OF assms] obtain r where r: "requests r = requests (bridge s0) @ [request_of me zn acc b]"
    "r = (bridge s0)\<lparr>req_list := req_list r, req_rear := req_rear r\<rparr>"
    and h: "mmio_virtio_handler E tick me acc b s =
      (if address acc = QUEUE_NOTIFY then (Ok (acc\<lparr>address := address acc + b\<rparr>), with_request E me rc r s0)
       else bindP (poll_cfg tick (base_address (VIRTIO_BRIDGE s0)) (unat (this_cpu_id me)) (cfg_flag me s0) 0) (\<lambda>_.
         bindP (getP (\<lambda>t. cfg_values (shared t (base_address (VIRTIO_BRIDGE s0))) ! unat (this_cpu_id me))) (\<lambda>v.
         retP (finish_access acc b v))) (with_request E me rc r s0))" by metis
  let ?t = "with_request E me rc r s0" and ?i = "base_address (VIRTIO_BRIDGE s0)" and ?c = "unat (this_cpu_id me)"
  let ?flag = "\<lambda>k. cfg_flags (shared ((tick ^^ k) ?t) ?i) ! ?c"
  have "cfg_flags r = cfg_flags (bridge s0)" by (subst r(2)) simp
  then have f0: "?flag 0 = cfg_flag me s0" by (simp add: with_request_bridge cfg_flag_def)
  let ?finish = "\<lambda>_. bindP (getP (\<lambda>t. cfg_values (shared t ?i) ! ?c)) (\<lambda>v. retP (finish_access acc b v))"
  have "bindP (poll_cfg tick ?i ?c (cfg_flag me s0) 0) ?finish ?t =
      (Ok (finish_access acc b (cfg_values (shared ((tick ^^ k) ?t) ?i) ! ?c)), (tick ^^ k) ?t)"
    if "k < 2 ^ 31" "?flag k \<noteq> ?flag 0" "\<forall>j < k. ?flag j = ?flag 0" for k
  proof -
    have "poll_cfg tick ?i ?c (cfg_flag me s0) 0 ?t = (Ok (), (tick ^^ k) ?t)"
      using that unfolding f0 by (intro poll_cfg_ends) simp_all
    then show ?thesis by (simp add: bindP_def)
  qed
  moreover have "fst (bindP (poll_cfg tick ?i ?c (cfg_flag me s0) 0) ?finish ?t) = Panic" if "\<forall>k. ?flag k = ?flag 0"
  proof -
    have "fst (poll_cfg tick ?i ?c (cfg_flag me s0) 0 ?t) = Panic"
      using that unfolding f0 by (intro poll_cfg_panics) simp_all
    then show ?thesis by (cases "poll_cfg tick ?i ?c (cfg_flag me s0) 0 ?t") (simp add: bindP_def)
  qed
  ultimately show ?thesis using r unfolding h Let_def by (intro exI [of _ r]) presburger
qed

definition virtio_hv :: "(usize list, regdev) hv" where
  "virtio_hv = two_zone_hv\<lparr>VIRTIO_BRIDGE := set_base_addr 0 VirtioBridgeRegion_default\<rparr>"

definition answering :: "(usize list, regdev) tick" where
  "answering s = s\<lparr>shared := (\<lambda>_. (shared s 0)\<lparr>cfg_flags := replicate 16 1, cfg_values := replicate 16 5\<rparr>)\<rparr>"

lemma virtio_hv_posts: "can_post (plain_env A) 1 (empty_zone\<lparr>zid := 1\<rparr>) 0 virtio_hv" "cfg_flags (bridge virtio_hv) = replicate 16 0"
proof -
  have wf: "cpus_wf (plain_env A) virtio_hv"
    using two_zone_cpus(1) [of A] by (simp add: virtio_hv_def cpus_wf_def)
  have cpu: "this_cpu_id 1 = 1" by (simp add: this_cpu_id_def mpidr_to_cpuid_def)
  have "zone (percpu virtio_hv ! 1) = Some 1" "zone_at virtio_hv 1 = Some (empty_zone\<lparr>zid := 1\<rparr>)"
    using two_zone_gic(2) by (simp_all add: virtio_hv_def) (simp add: two_zone_hv_def zone_at_def)
  moreover have "ring_wf (bridge virtio_hv)" "length (requests (bridge virtio_hv)) = 0"
    "need_wakeup_flag (bridge virtio_hv) = 0" "is_enable (VIRTIO_BRIDGE virtio_hv)"
    by (simp_all add: bridge_def virtio_hv_def set_base_addr_def two_zone_hv_def bare_hv_def ring_wf_def requests_def)
  ultimately show "can_post (plain_env A) 1 (empty_zone\<lparr>zid := 1\<rparr>) 0 virtio_hv"
    using wf cpu by (simp add: can_post_def)
  show "cfg_flags (bridge virtio_hv) = replicate 16 0"
    by (simp add: bridge_def virtio_hv_def two_zone_hv_def bare_hv_def)
qed

theorem virtio_request_answered_witness:
  "\<exists>t. mmio_virtio_handler (plain_env list_bits) answering 1 \<lparr>address = 0x70, acc_size = 4, is_write = False, acc_value = 0\<rparr>
     0xa000000 virtio_hv = (Ok \<lparr>address = 0xa000070, acc_size = 4, is_write = False, acc_value = 5\<rparr>, t)"
proof -
  let ?E = "plain_env list_bits" and ?acc = "\<lparr>address = 0x70, acc_size = 4, is_write = False, acc_value = 0\<rparr> :: MMIOAccess"
  have cpu: "unat (this_cpu_id 1) = 1" by (simp add: this_cpu_id_def mpidr_to_cpuid_def)
  have base: "base_address (VIRTIO_BRIDGE virtio_hv) = 0"
    by (simp add: virtio_hv_def set_base_addr_def)
  have nq: "address ?acc \<noteq> QUEUE_NOTIFY" by (simp add: QUEUE_NOTIFY_def)
  have p: "\<forall>j < 0. fst (is_req_list_full ((answering ^^ j) virtio_hv)) = Ok True" "virtio_hv = (answering ^^ 0) virtio_hv"
    "unat (address ?acc) + unat (0xa000000 :: usize) < 2 ^ 64" by simp_all
  from virtio_request_answered [OF p(1,2) virtio_hv_posts(1) [of list_bits] p(3)] obtain r where
    r: "r = (bridge virtio_hv)\<lparr>req_list := req_list r, req_rear := req_rear r\<rparr>"
    and h: "\<forall>k < 2 ^ 31. (let t = with_request ?E 1 0 r virtio_hv; flag = (\<lambda>k. cfg_flags (shared ((answering ^^ k) t) 0) ! 1) in
       flag k \<noteq> flag 0 \<and> (\<forall>j < k. flag j = flag 0) \<longrightarrow> mmio_virtio_handler ?E answering 1 ?acc 0xa000000 virtio_hv =
         (Ok (finish_access ?acc 0xa000000 (cfg_values (shared ((answering ^^ k) t) 0) ! 1)), (answering ^^ k) t))"
    using nq unfolding Let_def cpu base by auto
  have "cfg_flags r = replicate 16 0" by (subst r) (simp add: virtio_hv_posts(2))
  then have "shared (with_request ?E 1 0 r virtio_hv) 0 = r" "cfg_flags r ! 1 = 0"
    by (simp_all add: with_request_bridge base)
  with h [rule_format, of 1] show ?thesis
    by (simp add: Let_def answering_def finish_access_def)
qed

end
