(* ===== verification/Hv_Sets.thy ===== *)
theory Hv_Sets
  imports Hv_MsSpec
begin

text \<open>
  Several memory sets in one pool of frames: the stage 2 sets of the zones and the parking set.
  \<open>sets_ok\<close> says that each is in order and that no two share a table. Creating a set, inserting a
  region into one of them and dropping one keep this, and change neither a table nor a translation
  of the others (\<open>kept\<close>).
\<close>

section \<open>The invariant of a collection\<close>

abbreviation tables :: "'b pmem \<Rightarrow> MemorySet \<Rightarrow> PhysAddr set" where
  "tables m ms \<equiv> pt_tables S2_pte m (pt ms)"

definition set_ok :: "'b bitalloc \<Rightarrow> 'b pmem \<Rightarrow> MemorySet \<Rightarrow> bool" where
  "set_ok A m ms \<longleftrightarrow> ms_ok S2_pte A m ms \<and> ms_exact S2_pte m ms \<and> ms_tight S2_pte m ms \<and> all_offset ms"

definition sets_ok :: "'b bitalloc \<Rightarrow> 'b pmem \<Rightarrow> MemorySet list \<Rightarrow> bool" where
  "sets_ok A m S \<longleftrightarrow> falloc_ok A (falloc m) \<and> distinct S \<and> (\<forall>ms \<in> set S. set_ok A m ms) \<and>
     (\<forall>a \<in> set S. \<forall>b \<in> set S. a \<noteq> b \<longrightarrow> tables m a \<inter> tables m b = {})"

definition kept :: "'b bitalloc \<Rightarrow> MemorySet set \<Rightarrow> 'b pmem \<Rightarrow> 'b pmem \<Rightarrow> bool" where
  "kept A S m m' \<longleftrightarrow> falloc_ok A (falloc m') \<and> base (falloc m') = base (falloc m) \<and>
     (\<forall>ms \<in> S. \<forall>q \<in> tables m ms. \<not> frame_free A (falloc m') q \<and>
        (\<forall>i < 512. read_u64 (bytes m') (slot q i) = read_u64 (bytes m) (slot q i)))"

text \<open>
  The frames the sets and the allocator hold, and a change that takes place within them: the same frames are held afterwards, and
  no other page has changed.
\<close>

definition held :: "'b bitalloc \<Rightarrow> 'b pmem \<Rightarrow> MemorySet set \<Rightarrow> PhysAddr set" where
  "held A m S = Collect (frame_free A (falloc m)) \<union> (\<Union>ms \<in> S. tables m ms)"

definition within :: "'b bitalloc \<Rightarrow> 'b pmem \<Rightarrow> MemorySet set \<Rightarrow> 'b pmem \<Rightarrow> MemorySet set \<Rightarrow> bool" where
  "within A m S m' S' \<longleftrightarrow> held A m' S' = held A m S \<and> (\<forall>q i. is_aligned q \<and> q \<notin> held A m S \<and> i < 512 \<longrightarrow>
     read_u64 (bytes m') (slot q i) = read_u64 (bytes m) (slot q i))"

lemma within_refl: "within A m S m S"
  by (simp add: within_def)

lemma within_trans: "within A m S m' S' \<Longrightarrow> within A m' S' m'' S'' \<Longrightarrow> within A m S m'' S''"
  by (simp add: within_def)

text \<open>What a guest or the hypervisor sees through a set.\<close>

definition sees :: "'b pmem \<Rightarrow> MemorySet \<Rightarrow> VirtAddr \<Rightarrow> (PagingError, PhysAddr \<times> MemFlags \<times> PageSize) outcome" where
  "sees m ms v = page_table_query S2_pte ms v (bytes m)"

lemma sets_ok_perm: "set S = set S' \<Longrightarrow> distinct S = distinct S' \<Longrightarrow> sets_ok A m S = sets_ok A m S'"
  by (simp add: sets_ok_def)

lemma sets_okD:
  assumes "sets_ok A m S"
  shows "falloc_ok A (falloc m)" "ms \<in> set S \<Longrightarrow> set_ok A m ms" "ms \<in> set S \<Longrightarrow> pt_ok S2_pte A m (pt ms)"
  using assms by (auto simp: sets_ok_def set_ok_def ms_ok_def)

lemma sets_ok_sub: "sets_ok A m S \<Longrightarrow> set S' \<subseteq> set S \<Longrightarrow> distinct S' \<Longrightarrow> sets_ok A m S'"
  unfolding sets_ok_def by blast

lemma kept_refl: "sets_ok A m S \<Longrightarrow> kept A (set S) m m"
  using pt_ok_used(2) [OF sets_okD(3)] sets_okD(1) unfolding kept_def by blast

lemma kept_same:
  assumes "pt_ok S2_pte A m (pt ms)" "kept A S m m'" "ms \<in> S"
  shows "pt_ok S2_pte A m' (pt ms)" "\<And>h n e. pt_leaf S2_pte m' (pt ms) h n e \<longleftrightarrow> pt_leaf S2_pte m (pt ms) h n e"
    "tables m' ms = tables m ms" "\<And>d n. d \<le> pt_height (pt ms) \<Longrightarrow> pt_tab S2_pte m' (pt ms) d n = pt_tab S2_pte m (pt ms) d n"
proof -
  have fa: "falloc_ok A (falloc m')" "base (falloc m') = base (falloc m)" using assms(2) by (auto simp: kept_def)
  have same: "\<And>q i. q \<in> tables m ms \<Longrightarrow> i < 512 \<Longrightarrow> read_u64 (bytes m') (slot q i) = read_u64 (bytes m) (slot q i)"
    and free: "\<And>q. frame_free A (falloc m') q \<Longrightarrow> q \<in> tables m ms \<Longrightarrow> frame_free A (falloc m) q"
    using assms(2,3) by (auto simp: kept_def)
  show "pt_ok S2_pte A m' (pt ms)" "\<And>h n e. pt_leaf S2_pte m' (pt ms) h n e \<longleftrightarrow> pt_leaf S2_pte m (pt ms) h n e"
    "tables m' ms = tables m ms"
    by (rule pt_ok_untouched [OF assms(1) fa]; simp add: free same)+
  show "pt_tab S2_pte m' (pt ms) d n = pt_tab S2_pte m (pt ms) d n" if "d \<le> pt_height (pt ms)" for d n
    using tab_same [of S2_pte "bytes m" "root_paddr (pt ms)" "pt_height (pt ms)" "bytes m'"] same that by blast
qed

lemma kept_set_ok:
  assumes "set_ok A m ms" "kept A S m m'" "ms \<in> S"
  shows "set_ok A m' ms"
proof -
  have pok: "pt_ok S2_pte A m (pt ms)" using assms(1) by (simp add: set_ok_def ms_ok_def)
  note k = kept_same [OF pok assms(2,3)]
  show ?thesis
    using assms(1) k(1) unfolding set_ok_def ms_ok_def ms_exact_def ms_tight_def region_mapped_def k(2)
    by (auto simp: k(4))
qed

lemma kept_sets_ok:
  assumes "sets_ok A m S" "kept A (set S) m m'"
  shows "sets_ok A m' S"
proof -
  have t: "tables m' ms = tables m ms" if "ms \<in> set S" for ms
    by (rule kept_same(3) [OF sets_okD(3) [OF assms(1) that] assms(2) that])
  have o: "set_ok A m' ms" if "ms \<in> set S" for ms
    by (rule kept_set_ok [OF sets_okD(2) [OF assms(1) that] assms(2) that])
  have "falloc_ok A (falloc m')" using assms(2) by (simp add: kept_def)
  with assms(1) o t show ?thesis by (simp add: sets_ok_def)
qed

lemma kept_trans:
  assumes "sets_ok A m S" "kept A (set S) m m'" "kept A (set S) m' m''"
  shows "kept A (set S) m m''"
  using assms(2,3) kept_same(3) [OF sets_okD(3) [OF assms(1)] assms(2)] unfolding kept_def by simp

lemma kept_sees:
  assumes "set_ok A m ms" "kept A S m m'" "ms \<in> S" "unat v < va_limit (pt ms)"
  shows "sees m' ms v = sees m ms v"
proof -
  have pok: "pt_ok S2_pte A m (pt ms)" using assms(1) by (simp add: set_ok_def ms_ok_def)
  note k = kept_same [OF pok assms(2,3)]
  show ?thesis
    unfolding sees_def page_table_query_def
    by (rule generic_pte.query_by_leaf [OF pte_formats pt_ok_wf [OF k(1)] pt_ok_wf [OF pok]])
      (use assms(4) k(2) in \<open>simp_all add: va_limit_blk\<close>)
qed

text \<open>What a set in order lets through is what its regions say.\<close>

lemma set_ok_sees:
  assumes "bit_alloc A" "set_ok A m ms" "unat v < va_limit (pt ms)"
  shows "translation (sees m ms v) = spec_query ms v"
proof -
  note hp = hv_paging_formats [of S2_pte, OF _ assms(1)]
  show ?thesis
    using hv_paging.set_query [OF hp, of m ms v] assms(2,3)
    by (auto simp: set_ok_def sees_def page_table_query_def spec_query_def translation_def split: option.splits)
qed

section \<open>Operations on one of several sets\<close>

lemma local_kept:
  assumes ok: "sets_ok A m (ms # S)" and loc: "pt_local S2_pte A m (pt ms) m' p'" and fa: "falloc_ok A (falloc m')"
  shows "kept A (set S) m m'" "\<And>s. s \<in> set S \<Longrightarrow> pt_tables S2_pte m' p' \<inter> tables m' s = {}"
proof -
  note l = loc [unfolded pt_local_def]
  have o: "pt_ok S2_pte A m (pt s)" "tables m ms \<inter> tables m s = {}" if "s \<in> set S" for s
    using ok that sets_okD(3) [OF ok, of s] by (auto simp: sets_ok_def)
  have out: "q \<notin> pt_tables S2_pte m' p'" if "s \<in> set S" "q \<in> tables m s" for s q
    using l that o [OF that(1)] pt_ok_used(2) [OF o(1) [OF that(1)] that(2)] by blast
  have al: "is_aligned q" if "s \<in> set S" "q \<in> tables m s" for s q
    using pt_frames_aligned [OF pt_ok_wf [OF o(1) [OF that(1)]] that(2)] .
  have "\<not> frame_free A (falloc m') q" if "s \<in> set S" "q \<in> tables m s" for s q
    using l pt_ok_used(2) [OF o(1) [OF that(1)] that(2)] by blast
  with l out al fa show k: "kept A (set S) m m'" unfolding kept_def by blast
  show "pt_tables S2_pte m' p' \<inter> tables m' s = {}" if "s \<in> set S" for s
    using out [OF that] kept_same(3) [OF o(1) [OF that] k that] by blast
qed

lemma kept_tables:
  assumes "sets_ok A m S" "kept A (set S) m m'"
  shows "(\<Union>ms \<in> set S. tables m' ms) = (\<Union>ms \<in> set S. tables m ms)"
  using kept_same(3) [OF sets_okD(3) [OF assms(1)] assms(2)] by blast

lemma local_within:
  assumes ok: "sets_ok A m (ms # S)" and loc: "pt_local S2_pte A m (pt ms) m' (pt ms')" and fa: "falloc_ok A (falloc m')"
  shows "within A m (set (ms # S)) m' (set (ms' # S))"
proof -
  note l = loc [unfolded pt_local_def]
  have S: "sets_ok A m S" by (rule sets_ok_sub [OF ok]) (use ok in \<open>auto simp: sets_ok_def\<close>)
  have "held A m' (set (ms' # S)) = Collect (frame_free A (falloc m')) \<union> tables m' ms' \<union> (\<Union>x \<in> set S. tables m x)"
    using kept_tables [OF S local_kept(1) [OF ok loc fa]] by (auto simp: held_def)
  also have "Collect (frame_free A (falloc m')) \<union> tables m' ms' = Collect (frame_free A (falloc m)) \<union> tables m ms" using l by blast
  also have "\<dots> \<union> (\<Union>x \<in> set S. tables m x) = held A m (set (ms # S))" by (auto simp: held_def)
  finally have h: "held A m' (set (ms' # S)) = held A m (set (ms # S))" .
  moreover have "q \<notin> tables m' ms'" if "q \<notin> held A m (set (ms # S))" for q using that unfolding h [symmetric] by (simp add: held_def)
  ultimately show ?thesis using l unfolding within_def by blast
qed

lemma sets_ok_Cons:
  assumes "set_ok A m' x" "sets_ok A m' S" "\<And>s. s \<in> set S \<Longrightarrow> tables m' x \<inter> tables m' s = {}"
  shows "sets_ok A m' (x # S)"
proof -
  have "x \<notin> set S"
  proof
    assume "x \<in> set S"
    with assms(3) have "tables m' x = {}" by blast
    moreover have "pt_ok S2_pte A m' (pt x)" using assms(1) by (simp add: set_ok_def ms_ok_def)
    ultimately show False using pt_okD(4) [of S2_pte A m' "pt x"] by (simp add: tracked_def)
  qed
  with assms show ?thesis by (auto simp: sets_ok_def)
qed

context bit_alloc
begin

lemma new_set_fails:
  assumes "falloc_ok A (falloc m)" "l = 3 \<or> l = 4" "MemorySet_new A l m = (Panic, m')"
  shows "\<not> frame_free A (falloc m') q"
proof -
  obtain r t where nz: "Frame_new_zero A m = (r, t)" by fastforce
  from assms(1) nz show ?thesis
  proof (cases rule: frames.new_zero_cases)
    case (got f)
    with assms(2,3) nz show ?thesis by (auto simp: MemorySet_new_def HvPageTable_new_def bindP_def unwrapP_def)
  next
    case none
    with assms(2,3) nz show ?thesis by (auto simp: MemorySet_new_def HvPageTable_new_def bindP_def unwrapP_def)
  qed
qed

end

lemma sets_new:
  assumes A: "bit_alloc A" and ok: "sets_ok A m S" and l: "l = 3 \<or> l = 4" and call: "MemorySet_new A l m = (res, m')"
  obtains (new) ms where "res = Ok ms" "regions ms = []" "level (pt ms) = l" "sets_ok A m' (ms # S)" "kept A (set S) m m'"
      "within A m (set S) m' (set (ms # S))"
    | (exhausted) "res = Panic" "\<And>q. \<not> frame_free A (falloc m') q"
proof -
  note hp = hv_paging_formats [of S2_pte, OF _ A, simplified]
  obtain r m1 where n: "HvPageTable_new A l m = (r, m1)" by fastforce
  show thesis
  proof (cases rule: hv_paging.new_table [OF hp sets_okD(1) [OF ok] l n])
    case (1 p)
    let ?ms = "\<lparr>regions = [], pt = p\<rparr>"
    have run: "res = Ok ?ms" "m' = m1" using call n 1(1) by (simp_all add: MemorySet_new_def bindP_def)
    have "\<not> pt_leaf S2_pte m1 p h k e" for h k e
    proof -
      have "blk h (k * bsz h) = k" using bsz_pos by (simp add: blk_bsz)
      with 1(4) [of "k * bsz h"] show ?thesis unfolding no_leaf_def by metis
    qed
    moreover have "ms_tight S2_pte m1 ?ms"
      unfolding ms_tight_def
    proof (intro allI impI)
      fix d n assume d: "0 < d \<and> d \<le> pt_height (pt ?ms) \<and> pt_tab S2_pte m1 (pt ?ms) d n \<noteq> None"
      then obtain q where q: "pt_tab S2_pte m1 p d n = Some q" by auto
      with d 1(6) have "q = root_paddr p" using pt_framesI [of d "pt_height p"] by auto
      with q d pt_wf_inj [OF pt_ok_wf [OF 1(3)], of d 0 n q 0] show "\<exists>(k, r) \<in> set (regions ?ms). \<exists>u. unat (start r) \<le> u \<and>
          u < region_end r \<and> n = blk (Suc (pt_height (pt ?ms) - d)) u" by simp
    qed
    ultimately have so: "set_ok A m1 ?ms" using 1(3)
      by (simp add: set_ok_def ms_ok_def ms_exact_def all_offset_def regions_ok_def btm_sorted_def)
    have "q \<noteq> root_paddr p" if "s \<in> set S" "q \<in> tables m s" for s q
      using pt_ok_used(2) [OF sets_okD(3) [OF ok that(1)] that(2)] 1(7) by blast
    moreover have "is_aligned q" if "s \<in> set S" "q \<in> tables m s" for s q
      using pt_frames_aligned [OF pt_ok_wf [OF sets_okD(3) [OF ok that(1)]] that(2)] .
    moreover have "\<not> frame_free A (falloc m1) q" if "s \<in> set S" "q \<in> tables m s" for s q
      using pt_ok_used(2) [OF sets_okD(3) [OF ok that(1)] that(2)] 1(9) by blast
    ultimately have k: "kept A (set S) m m1"
      using pt_okD(1) [OF 1(3)] 1(8,10) unfolding kept_def by blast
    have "tables m1 ?ms \<inter> tables m1 s = {}" if "s \<in> set S" for s
      using pt_ok_used(2) [OF sets_okD(3) [OF ok that]] 1(6,7) kept_same(3) [OF sets_okD(3) [OF ok that] k that] by auto
    note sets = sets_ok_Cons [OF so kept_sets_ok [OF ok k] this]
    have "held A m1 (set (?ms # S)) = held A m (set S)" using 1(6,7,9) kept_tables [OF ok k] by (auto simp: held_def)
    moreover have "q \<noteq> root_paddr p" if "q \<notin> held A m (set S)" for q using that 1(7) by (auto simp: held_def)
    ultimately have "within A m (set S) m1 (set (?ms # S))" using 1(10) unfolding within_def by blast
    with sets k run 1(2) new show thesis by simp
  next
    case 2
    with call n have "res = Panic" by (simp add: MemorySet_new_def bindP_def)
    with bit_alloc.new_set_fails [OF A sets_okD(1) [OF ok] l, of m'] call exhausted show thesis by blast
  qed
qed

lemma sets_insert:
  assumes A: "bit_alloc A" and ok: "sets_ok A m (ms # S)" and q: "mappable (pt ms) q" "offset_aligned q"
    and call: "ms_insert S2_pte A q (m, ms) = (res, (m', ms'))"
  obtains (inserted) "res = Ok ()" "sets_ok A m' (ms' # S)" "kept A (set S) m m'" "level (pt ms') = level (pt ms)"
      "regions ms' = (if sz q = 0 then regions ms else btm_insert (start q) q (regions ms))"
      "sz q \<noteq> 0 \<Longrightarrow> \<forall>(k, r) \<in> set (regions ms). disjoint_regions r q" "within A m (set (ms # S)) m' (set (ms' # S))"
    | (overlap) "res = Err EINVAL" "\<exists>(k, r) \<in> set (regions ms). \<not> disjoint_regions r q"
    | (exhausted) "res = Err ENOMEM" "\<And>f. \<not> frame_free A (falloc m') f"
proof (cases "sz q = 0")
  case True
  have "is_aligned (start q)" "is_aligned (sz q)" using q by (simp_all add: mappable_def)
  with True call have "res = Ok ()" "m' = m" "ms' = ms" by (auto simp: ms_insert_def)
  moreover have "kept A (set S) m m" by (rule kept_refl, rule sets_ok_sub [OF ok]) (use ok in \<open>auto simp: sets_ok_def\<close>)
  ultimately show thesis using inserted True ok by (simp add: within_refl)
next
  case False
  note hp = hv_paging_formats [of S2_pte, OF _ A, simplified]
  have so: "set_ok A m ms" by (rule sets_okD(2) [OF ok]) simp
  then have mo: "ms_ok S2_pte A m ms" "ms_exact S2_pte m ms" "ms_tight S2_pte m ms" "all_offset ms"
    by (simp_all add: set_ok_def)
  have S: "sets_ok A m S" by (rule sets_ok_sub [OF ok]) (use ok in \<open>auto simp: sets_ok_def\<close>)
  show thesis
  proof (cases rule: hv_paging.insert_cases [OF hp mo(1) q(1) False call])
    case 1
    have fa: "falloc_ok A (falloc m')" using 1(3) by (simp add: ms_ok_def pt_ok_def)
    note k = local_kept [OF ok 1(4) fa]
    have rok: "regions_ok (pt ms) (regions ms)" using mo(1) by (simp add: ms_ok_def)
    have "all_offset ms'"
      using mo(4) q(2) btm_insert_fresh [OF rok 1(2) False] unfolding all_offset_def 1(5) by auto
    with hv_paging.insert_exact [OF hp mo(2,1) False 1(2,5,6)] mo(3) 1(3) have "set_ok A m' ms'" by (simp add: set_ok_def)
    from sets_ok_Cons [OF this kept_sets_ok [OF S k(1)] k(2)]
    show thesis using inserted 1 k(1) False local_within [OF ok 1(4) fa] by (simp add: pt_local_def)
  next
    case 2
    show thesis by (rule overlap [OF 2(1,2)])
  next
    case 3
    have "clear_range S2_pte m (pt ms) (unat (start q)) (region_end q)"
      by (rule hv_paging.ms_clear_range [OF hp mo(2,3) 3(2)])
    with 3(1) exhausted show thesis by blast
  qed
qed

lemma sets_drop:
  assumes A: "bit_alloc A" and ok: "sets_ok A m (ms # S)"
  obtains m' where "MemorySet_drop S2_pte A ms m = (Ok (), m')" "sets_ok A m' S" "kept A (set S) m m'"
    "\<And>q. frame_free A (falloc m') q \<longleftrightarrow> frame_free A (falloc m) q \<or> q \<in> tables m ms" "within A m (set (ms # S)) m' (set S)"
proof -
  note hp = hv_paging_formats [of S2_pte, OF _ A, simplified]
  have mo: "ms_ok S2_pte A m ms" using sets_okD(2) [OF ok, of ms] by (simp add: set_ok_def)
  have S: "sets_ok A m S" by (rule sets_ok_sub [OF ok]) (use ok in \<open>auto simp: sets_ok_def\<close>)
  obtain m1 where c: "ms_clear S2_pte (m, ms) = (Ok () :: (HvErrorNum, unit) outcome, (m1, ms\<lparr>regions := []\<rparr>))"
    and ok1: "pt_ok S2_pte A m1 (pt ms)" and loc: "pt_local S2_pte A m (pt ms) m1 (pt ms)"
    by (rule hv_paging.clear_all [OF hp mo])
  note d = pt_okD [OF ok1]
  note k = local_kept [OF ok loc d(1)]
  let ?fs = "root (pt ms) # intrm_tables (pt ms)"
  have "\<forall>f \<in> set ?fs. frame_count f = 1 \<and> in_pool (falloc m1) (start_paddr f) \<and> \<not> frame_free A (falloc m1) (start_paddr f)"
    using d(6,7,8) unfolding d(4) tracked_def set_map by blast
  from bit_alloc.drop_frames_used [OF A d(1) this d(5) [unfolded tracked_def]] obtain t where
    t: "drop_frames A ?fs m1 = (Ok () :: (HvErrorNum, unit) outcome, t)" "falloc_ok A (falloc t)" "bytes t = bytes m1"
      "base (falloc t) = base (falloc m1)"
      "\<forall>q. frame_free A (falloc t) q \<longleftrightarrow> frame_free A (falloc m1) q \<or> q \<in> start_paddr ` set ?fs" by blast
  have tr: "start_paddr ` set ?fs = tables m1 ms" unfolding d(4) by (simp add: tracked_def)
  have same: "tables m1 ms = tables m ms"
    unfolding d(4) using pt_okD(4) [of S2_pte A m "pt ms"] mo by (simp add: ms_ok_def)
  have fr: "frame_free A (falloc t) q \<longleftrightarrow> frame_free A (falloc m) q \<or> q \<in> tables m ms" for q
    using t(5) loc unfolding tr pt_local_def same by blast
  have "\<not> frame_free A (falloc t) q" if "x \<in> set S" "q \<in> tables m1 x" for x q
    using t(5) k(2) [OF that(1)] that(2) pt_ok_used(2) [OF sets_okD(3) [OF kept_sets_ok [OF S k(1)] that(1)] that(2)]
    unfolding tr by blast
  then have "kept A (set S) m1 t" using t(2-4) unfolding kept_def by simp
  then have kt: "kept A (set S) m t" by (rule kept_trans [OF S k(1)])
  have "held A t (set S) = held A m (set (ms # S))" using fr kept_tables [OF S kt] by (auto simp: held_def)
  moreover have "within A m (set (ms # S)) m1 (set (ms # S))" by (rule local_within [OF ok loc d(1)])
  ultimately have "within A m (set (ms # S)) t (set S)" using t(3) by (simp add: within_def)
  with kept_sets_ok [OF S kt] kt fr c t(1) that show thesis by (simp add: MemorySet_drop_def)
qed

end
