(* ===== verification/Hv_Zone.thy ===== *)
theory Hv_Zone
  imports Hv_Sets Hv_Virtio
begin

text \<open>
  Creation of zones: \<open>zone.rs\<close> (\<open>Zone::new\<close>, \<open>zone_create\<close>), \<open>arch/aarch64/zone.rs\<close> (the
  stage 2 mappings and MMIO regions of a configuration) and the physical address range of
  \<open>arch/aarch64/mm.rs\<close>, which decides between three and four levels of stage 2 tables.
  \<open>hv_ok\<close> is the invariant of the zones of a running hypervisor. A zone created from a well formed
  configuration sees exactly the memory of that configuration, and nothing changes for the others.
\<close>

section \<open>Physical address range\<close>

definition PARANGE_TABLE :: "usize list" where
  "PARANGE_TABLE = [32, 36, 40, 42, 44, 48]"

partial_function (option) spin_while :: "('s \<Rightarrow> 's) \<Rightarrow> ('s \<Rightarrow> bool) \<Rightarrow> 's \<Rightarrow> 's option" where
  "spin_while tick c s = (if c s then spin_while tick c (tick s) else Some s)"

definition wait_for :: "('s \<Rightarrow> 's) \<Rightarrow> ('s \<Rightarrow> bool) \<Rightarrow> ('s, HvErrorNum, unit) prog" where
  "wait_for tick c s = (case spin_while tick c s of Some t \<Rightarrow> (Ok (), t) | None \<Rightarrow> (Hang, s))"

definition parange_join :: "('b, 'd) env \<Rightarrow> u64 \<Rightarrow> ('b, 'd, unit) hvp" where
  "parange_join E me =
     bindP (read_sysreg E me ID_AA64MMFR0_EL1) (\<lambda>v.
     let temp_parange = v AND 0xf in
     bindP (modifyP (\<lambda>s. s\<lparr>MIN_PARANGE := min (MIN_PARANGE s) temp_parange\<rparr>)) (\<lambda>_.
     modifyP (\<lambda>s. s\<lparr>PARANGE_OK_CPUS := PARANGE_OK_CPUS s + 1\<rparr>)))"

definition parange_pending :: "('b, 'd) hv \<Rightarrow> bool" where
  "parange_pending s \<longleftrightarrow> PARANGE_OK_CPUS s < ucast MAX_CPU_NUM"

definition setup_parange :: "('b, 'd) env \<Rightarrow> ('b, 'd) tick \<Rightarrow> u64 \<Rightarrow> ('b, 'd, unit) hvp" where
  "setup_parange E tick me = bindP (parange_join E me) (\<lambda>_. wait_for tick parange_pending)"

definition get_parange :: "('b, 'd, u64) hvp" where
  "get_parange = bindP (getP PARANGE_OK_CPUS) (\<lambda>n. bindP (liftP (rust_assert (n = ucast MAX_CPU_NUM))) (\<lambda>_. getP MIN_PARANGE))"

definition get_parange_bits :: "('b, 'd, usize) hvp" where
  "get_parange_bits =
     bindP (getP PARANGE_OK_CPUS) (\<lambda>n. bindP (liftP (rust_assert (n = ucast MAX_CPU_NUM))) (\<lambda>_.
     bindP (getP MIN_PARANGE) (\<lambda>p. liftP (if unat p < length PARANGE_TABLE then Ok (PARANGE_TABLE ! unat p) else Panic))))"

definition is_s2_pt_level3 :: "('b, 'd, bool) hvp" where
  "is_s2_pt_level3 = bindP get_parange_bits (\<lambda>n. retP (n < 44))"

definition new_s2_memory_set :: "('b, 'd) env \<Rightarrow> ('b, 'd, MemorySet) hvp" where
  "new_s2_memory_set E = bindP is_s2_pt_level3 (\<lambda>b. with_mem (MemorySet_new (bits E) (if b then 3 else 4)))"

section \<open>A new zone\<close>

definition Zone_new :: "('b, 'd) env \<Rightarrow> usize \<Rightarrow> ('b, 'd, Zone) hvp" where
  "Zone_new E zoneid = bindP (new_s2_memory_set E) (\<lambda>g. retP
     \<lparr>zid = zoneid, mmio = [], cpu_set = CpuSet_new MAX_CPU_NUM 0, irq_bitmap = replicate (1024 div 32) 0, gpm = g\<rparr>)"

definition gpm_insert :: "('b, 'd) env \<Rightarrow> MemoryRegion \<Rightarrow> Zone \<Rightarrow> ('b, 'd, Zone) hvp" where
  "gpm_insert E r self s = (case ms_insert S2_pte (bits E) r (mem s, gpm self) of
     (res, (m', g')) \<Rightarrow> (bind_out res (\<lambda>_. Ok (self\<lparr>gpm := g'\<rparr>)), s\<lparr>mem := m'\<rparr>))"

definition region_flags :: "HvConfigMemoryRegion \<Rightarrow> MemFlags" where
  "region_flags r = (if mem_type r = MEM_TYPE_IO then READ OR WRITE OR EXECUTE OR IO else READ OR WRITE OR EXECUTE)"

definition config_region :: "HvConfigMemoryRegion \<Rightarrow> MemoryRegion" where
  "config_region r = new_with_offset_mapper (virtual_start r) (physical_start r) (mr_size r) (region_flags r)"

fun pt_init :: "('b, 'd) env \<Rightarrow> HvConfigMemoryRegion list \<Rightarrow> Zone \<Rightarrow> ('b, 'd, Zone) hvp" where
  "pt_init E [] self = retP self"
| "pt_init E (r # rs) self =
     bindP (if mem_type r = MEM_TYPE_RAM \<or> mem_type r = MEM_TYPE_IO then gpm_insert E (config_region r) self
       else if mem_type r = MEM_TYPE_VIRTIO then
         liftP (mmio_region_register self (physical_start r) (mr_size r) Mmio_virtio_handler (physical_start r))
       else liftP Panic) (pt_init E rs)"

definition mmio_init :: "Zone \<Rightarrow> HvArchZoneConfig \<Rightarrow> ('b, 'd, Zone) hvp" where
  "mmio_init self a = vgicv3_mmio_init self a"

section \<open>Creating a zone\<close>

text \<open>Overwriting a handle drops the old one; the last handle takes the zone with it.\<close>

definition release :: "('b, 'd) env \<Rightarrow> zone_ptr option \<Rightarrow> ('b, 'd, unit) hvp" where
  "release E old s = (case old of None \<Rightarrow> (Ok (), s)
     | Some z \<Rightarrow> if z \<in> set (ZONE_LIST s) \<or> list_ex (\<lambda>c. zone c = Some z) (percpu s) then (Ok (), s) else drop_zone E z s)"

fun find_dtb_ipa :: "u64 \<Rightarrow> HvConfigMemoryRegion list \<Rightarrow> u64 \<Rightarrow> (HvErrorNum, u64) outcome" where
  "find_dtb_ipa dtb [] ipa = Ok ipa"
| "find_dtb_ipa dtb (r # rs) ipa =
     bind_out (if physical_start r \<le> dtb
         then bind_out (add_chk (physical_start r) (mr_size r)) (\<lambda>e. Ok (e > dtb)) else Ok False) (\<lambda>hit.
     bind_out (if hit then bind_out (add_chk (virtual_start r) dtb) (\<lambda>x. sub_chk x (physical_start r)) else Ok ipa)
       (find_dtb_ipa dtb rs))"

definition assign_cpu :: "('b, 'd) env \<Rightarrow> zone_ptr \<Rightarrow> CpuSet \<Rightarrow> usize \<Rightarrow> usize \<Rightarrow> usize \<Rightarrow> ('b, 'd, unit) hvp" where
  "assign_cpu E z cs entry dtb c =
     bindP (get_cpu_data E c) (\<lambda>old.
     bindP (update_cpu_data E c (\<lambda>d. d\<lparr>zone := Some z\<rparr>)) (\<lambda>_.
     bindP (release E (zone old)) (\<lambda>_.
     bindP (liftP (first_cpu cs)) (\<lambda>fc. bindP (liftP (unwrap_opt fc)) (\<lambda>f.
     update_cpu_data E c (\<lambda>d. d\<lparr>cpu_on_entry := entry, dtb_ipa := dtb, boot_cpu := (c = f \<or> boot_cpu d)\<rparr>))))))"

text \<open>The second half of \<open>zone_create\<close>: the CPUs of the configuration and the entry in the list.\<close>

definition zone_install :: "('b, 'd) env \<Rightarrow> HvZoneConfig \<Rightarrow> HvConfigMemoryRegion list \<Rightarrow> Zone \<Rightarrow> ('b, 'd, zone_ptr) hvp" where
  "zone_install E config rs zn =
     bindP (liftP (set_bits (cpus config) (cpu_set zn))) (\<lambda>cs.
     bindP (liftP (find_dtb_ipa (dtb_load_paddr config) rs (psci_INVALID_ADDRESS E))) (\<lambda>dtb.
     bindP (Arc_new (zn\<lparr>cpu_set := cs\<rparr>)) (\<lambda>z.
     bindP (liftP (cpu_iter cs)) (\<lambda>ids.
     bindP (forP ids (assign_cpu E z cs (entry_point config) dtb)) (\<lambda>_.
     bindP (add_zone z) (\<lambda>_. retP z))))))"

definition zone_create :: "('b, 'd) env \<Rightarrow> HvZoneConfig \<Rightarrow> ('b, 'd, zone_ptr) hvp" where
  "zone_create E config =
     (let zone_id = ucast (zone_id config) in
     bindP (find_zone zone_id) (\<lambda>found. if found \<noteq> None then errP EEXIST else
     bindP (Zone_new E zone_id) (\<lambda>zn.
     bindP (liftP (memory_regions config)) (\<lambda>rs.
     bindP (unwrapP (pt_init E rs zn)) (\<lambda>zn.
     bindP (mmio_init zn (arch config)) (\<lambda>zn.
     bindP (liftP (interrupts config)) (\<lambda>irqs.
     bindP (liftP (irq_bitmap_init irqs zn)) (zone_install E config rs))))))))"

section \<open>What a configuration says\<close>

abbreviation is_virtio :: "HvConfigMemoryRegion \<Rightarrow> bool" where
  "is_virtio r \<equiv> mem_type r = MEM_TYPE_VIRTIO"

definition region_good :: "nat \<Rightarrow> HvConfigMemoryRegion \<Rightarrow> bool" where
  "region_good lim r \<longleftrightarrow> mem_type r \<in> {MEM_TYPE_RAM, MEM_TYPE_IO, MEM_TYPE_VIRTIO} \<and> mr_size r \<noteq> 0 \<and>
     unat (physical_start r) + unat (mr_size r) < 2 ^ 64 \<and>
     (\<not> is_virtio r \<longrightarrow> is_aligned (virtual_start r) \<and> is_aligned (physical_start r) \<and> is_aligned (mr_size r) \<and>
        unat (virtual_start r) + unat (mr_size r) \<le> lim \<and> unat (physical_start r) + unat (mr_size r) \<le> 2 ^ 48)"

definition config_maps :: "HvConfigMemoryRegion list \<Rightarrow> VirtAddr \<Rightarrow> (PhysAddr \<times> MemFlags) option" where
  "config_maps rs v = map_option (\<lambda>r. (physical_start r + (v - virtual_start r), norm_flags (region_flags r)))
     (find (\<lambda>r. \<not> is_virtio r \<and> in_region (config_region r) v) rs)"

definition virtio_config :: "HvConfigMemoryRegion \<Rightarrow> MMIOConfig" where
  "virtio_config r = \<lparr>region = \<lparr>mmio_start = physical_start r, mmio_size = mr_size r\<rparr>, handler = Mmio_virtio_handler,
     arg = physical_start r\<rparr>"

lemma config_region_simps [simp]:
  "start (config_region r) = virtual_start r" "sz (config_region r) = mr_size r" "flags (config_region r) = region_flags r"
  "mapper (config_region r) = Offset (virtual_start r - physical_start r)"
  by (simp_all add: config_region_def new_with_offset_mapper_def MemoryRegion_new_def Let_def)

lemma config_region_mappable:
  assumes "region_good (va_limit p) r" "\<not> is_virtio r"
  shows "mappable p (config_region r)" "offset_aligned (config_region r)"
proof -
  have g: "is_aligned (virtual_start r)" "is_aligned (physical_start r)" "is_aligned (mr_size r)"
    "unat (virtual_start r) + unat (mr_size r) \<le> va_limit p" "unat (physical_start r) + unat (mr_size r) \<le> 2 ^ 48"
    using assms by (simp_all add: region_good_def)
  show "offset_aligned (config_region r)" using is_aligned_diff [OF g(1,2)] by (simp add: offset_aligned_def)
  have "unat (v - (virtual_start r - physical_start r)) < 2 ^ 48" if "in_region (config_region r) v" for v
  proof -
    have u: "unat (virtual_start r) \<le> unat v" "unat v < unat (virtual_start r) + unat (mr_size r)"
      using that by (simp_all add: in_region_def)
    then have d: "unat (v - virtual_start r) = unat v - unat (virtual_start r)" by (simp add: unat_sub word_le_nat_alt)
    have "unat (physical_start r + (v - virtual_start r)) = unat (physical_start r) + unat (v - virtual_start r)"
      by (rule unat_add_exact) (use u d g(5) in simp)
    with u d g(5) have "unat (physical_start r + (v - virtual_start r)) < 2 ^ 48" by simp
    then show ?thesis by (simp add: algebra_simps)
  qed
  with g show "mappable p (config_region r)" by (simp add: mappable_def)
qed

section \<open>Filling the memory set of a new zone\<close>

lemma region_of_iff:
  assumes "regions_ok p (regions ms)"
  shows "region_of ms v = Some r \<longleftrightarrow> (\<exists>k. (k, r) \<in> set (regions ms) \<and> in_region r v)" (is ?some)
    and "region_of ms v = None \<longleftrightarrow> (\<forall>(k, r) \<in> set (regions ms). \<not> in_region r v)"
proof -
  have one: "r = r'" if "(k, r) \<in> set (regions ms)" "(k', r') \<in> set (regions ms)" "in_region r v" "in_region r' v" for k k' r r'
  proof -
    have "k = k'"
    proof (rule ccontr)
      assume "k \<noteq> k'"
      with assms that(1,2) have "disjoint_regions r r'" unfolding regions_ok_def by blast
      from disjoint_no_common [OF this, of "unat v"] that(3,4) show False by (auto simp: in_region_def)
    qed
    moreover have "btm_sorted (regions ms)" using assms by (simp add: regions_ok_def)
    ultimately show ?thesis using that(1,2) btm_lookup by (metis option.inject)
  qed
  show ?some
  proof
    assume "region_of ms v = Some r"
    then show "\<exists>k. (k, r) \<in> set (regions ms) \<and> in_region r v"
      by (auto simp: region_of_def find_Some_iff) (metis nth_mem prod.collapse)
  next
    assume "\<exists>k. (k, r) \<in> set (regions ms) \<and> in_region r v"
    then obtain k where k: "(k, r) \<in> set (regions ms)" "in_region r v" by blast
    show "region_of ms v = Some r"
    proof (cases "region_of ms v")
      case None
      with k show ?thesis by (force simp: region_of_def find_None_iff)
    next
      case (Some r')
      then obtain k' where "(k', r') \<in> set (regions ms)" "in_region r' v"
        by (auto simp: region_of_def find_Some_iff) (metis nth_mem prod.collapse)
      with one [OF k(1) this(1) k(2) this(2)] Some show ?thesis by simp
    qed
  qed
  show "region_of ms v = None \<longleftrightarrow> (\<forall>(k, r) \<in> set (regions ms). \<not> in_region r v)"
    by (force simp: region_of_def find_None_iff)
qed

lemma spec_query_insert:
  assumes "regions_ok p (regions ms)" "regions_ok p' (regions ms')"
    and "set (regions ms') = insert (start q, q) (set (regions ms))"
  shows "spec_query ms' v = (if in_region q v then Some (map_fn (mapper q) v, norm_flags (flags q)) else spec_query ms v)"
proof -
  have "region_of ms' v = (if in_region q v then Some q else region_of ms v)"
  proof (cases "in_region q v")
    case True
    with assms(3) region_of_iff(1) [OF assms(2), of v q] show ?thesis by auto
  next
    case False
    have "region_of ms' v = Some r \<longleftrightarrow> region_of ms v = Some r" for r
      using False unfolding region_of_iff(1) [OF assms(1)] region_of_iff(1) [OF assms(2)] assms(3) by auto
    with False show ?thesis by (metis not_None_eq)
  qed
  then show ?thesis by (simp add: spec_query_def)
qed

definition regions_apart :: "HvConfigMemoryRegion list \<Rightarrow> bool" where
  "regions_apart rs \<longleftrightarrow> sorted_wrt (\<lambda>r q. \<not> is_virtio r \<and> \<not> is_virtio q \<longrightarrow>
     disjoint_regions (config_region r) (config_region q)) rs"

definition mmio_starts :: "MMIOConfig list \<Rightarrow> usize list" where
  "mmio_starts cs = map (\<lambda>c. mmio_start (region c)) cs"

lemma mmio_starts_simps [simp]:
  "mmio_starts [] = []" "mmio_starts (c # cs) = mmio_start (region c) # mmio_starts cs"
  "mmio_starts (cs @ ds) = mmio_starts cs @ mmio_starts ds"
  by (simp_all add: mmio_starts_def)

lemma register_new:
  assumes "st \<notin> set (mmio_starts (mmio self))"
  shows "mmio_region_register self st n h a =
    Ok (self\<lparr>mmio := mmio self @ [\<lparr>region = \<lparr>mmio_start = st, mmio_size = n\<rparr>, handler = h, arg = a\<rparr>]\<rparr>)"
proof -
  have "\<forall>c \<in> set (mmio self). mmio_start (region c) \<noteq> st" using assms by (auto simp: mmio_starts_def)
  from register_in_new [OF this] show ?thesis by (simp add: mmio_region_register_def)
qed

lemma gpm_insert_run:
  assumes A: "bit_alloc (bits E)" and ok: "sets_ok (bits E) (mem s) (gpm z # S)"
    and r: "region_good (va_limit (pt (gpm z))) r" "\<not> is_virtio r"
    and dis: "\<forall>(k, q) \<in> set (regions (gpm z)). disjoint_regions q (config_region r)"
  obtains (inserted) m' g' where "gpm_insert E (config_region r) z s = (Ok (z\<lparr>gpm := g'\<rparr>), s\<lparr>mem := m'\<rparr>)"
      "sets_ok (bits E) m' (g' # S)" "kept (bits E) (set S) (mem s) m'" "level (pt g') = level (pt (gpm z))"
      "set (regions g') = insert (virtual_start r, config_region r) (set (regions (gpm z)))"
      "\<And>v. spec_query g' v = (if in_region (config_region r) v
         then Some (physical_start r + (v - virtual_start r), norm_flags (region_flags r)) else spec_query (gpm z) v)"
      "within (bits E) (mem s) (set (gpm z # S)) m' (set (g' # S))"
    | (exhausted) t where "gpm_insert E (config_region r) z s = (Err ENOMEM, t)" "\<And>f. \<not> frame_free (bits E) (falloc (mem t)) f"
proof -
  note m = config_region_mappable [OF r]
  have nz: "sz (config_region r) \<noteq> 0" using r(1) by (simp add: region_good_def)
  obtain res m' g' where call: "ms_insert S2_pte (bits E) (config_region r) (mem s, gpm z) = (res, (m', g'))"
    by (metis prod_cases3)
  have rok: "regions_ok (pt (gpm z)) (regions (gpm z))"
    using sets_okD(2) [OF ok, of "gpm z"] by (simp add: set_ok_def ms_ok_def)
  show thesis
  proof (cases rule: sets_insert [OF A ok m call])
    case 1
    have rok': "regions_ok (pt g') (regions g')"
      using sets_okD(2) [OF 1(2), of g'] by (simp add: set_ok_def ms_ok_def)
    have st: "set (regions g') = insert (start (config_region r), config_region r) (set (regions (gpm z)))"
      using 1(5) nz btm_insert_fresh [OF rok dis nz] by simp
    have "spec_query g' v = (if in_region (config_region r) v
         then Some (physical_start r + (v - virtual_start r), norm_flags (region_flags r)) else spec_query (gpm z) v)" for v
      unfolding spec_query_insert [OF rok rok' st, of v] by (simp add: algebra_simps)
    with 1(1-7) st call inserted show thesis by (simp add: gpm_insert_def)
  next
    case 2
    with dis show thesis by blast
  next
    case 3
    with call exhausted show thesis by (simp add: gpm_insert_def)
  qed
qed

lemma pt_init_run:
  assumes A: "bit_alloc (bits E)" and ok: "sets_ok (bits E) (mem s) (gpm z # S)"
    and good: "\<forall>r \<in> set rs. region_good (va_limit (pt (gpm z))) r"
    and dis: "\<forall>r \<in> set rs. \<not> is_virtio r \<longrightarrow> (\<forall>(k, q) \<in> set (regions (gpm z)). disjoint_regions q (config_region r))"
    and ap: "regions_apart rs"
    and mm: "distinct (mmio_starts (mmio z @ map virtio_config (filter is_virtio rs)))"
  obtains (ok) m' g' where
      "pt_init E rs z s = (Ok (z\<lparr>gpm := g', mmio := mmio z @ map virtio_config (filter is_virtio rs)\<rparr>), s\<lparr>mem := m'\<rparr>)"
      "sets_ok (bits E) m' (g' # S)" "kept (bits E) (set S) (mem s) m'" "level (pt g') = level (pt (gpm z))"
      "\<And>v. spec_query g' v = (case spec_query (gpm z) v of Some x \<Rightarrow> Some x | None \<Rightarrow> config_maps rs v)"
      "within (bits E) (mem s) (set (gpm z # S)) m' (set (g' # S))"
    | (exhausted) t where "pt_init E rs z s = (Err ENOMEM, t)" "\<And>f. \<not> frame_free (bits E) (falloc (mem t)) f"
  using assms
proof (induction rs arbitrary: z s thesis)
  case Nil
  have "sets_ok (bits E) (mem s) S" by (rule sets_ok_sub [OF Nil.prems(4)]) (use Nil.prems(4) in \<open>auto simp: sets_ok_def\<close>)
  from Nil.prems(1) [of "gpm z" "mem s"] Nil.prems(4) kept_refl [OF this] show ?case
    by (simp add: config_maps_def within_refl split: option.splits)
next
  case (Cons r rs)
  note A = Cons.prems(3) and ok = Cons.prems(4)
  have ap: "regions_apart rs" using Cons.prems(7) by (simp add: regions_apart_def)
  show ?case
  proof (cases "is_virtio r")
    case True
    then have t: "mem_type r \<noteq> MEM_TYPE_RAM" "mem_type r \<noteq> MEM_TYPE_IO"
      by (simp_all add: MEM_TYPE_VIRTIO_def MEM_TYPE_RAM_def MEM_TYPE_IO_def)
    let ?z = "z\<lparr>mmio := mmio z @ [virtio_config r]\<rparr>"
    have "mmio_region_register z (physical_start r) (mr_size r) Mmio_virtio_handler (physical_start r) = Ok ?z"
      unfolding virtio_config_def by (rule register_new) (use Cons.prems(8) True in \<open>auto simp: virtio_config_def\<close>)
    then have run: "pt_init E (r # rs) z s = pt_init E rs ?z s" using True t by (simp add: bindP_simps)
    have cm: "config_maps (r # rs) v = config_maps rs v" for v using True by (simp add: config_maps_def)
    show ?thesis
    proof (rule Cons.IH [of ?z s])
      show "bit_alloc (bits E)" "regions_apart rs" "sets_ok (bits E) (mem s) (gpm ?z # S)" using A ap ok by simp_all
      show "\<forall>r\<in>set rs. region_good (va_limit (pt (gpm ?z))) r"
        "\<forall>r\<in>set rs. \<not> is_virtio r \<longrightarrow> (\<forall>(k, q)\<in>set (regions (gpm ?z)). disjoint_regions q (config_region r))"
        using Cons.prems(5,6) by simp_all
      show "distinct (mmio_starts (mmio ?z @ map virtio_config (filter is_virtio rs)))"
        using Cons.prems(8) True by simp
    next
      fix m' g' assume "pt_init E rs ?z s = (Ok (?z\<lparr>gpm := g', mmio := mmio ?z @ map virtio_config (filter is_virtio rs)\<rparr>), s\<lparr>mem := m'\<rparr>)"
        "sets_ok (bits E) m' (g' # S)" "kept (bits E) (set S) (mem s) m'" "level (pt g') = level (pt (gpm ?z))"
        "\<And>v. spec_query g' v = (case spec_query (gpm ?z) v of Some x \<Rightarrow> Some x | None \<Rightarrow> config_maps rs v)"
        "within (bits E) (mem s) (set (gpm ?z # S)) m' (set (g' # S))"
      then show thesis by (intro Cons.prems(1) [of g' m']) (simp_all add: run True cm del: pt_init.simps split: option.split)
    qed (use Cons.prems(2) in \<open>simp add: run del: pt_init.simps\<close>)
  next
    case False
    have good: "region_good (va_limit (pt (gpm z))) r" and dis: "\<forall>(k, q) \<in> set (regions (gpm z)). disjoint_regions q (config_region r)"
      using Cons.prems(5,6) False by simp_all
    have t: "mem_type r = MEM_TYPE_RAM \<or> mem_type r = MEM_TYPE_IO" using good False by (auto simp: region_good_def)
    show ?thesis
    proof (cases rule: gpm_insert_run [OF A ok good False dis])
      case (1 m1 g1)
      let ?z = "z\<lparr>gpm := g1\<rparr>" and ?s = "s\<lparr>mem := m1\<rparr>"
      have run: "pt_init E (r # rs) z s = pt_init E rs ?z ?s" using t 1(1) by (auto simp: bindP_simps)
      have S: "sets_ok (bits E) (mem s) S" by (rule sets_ok_sub [OF ok]) (use ok in \<open>auto simp: sets_ok_def\<close>)
      have lim: "va_limit (pt g1) = va_limit (pt (gpm z))" using 1(4) by (simp add: va_limit_def)
      show ?thesis
      proof (rule Cons.IH [of ?z ?s])
        show "bit_alloc (bits E)" "regions_apart rs" "sets_ok (bits E) (mem ?s) (gpm ?z # S)" using A ap 1(2) by simp_all
        show "\<forall>r\<in>set rs. region_good (va_limit (pt (gpm ?z))) r" using Cons.prems(5) lim by simp
        show "\<forall>r'\<in>set rs. \<not> is_virtio r' \<longrightarrow> (\<forall>(k, q)\<in>set (regions (gpm ?z)). disjoint_regions q (config_region r'))"
          using Cons.prems(6,7) False 1(5) by (auto simp: regions_apart_def)
        show "distinct (mmio_starts (mmio ?z @ map virtio_config (filter is_virtio rs)))"
          using Cons.prems(8) False by simp
      next
        fix m' g' assume *: "pt_init E rs ?z ?s = (Ok (?z\<lparr>gpm := g', mmio := mmio ?z @ map virtio_config (filter is_virtio rs)\<rparr>), ?s\<lparr>mem := m'\<rparr>)"
          "sets_ok (bits E) m' (g' # S)" "kept (bits E) (set S) (mem ?s) m'" "level (pt g') = level (pt (gpm ?z))"
          "\<And>v. spec_query g' v = (case spec_query (gpm ?z) v of Some x \<Rightarrow> Some x | None \<Rightarrow> config_maps rs v)"
          "within (bits E) (mem ?s) (set (gpm ?z # S)) m' (set (g' # S))"
        have w: "within (bits E) (mem s) (set (gpm z # S)) m' (set (g' # S))" using within_trans [OF 1(7)] *(6) by simp
        have k: "kept (bits E) (set S) (mem s) m'" using kept_trans [OF S 1(3)] *(3) by simp
        have "spec_query g' v = (case spec_query (gpm z) v of Some x \<Rightarrow> Some x | None \<Rightarrow> config_maps (r # rs) v)" for v
        proof -
          have "spec_query (gpm z) v = None" if "in_region (config_region r) v"
          proof -
            have "regions_ok (pt (gpm z)) (regions (gpm z))"
              using sets_okD(2) [OF ok, of "gpm z"] by (simp add: set_ok_def ms_ok_def)
            from region_of_iff(2) [OF this, of v] dis disjoint_no_common that show ?thesis
              by (fastforce simp: spec_query_def in_region_def)
          qed
          with *(5) [of v] 1(6) [of v] False show ?thesis by (auto simp: config_maps_def split: option.splits)
        qed
        with *(1-5) w k 1(4) show thesis by (intro Cons.prems(1) [of g' m']) (simp_all add: run False del: pt_init.simps)
      qed (use Cons.prems(2) in \<open>simp add: run del: pt_init.simps\<close>)
    next
      case (2 t')
      with t Cons.prems(2) show ?thesis by (auto simp: bindP_simps)
    qed
  qed
qed

section \<open>The other steps of a creation\<close>

definition gicr_config :: "usize \<Rightarrow> usize \<Rightarrow> MMIOConfig" where
  "gicr_config gicr c = \<lparr>region = \<lparr>mmio_start = gicr + c * PER_GICR_SIZE, mmio_size = PER_GICR_SIZE\<rparr>,
     handler = Vgicv3_redist_handler, arg = c\<rparr>"

definition gic_configs :: "Gic \<Rightarrow> HvArchZoneConfig \<Rightarrow> MMIOConfig list" where
  "gic_configs g a =
     \<lparr>region = \<lparr>mmio_start = (if gicd_base a = 0 then host_gicd g else gicd_base a),
        mmio_size = (if gicd_size a = 0 then host_gicd_sz g else gicd_size a)\<rparr>, handler = Vgicv3_dist_handler, arg = 0\<rparr> #
     map (gicr_config (if gicr_base a = 0 then host_gicr g else gicr_base a)) (map of_nat [0..<4])"

lemma register_gicrs_run:
  assumes "\<forall>c \<in> set cs. unat gicr + unat (c * PER_GICR_SIZE) < 2 ^ 64" "distinct (mmio_starts (mmio z @ map (gicr_config gicr) cs))"
  shows "register_gicrs gicr cs z = Ok (z\<lparr>mmio := mmio z @ map (gicr_config gicr) cs\<rparr>)"
  using assms
proof (induction cs arbitrary: z)
  case (Cons c cs)
  have "mmio_region_register z (gicr + c * PER_GICR_SIZE) PER_GICR_SIZE Vgicv3_redist_handler c =
      Ok (z\<lparr>mmio := mmio z @ [gicr_config gicr c]\<rparr>)"
    unfolding gicr_config_def by (rule register_new) (use Cons.prems(2) in \<open>auto simp: gicr_config_def\<close>)
  moreover have "add_chk gicr (c * PER_GICR_SIZE) = (Ok (gicr + c * PER_GICR_SIZE) :: (HvErrorNum, usize) outcome)" using Cons.prems(1) by (simp add: add_chk_def)
  ultimately show ?case using Cons.IH [of "z\<lparr>mmio := mmio z @ [gicr_config gicr c]\<rparr>"] Cons.prems by auto
qed simp

lemma mmio_init_run:
  assumes "GIC s = Some g" "unat (if gicr_base a = 0 then host_gicr g else gicr_base a) + 0x80000 < 2 ^ 64"
    and "distinct (mmio_starts (mmio z @ gic_configs g a))"
  shows "mmio_init z a s = (Ok (z\<lparr>mmio := mmio z @ gic_configs g a\<rparr>), s)"
proof -
  let ?gd = "if gicd_base a = 0 then host_gicd g else gicd_base a" and ?gr = "if gicr_base a = 0 then host_gicr g else gicr_base a"
  let ?n = "if gicd_size a = 0 then host_gicd_sz g else gicd_size a"
  let ?d = "\<lparr>region = \<lparr>mmio_start = ?gd, mmio_size = ?n\<rparr>, handler = Vgicv3_dist_handler, arg = 0\<rparr>"
  have "unat ((of_nat c :: usize) * PER_GICR_SIZE) \<le> 3 * 0x20000" if "c < 4" for c
  proof -
    have "c = 0 \<or> c = 1 \<or> c = 2 \<or> c = 3" using that by auto
    then show ?thesis by (auto simp: PER_GICR_SIZE_def)
  qed
  then have o: "\<forall>c \<in> set (map of_nat [0..<4]). unat ?gr + unat (c * PER_GICR_SIZE) < 2 ^ 64"
    using assms(2) by fastforce
  have 1: "mmio_region_register z ?gd ?n Vgicv3_dist_handler 0 = Ok (z\<lparr>mmio := mmio z @ [?d]\<rparr>)"
    by (rule register_new) (use assms(3) in \<open>simp add: gic_configs_def\<close>)
  have "distinct (mmio_starts (mmio (z\<lparr>mmio := mmio z @ [?d]\<rparr>) @ map (gicr_config ?gr) (map of_nat [0..<4])))"
    using assms(3) by (simp add: gic_configs_def)
  from register_gicrs_run [OF o this] have 2: "register_gicrs ?gr (map of_nat [0..<4]) (z\<lparr>mmio := mmio z @ [?d]\<rparr>) =
      Ok (z\<lparr>mmio := mmio z @ gic_configs g a\<rparr>)" by (simp add: gic_configs_def)
  have b: "(if gicd_base a = 0 then host_gicd_base else retP (gicd_base a)) s = (Ok ?gd, s)"
    "(if gicr_base a = 0 then host_gicr_base 0 else retP (gicr_base a)) s = (Ok ?gr, s)"
    "(if gicd_size a = 0 then host_gicd_size else retP (gicd_size a)) s = (Ok ?n, s)"
    using assms(1) by (simp_all add: host_gicd_base_def host_gicr_base_def host_gicd_size_def gic_get_def bindP_simps
      MAX_CPU_NUM_def mul_chk_def add_chk_def)
  have m: "unat MAX_CPU_NUM = 4" by (simp add: MAX_CPU_NUM_def)
  show ?thesis
    unfolding mmio_init_def vgicv3_mmio_init_def m bindP_def b by (simp add: b 1 2)
qed

definition dtb_in :: "u64 \<Rightarrow> HvConfigMemoryRegion \<Rightarrow> bool" where
  "dtb_in dtb r \<longleftrightarrow> unat (physical_start r) \<le> unat dtb \<and> unat dtb < unat (physical_start r) + unat (mr_size r)"

lemma find_dtb_ipa_Ok:
  assumes "\<forall>r \<in> set rs. unat (physical_start r) + unat (mr_size r) < 2 ^ 64 \<and>
    (dtb_in dtb r \<longrightarrow> unat (virtual_start r) + unat dtb < 2 ^ 64)"
  shows "find_dtb_ipa dtb rs d = Ok (case find (dtb_in dtb) (rev rs) of
    Some r \<Rightarrow> virtual_start r + dtb - physical_start r | None \<Rightarrow> d)"
  using assms
proof (induction rs arbitrary: d)
  case (Cons r rs)
  let ?p = "physical_start r" and ?n = "mr_size r" and ?v = "virtual_start r"
  have r: "unat ?p + unat ?n < 2 ^ 64" "dtb_in dtb r \<longrightarrow> unat ?v + unat dtb < 2 ^ 64"
    and rs: "\<forall>r \<in> set rs. unat (physical_start r) + unat (mr_size r) < 2 ^ 64 \<and>
      (dtb_in dtb r \<longrightarrow> unat (virtual_start r) + unat dtb < 2 ^ 64)" using Cons.prems by simp_all
  have hit: "(if ?p \<le> dtb then bind_out (add_chk ?p ?n) (\<lambda>e. Ok (e > dtb)) else Ok False) =
      (Ok (dtb_in dtb r) :: (HvErrorNum, bool) outcome)"
    using r(1) by (auto simp: dtb_in_def add_chk_def word_le_nat_alt word_less_nat_alt unat_add_exact)
  have ipa: "(bind_out (add_chk ?v dtb) (\<lambda>x. sub_chk x ?p) :: (HvErrorNum, u64) outcome) = Ok (?v + dtb - ?p)" if "dtb_in dtb r"
  proof -
    have "unat (?v + dtb) = unat ?v + unat dtb" using r(2) that by (intro unat_add_exact) simp
    with r(2) that show ?thesis by (simp add: add_chk_def sub_chk_def dtb_in_def word_le_nat_alt)
  qed
  have fa: "find p (xs @ [y]) = (case find p xs of Some x \<Rightarrow> Some x | None \<Rightarrow> if p y then Some y else None)" for p xs and y :: HvConfigMemoryRegion
    by (induction xs) auto
  show ?case
    using Cons.IH [OF rs] by (cases "dtb_in dtb r") (auto simp: hit ipa fa split: option.splits)
qed simp

definition assigned :: "zone_ptr \<Rightarrow> usize \<Rightarrow> usize \<Rightarrow> usize \<Rightarrow> usize \<Rightarrow> PerCpu \<Rightarrow> PerCpu" where
  "assigned z f entry dtb c d = d\<lparr>zone := Some z, cpu_on_entry := entry, dtb_ipa := dtb, boot_cpu := (c = f \<or> boot_cpu d)\<rparr>"

lemma assign_cpu_run:
  assumes wf: "cpus_wf E s" "unat c < 4" and f: "first_cpu cs = Ok (Some f)"
    and old: "\<forall>z'. zone (percpu s ! unat c) = Some z' \<longrightarrow> z' \<in> set (ZONE_LIST s)"
  shows "assign_cpu E z cs entry dtb c s =
    (Ok (), s\<lparr>percpu := (percpu s)[unat c := assigned z f entry dtb c (percpu s ! unat c)]\<rparr>)"
proof -
  have len: "unat c < length (percpu s)" using cpus_wf_D [OF wf(1)] wf(2) by simp
  let ?s = "s\<lparr>percpu := (percpu s)[unat c := (percpu s ! unat c)\<lparr>zone := Some z\<rparr>]\<rparr>"
  have "release E (zone (percpu s ! unat c)) ?s = (Ok (), ?s)"
    using old by (cases "zone (percpu s ! unat c)") (simp_all add: release_def)
  then show ?thesis
    using f len update_cpu_data_in [OF wf, where f = "\<lambda>d. d\<lparr>zone := Some z\<rparr>"]
      update_cpu_data_in [of E ?s c, OF _ wf(2)] wf(1)
    by (simp add: assign_cpu_def bindP_simps get_cpu_data_in [OF wf] assigned_def)
qed

lemma assign_cpus_run:
  assumes "cpus_wf E s" "\<forall>c \<in> set ids. unat c < 4" "distinct ids" "ids \<noteq> [] \<longrightarrow> first_cpu cs = Ok (Some f)"
    and "\<forall>c \<in> set ids. \<forall>z'. zone (percpu s ! unat c) = Some z' \<longrightarrow> z' \<in> set (ZONE_LIST s)"
  shows "\<exists>ps. forP ids (assign_cpu E z cs entry dtb) s = (Ok (), s\<lparr>percpu := ps\<rparr>) \<and> length ps = length (percpu s) \<and>
    (\<forall>i < 4. ps ! i = (if of_nat i \<in> set ids then assigned z f entry dtb (of_nat i) (percpu s ! i) else percpu s ! i))"
  using assms
proof (induction ids arbitrary: s)
  case (Cons c ids)
  let ?s = "s\<lparr>percpu := (percpu s)[unat c := assigned z f entry dtb c (percpu s ! unat c)]\<rparr>"
  have c: "unat c < 4" using Cons.prems(2) by simp
  have ne: "unat c \<noteq> unat c'" if "c' \<in> set ids" for c' using Cons.prems(3) that by (metis distinct.simps(2) word_unat_eq_iff)
  have run: "assign_cpu E z cs entry dtb c s = (Ok (), ?s)"
    by (rule assign_cpu_run) (use Cons.prems in auto)
  have "\<forall>c' \<in> set ids. \<forall>z'. zone (percpu ?s ! unat c') = Some z' \<longrightarrow> z' \<in> set (ZONE_LIST ?s)"
    using Cons.prems(5) ne by (auto simp: nth_list_update_neq)
  from Cons.IH [of ?s, OF _ _ _ _ this] Cons.prems(1-4) obtain ps where
    ps: "forP ids (assign_cpu E z cs entry dtb) ?s = (Ok (), ?s\<lparr>percpu := ps\<rparr>)" "length ps = length (percpu s)"
      "\<forall>i < 4. ps ! i = (if of_nat i \<in> set ids then assigned z f entry dtb (of_nat i) (percpu ?s ! i) else percpu ?s ! i)"
    by auto
  have "ps ! i = (if of_nat i \<in> set (c # ids) then assigned z f entry dtb (of_nat i) (percpu s ! i) else percpu s ! i)" if "i < 4" for i
  proof -
    have i: "unat (of_nat i :: usize) = i" using that by (intro unat_of_nat_exact) simp
    show ?thesis
    proof (cases "of_nat i = c")
      case True
      then have "i = unat c" "of_nat i \<notin> set ids" using i Cons.prems(3) by auto
      with ps(3) that True cpus_wf_D [OF Cons.prems(1)] show ?thesis by simp
    next
      case False
      then have "unat c \<noteq> i" using i by (metis word_unat_eq_iff)
      with ps(3) that False show ?thesis by simp
    qed
  qed
  with ps(1,2) run show ?case by (intro exI [of _ ps]) (simp add: bindP_simps)
next
  case Nil
  then show ?case by (intro exI [of _ "percpu s"]) simp
qed

section \<open>The invariant of the zones\<close>

definition zone_wf :: "Zone \<Rightarrow> bool" where
  "zone_wf zn \<longleftrightarrow> length (irq_bitmap zn) = 32 \<and> cpuset_wf (cpu_set zn) \<and> members (cpu_set zn) \<subseteq> {..<4}"

definition live_sets :: "('b, 'd) hv \<Rightarrow> MemorySet list" where
  "live_sets s = map (\<lambda>z. gpm (the (zone_at s z))) (ZONE_LIST s) @
     (case PARKING_MEMORY_SET s of Some ms \<Rightarrow> [ms] | None \<Rightarrow> [])"

text \<open>
  Exactly the zones in the list are alive, with different identifiers; their memory sets and the
  parking set are in order and share no table; a CPU that has a zone is a member of its CPU set.
\<close>

definition hv_ok :: "('b, 'd) env \<Rightarrow> ('b, 'd) hv \<Rightarrow> bool" where
  "hv_ok E s \<longleftrightarrow> cpus_wf E s \<and> sets_ok (bits E) (mem s) (live_sets s) \<and> distinct (ZONE_LIST s) \<and>
     (\<forall>z. z \<in> set (ZONE_LIST s) \<longleftrightarrow> zone_at s z \<noteq> None) \<and> (\<forall>z zn. zone_at s z = Some zn \<longrightarrow> zone_wf zn) \<and>
     distinct (map (\<lambda>z. zid (the (zone_at s z))) (ZONE_LIST s)) \<and>
     (\<forall>i < 4. \<forall>z. zone (percpu s ! i) = Some z \<longrightarrow> (\<exists>zn. zone_at s z = Some zn \<and> i \<in> members (cpu_set zn)))"

definition s2_level :: "('b, 'd) hv \<Rightarrow> usize" where
  "s2_level s = (if PARANGE_TABLE ! unat (MIN_PARANGE s) < 44 then 3 else 4)"

definition s2_limit :: "('b, 'd) hv \<Rightarrow> nat" where
  "s2_limit s = (if s2_level s = 4 then 2 ^ 48 else 2 ^ 39)"

text \<open>
  A configuration the hypervisor can realise: regions of known type that are page aligned, within
  the address ranges and apart from each other, MMIO regions with different start addresses,
  interrupts the controller has, CPUs the machine has, and a device tree address without overflow.
\<close>

definition config_good :: "('b, 'd) hv \<Rightarrow> Gic \<Rightarrow> HvZoneConfig \<Rightarrow> HvConfigMemoryRegion list \<Rightarrow> u32 list \<Rightarrow> bool" where
  "config_good s g cfg rs irqs \<longleftrightarrow> memory_regions cfg = Ok rs \<and> interrupts cfg = Ok irqs \<and>
     PARANGE_OK_CPUS s = 4 \<and> unat (MIN_PARANGE s) < 6 \<and> GIC s = Some g \<and>
     (\<forall>r \<in> set rs. region_good (s2_limit s) r \<and>
        (dtb_in (dtb_load_paddr cfg) r \<longrightarrow> unat (virtual_start r) + unat (dtb_load_paddr cfg) < 2 ^ 64)) \<and>
     regions_apart rs \<and> (\<forall>irq \<in> set irqs. irq < 1024) \<and> cfg_cpus cfg < 16 \<and>
     unat (if gicr_base (arch cfg) = 0 then host_gicr g else gicr_base (arch cfg)) + 0x80000 < 2 ^ 64 \<and>
     distinct (mmio_starts (map virtio_config (filter is_virtio rs) @ gic_configs g (arch cfg)))"

definition config_cpus :: "HvZoneConfig \<Rightarrow> nat set" where
  "config_cpus cfg = {i. bit (cfg_cpus cfg) i}"

definition config_dtb :: "('b, 'd) env \<Rightarrow> HvZoneConfig \<Rightarrow> HvConfigMemoryRegion list \<Rightarrow> u64" where
  "config_dtb E cfg rs = (case find (dtb_in (dtb_load_paddr cfg)) (rev rs) of
     Some r \<Rightarrow> virtual_start r + dtb_load_paddr cfg - physical_start r | None \<Rightarrow> psci_INVALID_ADDRESS E)"

lemma new_s2_run:
  assumes "PARANGE_OK_CPUS s = 4" "unat (MIN_PARANGE s) < 6"
  shows "new_s2_memory_set E s = with_mem (MemorySet_new (bits E) (s2_level s)) s"
  using assms by (simp add: new_s2_memory_set_def is_s2_pt_level3_def get_parange_bits_def bindP_def
      MAX_CPU_NUM_def s2_level_def PARANGE_TABLE_def)

lemma config_cpus_small:
  assumes "cfg_cpus cfg < 16"
  shows "config_cpus cfg \<subseteq> {..<4}" "unat ` set (cpus cfg) = config_cpus cfg"
proof -
  have "cfg_cpus cfg = take_bit 4 (cfg_cpus cfg)"
    using assms by (simp add: take_bit_eq_mod word_less_nat_alt word_unat_eq_iff unat_mod)
  then have b: "bit (cfg_cpus cfg) i \<Longrightarrow> i < 4" for i by (metis bit_take_bit_iff)
  then show "config_cpus cfg \<subseteq> {..<4}" by (auto simp: config_cpus_def)
  show "unat ` set (cpus cfg) = config_cpus cfg"
  proof (intro set_eqI iffI)
    fix i assume "i \<in> config_cpus cfg"
    with b have i: "i < 4" "bit (cfg_cpus cfg) i" by (auto simp: config_cpus_def)
    then have "unat (of_nat i :: u64) = i" by (intro unat_of_nat_exact) simp
    with i show "i \<in> unat ` set (cpus cfg)" unfolding cpus_set by (intro image_eqI [of _ _ "of_nat i"]) auto
  qed (auto simp: config_cpus_def cpus_set)
qed

lemma hv_ok_new_ptr: "hv_ok E s \<Longrightarrow> length (zone_heap s) \<notin> set (ZONE_LIST s)"
  by (simp add: hv_ok_def zone_at_def)

lemma live_zone:
  assumes "hv_ok E s" "zone_at s z = Some zn"
  shows "z \<in> set (ZONE_LIST s)" "gpm zn \<in> set (live_sets s)" "set_ok (bits E) (mem s) (gpm zn)"
proof -
  show z: "z \<in> set (ZONE_LIST s)" using assms by (simp add: hv_ok_def)
  then show g: "gpm zn \<in> set (live_sets s)" using assms(2) by (force simp: live_sets_def)
  show "set_ok (bits E) (mem s) (gpm zn)" by (rule sets_okD(2) [OF _ g]) (use assms(1) in \<open>simp add: hv_ok_def\<close>)
qed

lemma new_zone_cpus:
  assumes "cfg_cpus cfg < 16"
  obtains cs ids f where "set_bits (cpus cfg) (CpuSet_new MAX_CPU_NUM 0) = Ok cs" "members cs = config_cpus cfg"
    "cpuset_wf cs" "cpu_iter cs = Ok ids" "distinct ids" "unat ` set ids = config_cpus cfg"
    "ids \<noteq> [] \<longrightarrow> first_cpu cs = Ok (Some f)" "config_cpus cfg \<noteq> {} \<longrightarrow> unat f = Min (config_cpus cfg)"
proof -
  note c = config_cpus_small [OF assms]
  let ?new = "CpuSet_new MAX_CPU_NUM 0"
  have n: "cpuset_wf ?new" "members ?new = {}" by (auto simp: CpuSet_new_def cpuset_wf_def members_def MAX_CPU_NUM_def)
  have "\<forall>i \<in> set (cpus cfg). i \<le> max_cpu_id ?new"
    using c by (fastforce simp: CpuSet_new_def MAX_CPU_NUM_def word_le_nat_alt)
  from set_bits_Ok [OF n(1) this] obtain cs where cs: "set_bits (cpus cfg) ?new = Ok cs" "members cs = config_cpus cfg" "cpuset_wf cs"
    using n(2) c(2) by auto
  obtain ids where ids: "cpu_iter cs = Ok ids" using cpu_iter_Ok(1) [OF cs(3)] by blast
  note m = cpu_iter_members [OF cs(3) ids]
  have d: "distinct ids" using m(2) by (metis distinct_map strict_sorted_iff)
  have im: "unat ` set ids = config_cpus cfg" using m(1) cs(2) by simp
  show thesis
  proof (cases ids)
    case Nil
    with im have "config_cpus cfg = {}" by auto
    with that [of cs ids] cs ids d im Nil show thesis by simp
  next
    case (Cons f rest)
    have "unat f = Min (config_cpus cfg)"
    proof (rule Min_eqI [symmetric])
      show "finite (config_cpus cfg)" using c(1) finite_subset by blast
      show "unat f \<in> config_cpus cfg" using im Cons by auto
      fix y assume "y \<in> config_cpus cfg"
      then have "y \<in> unat ` set ids" using im by simp
      with m(2) Cons show "unat f \<le> y" by (auto intro: less_imp_le)
    qed
    with that [of cs ids f] cs ids d im first_cpu_hd [OF cs(3) ids] Cons show thesis by simp
  qed
qed

lemma zone_install_run:
  assumes wf: "cpus_wf E s" and old: "\<forall>i < 4. \<forall>z. zone (percpu s ! i) = Some z \<longrightarrow> z \<in> set (ZONE_LIST s)"
    and c: "cfg_cpus cfg < 16" "cpu_set zn = CpuSet_new MAX_CPU_NUM 0"
    and d: "\<forall>r \<in> set rs. unat (physical_start r) + unat (mr_size r) < 2 ^ 64 \<and>
      (dtb_in (dtb_load_paddr cfg) r \<longrightarrow> unat (virtual_start r) + unat (dtb_load_paddr cfg) < 2 ^ 64)"
  obtains cs ps f where
      "zone_install E cfg rs zn s = (Ok (length (zone_heap s)), s\<lparr>zone_heap := zone_heap s @ [Some (zn\<lparr>cpu_set := cs\<rparr>)],
         percpu := ps, ZONE_LIST := ZONE_LIST s @ [length (zone_heap s)]\<rparr>)"
      "members cs = config_cpus cfg" "cpuset_wf cs" "length ps = length (percpu s)"
      "\<forall>i < 4. ps ! i = (if i \<in> config_cpus cfg
         then assigned (length (zone_heap s)) f (entry_point cfg) (config_dtb E cfg rs) (of_nat i) (percpu s ! i) else percpu s ! i)"
      "config_cpus cfg \<noteq> {} \<longrightarrow> unat f = Min (config_cpus cfg)"
proof -
  obtain cs ids f where c: "set_bits (cpus cfg) (cpu_set zn) = Ok cs" "members cs = config_cpus cfg"
    "cpuset_wf cs" "cpu_iter cs = Ok ids" "distinct ids" "unat ` set ids = config_cpus cfg"
    "ids \<noteq> [] \<longrightarrow> first_cpu cs = Ok (Some f)" "config_cpus cfg \<noteq> {} \<longrightarrow> unat f = Min (config_cpus cfg)"
    and lt: "config_cpus cfg \<subseteq> {..<4}"
    using c config_cpus_small(1) by (metis new_zone_cpus)
  let ?z = "length (zone_heap s)" and ?s = "s\<lparr>zone_heap := zone_heap s @ [Some (zn\<lparr>cpu_set := cs\<rparr>)]\<rparr>"
  have dtb: "find_dtb_ipa (dtb_load_paddr cfg) rs (psci_INVALID_ADDRESS E) = Ok (config_dtb E cfg rs)"
    unfolding config_dtb_def by (rule find_dtb_ipa_Ok [OF d])
  have small: "\<forall>c \<in> set ids. unat c < 4" using c(6) lt by auto
  have "\<forall>c \<in> set ids. \<forall>z'. zone (percpu ?s ! unat c) = Some z' \<longrightarrow> z' \<in> set (ZONE_LIST ?s)" using old small by auto
  moreover have "cpus_wf E ?s" using wf by simp
  ultimately obtain ps where ps: "forP ids (assign_cpu E ?z cs (entry_point cfg) (config_dtb E cfg rs)) ?s = (Ok (), ?s\<lparr>percpu := ps\<rparr>)"
    "length ps = length (percpu s)"
    "\<forall>i < 4. ps ! i = (if of_nat i \<in> set ids then assigned ?z f (entry_point cfg) (config_dtb E cfg rs) (of_nat i) (percpu s ! i)
       else percpu s ! i)"
    using assign_cpus_run [of E ?s ids cs f ?z "entry_point cfg" "config_dtb E cfg rs"] small c(5,7) by auto
  have "of_nat i \<in> set ids \<longleftrightarrow> i \<in> config_cpus cfg" if "i < 4" for i
  proof -
    have "unat (of_nat i :: usize) = i" using that by (intro unat_of_nat_exact) simp
    then show ?thesis unfolding c(6) [symmetric] by (metis image_iff word_unat_eq_iff)
  qed
  with ps(3) have "\<forall>i < 4. ps ! i = (if i \<in> config_cpus cfg
       then assigned ?z f (entry_point cfg) (config_dtb E cfg rs) (of_nat i) (percpu s ! i) else percpu s ! i)" by simp
  moreover have "zone_install E cfg rs zn s = (Ok ?z, s\<lparr>zone_heap := zone_heap s @ [Some (zn\<lparr>cpu_set := cs\<rparr>)],
         percpu := ps, ZONE_LIST := ZONE_LIST s @ [?z]\<rparr>)"
    using c(1,4) dtb ps(1) by (simp add: zone_install_def bindP_simps Arc_new_def add_zone_def)
  ultimately show thesis using that c ps(2) by blast
qed

lemma zone_create_run:
  assumes A: "bit_alloc (bits E)" and ok: "hv_ok E s" and good: "config_good s g cfg rs irqs"
    and fresh: "\<forall>z \<in> set (ZONE_LIST s). zid (the (zone_at s z)) \<noteq> ucast (zone_id cfg)"
  obtains (created) m' zn ps f where
      "zone_create E cfg s = (Ok (length (zone_heap s)), s\<lparr>mem := m', zone_heap := zone_heap s @ [Some zn], percpu := ps,
         ZONE_LIST := ZONE_LIST s @ [length (zone_heap s)]\<rparr>)"
      "sets_ok (bits E) m' (gpm zn # live_sets s)" "kept (bits E) (set (live_sets s)) (mem s) m'"
      "va_limit (pt (gpm zn)) = s2_limit s" "\<And>v. spec_query (gpm zn) v = config_maps rs v"
      "zone_wf zn" "zid zn = ucast (zone_id cfg)" "zone_irqs zn = unat ` set irqs" "members (cpu_set zn) = config_cpus cfg"
      "mmio zn = map virtio_config (filter is_virtio rs) @ gic_configs g (arch cfg)" "length ps = length (percpu s)"
      "\<forall>i < 4. ps ! i = (if i \<in> config_cpus cfg
         then assigned (length (zone_heap s)) f (entry_point cfg) (config_dtb E cfg rs) (of_nat i) (percpu s ! i) else percpu s ! i)"
      "config_cpus cfg \<noteq> {} \<longrightarrow> unat f = Min (config_cpus cfg)"
      "\<exists>zp. bindP (Zone_new E (ucast (zone_id cfg))) (pt_init E rs) s = (Ok zp, s\<lparr>mem := m'\<rparr>)"
      "within (bits E) (mem s) (set (live_sets s)) m' (set (gpm zn # live_sets s))"
    | (exhausted) t where "zone_create E cfg s = (Panic, t)" "\<And>q. \<not> frame_free (bits E) (falloc (mem t)) q"
      "\<not> is_ok (fst (bindP (Zone_new E (ucast (zone_id cfg))) (pt_init E rs) s))"
proof -
  note G = good [unfolded config_good_def] and H = ok [unfolded hv_ok_def]
  have ne: "find (\<lambda>z. map_option zid (zone_at s z) = Some (ucast (zone_id cfg))) (ZONE_LIST s) = None"
    unfolding find_None_iff using fresh H by (metis option.map_disc_iff option.map_sel option.sel option.distinct(1))
  have fz: "find_zone (ucast (zone_id cfg)) s = (Ok None, s)"
    using find_zone_Ok [of s "ucast (zone_id cfg)"] H ne by simp
  obtain r1 m1 where new: "MemorySet_new (bits E) (s2_level s) (mem s) = (r1, m1)" by fastforce
  have l: "s2_level s = 3 \<or> s2_level s = 4" by (simp add: s2_level_def)
  have zn: "Zone_new E (ucast (zone_id cfg)) s = (bind_out r1 (\<lambda>g. Ok \<lparr>zid = ucast (zone_id cfg), mmio = [],
      cpu_set = CpuSet_new MAX_CPU_NUM 0, irq_bitmap = replicate 32 0, gpm = g\<rparr>), s\<lparr>mem := m1\<rparr>)"
    using G by (cases r1) (simp_all add: Zone_new_def bindP_def new_s2_run with_mem_def new)
  have so: "sets_ok (bits E) (mem s) (live_sets s)" using H by blast
  show thesis
  proof (cases rule: sets_new [OF A so l new])
    case 2
    have "zone_create E cfg s = (Panic, s\<lparr>mem := m1\<rparr>)"
      using zn 2(1) by (simp add: zone_create_def Let_def bindP_def fz)
    moreover have "\<not> is_ok (fst (bindP (Zone_new E (ucast (zone_id cfg))) (pt_init E rs) s))"
      using zn 2(1) by (simp add: bindP_def)
    ultimately show thesis using exhausted 2(2) by simp
  next
    case (1 ms)
    let ?z = "\<lparr>zid = ucast (zone_id cfg), mmio = [], cpu_set = CpuSet_new MAX_CPU_NUM 0, irq_bitmap = replicate 32 0, gpm = ms\<rparr>"
    have lim: "va_limit (pt ms) = s2_limit s" using 1(3) by (simp add: va_limit_def s2_limit_def)
    have sq: "spec_query ms v = None" for v using 1(2) by (simp add: spec_query_def region_of_def)
    have mm: "distinct (mmio_starts (mmio ?z @ map virtio_config (filter is_virtio rs)))" using G by simp
    let ?s = "s\<lparr>mem := m1\<rparr>"
    have pre: "sets_ok (bits E) (mem ?s) (gpm ?z # live_sets s)" "\<forall>r \<in> set rs. region_good (va_limit (pt (gpm ?z))) r"
      "\<forall>r \<in> set rs. \<not> is_virtio r \<longrightarrow> (\<forall>(k, q) \<in> set (regions (gpm ?z)). disjoint_regions q (config_region r))" "regions_apart rs"
      using 1(1-5) G lim by simp_all
    show thesis
    proof (cases rule: pt_init_run [OF A pre mm])
      case (2 t)
      have "zone_create E cfg s = (Panic, t)"
        using zn 1(1) 2(1) G by (simp add: zone_create_def Let_def bindP_def fz unwrapP_def)
      moreover have "\<not> is_ok (fst (bindP (Zone_new E (ucast (zone_id cfg))) (pt_init E rs) s))"
        using zn 1(1) 2(1) by (simp add: bindP_def)
      ultimately show thesis using 2(2) exhausted by blast
    next
      case p: (1 m2 g')
      let ?z1 = "?z\<lparr>gpm := g', mmio := map virtio_config (filter is_virtio rs) @ gic_configs g (arch cfg)\<rparr>"
      have mi: "mmio_init (?z\<lparr>gpm := g', mmio := mmio ?z @ map virtio_config (filter is_virtio rs)\<rparr>) (arch cfg) (s\<lparr>mem := m2\<rparr>) = (Ok ?z1, s\<lparr>mem := m2\<rparr>)"
        using G by (subst mmio_init_run [of _ g]) simp_all
      from irq_bitmap_init_Ok [of ?z1 irqs] G obtain z2 where z2: "irq_bitmap_init irqs ?z1 = Ok z2" "length (irq_bitmap z2) = 32"
        "zone_irqs z2 = unat ` set irqs \<union> zone_irqs ?z1" "z2 = ?z1\<lparr>irq_bitmap := irq_bitmap z2\<rparr>" by auto
      have "zone_irqs ?z1 = {}" by (auto simp: zone_irqs_def)
      with z2(3) have irqs: "zone_irqs z2 = unat ` set irqs" by simp
      have z2s: "gpm z2 = g'" "zid z2 = ucast (zone_id cfg)" "cpu_set z2 = CpuSet_new MAX_CPU_NUM 0"
        "mmio z2 = map virtio_config (filter is_virtio rs) @ gic_configs g (arch cfg)"
        by (subst z2(4); simp)+
      have in_list: "\<forall>i < 4. \<forall>z. zone (percpu (s\<lparr>mem := m2\<rparr>) ! i) = Some z \<longrightarrow> z \<in> set (ZONE_LIST (s\<lparr>mem := m2\<rparr>))"
        using H by simp blast
      have dtb: "\<forall>r \<in> set rs. unat (physical_start r) + unat (mr_size r) < 2 ^ 64 \<and>
          (dtb_in (dtb_load_paddr cfg) r \<longrightarrow> unat (virtual_start r) + unat (dtb_load_paddr cfg) < 2 ^ 64)"
        using G by (simp add: region_good_def)
      have "cpus_wf E (s\<lparr>mem := m2\<rparr>)" "cfg_cpus cfg < 16" using H G by simp_all
      moreover have sel: "percpu (s\<lparr>mem := m2\<rparr>) = percpu s" "zone_heap (s\<lparr>mem := m2\<rparr>) = zone_heap s"
        "ZONE_LIST (s\<lparr>mem := m2\<rparr>) = ZONE_LIST s" by simp_all
      ultimately obtain cs ps f where
        c: "zone_install E cfg rs z2 (s\<lparr>mem := m2\<rparr>) = (Ok (length (zone_heap s)), s\<lparr>mem := m2, zone_heap := zone_heap s @ [Some (z2\<lparr>cpu_set := cs\<rparr>)],
             percpu := ps, ZONE_LIST := ZONE_LIST s @ [length (zone_heap s)]\<rparr>)"
          "members cs = config_cpus cfg" "cpuset_wf cs" "length ps = length (percpu s)"
          "\<forall>i < 4. ps ! i = (if i \<in> config_cpus cfg
             then assigned (length (zone_heap s)) f (entry_point cfg) (config_dtb E cfg rs) (of_nat i) (percpu s ! i) else percpu s ! i)"
          "config_cpus cfg \<noteq> {} \<longrightarrow> unat f = Min (config_cpus cfg)"
        using zone_install_run [OF _ in_list _ z2s(3) dtb, of E, unfolded sel] by metis
      have run: "zone_create E cfg s = zone_install E cfg rs z2 (s\<lparr>mem := m2\<rparr>)"
        using zn 1(1) p(1) mi z2(1) G by (simp add: zone_create_def Let_def bindP_def fz unwrapP_def)
      have w: "within (bits E) (mem s) (set (live_sets s)) m2 (set (g' # live_sets s))" using within_trans [OF 1(6)] p(6) by simp
      show thesis
      proof (rule created [where m' = m2 and zn = "z2\<lparr>cpu_set := cs\<rparr>" and ps = ps and f = f])
        show "\<exists>zp. bindP (Zone_new E (ucast (zone_id cfg))) (pt_init E rs) s = (Ok zp, s\<lparr>mem := m2\<rparr>)"
          using zn 1(1) p(1) by (simp add: bindP_def)
        show "within (bits E) (mem s) (set (live_sets s)) m2 (set (gpm (z2\<lparr>cpu_set := cs\<rparr>) # live_sets s))" using w z2s(1) by simp
        show "zone_wf (z2\<lparr>cpu_set := cs\<rparr>)" using z2(2) c(2,3) config_cpus_small(1) [of cfg] G by (simp add: zone_wf_def)
        show "zone_create E cfg s = (Ok (length (zone_heap s)), s\<lparr>mem := m2, zone_heap := zone_heap s @ [Some (z2\<lparr>cpu_set := cs\<rparr>)],
             percpu := ps, ZONE_LIST := ZONE_LIST s @ [length (zone_heap s)]\<rparr>)" using run c(1) by simp
      qed (use 1(3,5) p(2-5) lim irqs z2s c kept_trans [OF so 1(5)] in \<open>simp_all add: zone_irqs_def va_limit_def sq\<close>)
    qed
  qed
qed

lemma zone_exists_iff:
  assumes "hv_ok E s"
  shows "find_zone i s = (Ok (find (\<lambda>z. map_option zid (zone_at s z) = Some i) (ZONE_LIST s)), s)"
    and "find (\<lambda>z. map_option zid (zone_at s z) = Some i) (ZONE_LIST s) = None \<longleftrightarrow>
      (\<forall>z \<in> set (ZONE_LIST s). zid (the (zone_at s z)) \<noteq> i)"
proof -
  have live: "\<And>z. z \<in> set (ZONE_LIST s) \<Longrightarrow> zone_at s z \<noteq> None" using assms by (simp add: hv_ok_def)
  show "find_zone i s = (Ok (find (\<lambda>z. map_option zid (zone_at s z) = Some i) (ZONE_LIST s)), s)"
    by (rule find_zone_Ok [OF live])
  show "find (\<lambda>z. map_option zid (zone_at s z) = Some i) (ZONE_LIST s) = None \<longleftrightarrow>
      (\<forall>z \<in> set (ZONE_LIST s). zid (the (zone_at s z)) \<noteq> i)"
    using live by (auto simp: find_None_iff) force+
qed

lemma zone_create_exists:
  assumes "hv_ok E s" "\<exists>z \<in> set (ZONE_LIST s). zid (the (zone_at s z)) = ucast (zone_id cfg)"
  shows "zone_create E cfg s = (Err EEXIST, s)"
  using zone_exists_iff [OF assms(1), of "ucast (zone_id cfg)"] assms(2)
  by (auto simp: zone_create_def Let_def bindP_def)

lemma hv_ok_created:
  assumes ok: "hv_ok E s" and so: "sets_ok (bits E) m' (gpm zn # live_sets s)" and zw: "zone_wf zn"
    and fresh: "\<forall>z \<in> set (ZONE_LIST s). zid (the (zone_at s z)) \<noteq> zid zn"
    and ps: "length ps = length (percpu s)" "\<forall>i < 4. ps ! i = (if i \<in> members (cpu_set zn)
         then assigned (length (zone_heap s)) f entry dtb (of_nat i) (percpu s ! i) else percpu s ! i)"
    and t: "t = s\<lparr>mem := m', zone_heap := zone_heap s @ [Some zn], percpu := ps, ZONE_LIST := ZONE_LIST s @ [length (zone_heap s)]\<rparr>"
  shows "hv_ok E t" "\<And>z. z \<in> set (ZONE_LIST s) \<Longrightarrow> zone_at t z = zone_at s z" "zone_at t (length (zone_heap s)) = Some zn"
    "zone_at s z = Some y \<Longrightarrow> zone_at t z = Some y"
proof -
  note H = ok [unfolded hv_ok_def]
  let ?n = "length (zone_heap s)"
  have at: "zone_at t z = (if z = ?n then Some zn else zone_at s z)" for z
    by (auto simp: t zone_at_def nth_append)
  have tl: "ZONE_LIST t = ZONE_LIST s @ [?n]" "PARKING_MEMORY_SET t = PARKING_MEMORY_SET s" "mem t = m'" "percpu t = ps"
    by (simp_all add: t)
  have new: "?n \<notin> set (ZONE_LIST s)" "zone_at s ?n = None" using hv_ok_new_ptr [OF ok] by (simp_all add: zone_at_def)
  have old: "map (\<lambda>z. h (the (zone_at t z))) (ZONE_LIST s) = map (\<lambda>z. h (the (zone_at s z))) (ZONE_LIST s)" for h :: "Zone \<Rightarrow> 'x"
    using new by (auto simp: at)
  have "live_sets t = map (\<lambda>z. gpm (the (zone_at s z))) (ZONE_LIST s) @ gpm zn #
      (case PARKING_MEMORY_SET s of Some ms \<Rightarrow> [ms] | None \<Rightarrow> [])"
    using old [of gpm] by (simp add: live_sets_def tl at)
  then have "sets_ok (bits E) m' (live_sets t) = sets_ok (bits E) m' (gpm zn # live_sets s)"
    by (intro sets_ok_perm) (auto simp: live_sets_def)
  moreover have "distinct (map (\<lambda>z. zid (the (zone_at t z))) (ZONE_LIST s @ [?n]))"
    unfolding map_append distinct_append old using H fresh by (auto simp: at)
  moreover have "\<exists>zn'. zone_at t z = Some zn' \<and> i \<in> members (cpu_set zn')" if "i < 4" "zone (ps ! i) = Some z" for i z
    using that ps(2) H new(2) by (auto simp: at assigned_def split: if_splits)
  ultimately show "hv_ok E t"
    using H so zw ps(1) new at unfolding hv_ok_def tl by (auto simp: cpus_wf_def tl)
  show "\<And>z. z \<in> set (ZONE_LIST s) \<Longrightarrow> zone_at t z = zone_at s z" "zone_at t ?n = Some zn"
    "zone_at s z = Some y \<Longrightarrow> zone_at t z = Some y" using new by (auto simp: at)
qed

end
