(* ===== verification/Hv_ZoneSpec.thy ===== *)
theory Hv_ZoneSpec
  imports Hv_Zone
begin

text \<open>
  What creating a zone promises: a well formed configuration always gives a zone unless its
  identifier is taken or the frames run out; the new guest sees exactly the memory, interrupts, MMIO
  regions and CPUs of its configuration; no other guest notices.
\<close>

section \<open>A machine with one zone\<close>

definition demo_region :: HvConfigMemoryRegion where
  "demo_region = \<lparr>mem_type = MEM_TYPE_RAM, physical_start = 0xC0000000, virtual_start = 0x40000000, mr_size = 0x40000000\<rparr>"

definition demo_config :: "u32 \<Rightarrow> u64 \<Rightarrow> HvConfigMemoryRegion list \<Rightarrow> HvZoneConfig" where
  "demo_config i c rs = \<lparr>zone_id = i, cfg_cpus = c, num_memory_regions = of_nat (length rs),
     memory_regions_arr = rs @ replicate (CONFIG_MAX_MEMORY_REGIONS - length rs) HvConfigMemoryRegion_new_empty,
     num_interrupts = 1, interrupts_arr = 33 # replicate (CONFIG_MAX_INTERRUPTS - 1) 0, entry_point = 0x40000000,
     kernel_load_paddr = 0xC0000000, kernel_size = 0x1000, dtb_load_paddr = 0xC0001000, dtb_size = 0x1000,
     arch = \<lparr>gicd_base = 0, gicr_base = 0, gicd_size = 0, gicr_size = 0\<rparr>\<rparr>"

definition demo_gic :: Gic where
  "demo_gic = \<lparr>host_gicd = 0x8000000, host_gicr = 0x80a0000, host_gicd_sz = 0x10000, host_gicr_sz = 0xf60000\<rparr>"

lemma bare_hv_sel: "GIC bare_hv = Some demo_gic" "PARANGE_OK_CPUS bare_hv = 4" "MIN_PARANGE bare_hv = 2" "mem bare_hv = small_pool"
  "ZONE_LIST bare_hv = []" "zone_heap bare_hv = []" "PARKING_MEMORY_SET bare_hv = None" "length (percpu bare_hv) = 4"
  "i < 4 \<Longrightarrow> zone (percpu bare_hv ! i) = None"
proof -
  show "GIC bare_hv = Some demo_gic" "PARANGE_OK_CPUS bare_hv = 4" "MIN_PARANGE bare_hv = 2" "mem bare_hv = small_pool"
    "ZONE_LIST bare_hv = []" "zone_heap bare_hv = []" "PARKING_MEMORY_SET bare_hv = None" "length (percpu bare_hv) = 4"
    by (simp_all add: bare_hv_def demo_gic_def)
  assume "i < 4"
  then have "i = 0 \<or> i = 1 \<or> i = 2 \<or> i = 3" by auto
  then show "zone (percpu bare_hv ! i) = None" by (auto simp: bare_hv_def)
qed

lemma bare_hv_ok: "hv_ok (plain_env list_bits) bare_hv"
  by (simp add: hv_ok_def cpus_wf_def bare_hv_sel live_sets_def sets_ok_def small_pool_ok zone_at_def MAX_CPU_NUM_def
      PER_CPU_SIZE_def) (simp add: plain_env_def small_pool_ok)

lemma demo_good:
  assumes "PARANGE_OK_CPUS s = 4" "MIN_PARANGE s = 2" "GIC s = Some demo_gic" "rs = [] \<or> rs = [demo_region]" "c < 16"
  shows "config_good s demo_gic (demo_config i c rs) rs [33]"
proof -
  have m: "memory_regions (demo_config i c rs) = Ok rs" "interrupts (demo_config i c rs) = Ok [33]"
    using assms(4) by (auto simp: memory_regions_def interrupts_def demo_config_def CONFIG_MAX_MEMORY_REGIONS_def
      CONFIG_MAX_INTERRUPTS_def)
  have lim: "s2_limit s = 2 ^ 39" by (simp add: s2_limit_def s2_level_def assms(2) PARANGE_TABLE_def)
  have r: "\<forall>r \<in> set rs. region_good (2 ^ 39) r \<and> unat (virtual_start r) + 0xC0001000 < 2 ^ 64"
    "filter is_virtio rs = []" "regions_apart rs"
    using assms(4) by (auto simp: region_good_def demo_region_def MEM_TYPE_RAM_def MEM_TYPE_VIRTIO_def is_aligned_iff regions_apart_def)
  have "distinct (mmio_starts (gic_configs demo_gic (arch (demo_config i c rs))))"
    by (simp add: gic_configs_def demo_config_def demo_gic_def gicr_config_def PER_GICR_SIZE_def mmio_starts_def upt_rec)
  with m lim r assms show ?thesis
    by (simp add: config_good_def demo_config_def demo_gic_def)
qed

text \<open>Inserting \<open>demo_region\<close> into an empty set of three levels writes one entry of the root table.\<close>

lemma demo_map:
  assumes "p = \<lparr>root = f, level = 3, intrm_tables = []\<rparr>" "read_u64 (bytes m) (table_entry_addr (start_paddr f) (p3_index 0x40000000)) = 0"
  obtains t where "ms_insert S2_pte A (config_region demo_region) (m, \<lparr>regions = [], pt = p\<rparr>) =
    (Ok (), (t, \<lparr>regions = [(0x40000000, config_region demo_region)], pt = p\<rparr>))" "falloc t = falloc m"
proof -
  let ?r = "config_region demo_region"
  have props: "virtual_start demo_region = 0x40000000" "mr_size demo_region = 0x40000000"
    "physical_start demo_region = 0xC0000000" by (simp_all add: demo_region_def)
  have fl: "region_flags demo_region = READ OR WRITE OR EXECUTE"
    by (simp add: region_flags_def demo_region_def MEM_TYPE_RAM_def MEM_TYPE_IO_def)
  have sz: "choose_size ?r 0x40000000 0xC0000000 0x40000000 = Size1G"
    by (simp add: choose_size_def props fl PageSize_is_aligned_def PageSize_page_offset_def contains_def MemFlags_defs)
  have "\<exists>t. pt_map S2_pte A ?r (m, p) = (Ok (), (t, p)) \<and> falloc t = falloc m"
    by (simp add: pt_map_def props is_aligned_iff map_loop.simps [of _ _ _ "0x40000000"] sz Let_def
        Page_new_aligned_def PageSize_is_aligned_def PageSize_page_offset_def map_errP_def map_page_def bindP_def
        get_entry_mut_or_create_def assms root_paddr_def update_entry_run s2.unused_iff
        add_chk_def sub_chk_def map_loop.simps [of _ _ _ _ 0])
  then obtain t where t: "pt_map S2_pte A ?r (m, pt \<lparr>regions = [], pt = p\<rparr>) = (Ok (), (t, p))" "falloc t = falloc m" by auto
  have "ms_insert S2_pte A ?r (m, \<lparr>regions = [], pt = p\<rparr>) = (Ok (), (t, \<lparr>regions = [(0x40000000, ?r)], pt = p\<rparr>))"
    using with_pt_run [where m = "pt_map S2_pte A ?r", OF t(1)]
    by (simp add: ms_insert_def bindP_def props is_aligned_iff test_free_area_def range_to_last_def range_from_next_def)
  with t(2) that show thesis by blast
qed

lemma demo_filled:
  "\<exists>zn t. bindP (Zone_new (plain_env list_bits) 0) (pt_init (plain_env list_bits) [demo_region]) bare_hv =
     (Ok zn, bare_hv\<lparr>mem := t\<rparr>) \<and> falloc t = falloc small_state"
proof -
  have b: "bits (plain_env list_bits) = list_bits" by (simp add: plain_env_def)
  obtain t where t: "ms_insert S2_pte list_bits (config_region demo_region) (small_state, small_set) =
    (Ok (), (t, \<lparr>regions = [(0x40000000, config_region demo_region)], pt = small_pt\<rparr>))" "falloc t = falloc small_state"
  proof -
    have z: "read_u64 (bytes small_state) (table_entry_addr 0x80000000 (p3_index 0x40000000)) = 0"
      by (simp add: small_state_def table_entry_index read_slot_fill is_aligned_iff)
    show thesis by (rule demo_map [OF small_pt_def, of small_state list_bits]) (use z that in \<open>simp_all add: small_set_def\<close>)
  qed
  have "s2_level bare_hv = 3" by (simp add: s2_level_def bare_hv_sel PARANGE_TABLE_def)
  with new_s2_run [of bare_hv "plain_env list_bits"] have "new_s2_memory_set (plain_env list_bits) bare_hv =
      (Ok small_set, bare_hv\<lparr>mem := small_state\<rparr>)"
    by (simp add: bare_hv_sel with_mem_def b small_set_new)
  moreover have "mem_type demo_region = MEM_TYPE_RAM" by (simp add: demo_region_def)
  ultimately have "\<exists>zn. bindP (Zone_new (plain_env list_bits) 0) (pt_init (plain_env list_bits) [demo_region]) bare_hv =
      (Ok zn, bare_hv\<lparr>mem := t\<rparr>)"
    using t(1) by (simp add: Zone_new_def bindP_simps gpm_insert_def b)
  with t(2) show ?thesis by blast
qed

lemma demo_first:
  obtains t1 where "zone_create (plain_env list_bits) (demo_config 0 1 [demo_region]) bare_hv = (Ok 0, t1)"
    "falloc (mem t1) = falloc small_state" "hv_ok (plain_env list_bits) t1" "PARANGE_OK_CPUS t1 = 4" "MIN_PARANGE t1 = 2"
    "GIC t1 = Some demo_gic" "zone_at t1 0 \<noteq> None" "ZONE_LIST t1 = [0]" "zid (the (zone_at t1 0)) = 0"
    "length (zone_heap t1) = 1"
proof -
  let ?E = "plain_env list_bits" and ?c = "demo_config 0 1 [demo_region]"
  have A: "bit_alloc (bits ?E)" using list_bits.bit_alloc_axioms by (simp add: plain_env_def)
  have good: "config_good bare_hv demo_gic ?c [demo_region] [33]" by (rule demo_good) (simp_all add: bare_hv_sel)
  have id: "ucast (zone_id ?c) = (0 :: usize)" by (simp add: demo_config_def)
  obtain zn t where f: "bindP (Zone_new ?E (ucast (zone_id ?c))) (pt_init ?E [demo_region]) bare_hv = (Ok zn, bare_hv\<lparr>mem := t\<rparr>)"
    "falloc t = falloc small_state" using demo_filled unfolding id by blast
  have fresh: "\<forall>z \<in> set (ZONE_LIST bare_hv). zid (the (zone_at bare_hv z)) \<noteq> ucast (zone_id ?c)" by (simp add: bare_hv_sel)
  show thesis
  proof (cases rule: zone_create_run [OF A bare_hv_ok good fresh])
    case (1 m' zn' ps g)
    let ?t = "bare_hv\<lparr>mem := m', zone_heap := zone_heap bare_hv @ [Some zn'], percpu := ps,
       ZONE_LIST := ZONE_LIST bare_hv @ [length (zone_heap bare_hv)]\<rparr>"
    have "mem (bare_hv\<lparr>mem := m'\<rparr>) = mem (bare_hv\<lparr>mem := t\<rparr>)" using f(1) 1(14) by (metis prod.inject)
    then have "falloc m' = falloc small_state" using f(2) by simp
    moreover have "hv_ok ?E ?t" "zone_at ?t 0 = Some zn'"
      using hv_ok_created(1,3) [OF bare_hv_ok 1(2,6) _ 1(11), of _ _ _ ?t] 1(7,9,12) fresh by (fastforce simp: bare_hv_sel)+
    ultimately show thesis using that [of ?t] 1(1,7) id by (simp add: bare_hv_sel)
  next
    case (2 t')
    with f show thesis by simp
  qed
qed

lemma demo_second:
  obtains t1 where "zone_create (plain_env list_bits) (demo_config 0 1 [demo_region]) bare_hv = (Ok 0, t1)"
    "hv_ok (plain_env list_bits) t1" "zone_at t1 0 \<noteq> None" "config_good t1 demo_gic (demo_config 1 2 []) [] [33]"
    "\<exists>t2. zone_create (plain_env list_bits) (demo_config 1 2 []) t1 = (Ok 1, t2)"
proof -
  let ?E = "plain_env list_bits" and ?c = "demo_config 1 2 []"
  have b: "bits ?E = list_bits" by (simp add: plain_env_def)
  obtain t1 where t1: "zone_create ?E (demo_config 0 1 [demo_region]) bare_hv = (Ok 0, t1)"
    "falloc (mem t1) = falloc small_state" "hv_ok ?E t1" "PARANGE_OK_CPUS t1 = 4" "MIN_PARANGE t1 = 2"
    "GIC t1 = Some demo_gic" "zone_at t1 0 \<noteq> None" "ZONE_LIST t1 = [0]" "zid (the (zone_at t1 0)) = 0"
    "length (zone_heap t1) = 1" by (rule demo_first)
  have good: "config_good t1 demo_gic ?c [] [33]" by (rule demo_good) (use t1 in simp_all)
  have fresh: "\<forall>z \<in> set (ZONE_LIST t1). zid (the (zone_at t1 z)) \<noteq> ucast (zone_id ?c)"
    using t1(8,9) by (simp add: demo_config_def)
  have "s2_level t1 = 3" by (simp add: s2_level_def t1(5) PARANGE_TABLE_def)
  then have "new_s2_memory_set ?E t1 = with_mem (MemorySet_new list_bits 3) t1"
    using new_s2_run [of t1 ?E] t1(4,5) by (simp add: b)
  moreover have "\<exists>f m. Frame_new_zero list_bits (mem t1) = (Ok f, m)"
    by (simp add: Frame_new_zero_def Frame_new_def bindP_def with_falloc_def FrameAllocator_alloc_def frame_addr_def t1(2)
      small_state_def list_bits_def mul_chk_def add_chk_def PAGE_SIZE_def Frame_clear_def Frame_fill_def Frame_size_def)
  ultimately have ok: "is_ok (fst (bindP (Zone_new ?E (ucast (zone_id ?c))) (pt_init ?E []) t1))"
    by (auto simp: Zone_new_def bindP_def with_mem_def MemorySet_new_def HvPageTable_new_def unwrapP_def)
  have A: "bit_alloc (bits ?E)" using list_bits.bit_alloc_axioms by (simp add: b)
  have "\<exists>t2. zone_create ?E ?c t1 = (Ok 1, t2)"
    by (cases rule: zone_create_run [OF A t1(3) good fresh]) (use ok t1(10) in auto)
  with that t1 good show thesis by blast
qed

section \<open>Properties\<close>

text \<open>
  C6: in a state satisfying the invariant of the zones, \<open>zone_create\<close> on a well formed configuration
  refuses a taken identifier with \<open>EEXIST\<close> and no effect; otherwise it returns a new zone, entered at
  the end of the list, in a state that satisfies the invariant again, or panics with not a single
  free frame left. There is no other outcome.
\<close>

theorem zone_create_total:
  assumes "bit_alloc (bits E)" and "hv_ok E s" and "config_good s g cfg rs irqs"
  shows "if \<exists>z \<in> set (ZONE_LIST s). zid (the (zone_at s z)) = ucast (zone_id cfg) then zone_create E cfg s = (Err EEXIST, s)
    else (\<exists>t. zone_create E cfg s = (Ok (length (zone_heap s)), t) \<and> hv_ok E t \<and>
          ZONE_LIST t = ZONE_LIST s @ [length (zone_heap s)])
      \<or> (\<exists>t. zone_create E cfg s = (Panic, t) \<and> (\<forall>q. \<not> frame_free (bits E) (falloc (mem t)) q))"
proof (cases "\<exists>z \<in> set (ZONE_LIST s). zid (the (zone_at s z)) = ucast (zone_id cfg)")
  case True
  with zone_create_exists [OF assms(2)] show ?thesis by simp
next
  case False
  then have fresh: "\<forall>z \<in> set (ZONE_LIST s). zid (the (zone_at s z)) \<noteq> ucast (zone_id cfg)" by blast
  show ?thesis
  proof (cases rule: zone_create_run [OF assms fresh])
    case (1 m' zn ps f)
    from hv_ok_created(1) [OF assms(2) 1(2,6) _ 1(11)] 1(1,7,9,12) fresh False show ?thesis by fastforce
  next
    case (2 t)
    with False show ?thesis by auto
  qed
qed

theorem zone_create_total_witness:
  "\<exists>t. zone_create (plain_env list_bits) (demo_config 0 1 [demo_region]) bare_hv = (Ok 0, t) \<and> hv_ok (plain_env list_bits) t \<and>
     ZONE_LIST t = [0]"
proof -
  have "bit_alloc (bits (plain_env list_bits))" using list_bits.bit_alloc_axioms by (simp add: plain_env_def)
  moreover have "config_good bare_hv demo_gic (demo_config 0 1 [demo_region]) [demo_region] [33]"
    by (rule demo_good) (simp_all add: bare_hv_sel)
  ultimately have "(\<exists>t. zone_create (plain_env list_bits) (demo_config 0 1 [demo_region]) bare_hv = (Ok 0, t) \<and>
        hv_ok (plain_env list_bits) t \<and> ZONE_LIST t = [0]) \<or>
      (\<exists>t. zone_create (plain_env list_bits) (demo_config 0 1 [demo_region]) bare_hv = (Panic, t))"
    using zone_create_total [OF _ bare_hv_ok] by (fastforce simp: bare_hv_sel)
  with demo_first show ?thesis by (metis outcome.distinct(3) prod.inject)
qed

text \<open>
  C4: after a successful \<open>zone_create\<close> the new guest sees, at every address the table can
  translate, exactly what the configuration maps there: the page table walk gives the configured
  physical address with the flags of the memory type, and nothing where no region lies. Its
  interrupts, MMIO regions and CPUs are those of the configuration; its CPUs start at the
  configured entry with the device tree's guest address, the first of them as boot CPU.
\<close>

theorem zone_create_translates:
  assumes "bit_alloc (bits E)" and "hv_ok E s" and "config_good s g cfg rs irqs" and "zone_create E cfg s = (Ok z, t)"
  shows "\<exists>zn. zone_at t z = Some zn \<and>
    (\<forall>v. unat v < s2_limit s \<longrightarrow> translation (sees (mem t) (gpm zn) v) = config_maps rs v) \<and>
    zone_irqs zn = unat ` set irqs \<and> members (cpu_set zn) = config_cpus cfg \<and>
    mmio zn = map virtio_config (filter is_virtio rs) @ gic_configs g (arch cfg) \<and>
    (\<forall>i < 4. percpu t ! i = (if i \<in> config_cpus cfg then (percpu s ! i)\<lparr>zone := Some z, cpu_on_entry := entry_point cfg,
        dtb_ipa := config_dtb E cfg rs, boot_cpu := (i = Min (config_cpus cfg) \<or> boot_cpu (percpu s ! i))\<rparr> else percpu s ! i))"
proof -
  have fresh: "\<forall>z \<in> set (ZONE_LIST s). zid (the (zone_at s z)) \<noteq> ucast (zone_id cfg)"
    using zone_create_exists [OF assms(2), of cfg] assms(4) by auto
  show ?thesis
  proof (cases rule: zone_create_run [OF assms(1-3) fresh])
    case (1 m' zn ps f)
    then have z: "z = length (zone_heap s)" and t: "t = s\<lparr>mem := m', zone_heap := zone_heap s @ [Some zn], percpu := ps,
         ZONE_LIST := ZONE_LIST s @ [length (zone_heap s)]\<rparr>" using assms(4) by simp_all
    have "zone_at t z = Some zn"
      using hv_ok_created(3) [OF assms(2) 1(2,6) _ 1(11) _ t] 1(7,9,12) fresh unfolding z by metis
    moreover have "translation (sees (mem t) (gpm zn) v) = config_maps rs v" if "unat v < s2_limit s" for v
      using set_ok_sees [OF assms(1) sets_okD(2) [OF 1(2)], of "gpm zn" v] that 1(4,5) by (simp add: t)
    moreover have "(of_nat i = f) = (i = Min (config_cpus cfg))" if "i < 4" "i \<in> config_cpus cfg" for i
    proof -
      have "unat (of_nat i :: usize) = i" using that(1) by (intro unat_of_nat_exact) simp
      moreover have "unat f = Min (config_cpus cfg)" using 1(13) that(2) by auto
      ultimately show ?thesis by (metis word_unat_eq_iff)
    qed
    ultimately show ?thesis
      using 1(8,9,10,12) by (intro exI [of _ zn]) (simp add: t assigned_def z cong: if_cong)
  qed (use assms(4) in simp)
qed

theorem zone_create_translates_witness:
  "\<exists>t zn. zone_create (plain_env list_bits) (demo_config 0 1 [demo_region]) bare_hv = (Ok 0, t) \<and> zone_at t 0 = Some zn \<and>
     translation (sees (mem t) (gpm zn) 0x40001234) = Some (0xC0001234, READ OR WRITE) \<and>
     translation (sees (mem t) (gpm zn) 0x80000000) = None \<and> zone_irqs zn = {33} \<and> cpu_on_entry (percpu t ! 0) = 0x40000000"
proof -
  let ?E = "plain_env list_bits" and ?c = "demo_config 0 1 [demo_region]"
  obtain t where t: "zone_create ?E ?c bare_hv = (Ok 0, t)" by (rule demo_first)
  have A: "bit_alloc (bits ?E)" using list_bits.bit_alloc_axioms by (simp add: plain_env_def)
  have good: "config_good bare_hv demo_gic ?c [demo_region] [33]" by (rule demo_good) (simp_all add: bare_hv_sel)
  from zone_create_translates [OF A bare_hv_ok good t] obtain zn where zn: "zone_at t 0 = Some zn" "zone_irqs zn = unat ` set [33 :: u32]"
    and v: "\<forall>v. unat v < s2_limit bare_hv \<longrightarrow> translation (sees (mem t) (gpm zn) v) = config_maps [demo_region] v"
    and p: "percpu t ! 0 = (if 0 \<in> config_cpus ?c then (percpu bare_hv ! 0)\<lparr>zone := Some 0, cpu_on_entry := entry_point ?c,
        dtb_ipa := config_dtb ?E ?c [demo_region], boot_cpu := (0 = Min (config_cpus ?c) \<or> boot_cpu (percpu bare_hv ! 0))\<rparr>
       else percpu bare_hv ! 0)" by auto
  have "0 \<in> config_cpus ?c" by (simp add: config_cpus_def demo_config_def)
  with p have "cpu_on_entry (percpu t ! 0) = 0x40000000" by (simp add: demo_config_def)
  moreover have lim: "s2_limit bare_hv = 2 ^ 39" by (simp add: s2_limit_def s2_level_def bare_hv_sel PARANGE_TABLE_def)
  moreover have "config_maps [demo_region] 0x40001234 = Some (0xC0001234, READ OR WRITE)"
    "config_maps [demo_region] 0x80000000 = None"
    by (simp_all add: config_maps_def in_region_def) (simp_all add: demo_region_def region_flags_def MEM_TYPE_RAM_def
      MEM_TYPE_IO_def MEM_TYPE_VIRTIO_def norm_flags_def MemFlags_defs)
  ultimately show ?thesis using t zn v by (intro exI [of _ t] exI [of _ zn]) simp
qed

text \<open>
  C5: a successful \<open>zone_create\<close> changes nothing for the zones that were there before: not their
  record, and not what their guests see through the page tables in memory.
\<close>

theorem zone_create_isolated:
  assumes "bit_alloc (bits E)" and "hv_ok E s" and "config_good s g cfg rs irqs" and "zone_create E cfg s = (Ok z, t)"
    and "zone_at s z' = Some zn'"
  shows "z \<noteq> z' \<and> zone_at t z' = Some zn' \<and>
    (\<forall>v. unat v < va_limit (pt (gpm zn')) \<longrightarrow> sees (mem t) (gpm zn') v = sees (mem s) (gpm zn') v)"
proof -
  have fresh: "\<forall>z \<in> set (ZONE_LIST s). zid (the (zone_at s z)) \<noteq> ucast (zone_id cfg)"
    using zone_create_exists [OF assms(2), of cfg] assms(4) by auto
  have z': "z' \<in> set (ZONE_LIST s)" using assms(2,5) by (simp add: hv_ok_def)
  then have live: "gpm zn' \<in> set (live_sets s)" using assms(5) by (force simp: live_sets_def)
  show ?thesis
  proof (cases rule: zone_create_run [OF assms(1-3) fresh])
    case (1 m' zn ps f)
    then have z: "z = length (zone_heap s)" and t: "t = s\<lparr>mem := m', zone_heap := zone_heap s @ [Some zn], percpu := ps,
         ZONE_LIST := ZONE_LIST s @ [length (zone_heap s)]\<rparr>" using assms(4) by simp_all
    have "zone_at t z' = Some zn'"
      using hv_ok_created(4) [OF assms(2) 1(2,6) _ 1(11) _ t assms(5)] 1(7,9,12) fresh by metis
    moreover have "set_ok (bits E) (mem s) (gpm zn')"
      by (rule sets_okD(2) [OF _ live]) (use assms(2) in \<open>simp add: hv_ok_def\<close>)
    ultimately show ?thesis
      using kept_sees [OF _ 1(3) live] hv_ok_new_ptr [OF assms(2)] z' by (auto simp: z t)
  qed (use assms(4) in simp)
qed

theorem zone_create_isolated_witness:
  "\<exists>t1 t2 zn. zone_create (plain_env list_bits) (demo_config 0 1 [demo_region]) bare_hv = (Ok 0, t1) \<and>
     zone_create (plain_env list_bits) (demo_config 1 2 []) t1 = (Ok 1, t2) \<and> zone_at t1 0 = Some zn \<and> zone_at t2 0 = Some zn \<and>
     sees (mem t2) (gpm zn) 0x40001234 = sees (mem t1) (gpm zn) 0x40001234"
proof -
  let ?E = "plain_env list_bits" and ?c = "demo_config 1 2 []"
  obtain t1 where t1: "zone_create ?E (demo_config 0 1 [demo_region]) bare_hv = (Ok 0, t1)" "hv_ok ?E t1" "zone_at t1 0 \<noteq> None"
    and good: "config_good t1 demo_gic ?c [] [33]"
    and t2: "\<exists>t2. zone_create ?E ?c t1 = (Ok 1, t2)" by (rule demo_second)
  from t2 obtain t2 where t2: "zone_create ?E ?c t1 = (Ok 1, t2)" by blast
  from t1(3) obtain zn where zn: "zone_at t1 0 = Some zn" by blast
  have "bit_alloc (bits ?E)" using list_bits.bit_alloc_axioms by (simp add: plain_env_def)
  moreover have "unat (0x40001234 :: usize) < va_limit (pt (gpm zn))" by (simp add: va_limit_def)
  ultimately show ?thesis using zone_create_isolated [OF _ t1(2) good t2 zn] t1(1) t2 zn by blast
qed


end
