(* ===== verification/Hv_Cpu.thy ===== *)
theory Hv_Cpu
  imports Hv_Zone
begin

text \<open>
  The life of a CPU: \<open>arch/aarch64/cpu.rs\<close> (reset, entering a guest, parking), \<open>run_vm\<close> of
  \<open>percpu.rs\<close>, \<open>check_events\<close> of \<open>event.rs\<close> and the interrupt handler of
  \<open>device/irqchip/gicv3/mod.rs\<close>. The register frame of a CPU, at the top of its stack, is an element of
  \<open>stacks\<close>; \<open>vmreturn\<close> loads the guest's general registers from it and leaves the hypervisor.
\<close>

section \<open>Registers of a guest\<close>

definition GeneralRegisters_clear :: "GeneralRegisters \<Rightarrow> GeneralRegisters" where
  "GeneralRegisters_clear self = self\<lparr>exit_reason := 0, usr := replicate (length (usr self)) 0\<rparr>"

definition stack_top :: "('b, 'd) env \<Rightarrow> ArchCpu \<Rightarrow> (HvErrorNum, VirtAddr) outcome" where
  "stack_top E self = bind_out (add_chk (cpuid self) 1) (\<lambda>n. bind_out (mul_chk n PER_CPU_SIZE) (add_chk (core_end E)))"

definition guest_reg :: "('b, 'd) env \<Rightarrow> ArchCpu \<Rightarrow> ('b, 'd, nat) hvp" where
  "guest_reg E self = bindP (liftP (bind_out (stack_top E self) (\<lambda>t. sub_chk t (32 * 8)))) (\<lambda>_ s.
     (if unat (cpuid self) < length (stacks s) then Ok (unat (cpuid self)) else Fault, s))"

definition update_regs :: "nat \<Rightarrow> (GeneralRegisters \<Rightarrow> GeneralRegisters) \<Rightarrow> ('b, 'd, unit) hvp" where
  "update_regs i f = modifyP (\<lambda>s. s\<lparr>stacks := (stacks s)[i := f (stacks s ! i)]\<rparr>)"

definition vm_regs :: "sysreg list" where
  "vm_regs = [CNTKCTL_EL1, PMCR_EL0, SP_EL0, SP_EL1, SPSR_EL1, AFSR0_EL1, AFSR1_EL1, AMAIR_EL1, CONTEXTIDR_EL1,
     CPACR_EL1, CSSELR_EL1, ESR_EL1, FAR_EL1, MAIR_EL1, PAR_EL1, TCR_EL1, TPIDRRO_EL0, TPIDR_EL0, TPIDR_EL1,
     TTBR0_EL1, TTBR1_EL1, VBAR_EL1, CNTVOFF_EL2, CNTP_CTL_EL0, CNTP_CVAL_EL0, CNTP_TVAL_EL0, CNTV_CTL_EL0,
     CNTV_CVAL_EL0, CNTV_TVAL_EL0]"

definition reset_vm_regs :: "('b, 'd) env \<Rightarrow> u64 \<Rightarrow> ('b, 'd, unit) hvp" where
  "reset_vm_regs E me = bindP (forP vm_regs (\<lambda>r. write_sysreg E me r 0)) (\<lambda>_.
     write_sysreg E me SCTLR_EL1 (push_bit 11 1 OR push_bit 20 1 OR push_bit 22 3 OR push_bit 28 3))"

definition activate_vmm :: "('b, 'd) env \<Rightarrow> u64 \<Rightarrow> ('b, 'd, unit) hvp" where
  "activate_vmm E me =
     bindP get_parange (\<lambda>ps.
     bindP is_s2_pt_level3 (\<lambda>l3.
     bindP (if l3 then retP 39 else get_parange_bits) (\<lambda>n.
     bindP (liftP (sub_chk 64 n)) (\<lambda>t0sz.
     bindP (write_sysreg E me VTCR_EL2 (vtcr_value E ps (if l3 then 1 else 2) t0sz)) (\<lambda>_.
     write_sysreg E me HCR_EL2 (hcr_value E))))))"

definition reset :: "('b, 'd) env \<Rightarrow> u64 \<Rightarrow> ArchCpu \<Rightarrow> usize \<Rightarrow> usize \<Rightarrow> ('b, 'd, unit) hvp" where
  "reset E me self entry dtb =
     bindP (write_sysreg E me ELR_EL2 entry) (\<lambda>_.
     bindP (write_sysreg E me SPSR_EL2 0x3c5) (\<lambda>_.
     bindP (guest_reg E self) (\<lambda>i.
     bindP (update_regs i GeneralRegisters_clear) (\<lambda>_.
     bindP (update_regs i (\<lambda>r. r\<lparr>usr := (usr r)[0 := dtb]\<rparr>)) (\<lambda>_.
     bindP (reset_vm_regs E me) (\<lambda>_.
     activate_vmm E me))))))"

section \<open>Entering a guest and parking\<close>

definition ms_activate :: "('b, 'd) env \<Rightarrow> u64 \<Rightarrow> MemorySet \<Rightarrow> ('b, 'd, unit) hvp" where
  "ms_activate E me ms = write_sysreg E me VTTBR_EL2 (vttbr_baddr E (root_paddr (pt ms)))"

definition activate_gpm :: "('b, 'd) env \<Rightarrow> u64 \<Rightarrow> PerCpu \<Rightarrow> ('b, 'd, unit) hvp" where
  "activate_gpm E me self = bindP (liftP (unwrap_opt (zone self))) (\<lambda>z. bindP (read_zone z) (\<lambda>zn. ms_activate E me (gpm zn)))"

definition set_psci_on :: "('b, 'd) env \<Rightarrow> u64 \<Rightarrow> bool \<Rightarrow> ('b, 'd, unit) hvp" where
  "set_psci_on E me b = update_cpu_data E (this_cpu_id me) (\<lambda>d. d\<lparr>arch_cpu := (arch_cpu d)\<lparr>psci_on := b\<rparr>\<rparr>)"

definition run :: "('b, 'd) env \<Rightarrow> u64 \<Rightarrow> ArchCpu \<Rightarrow> ('b, 'd, 'a ctl) hvp" where
  "run E me self =
     bindP (liftP (rust_assert (this_cpu_id me = cpuid self))) (\<lambda>_.
     bindP (this_cpu_data E me) (\<lambda>d.
     bindP (activate_gpm E me d) (\<lambda>_.
     bindP (this_cpu_data E me) (\<lambda>d.
     bindP (reset E me self (cpu_on_entry d) (dtb_ipa d)) (\<lambda>_.
     bindP (set_psci_on E me True) (\<lambda>_.
     bindP (guest_reg E self) (\<lambda>_. retP Vmreturn)))))))"

definition parking_code :: "u8 list" where
  "parking_code = [0x7f, 0x20, 0x03, 0xd5, 0xff, 0xff, 0xff, 0x17]"

definition parking_region :: "('b, 'd) env \<Rightarrow> MemoryRegion" where
  "parking_region E = new_with_offset_mapper 0 (parking_page E) PAGE_SIZE (READ OR WRITE OR IO)"

definition write_code :: "PhysAddr \<Rightarrow> u8 list \<Rightarrow> ('b, 'd, unit) hvp" where
  "write_code a bs = modifyP (\<lambda>s. s\<lparr>mem := (mem s)\<lparr>bytes := (\<lambda>x. if unat (x - a) < length bs
     then bs ! unat (x - a) else bytes (mem s) x)\<rparr>\<rparr>)"

definition parking_init :: "('b, 'd) env \<Rightarrow> ('b, 'd, unit) hvp" where
  "parking_init E = bindP (getP PARKING_MEMORY_SET) (\<lambda>once. case once of Some _ \<Rightarrow> retP ()
     | None \<Rightarrow>
       bindP (write_code (parking_page E) parking_code) (\<lambda>_.
       bindP (new_s2_memory_set E) (\<lambda>g s.
       (case ms_insert S2_pte (bits E) (parking_region E) (mem s, g) of
          (Ok _, (m', g')) \<Rightarrow> (Ok (), s\<lparr>mem := m', PARKING_MEMORY_SET := Some g'\<rparr>)
        | (Hang, (m', _)) \<Rightarrow> (Hang, s\<lparr>mem := m'\<rparr>) | (Fault, (m', _)) \<Rightarrow> (Fault, s\<lparr>mem := m'\<rparr>)
        | (_, (m', _)) \<Rightarrow> (Panic, s\<lparr>mem := m'\<rparr>)))))"

definition idle :: "('b, 'd) env \<Rightarrow> u64 \<Rightarrow> ArchCpu \<Rightarrow> ('b, 'd, 'a ctl) hvp" where
  "idle E me self =
     bindP (liftP (rust_assert (this_cpu_id me = cpuid self))) (\<lambda>_.
     bindP (set_psci_on E me False) (\<lambda>_.
     bindP (parking_init E) (\<lambda>_.
     bindP (this_cpu_data E me) (\<lambda>d.
     bindP (reset E me self 0 (dtb_ipa d)) (\<lambda>_.
     bindP (getP PARKING_MEMORY_SET) (\<lambda>p. bindP (liftP (unwrap_opt p)) (\<lambda>ms.
     bindP (ms_activate E me ms) (\<lambda>_.
     bindP (guest_reg E self) (\<lambda>_. retP Vmreturn)))))))))"

definition run_vm :: "('b, 'd) env \<Rightarrow> u64 \<Rightarrow> PerCpu \<Rightarrow> ('b, 'd, 'a ctl) hvp" where
  "run_vm E me self = (if \<not> boot_cpu self then idle E me (arch_cpu self) else run E me (arch_cpu self))"

definition cpu_start :: "('b, 'd) env \<Rightarrow> usize \<Rightarrow> usize \<Rightarrow> usize \<Rightarrow> ('b, 'd, unit) hvp" where
  "cpu_start E cpu start_addr opaque s =
     (case psci_cpu_on E (cpu OR 0x80000000) start_addr opaque (dev s) of
        (None, d) \<Rightarrow> (Ok (), s\<lparr>dev := d\<rparr>) | (Some AlreadyOn, d) \<Rightarrow> (Ok (), s\<lparr>dev := d\<rparr>)
      | (Some OtherPsciError, d) \<Rightarrow> (Panic, s\<lparr>dev := d\<rparr>))"

section \<open>Events and interrupts\<close>

definition check_events :: "('b, 'd) env \<Rightarrow> u64 \<Rightarrow> ('b, 'd, bool ctl) hvp" where
  "check_events E me =
     bindP (this_cpu_data E me) (\<lambda>cpu_data.
     bindP (fetch_event (cpu_id cpu_data)) (\<lambda>ev.
     if ev = Some IPI_EVENT_WAKEUP then run E me (arch_cpu cpu_data)
     else if ev = Some IPI_EVENT_SHUTDOWN then idle E me (arch_cpu cpu_data)
     else if ev = Some IPI_EVENT_VIRTIO_INJECT_IRQ then bindP (handle_virtio_irq E me) (\<lambda>_. retP (Returns True))
     else if ev = Some IPI_EVENT_WAKEUP_VIRTIO_DEVICE then
       bindP (inject_irq E me IRQ_WAKEUP_VIRTIO_DEVICE False) (\<lambda>_. retP (Returns True))
     else retP (Returns False)))"

definition gicv3_handle_irq_el1 :: "('b, 'd) env \<Rightarrow> u64 \<Rightarrow> ('b, 'd, unit ctl) hvp" where
  "gicv3_handle_irq_el1 E me =
     bindP (pending_irq E me) (\<lambda>p. case p of None \<Rightarrow> retP (Returns ())
     | Some irq \<Rightarrow>
       if irq < 8 then
         bindP (deactivate_irq E me irq) (\<lambda>_.
         bindP (if irq = SGI_IPI_ID then check_events E me else retP (Returns False)) (\<lambda>c. case c of
           Vmreturn \<Rightarrow> retP Vmreturn
         | Returns handled \<Rightarrow> if handled then retP (Returns ())
             else bindP (inject_irq E me irq False) (\<lambda>_. retP (Returns ()))))
       else if irq < 16 then bindP (deactivate_irq E me irq) (\<lambda>_. retP (Returns ()))
       else
         bindP (if irq = 27 then modifyP (\<lambda>s. s\<lparr>TIMER_INTERRUPT_COUNTER := TIMER_INTERRUPT_COUNTER s + 1\<rparr>) else retP ()) (\<lambda>_.
         bindP (deactivate_irq E me irq) (\<lambda>_.
         bindP (inject_irq E me irq True) (\<lambda>_. retP (Returns ())))))"

section \<open>Control registers\<close>

text \<open>
  The registers that decide what runs on a core hold what was last written to them, and writing one
  of the registers the reset touches does not change the others. \<open>get\<close> is the value the core uses.
\<close>

definition control_regs :: "sysreg set" where
  "control_regs = {ELR_EL2, SPSR_EL2, VTTBR_EL2, VTCR_EL2, HCR_EL2, SCTLR_EL1}"

definition register_file :: "('b, 'd) env \<Rightarrow> (u64 \<Rightarrow> sysreg \<Rightarrow> 'd \<Rightarrow> u64) \<Rightarrow> bool" where
  "register_file E get \<longleftrightarrow>
     (\<forall>me r v d. r \<in> control_regs \<longrightarrow> get me r (msr E me r v d) = v) \<and>
     (\<forall>me r me' r' v d. r \<in> control_regs \<and> r' \<in> control_regs \<union> set vm_regs \<and> (me, r) \<noteq> (me', r') \<longrightarrow>
        get me r (msr E me' r' v d) = get me r d)"

lemma register_fileD:
  assumes "register_file E get" "r \<in> control_regs"
  shows "get me r (msr E me r v d) = v"
    and "r' \<in> control_regs \<union> set vm_regs \<Longrightarrow> (me, r) \<noteq> (me', r') \<Longrightarrow> get me r (msr E me' r' v d) = get me r d"
  using assms unfolding register_file_def by blast+

definition wipe :: "('b, 'd) env \<Rightarrow> u64 \<Rightarrow> 'd \<Rightarrow> 'd" where
  "wipe E me d = fold (\<lambda>r. msr E me r 0) vm_regs d"

lemma wipe_run: "forP rs (\<lambda>r. write_sysreg E me r 0) s = (Ok (), s\<lparr>dev := fold (\<lambda>r. msr E me r 0) rs (dev s)\<rparr>)"
  by (induction rs arbitrary: s) (simp_all add: bindP_def write_sysreg_def)

lemma wipe_get:
  assumes "register_file E get" "r \<in> control_regs"
  shows "get me r (wipe E me' d) = get me r d"
proof -
  have nv: "r \<notin> set vm_regs" using assms(2) by (auto simp: control_regs_def vm_regs_def)
  have "get me r (fold (\<lambda>r. msr E me' r 0) rs d) = get me r d" if "set rs \<subseteq> set vm_regs" for rs
    using that
  proof (induction rs arbitrary: d)
    case (Cons r' rs)
    with register_fileD(2) [OF assms, of r' me me' 0 d] nv show ?case by auto
  qed simp
  then show ?thesis by (simp add: wipe_def)
qed

definition reset_dev :: "('b, 'd) env \<Rightarrow> u64 \<Rightarrow> usize \<Rightarrow> ('b, 'd) hv \<Rightarrow> 'd \<Rightarrow> 'd" where
  "reset_dev E me entry s d =
     (let d = msr E me SPSR_EL2 0x3c5 (msr E me ELR_EL2 entry d);
          d = msr E me SCTLR_EL1 (push_bit 11 1 OR push_bit 20 1 OR push_bit 22 3 OR push_bit 28 3) (wipe E me d);
          d = msr E me VTCR_EL2 (vtcr_value E (MIN_PARANGE s) (if s2_level s = 3 then 1 else 2)
            (64 - (if s2_level s = 3 then 39 else PARANGE_TABLE ! unat (MIN_PARANGE s)))) d
      in msr E me HCR_EL2 (hcr_value E) d)"

definition fresh_regs :: "usize \<Rightarrow> GeneralRegisters" where
  "fresh_regs dtb = \<lparr>exit_reason = 0, usr = dtb # replicate 30 0\<rparr>"

definition frames_wf :: "('b, 'd) env \<Rightarrow> ('b, 'd) hv \<Rightarrow> bool" where
  "frames_wf E s \<longleftrightarrow> cpus_wf E s \<and> length (stacks s) = 4 \<and> (\<forall>r \<in> set (stacks s). length (usr r) = 31) \<and>
     PARANGE_OK_CPUS s = 4 \<and> unat (MIN_PARANGE s) < 6"

lemma guest_reg_run:
  assumes "frames_wf E s" "unat (cpuid self) < 4"
  shows "guest_reg E self s = (Ok (unat (cpuid self)), s)"
proof -
  have p: "unat PER_CPU_SIZE = 524288" by (simp add: PER_CPU_SIZE_def)
  have c: "unat (core_end E) + 4 * 524288 < 2 ^ 64" using assms(1) by (simp add: frames_wf_def cpus_wf_def MAX_CPU_NUM_def p)
  have u1: "unat (cpuid self + 1) = unat (cpuid self) + 1" using assms(2) by (subst unat_add_exact) simp_all
  then have m: "unat ((cpuid self + 1) * PER_CPU_SIZE) = (unat (cpuid self) + 1) * 524288"
    using assms(2) by (subst unat_mul_exact) (simp_all add: p)
  have "unat (core_end E + (cpuid self + 1) * PER_CPU_SIZE) = unat (core_end E) + (unat (cpuid self) + 1) * 524288"
    using c assms(2) m by (subst unat_add_exact) simp_all
  moreover have "(stack_top E self :: (HvErrorNum, VirtAddr) outcome) = Ok (core_end E + (cpuid self + 1) * PER_CPU_SIZE)"
    using c assms(2) u1 m p by (simp add: stack_top_def add_chk_def mul_chk_def)
  ultimately have "(bind_out (stack_top E self) (\<lambda>t. sub_chk t (32 * 8)) :: (HvErrorNum, usize) outcome) =
      Ok (core_end E + (cpuid self + 1) * PER_CPU_SIZE - 256)"
    by (simp add: sub_chk_def word_le_nat_alt)
  then show ?thesis using assms by (simp add: guest_reg_def bindP_def frames_wf_def)
qed

lemma activate_vmm_run:
  assumes "PARANGE_OK_CPUS s = 4" "unat (MIN_PARANGE s) < 6"
  shows "activate_vmm E me s = (Ok (), s\<lparr>dev := msr E me HCR_EL2 (hcr_value E) (msr E me VTCR_EL2
    (vtcr_value E (MIN_PARANGE s) (if s2_level s = 3 then 1 else 2)
      (64 - (if s2_level s = 3 then 39 else PARANGE_TABLE ! unat (MIN_PARANGE s)))) (dev s))\<rparr>)"
proof -
  have bits: "unat (MIN_PARANGE s) < length PARANGE_TABLE" using assms(2) by (simp add: PARANGE_TABLE_def)
  have "unat (MIN_PARANGE s) \<in> {0, 1, 2, 3, 4, 5}" using assms(2) by auto
  then have le: "unat (PARANGE_TABLE ! unat (MIN_PARANGE s)) \<le> 64" by (auto simp: PARANGE_TABLE_def)
  have l: "s2_level s = 3 \<longleftrightarrow> PARANGE_TABLE ! unat (MIN_PARANGE s) < 44" by (simp add: s2_level_def)
  show ?thesis
    using assms(1) bits le
    by (cases "PARANGE_TABLE ! unat (MIN_PARANGE s) < 44") (simp_all add: activate_vmm_def bindP_simps write_sysreg_def
      get_parange_def is_s2_pt_level3_def get_parange_bits_def MAX_CPU_NUM_def l sub_chk_def word_le_nat_alt)
qed

lemma reset_run:
  assumes wf: "frames_wf E s" and c: "unat (cpuid self) < 4"
  shows "reset E me self entry dtb s = (Ok (), s\<lparr>dev := reset_dev E me entry s (dev s),
    stacks := (stacks s)[unat (cpuid self) := fresh_regs dtb]\<rparr>)"
proof -
  let ?i = "unat (cpuid self)"
  let ?s1 = "s\<lparr>dev := msr E me SPSR_EL2 0x3c5 (msr E me ELR_EL2 entry (dev s))\<rparr>"
  have "frames_wf E ?s1" using wf by (simp add: frames_wf_def)
  from guest_reg_run [OF this c] have g: "guest_reg E self ?s1 = (Ok ?i, ?s1)" .
  have len: "?i < length (stacks s)" "length (usr (stacks s ! ?i)) = 31" using wf c by (simp_all add: frames_wf_def)
  have clr: "(GeneralRegisters_clear (stacks s ! ?i))\<lparr>usr := (usr (GeneralRegisters_clear (stacks s ! ?i)))[0 := dtb]\<rparr> = fresh_regs dtb"
    using len(2) by (simp add: GeneralRegisters_clear_def fresh_regs_def numeral_eq_Suc)
  have pr: "PARANGE_OK_CPUS s = 4" "unat (MIN_PARANGE s) < 6" using wf by (simp_all add: frames_wf_def)
  have lv: "s2_level (s\<lparr>stacks := x, dev := d\<rparr>) = s2_level s" for x d by (simp add: s2_level_def)
  show ?thesis
    using pr len clr g
    by (simp add: reset_def bindP_simps write_sysreg_def update_regs_def reset_vm_regs_def wipe_run
      activate_vmm_run reset_dev_def Let_def wipe_def [symmetric] lv)
qed

lemma reset_dev_get:
  assumes rf: "register_file E get"
  shows "get me ELR_EL2 (reset_dev E me entry s d) = entry" "get me SPSR_EL2 (reset_dev E me entry s d) = 0x3c5"
    "get me HCR_EL2 (reset_dev E me entry s d) = hcr_value E"
    "get me VTCR_EL2 (reset_dev E me entry s d) = vtcr_value E (MIN_PARANGE s) (if s2_level s = 3 then 1 else 2)
       (64 - (if s2_level s = 3 then 39 else PARANGE_TABLE ! unat (MIN_PARANGE s)))"
    "get me VTTBR_EL2 (reset_dev E me entry s d) = get me VTTBR_EL2 d"
    "r \<in> control_regs \<Longrightarrow> me' \<noteq> me \<Longrightarrow> get me' r (reset_dev E me entry s d) = get me' r d"
proof -
  note rf' = register_fileD [OF rf] and w = wipe_get [OF rf]
  have c: "ELR_EL2 \<in> control_regs" "SPSR_EL2 \<in> control_regs" "VTTBR_EL2 \<in> control_regs" "VTCR_EL2 \<in> control_regs"
    "HCR_EL2 \<in> control_regs" "SCTLR_EL1 \<in> control_regs" by (simp_all add: control_regs_def)
  show "get me ELR_EL2 (reset_dev E me entry s d) = entry" "get me SPSR_EL2 (reset_dev E me entry s d) = 0x3c5"
    "get me HCR_EL2 (reset_dev E me entry s d) = hcr_value E"
    "get me VTCR_EL2 (reset_dev E me entry s d) = vtcr_value E (MIN_PARANGE s) (if s2_level s = 3 then 1 else 2)
       (64 - (if s2_level s = 3 then 39 else PARANGE_TABLE ! unat (MIN_PARANGE s)))"
    "get me VTTBR_EL2 (reset_dev E me entry s d) = get me VTTBR_EL2 d"
    by (simp_all add: reset_dev_def Let_def rf'(1) rf'(2) w c)
  assume "r \<in> control_regs" "me' \<noteq> me"
  then show "get me' r (reset_dev E me entry s d) = get me' r d"
    by (simp add: reset_dev_def Let_def rf'(2) w c)
qed

lemma run_ready:
  assumes wf: "frames_wf E s" and c: "unat (this_cpu_id me) < 4" "self = arch_cpu (percpu s ! unat (this_cpu_id me))"
    "cpuid self = this_cpu_id me" and z: "zone (percpu s ! unat (this_cpu_id me)) = Some z" "zone_at s z = Some zn"
  shows "run E me self s = (Ok Vmreturn, (let i = unat (this_cpu_id me); d = percpu s ! i in
    s\<lparr>dev := reset_dev E me (cpu_on_entry d) s (msr E me VTTBR_EL2 (vttbr_baddr E (root_paddr (pt (gpm zn)))) (dev s)),
      stacks := (stacks s)[i := fresh_regs (dtb_ipa d)], percpu := (percpu s)[i := d\<lparr>arch_cpu := self\<lparr>psci_on := True\<rparr>\<rparr>]\<rparr>))"
proof -
  let ?i = "unat (this_cpu_id me)"
  let ?s1 = "s\<lparr>dev := msr E me VTTBR_EL2 (vttbr_baddr E (root_paddr (pt (gpm zn)))) (dev s)\<rparr>"
  let ?s2 = "?s1\<lparr>dev := reset_dev E me (cpu_on_entry (percpu s ! ?i)) s (dev ?s1), stacks := (stacks s)[?i := fresh_regs (dtb_ipa (percpu s ! ?i))]\<rparr>"
  have cw: "cpus_wf E s" using wf by (simp add: frames_wf_def)
  have w1: "frames_wf E ?s1" using wf by (simp add: frames_wf_def)
  have cpu: "unat (cpuid self) < 4" using c by simp
  have "s2_level ?s1 = s2_level s" by (simp add: s2_level_def)
  then have rd: "reset_dev E me entry ?s1 d = reset_dev E me entry s d" for entry d by (simp add: reset_dev_def)
  have r: "reset E me self (cpu_on_entry (percpu s ! ?i)) (dtb_ipa (percpu s ! ?i)) ?s1 = (Ok (), ?s2)"
    using reset_run [OF w1 cpu] c(3) by (simp add: rd)
  have cw2: "cpus_wf E ?s2" using cw by (simp add: cpus_wf_def)
  let ?s3 = "?s2\<lparr>percpu := (percpu s)[?i := (percpu s ! ?i)\<lparr>arch_cpu := self\<lparr>psci_on := True\<rparr>\<rparr>]\<rparr>"
  have on: "set_psci_on E me True ?s2 = (Ok (), ?s3)"
    using update_cpu_data_in [OF cw2 c(1)] c(2) by (simp add: set_psci_on_def)
  have "frames_wf E ?s3" using wf by (auto simp: frames_wf_def cpus_wf_def fresh_regs_def dest!: set_update_subset_insert [THEN subsetD])
  from guest_reg_run [OF this cpu] have g: "guest_reg E self ?s3 = (Ok ?i, ?s3)" using c(3) by simp
  have cw1: "cpus_wf E ?s1" using cw by simp
  show ?thesis
    using c(3) z r on g get_cpu_data_in [OF cw c(1)] get_cpu_data_in [OF cw1 c(1)]
    by (simp add: run_def bindP_simps this_cpu_data_def activate_gpm_def read_zone_def ms_activate_def write_sysreg_def Let_def)
qed

section \<open>Parking\<close>

text \<open>The page with the parking loop lies in the image of the hypervisor, below the pool of frames.\<close>

definition parking_ok :: "('b, 'd) env \<Rightarrow> ('b, 'd) hv \<Rightarrow> bool" where
  "parking_ok E s \<longleftrightarrow> is_aligned (parking_page E) \<and> unat (parking_page E) + 4096 \<le> unat (base (falloc (mem s))) \<and>
     (\<forall>p. PARKING_MEMORY_SET s = Some p \<longrightarrow> regions p = [(0, parking_region E)])"

lemma parking_region_simps [simp]:
  "start (parking_region E) = 0" "sz (parking_region E) = PAGE_SIZE" "flags (parking_region E) = READ OR WRITE OR IO"
  "mapper (parking_region E) = Offset (- parking_page E)"
  by (simp_all add: parking_region_def new_with_offset_mapper_def MemoryRegion_new_def Let_def)

text \<open>Writes outside the tables change no table.\<close>

definition page_of :: "PhysAddr \<Rightarrow> PhysAddr \<Rightarrow> bool" where
  "page_of q a \<longleftrightarrow> unat q \<le> unat a \<and> unat a < unat q + 4096"

lemma pool_page:
  assumes "falloc_ok A fa" "in_pool fa q"
  shows "n < 4096 \<Longrightarrow> page_of q (q + of_nat n)" "unat (base fa) \<le> unat q"
proof -
  from assms(2) obtain k where k: "unat k < FRAME_CAP" "q = k * PAGE_SIZE + base fa" by (auto simp: in_pool_def)
  have q: "unat q = 4096 * unat k + unat (base fa)"
    unfolding k(2) by (rule unat_frame) (use assms(1) k(1) in \<open>simp_all add: falloc_ok_def\<close>)
  then show "unat (base fa) \<le> unat q" by simp
  assume n: "n < 4096"
  have lim: "unat (base fa) + 4096 * FRAME_CAP \<le> 2 ^ 48" using assms(1) by (simp add: falloc_ok_def)
  have "unat (of_nat n :: usize) = n" using n by (simp add: unat_of_nat_exact)
  then have "unat (q + of_nat n) = unat q + n" using q k(1) lim n by (subst unat_add_exact) simp_all
  with n show "page_of q (q + of_nat n)" by (simp add: page_of_def)
qed

lemma outside_kept:
  assumes so: "sets_ok A m S" and "falloc m' = falloc m"
    and same: "\<And>ms q x. ms \<in> set S \<Longrightarrow> q \<in> tables m ms \<Longrightarrow> page_of q x \<Longrightarrow> bytes m' x = bytes m x"
  shows "kept A (set S) m m'"
proof -
  have "read_u64 (bytes m') (slot q i) = read_u64 (bytes m) (slot q i)" if x: "x \<in> set S" "q \<in> tables m x" "i < 512" for x q i
  proof -
    have b: "bytes m' (slot q i + of_nat k) = bytes m (slot q i + of_nat k)" if "k < 8" for k
    proof -
      have "slot q i + of_nat k = q + of_nat (8 * i + k)" by (simp add: slot_def add.assoc)
      with pool_page(1) [OF sets_okD(1) [OF so] pt_ok_used(1) [OF sets_okD(3) [OF so x(1)] x(2)], of "8 * i + k"] same [OF x(1,2)]
      show ?thesis using \<open>i < 512\<close> that by (simp add: add.assoc)
    qed
    from b [of 0] b [of 1] b [of 2] b [of 3] b [of 4] b [of 5] b [of 6] b [of 7]
    show ?thesis by (simp add: read_u64_def)
  qed
  with kept_refl [OF so] show ?thesis by (simp add: kept_def assms(2))
qed

lemma write_code_kept:
  assumes so: "sets_ok A m S" and pk: "is_aligned p" "unat p + 4096 \<le> unat (base (falloc m))" and len: "length bs \<le> 4096"
    and m': "m' = m\<lparr>bytes := (\<lambda>x. if unat (x - p) < length bs then bs ! unat (x - p) else bytes m x)\<rparr>"
  shows "kept A (set S) m m'"
proof (rule outside_kept [OF so])
  fix ms q x assume "ms \<in> set S" "q \<in> tables m ms" "page_of q x"
  with pool_page(2) [OF sets_okD(1) [OF so] pt_ok_used(1) [OF sets_okD(3) [OF so]]] have "unat (base (falloc m)) \<le> unat x"
    by (fastforce simp: page_of_def)
  then have "p \<le> x" "unat p + 4096 \<le> unat x" using pk(2) by (simp_all add: word_le_nat_alt)
  then have "\<not> unat (x - p) < length bs" using len by (simp add: unat_sub)
  then show "bytes m' x = bytes m x" by (simp add: m')
qed (simp add: m')

text \<open>The parking loop as one 64-bit word: \<open>wfi\<close> and a branch to it.\<close>

lemma parking_code_read:
  "read_u64 (\<lambda>x. if unat (x - p) < length parking_code then parking_code ! unat (x - p) else f x) p = 0x17ffffffd503207f"
  by (simp add: read_u64_def parking_code_def)

lemma held_pool:
  assumes "sets_ok A m S" "q \<in> held A m (set S)"
  shows "in_pool (falloc m) q"
  using assms frame_free_pool [OF _ sets_okD(1) [OF assms(1)]] pt_ok_used(1) [OF sets_okD(3) [OF assms(1)]] by (auto simp: held_def)

lemma hv_ok_cong:
  assumes "hv_ok E s" "zone_heap t = zone_heap s" "ZONE_LIST t = ZONE_LIST s" "length (percpu t) = length (percpu s)"
    and "\<forall>i < 4. zone (percpu t ! i) = zone (percpu s ! i)" "sets_ok (bits E) (mem t) (live_sets t)"
  shows "hv_ok E t"
proof -
  have "zone_at t = zone_at s" using assms(2) by (auto simp: zone_at_def)
  moreover have "cpus_wf E t" using assms(1,4) by (simp add: hv_ok_def cpus_wf_def)
  ultimately show ?thesis using assms unfolding hv_ok_def by simp
qed

lemma hv_ok_cong_sets:
  assumes "hv_ok E s" "zone_heap t = zone_heap s" "ZONE_LIST t = ZONE_LIST s" "length (percpu t) = length (percpu s)"
    and "\<forall>i < 4. zone (percpu t ! i) = zone (percpu s ! i)" "mem t = mem s" "PARKING_MEMORY_SET t = PARKING_MEMORY_SET s"
  shows "hv_ok E t"
proof (rule hv_ok_cong [OF assms(1-5)])
  have "zone_at t = zone_at s" using assms(2) by (auto simp: zone_at_def)
  then have "live_sets t = live_sets s" using assms(3,7) by (simp add: live_sets_def)
  with assms(1,6) show "sets_ok (bits E) (mem t) (live_sets t)" by (simp add: hv_ok_def)
qed

lemma parking_mappable:
  assumes "parking_ok E s" "falloc_ok (bits E) (falloc (mem s))"
  shows "mappable p (parking_region E)" "offset_aligned (parking_region E)"
proof -
  have a: "is_aligned (parking_page E)" "unat (parking_page E) + 4096 \<le> 2 ^ 48"
    using assms by (auto simp: parking_ok_def falloc_ok_def)
  show "offset_aligned (parking_region E)"
    using is_aligned_diff [OF _ a(1), of 0] by (simp add: offset_aligned_def is_aligned_iff)
  have "unat (v + parking_page E) < 2 ^ 48" if "unat v < 4096" for v
    using that a(2) by (subst unat_add_exact) simp_all
  then show "mappable p (parking_region E)"
    by (simp add: mappable_def is_aligned_iff PAGE_SIZE_def in_region_def va_limit_def)
qed

lemma live_sets_parking: "live_sets (s\<lparr>PARKING_MEMORY_SET := None\<rparr>) = map (\<lambda>z. gpm (the (zone_at s z))) (ZONE_LIST s)"
proof -
  have "zone_at (s\<lparr>PARKING_MEMORY_SET := None\<rparr>) = zone_at s" by (auto simp: zone_at_def)
  then show ?thesis by (simp add: live_sets_def)
qed

lemma parking_init_run:
  assumes A: "bit_alloc (bits E)" and ok: "hv_ok E s" and wf: "frames_wf E s" and pk: "parking_ok E s"
  obtains (ready) m' p where "parking_init E s = (Ok (), s\<lparr>mem := m', PARKING_MEMORY_SET := Some p\<rparr>)"
      "hv_ok E (s\<lparr>mem := m', PARKING_MEMORY_SET := Some p\<rparr>)" "parking_ok E (s\<lparr>mem := m', PARKING_MEMORY_SET := Some p\<rparr>)"
      "\<forall>zn \<in> ran (zone_at s). gpm zn \<in> set (live_sets s)" "kept (bits E) (set (live_sets s)) (mem s) m'"
      "PARKING_MEMORY_SET s \<noteq> None \<longrightarrow> m' = mem s"
      "held (bits E) m' (set (live_sets (s\<lparr>mem := m', PARKING_MEMORY_SET := Some p\<rparr>))) = held (bits E) (mem s) (set (live_sets s))"
      "PARKING_MEMORY_SET s = None \<longrightarrow> read_u64 (bytes m') (parking_page E) = 0x17ffffffd503207f"
    | (exhausted) t where "parking_init E s = (Panic, t)" "\<And>q. \<not> frame_free (bits E) (falloc (mem t)) q" "PARKING_MEMORY_SET s = None"
proof -
  have so: "sets_ok (bits E) (mem s) (live_sets s)" using ok by (simp add: hv_ok_def)
  have live: "\<forall>zn \<in> ran (zone_at s). gpm zn \<in> set (live_sets s)"
  proof
    fix zn assume "zn \<in> ran (zone_at s)"
    then obtain z where z: "zone_at s z = Some zn" by (auto simp: ran_def)
    with ok have "z \<in> set (ZONE_LIST s)" by (simp add: hv_ok_def)
    with z show "gpm zn \<in> set (live_sets s)" by (force simp: live_sets_def)
  qed
  show thesis
  proof (cases "PARKING_MEMORY_SET s")
    case (Some p)
    then have e: "s\<lparr>mem := mem s, PARKING_MEMORY_SET := Some p\<rparr> = s" by simp
    have "parking_init E s = (Ok (), s)" using Some by (simp add: parking_init_def bindP_def)
    then show thesis using ready [where m' = "mem s" and p = p, unfolded e, OF _ ok pk live kept_refl [OF so]] Some by simp
  next
    case None
    let ?m0 = "(mem s)\<lparr>bytes := (\<lambda>x. if unat (x - parking_page E) < length parking_code
      then parking_code ! unat (x - parking_page E) else bytes (mem s) x)\<rparr>"
    have k0: "kept (bits E) (set (live_sets s)) (mem s) ?m0"
      by (rule write_code_kept [OF so _ _ _ refl]) (use pk in \<open>auto simp: parking_ok_def parking_code_def\<close>)
    note so0 = kept_sets_ok [OF so k0]
    have pr: "PARANGE_OK_CPUS s = 4" "unat (MIN_PARANGE s) < 6" using wf by (simp_all add: frames_wf_def)
    have l: "s2_level s = 3 \<or> s2_level s = 4" by (simp add: s2_level_def)
    have lv: "s2_level (s\<lparr>mem := m\<rparr>) = s2_level s" for m by (simp add: s2_level_def)
    obtain r1 m1 where new: "MemorySet_new (bits E) (s2_level s) ?m0 = (r1, m1)" by fastforce
    have ns: "new_s2_memory_set E (s\<lparr>mem := ?m0\<rparr>) = (r1, s\<lparr>mem := m1\<rparr>)"
      using new_s2_run [of "s\<lparr>mem := ?m0\<rparr>" E] pr new by (simp add: with_mem_def lv)
    have run: "parking_init E s = bindP (new_s2_memory_set E) (\<lambda>g s.
       (case ms_insert S2_pte (bits E) (parking_region E) (mem s, g) of
          (Ok _, (m', g')) \<Rightarrow> (Ok (), s\<lparr>mem := m', PARKING_MEMORY_SET := Some g'\<rparr>)
        | (Hang, (m', _)) \<Rightarrow> (Hang, s\<lparr>mem := m'\<rparr>) | (Fault, (m', _)) \<Rightarrow> (Fault, s\<lparr>mem := m'\<rparr>)
        | (_, (m', _)) \<Rightarrow> (Panic, s\<lparr>mem := m'\<rparr>))) (s\<lparr>mem := ?m0\<rparr>)"
      using None by (simp add: parking_init_def bindP_simps write_code_def)
    show thesis
    proof (cases rule: sets_new [OF A so0 l new])
      case 2
      with run ns None exhausted [of "s\<lparr>mem := m1\<rparr>"] show thesis by (simp add: bindP_def)
    next
      case (1 ms)
      have "falloc_ok (bits E) (falloc (mem s))" using so by (simp add: sets_ok_def)
      note pm = parking_mappable [OF pk this]
      obtain r2 m2 g2 where ins: "ms_insert S2_pte (bits E) (parking_region E) (m1, ms) = (r2, (m2, g2))" by (metis prod_cases3)
      show thesis
      proof (cases rule: sets_insert [OF A 1(4) pm ins])
        case p: 1
        let ?t = "s\<lparr>mem := m2, PARKING_MEMORY_SET := Some g2\<rparr>"
        have "kept (bits E) (set (live_sets s)) (mem s) m2"
          using kept_trans [OF so k0 kept_trans [OF so0 1(5) p(3)]] .
        moreover from this have "base (falloc m2) = base (falloc (mem s))" by (simp add: kept_def)
        moreover have "regions g2 = [(0, parking_region E)]" using p(5) 1(2) by (simp add: PAGE_SIZE_def)
        moreover have at: "zone_at ?t = zone_at s" by (auto simp: zone_at_def)
        moreover have lt: "live_sets ?t = live_sets s @ [g2]" using None at by (simp add: live_sets_def)
        moreover have "hv_ok E ?t"
        proof (rule hv_ok_cong [OF ok])
          have "sets_ok (bits E) m2 (live_sets s @ [g2]) = sets_ok (bits E) m2 (g2 # live_sets s)"
            by (rule sets_ok_perm) auto
          with p(2) lt show "sets_ok (bits E) (mem ?t) (live_sets ?t)" by simp
        qed simp_all
        moreover have w: "within (bits E) ?m0 (set (live_sets s)) m2 (set (g2 # live_sets s))" by (rule within_trans [OF 1(6) p(7)])
        have "held (bits E) ?m0 (set (live_sets s)) = held (bits E) (mem s) (set (live_sets s))"
          using kept_tables [OF so k0] by (simp add: held_def)
        with w lt have "held (bits E) m2 (set (live_sets ?t)) = held (bits E) (mem s) (set (live_sets s))" by (simp add: within_def)
        moreover have "parking_page E \<notin> held (bits E) ?m0 (set (live_sets s))"
        proof
          assume "parking_page E \<in> held (bits E) ?m0 (set (live_sets s))"
          from pool_page(2) [OF sets_okD(1) [OF so0] held_pool [OF so0 this]] pk show False by (simp add: parking_ok_def)
        qed
        then have "read_u64 (bytes m2) (slot (parking_page E) 0) = read_u64 (bytes ?m0) (slot (parking_page E) 0)"
          using w pk unfolding within_def parking_ok_def by simp
        then have "read_u64 (bytes m2) (parking_page E) = 0x17ffffffd503207f" by (simp add: slot_def parking_code_read)
        ultimately show thesis using ready [where m' = m2 and p = g2] None run ns 1(1) ins p(1) pk live by (simp add: bindP_def parking_ok_def)
      next
        case 2
        with 1(2) show thesis by simp
      next
        case 3
        with run ns None 1(1) ins exhausted [of "s\<lparr>mem := m2\<rparr>"] show thesis by (simp add: bindP_def)
      qed
    qed
  qed
qed

end
