(* ===== verification/Hv_CpuSpec.thy ===== *)
theory Hv_CpuSpec
  imports Hv_Cpu Hv_ZoneSpec
begin

text \<open>
  What a core does when it enters a guest, is parked, or takes an interrupt: it runs the guest of the
  zone it belongs to from the configured entry with clean registers, or the parking loop and nothing
  else, and hands every interrupt of a device to the guest it runs.
\<close>

section \<open>Taking interrupts\<close>

text \<open>
  Acknowledging and ending an interrupt leaves the list registers as they are. \<open>eoi\<close> is the interrupt a core ended last: the value
  it last wrote to \<open>ICC_EOIR1_EL1\<close>. Reading a register or filling a list register ends nothing.
\<close>

definition irq_interface :: "('b, 'd) env \<Rightarrow> (u64 \<Rightarrow> 'd \<Rightarrow> u64 list) \<Rightarrow> (u64 \<Rightarrow> 'd \<Rightarrow> u64) \<Rightarrow> bool" where
  "irq_interface E lrs eoi \<longleftrightarrow> list_registers E lrs \<and>
     (\<forall>me me' d. lrs me' (snd (mrs E me ICC_IAR1_EL1 d)) = lrs me' d) \<and>
     (\<forall>me me' d v. lrs me' (msr E me ICC_EOIR1_EL1 v d) = lrs me' d \<and> lrs me' (msr E me ICC_DIR_EL1 v d) = lrs me' d) \<and>
     (\<forall>me me' d v. eoi me' (msr E me ICC_EOIR1_EL1 v d) = (if me' = me then v else eoi me' d)) \<and>
     (\<forall>me me' r d. eoi me' (snd (mrs E me r d)) = eoi me' d) \<and> (\<forall>me me' n v d. eoi me' (msr E me (ICH_LR n) v d) = eoi me' d)"

lemma read_eoi: "irq_interface E lrs eoi \<Longrightarrow> read_sysreg E me x s = (r, t) \<Longrightarrow> eoi me' (dev t) = eoi me' (dev s)"
  by (auto simp: read_sysreg_def irq_interface_def split_beta)

lemma inject_scan_eoi:
  assumes E: "irq_interface E lrs eoi"
  shows "inject_scan E me elsr irq js free s = (r, t) \<Longrightarrow> eoi me' (dev t) = eoi me' (dev s)"
proof (induction js arbitrary: free s)
  case (Cons j js)
  show ?case
  proof (cases "push_bit (unat j) 1 AND elsr > 0")
    case True
    with Cons show ?thesis by simp
  next
    case False
    obtain x u where x: "read_lr E me j s = (x, u)" by fastforce
    then have "eoi me' (dev u) = eoi me' (dev s)" using read_eoi [OF E] by (auto simp: read_lr_def split: if_splits)
    with Cons x False show ?thesis by (cases x) (auto simp: bindP_def split: if_splits)
  qed
qed simp

lemma inject_eoi:
  assumes E: "irq_interface E lrs eoi" and run: "inject_irq E me irq h s = (Ok (), t)"
  shows "eoi me' (dev t) = eoi me' (dev s)"
proof -
  from run obtain e v x s1 s2 s3 where r: "read_sysreg E me ICH_ELRSR_EL2 s = (Ok e, s1)" "read_sysreg E me ICH_VTR_EL2 s1 = (Ok v, s2)"
    "inject_scan E me e irq (lr_indices v) None s2 = (Ok x, s3)"
    and last: "(case x of None \<Rightarrow> retP () | Some None \<Rightarrow> liftP Panic | Some (Some i) \<Rightarrow> write_lr E me i (lr_entry irq h)) s3 = (Ok (), t)"
    by (auto simp: inject_irq_def elim!: bindP_OkE)
  have "eoi me' (dev t) = eoi me' (dev s3)"
    using last E by (auto simp: write_lr_def write_sysreg_def irq_interface_def split: option.splits if_splits)
  with read_eoi [OF E r(1)] read_eoi [OF E r(2)] inject_scan_eoi [OF E r(3)] show ?thesis by simp
qed

definition has_room :: "u64 \<Rightarrow> u64 list \<Rightarrow> bool" where
  "has_room irq ls \<longleftrightarrow> irq \<in> occupied ls \<or> list_ex lr_free ls"

lemma spec_inject_room: "spec_inject irq h ls \<noteq> None \<longleftrightarrow> has_room irq ls"
proof (cases "irq \<in> occupied ls")
  case True
  then show ?thesis by (auto simp: spec_inject_def has_room_def occupied_def list_ex_iff)
next
  case False
  then have "\<not> list_ex (\<lambda>v. \<not> lr_free v \<and> vintid v = irq) ls" by (auto simp: occupied_def list_ex_iff)
  moreover have "find (\<lambda>i. lr_free (ls ! i)) [0..<length ls] \<noteq> None \<longleftrightarrow> list_ex lr_free ls"
    by (auto simp: find_None_iff list_ex_length)
  ultimately show ?thesis using False by (auto simp: spec_inject_def has_room_def)
qed

lemma inject_room:
  assumes "list_registers E lrs" "has_room irq (lrs me (dev s))" "unat irq < 2 ^ 32"
  obtains d where "inject_irq E me irq h s = (Ok (), s\<lparr>dev := d\<rparr>)" "occupied (lrs me d) = insert irq (occupied (lrs me (dev s)))"
    "\<And>me'. me' \<noteq> me \<Longrightarrow> lrs me' d = lrs me' (dev s)"
proof -
  obtain ls where ls: "spec_inject irq h (lrs me (dev s)) = Some ls" using spec_inject_room assms(2) by blast
  with inject_irq_run [OF assms(1), where irq = irq and h = h and me = me and s = s] spec_inject_Some [OF ls assms(3)] that show thesis by auto
qed

section \<open>Parking\<close>

lemma idle_run:
  assumes A: "bit_alloc (bits E)" and ok: "hv_ok E s" and wf: "frames_wf E s" and pk: "parking_ok E s"
    and c: "unat (this_cpu_id me) < 4" "self = arch_cpu (percpu s ! unat (this_cpu_id me))" "cpuid self = this_cpu_id me"
  obtains (parked) m' p where "idle E me self s = (Ok Vmreturn :: (HvErrorNum, 'x ctl) outcome, (let i = unat (this_cpu_id me); d = percpu s ! i in
      s\<lparr>percpu := (percpu s)[i := d\<lparr>arch_cpu := self\<lparr>psci_on := False\<rparr>\<rparr>], mem := m', PARKING_MEMORY_SET := Some p,
        stacks := (stacks s)[i := fresh_regs (dtb_ipa d)],
        dev := msr E me VTTBR_EL2 (vttbr_baddr E (root_paddr (pt p))) (reset_dev E me 0 s (dev s))\<rparr>))"
      "hv_ok E (s\<lparr>mem := m', PARKING_MEMORY_SET := Some p\<rparr>)" "regions p = [(0, parking_region E)]"
      "kept (bits E) (set (live_sets s)) (mem s) m'" "\<forall>zn \<in> ran (zone_at s). gpm zn \<in> set (live_sets s)"
      "PARKING_MEMORY_SET s \<noteq> None \<longrightarrow> m' = mem s"
      "held (bits E) m' (set (live_sets (s\<lparr>mem := m', PARKING_MEMORY_SET := Some p\<rparr>))) = held (bits E) (mem s) (set (live_sets s))"
      "PARKING_MEMORY_SET s = None \<longrightarrow> read_u64 (bytes m') (parking_page E) = 0x17ffffffd503207f"
    | (exhausted) t where "idle E me self s = (Panic :: (HvErrorNum, 'x ctl) outcome, t)" "\<And>q. \<not> frame_free (bits E) (falloc (mem t)) q"
      "PARKING_MEMORY_SET s = None"
proof -
  let ?i = "unat (this_cpu_id me)"
  let ?d = "(percpu s ! ?i)\<lparr>arch_cpu := self\<lparr>psci_on := False\<rparr>\<rparr>"
  let ?s1 = "s\<lparr>percpu := (percpu s)[?i := ?d]\<rparr>"
  have cw: "cpus_wf E s" using wf by (simp add: frames_wf_def)
  have off: "set_psci_on E me False s = (Ok (), ?s1)"
    using update_cpu_data_in [OF cw c(1)] c(2) by (simp add: set_psci_on_def)
  have len: "?i < length (percpu s)" using c(1) cpus_wf_D [OF cw] by simp
  have at: "zone_at ?s1 = zone_at s" by auto
  then have ls: "live_sets ?s1 = live_sets s" by (simp add: live_sets_def)
  have ok1: "hv_ok E ?s1"
    by (rule hv_ok_cong_sets [OF ok]) (use len in \<open>auto simp: nth_list_update\<close>)
  have wf1: "frames_wf E ?s1" "parking_ok E ?s1" using wf pk by (simp_all add: frames_wf_def cpus_wf_def parking_ok_def)
  have cpu: "unat (cpuid self) < 4" using c by simp
  show thesis
  proof (cases rule: parking_init_run [OF A ok1 wf1])
    case (1 m' p)
    let ?s2 = "?s1\<lparr>mem := m', PARKING_MEMORY_SET := Some p\<rparr>"
    have wf2: "frames_wf E ?s2" and cw2: "cpus_wf E ?s2" using wf1(1) by (simp_all add: frames_wf_def cpus_wf_def)
    have lv: "s2_level ?s2 = s2_level s" by (simp add: s2_level_def)
    then have rd: "reset_dev E me entry ?s2 d = reset_dev E me entry s d" for entry d by (simp add: reset_dev_def)
    let ?s3 = "?s2\<lparr>dev := reset_dev E me 0 s (dev s), stacks := (stacks s)[?i := fresh_regs (dtb_ipa (percpu s ! ?i))]\<rparr>"
    have r: "reset E me self 0 (dtb_ipa ?d) ?s2 = (Ok (), ?s3)"
      using reset_run [OF wf2 cpu] c(3) by (simp add: rd)
    let ?s4 = "?s3\<lparr>dev := msr E me VTTBR_EL2 (vttbr_baddr E (root_paddr (pt p))) (dev ?s3)\<rparr>"
    have "frames_wf E ?s4"
      using wf by (auto simp: frames_wf_def cpus_wf_def fresh_regs_def dest!: set_update_subset_insert [THEN subsetD])
    from guest_reg_run [OF this cpu] have g: "guest_reg E self ?s4 = (Ok ?i, ?s4)" using c(3) by simp
    have "percpu ?s2 ! ?i = ?d" using len by simp
    with get_cpu_data_in [OF cw2 c(1)] have "this_cpu_data E me ?s2 = (Ok ?d, ?s2)" by (simp add: this_cpu_data_def)
    with c(3) off 1(1) r g have "idle E me self s = (Ok Vmreturn :: (HvErrorNum, 'x ctl) outcome, ?s4)"
      by (simp add: idle_def bindP_simps ms_activate_def write_sysreg_def)
    moreover have "hv_ok E (s\<lparr>mem := m', PARKING_MEMORY_SET := Some p\<rparr>)"
      by (rule hv_ok_cong_sets [OF 1(2)]) (use len in \<open>auto simp: nth_list_update\<close>)
    moreover have "live_sets ?s2 = live_sets (s\<lparr>mem := m', PARKING_MEMORY_SET := Some p\<rparr>)" by (simp add: live_sets_def zone_at_def)
    ultimately show thesis using parked [where m' = m' and p = p] 1(3-8) ls at by (simp add: Let_def parking_ok_def)
  next
    case (2 t)
    with c(3) off have "idle E me self s = (Panic :: (HvErrorNum, 'x ctl) outcome, t)" by (simp add: idle_def bindP_simps)
    with 2(2,3) exhausted show thesis by simp
  qed
qed

text \<open>Through the parking set a core reaches one page, the one with the loop.\<close>

lemma parking_sees:
  assumes "bit_alloc (bits E)" "set_ok (bits E) m p" "regions p = [(0, parking_region E)]" "unat v < va_limit (pt p)"
  shows "translation (sees m p v) = (if unat v < 4096 then Some (v + parking_page E, READ OR WRITE OR IO) else None)"
proof -
  have n: "norm_flags (READ OR WRITE OR IO) = READ OR WRITE OR IO" by (simp add: norm_flags_def MemFlags_defs)
  have i: "in_region (parking_region E) v \<longleftrightarrow> unat v < 4096" by (simp add: in_region_def PAGE_SIZE_def)
  have ro: "regions_ok (pt p) (regions p)" using assms(2) by (simp add: set_ok_def ms_ok_def)
  have "region_of p v = (if unat v < 4096 then Some (parking_region E) else None)"
    using region_of_iff [OF ro, of v] assms(3) i by auto
  then show ?thesis
    using set_ok_sees [OF assms(1,2,4)] n by (simp add: spec_query_def)
qed

section \<open>Properties\<close>

text \<open>
  C24: a CPU that belongs to a zone and is told to run enters the guest of that zone: \<open>VTTBR_EL2\<close> holds
  the root of the zone's stage 2 table, the exception return goes to the entry of the CPU in the
  mode of a kernel with interrupts masked, translation and trapping are on, all general registers
  are zero except the first, which holds the device tree address, and the CPU counts as on. The
  control registers of the other cores do not change.
\<close>

theorem run_enters_zone:
  assumes "register_file E get" and "frames_wf E s" and "unat (this_cpu_id me) < 4" and "c = percpu s ! unat (this_cpu_id me)"
    and "cpuid (arch_cpu c) = this_cpu_id me" and "zone c = Some z" and "zone_at s z = Some zn"
  shows "\<exists>t. run E me (arch_cpu c) s = (Ok Vmreturn, t) \<and>
    get me VTTBR_EL2 (dev t) = vttbr_baddr E (root_paddr (pt (gpm zn))) \<and> get me ELR_EL2 (dev t) = cpu_on_entry c \<and>
    get me SPSR_EL2 (dev t) = 0x3c5 \<and> get me HCR_EL2 (dev t) = hcr_value E \<and>
    stacks t = (stacks s)[unat (this_cpu_id me) := \<lparr>exit_reason = 0, usr = dtb_ipa c # replicate 30 0\<rparr>] \<and>
    psci_on (arch_cpu (percpu t ! unat (this_cpu_id me))) \<and> mem t = mem s \<and>
    (\<forall>me' r. me' \<noteq> me \<and> r \<in> control_regs \<longrightarrow> get me' r (dev t) = get me' r (dev s))"
proof -
  note r = run_ready [where self = "arch_cpu c", OF assms(2,3) _ assms(5) _ assms(7)] and g = reset_dev_get [OF assms(1)]
  have vt: "VTTBR_EL2 \<in> control_regs" by (simp add: control_regs_def)
  have len: "unat (this_cpu_id me) < length (percpu s)" using assms(2,3) cpus_wf_D [of E s] by (simp add: frames_wf_def)
  show ?thesis
    using r assms(4,6) len register_fileD(1) [OF assms(1) vt] register_fileD(2) [OF assms(1)] vt
    by (auto simp: Let_def g fresh_regs_def)
qed

definition plain_get :: "u64 \<Rightarrow> sysreg \<Rightarrow> regdev \<Rightarrow> u64" where
  "plain_get me r d = sregs d me r"

lemma plain_register_file: "register_file (plain_env A) plain_get"
  by (auto simp: register_file_def plain_get_def plain_env_def)

definition plain_eoi :: "u64 \<Rightarrow> regdev \<Rightarrow> u64" where
  "plain_eoi me d = sregs d me ICC_EOIR1_EL1"

lemma plain_irq_interface: "irq_interface (plain_env A) plain_lrs plain_eoi"
  using plain_list_registers [of A] by (simp add: irq_interface_def) (simp add: plain_env_def plain_mrs_def plain_lrs_def plain_eoi_def)

definition two_cpu_hv :: "(usize list, regdev) hv" where
  "two_cpu_hv = two_zone_hv\<lparr>percpu := (percpu two_zone_hv)[1 := (percpu two_zone_hv ! 1)\<lparr>cpu_on_entry := 0x40000000, dtb_ipa := 0x40001000\<rparr>]\<rparr>"

lemma two_cpu_frames: "frames_wf (plain_env A) two_cpu_hv" "frames_wf (plain_env A) bare_hv"
  using two_zone_cpus(1) [of A]
  by (simp_all add: frames_wf_def two_cpu_hv_def cpus_wf_def) (simp_all add: two_zone_hv_def bare_hv_def MAX_CPU_NUM_def
    PER_CPU_SIZE_def plain_env_def)

theorem run_enters_zone_witness:
  "\<exists>t. run (plain_env list_bits) 1 (arch_cpu (percpu two_cpu_hv ! 1)) two_cpu_hv = (Ok Vmreturn, t) \<and>
     sregs (dev t) 1 ELR_EL2 = 0x40000000 \<and> sregs (dev t) 1 VTTBR_EL2 = root_paddr (pt (gpm empty_zone)) \<and>
     usr (stacks t ! 1) ! 0 = 0x40001000"
proof -
  have c: "this_cpu_id 1 = 1" by (simp add: this_cpu_id_def mpidr_to_cpuid_def)
  have p: "percpu two_cpu_hv ! 1 = \<lparr>cpu_id = 1, cpu_on_entry = 0x40000000, dtb_ipa = 0x40001000, arch_cpu = ArchCpu_new 1,
      zone = Some 1, boot_cpu = False\<rparr>" by (simp add: two_cpu_hv_def two_zone_hv_def bare_hv_def)
  have "zone_at two_cpu_hv 1 = Some (empty_zone\<lparr>zid := 1\<rparr>)" by (simp add: two_cpu_hv_def two_zone_hv_def zone_at_def)
  moreover have e: "vttbr_baddr (plain_env list_bits) = (\<lambda>p. p)" by (simp add: plain_env_def)
  moreover have "length (stacks two_cpu_hv) = 4" by (simp add: two_cpu_hv_def two_zone_hv_def bare_hv_def)
  ultimately show ?thesis
    using run_enters_zone [OF plain_register_file two_cpu_frames(1) [of list_bits], where me = 1 and c = "percpu two_cpu_hv ! 1" and z = 1]
    by (auto simp: c e p [simplified] ArchCpu_new_def plain_get_def)
qed

text \<open>
  C28: a CPU that is shut down, or that has no guest yet, is parked: it returns to address 0 of the
  parking set, through which exactly one page can be reached, and that page begins with the two instructions \<open>wfi\<close> (0xd503207f) and a branch back to it (0x17ffffff); the CPU
  counts as off, no guest sees a change and the state stays well formed. The only other end is a panic
  when no frame is left for the tables of the parking set. When a parking set exists already, its page is taken to hold the loop.
\<close>

theorem idle_parks:
  assumes "bit_alloc (bits E)" and "register_file E get" and "hv_ok E s" and "frames_wf E s" and "parking_ok E s"
    and "unat (this_cpu_id me) < 4" and "c = percpu s ! unat (this_cpu_id me)" and "cpuid (arch_cpu c) = this_cpu_id me"
    and "PARKING_MEMORY_SET s \<noteq> None \<longrightarrow> read_u64 (bytes (mem s)) (parking_page E) = 0x17ffffffd503207f"
  shows "case (idle E me (arch_cpu c) s :: (HvErrorNum, 'x ctl) outcome \<times> _) of
      (Ok Vmreturn, t) \<Rightarrow> (\<exists>p. PARKING_MEMORY_SET t = Some p \<and>
        get me VTTBR_EL2 (dev t) = vttbr_baddr E (root_paddr (pt p)) \<and> get me ELR_EL2 (dev t) = 0 \<and>
        (\<forall>v. unat v < va_limit (pt p) \<longrightarrow> translation (sees (mem t) p v) =
           (if unat v < 4096 then Some (v + parking_page E, READ OR WRITE OR IO) else None))) \<and>
        read_u64 (bytes (mem t)) (parking_page E) = 0x17ffffffd503207f \<and>
        \<not> psci_on (arch_cpu (percpu t ! unat (this_cpu_id me))) \<and> hv_ok E t \<and>
        (\<forall>z zn v. zone_at s z = Some zn \<and> unat v < va_limit (pt (gpm zn)) \<longrightarrow>
           zone_at t z = Some zn \<and> sees (mem t) (gpm zn) v = sees (mem s) (gpm zn) v)
    | (Panic, t) \<Rightarrow> \<forall>q. \<not> frame_free (bits E) (falloc (mem t)) q
    | _ \<Rightarrow> False"
proof (cases rule: idle_run [where 'x = 'x, OF assms(1,3-6) _ assms(8)])
  case (2 m' p)
  let ?i = "unat (this_cpu_id me)"
  define t where "t = s\<lparr>percpu := (percpu s)[?i := (percpu s ! ?i)\<lparr>arch_cpu := (arch_cpu c)\<lparr>psci_on := False\<rparr>\<rparr>], mem := m',
    PARKING_MEMORY_SET := Some p, stacks := (stacks s)[?i := fresh_regs (dtb_ipa (percpu s ! ?i))],
    dev := msr E me VTTBR_EL2 (vttbr_baddr E (root_paddr (pt p))) (reset_dev E me 0 s (dev s))\<rparr>"
  have run: "idle E me (arch_cpu c) s = (Ok Vmreturn :: (HvErrorNum, 'x ctl) outcome, t)" using 2(1) by (simp add: Let_def t_def)
  have len: "?i < length (percpu s)" using assms(4,6) cpus_wf_D [of E s] by (simp add: frames_wf_def)
  have ok: "hv_ok E t"
    by (rule hv_ok_cong_sets [OF 2(2)]) (use len in \<open>auto simp: nth_list_update t_def\<close>)
  have sel: "mem t = m'" "PARKING_MEMORY_SET t = Some p" "\<not> psci_on (arch_cpu (percpu t ! ?i))" "zone_at t = zone_at s"
    using len by (auto simp: zone_at_def t_def)
  have so: "sets_ok (bits E) (mem s) (live_sets s)" "sets_ok (bits E) m' (live_sets t)" using assms(3) ok sel(1) by (simp_all add: hv_ok_def)
  have p: "set_ok (bits E) m' p" by (rule sets_okD(2) [OF so(2)]) (simp add: live_sets_def sel)
  have vt: "VTTBR_EL2 \<in> control_regs" "ELR_EL2 \<in> control_regs" by (simp_all add: control_regs_def)
  have same: "sees m' (gpm zn) v = sees (mem s) (gpm zn) v" if "zone_at s z = Some zn" "unat v < va_limit (pt (gpm zn))" for z zn v
  proof -
    show ?thesis by (rule kept_sees [OF live_zone(3) [OF assms(3) that(1)] 2(4) live_zone(2) [OF assms(3) that(1)] that(2)])
  qed
  have "get me VTTBR_EL2 (dev t) = vttbr_baddr E (root_paddr (pt p))" "get me ELR_EL2 (dev t) = 0"
    using register_fileD(1) [OF assms(2) vt(1)] register_fileD(2) [OF assms(2) vt(2)] vt reset_dev_get(1) [OF assms(2)]
    by (simp_all add: t_def)
  moreover have "read_u64 (bytes (mem t)) (parking_page E) = 0x17ffffffd503207f"
    using 2(6,8) assms(9) sel(1) by (cases "PARKING_MEMORY_SET s") auto
  ultimately show ?thesis
    unfolding run using ok same sel parking_sees [OF assms(1) p 2(3)] by auto
qed (use assms in simp_all)

theorem idle_parks_witness:
  "case (idle (plain_env list_bits) 2 (arch_cpu (percpu bare_hv ! 2)) bare_hv :: (HvErrorNum, unit ctl) outcome \<times> _) of
      (Ok Vmreturn, t) \<Rightarrow> (\<exists>p. PARKING_MEMORY_SET t = Some p \<and> sregs (dev t) 2 VTTBR_EL2 = root_paddr (pt p) \<and>
        sregs (dev t) 2 ELR_EL2 = 0 \<and> translation (sees (mem t) p 0x10) = Some (0x40500010, READ OR WRITE OR IO) \<and>
        translation (sees (mem t) p 0x1000) = None) \<and> read_u64 (bytes (mem t)) 0x40500000 = 0x17ffffffd503207f
    | (Panic, t) \<Rightarrow> \<not> frame_free list_bits (falloc (mem t)) 0x80000000 | _ \<Rightarrow> False"
proof -
  let ?E = "plain_env list_bits" and ?c = "percpu bare_hv ! 2"
  let ?r = "idle ?E 2 (arch_cpu ?c) bare_hv :: (HvErrorNum, unit ctl) outcome \<times> _"
  have A: "bit_alloc (bits ?E)" using list_bits.bit_alloc_axioms by (simp add: plain_env_def)
  have c: "this_cpu_id 2 = 2" by (simp add: this_cpu_id_def mpidr_to_cpuid_def)
  have e: "parking_page ?E = 0x40500000" "vttbr_baddr ?E = (\<lambda>p. p)" "bits ?E = list_bits" by (simp_all add: plain_env_def)
  have pk: "parking_ok ?E bare_hv" by (simp add: parking_ok_def e bare_hv_sel is_aligned_iff small_pool_def)
  have lim: "unat (0x10 :: usize) < va_limit (pt p)" "unat (0x1000 :: usize) < va_limit (pt p)" for p
    by (simp_all add: va_limit_def)
  have id: "cpuid (arch_cpu ?c) = 2" by (simp add: bare_hv_def ArchCpu_new_def)
  note i = idle_parks [where 'x = unit and E = ?E and me = 2 and c = ?c, OF A plain_register_file bare_hv_ok two_cpu_frames(2) pk]
  have see: "translation (sees m p 0x10) = Some (0x40500010, READ OR WRITE OR IO)" "translation (sees m p 0x1000) = None"
    if "\<forall>v. unat v < va_limit (pt p) \<longrightarrow> translation (sees m p v) =
      (if unat v < 4096 then Some (v + parking_page ?E, READ OR WRITE OR IO) else None)" for m p
    using that [rule_format, OF lim(1)] that [rule_format, OF lim(2)] by (simp_all add: e)
  show ?thesis
  proof (cases ?r)
    case (Pair r t)
    have none: "PARKING_MEMORY_SET bare_hv = None" by (simp add: bare_hv_def)
    have h: "unat (this_cpu_id 2) < 4" "?c = percpu bare_hv ! unat (this_cpu_id 2)" "cpuid (arch_cpu ?c) = this_cpu_id 2"
      "PARKING_MEMORY_SET bare_hv \<noteq> None \<longrightarrow> read_u64 (bytes (mem bare_hv)) (parking_page ?E) = 0x17ffffffd503207f"
      using none id by (simp_all add: c)
    note goal = i [OF h, unfolded Pair prod.case]
    show ?thesis
    proof (cases r)
      case (Ok x)
      then show ?thesis using goal Pair see by (cases x) (auto simp: plain_get_def e(1,2))
    qed (use goal Pair in \<open>simp_all add: e(3)\<close>)
  qed
qed

text \<open>
  C33: an interrupt of a device or of the timer that the core acknowledges while a guest runs is ended, under the number that was acknowledged,
  and put into a list register of that core, so that the guest takes it; the timer's are counted. No other core and nothing in
  memory is affected. When no list register is free and none holds the interrupt already, the hypervisor panics.
\<close>

theorem irq_forwarded:
  assumes "irq_interface E lrs eoi" and "irq = fst (mrs E me ICC_IAR1_EL1 (dev s))" and "16 \<le> irq" and "irq < 0x3fe"
  shows "\<exists>d. gicv3_handle_irq_el1 E me s = (if has_room irq (lrs me (dev s)) then Ok (Returns ()) else Panic,
      s\<lparr>TIMER_INTERRUPT_COUNTER := TIMER_INTERRUPT_COUNTER s + (if irq = 27 then 1 else 0), dev := d\<rparr>) \<and>
    eoi me d = irq \<and> (has_room irq (lrs me (dev s)) \<longrightarrow> occupied (lrs me d) = insert irq (occupied (lrs me (dev s)))) \<and>
    (\<forall>me'. me' \<noteq> me \<longrightarrow> lrs me' d = lrs me' (dev s) \<and> eoi me' d = eoi me' (dev s))"
proof -
  let ?d1 = "msr E me ICC_EOIR1_EL1 irq (snd (mrs E me ICC_IAR1_EL1 (dev s)))"
  let ?s1 = "s\<lparr>TIMER_INTERRUPT_COUNTER := TIMER_INTERRUPT_COUNTER s + (if irq = 27 then 1 else 0), dev := ?d1\<rparr>"
  have lr: "lrs me' ?d1 = lrs me' (dev s)" and eo: "eoi me' ?d1 = (if me' = me then irq else eoi me' (dev s))" for me'
    using assms(1) by (simp_all add: irq_interface_def)
  have u: "unat irq < 2 ^ 32" using assms(4) by (simp add: word_less_nat_alt)
  have hw: "list_registers E lrs" using assms(1) by (simp add: irq_interface_def)
  have n: "\<not> irq < 8" "\<not> irq < 16" "\<not> 0x3fe \<le> irq" using assms(3,4) by (auto simp: word_less_nat_alt word_le_nat_alt)
  have run: "gicv3_handle_irq_el1 E me s = bindP (inject_irq E me irq True) (\<lambda>_. retP (Returns ())) ?s1"
    using n assms(2) by (cases "irq = 27") (simp_all add: gicv3_handle_irq_el1_def pending_irq_def bindP_simps read_sysreg_def
      deactivate_irq_def write_sysreg_def split_beta)
  show ?thesis
  proof (cases "has_room irq (lrs me (dev s))")
    case True
    obtain d where d: "inject_irq E me irq True ?s1 = (Ok (), ?s1\<lparr>dev := d\<rparr>)" "occupied (lrs me d) = insert irq (occupied (lrs me (dev s)))"
      "\<And>me'. me' \<noteq> me \<Longrightarrow> lrs me' d = lrs me' (dev s)"
      using inject_room [where s = ?s1 and E = E and lrs = lrs and irq = irq and me = me and h = True] hw True u lr by auto
    have e: "eoi me' d = eoi me' ?d1" for me' using inject_eoi [OF assms(1) d(1)] by simp
    show ?thesis using run d(1) d(2,3) True e eo by (intro exI [of _ d]) (simp add: bindP_def)
  next
    case False
    then have "inject_irq E me irq True ?s1 = (Panic, ?s1)"
      using inject_irq_run [OF hw, where irq = irq and h = True and me = me and s = ?s1] spec_inject_room [of irq True "lrs me (dev s)"] lr by simp
    with run False lr eo show ?thesis by (intro exI [of _ ?d1]) (simp add: bindP_def)
  qed
qed

theorem irq_forwarded_witness:
  "\<exists>d. gicv3_handle_irq_el1 (plain_env list_bits) 0 (bare_hv\<lparr>dev := \<lparr>sregs = (\<lambda>_ _. 0)(0 := (\<lambda>_. 0)(ICC_IAR1_EL1 := 33)), dregs = (\<lambda>_. 0)\<rparr>\<rparr>) =
     (Ok (Returns ()), bare_hv\<lparr>dev := d\<rparr>) \<and> 33 \<in> occupied (plain_lrs 0 d) \<and> sregs d 0 ICC_EOIR1_EL1 = 33"
proof -
  let ?s = "bare_hv\<lparr>dev := \<lparr>sregs = (\<lambda>_ _. 0)(0 := (\<lambda>_. 0)(ICC_IAR1_EL1 := 33)), dregs = (\<lambda>_. 0)\<rparr>\<rparr>"
  have "fst (mrs (plain_env list_bits) 0 ICC_IAR1_EL1 (dev ?s)) = 33" by (simp add: plain_env_def plain_mrs_def)
  moreover have "has_room 33 (plain_lrs 0 (dev ?s))" by (simp add: has_room_def plain_lrs_def lr_free_def upt_rec)
  ultimately show ?thesis
    using irq_forwarded [OF plain_irq_interface [of list_bits], where irq = 33 and me = 0 and s = ?s] by (auto simp: plain_eoi_def)
qed

end
