(* ===== verification/Hv_Hypercall.thy ===== *)
theory Hv_Hypercall
  imports Hv_CpuSpec
begin

text \<open>
  The hypercalls of \<open>hypercall/mod.rs\<close>, through which the root zone manages the others: setting up the
  region shared with its virtio device, delivering the device's interrupts, starting and shutting
  down zones. The configuration of a zone to start is a \<open>repr(C)\<close> structure in the memory of the root
  zone, at the address the caller gives.
\<close>

section \<open>A configuration in memory\<close>

definition read_u32 :: "phys_mem \<Rightarrow> usize \<Rightarrow> u32" where
  "read_u32 m a = ucast (m a) OR push_bit 8 (ucast (m (a + 1))) OR push_bit 16 (ucast (m (a + 2))) OR push_bit 24 (ucast (m (a + 3)))"

definition load_region :: "phys_mem \<Rightarrow> usize \<Rightarrow> HvConfigMemoryRegion" where
  "load_region m a = \<lparr>mem_type = read_u32 m a, physical_start = read_u64 m (a + 8), virtual_start = read_u64 m (a + 16),
     mr_size = read_u64 m (a + 24)\<rparr>"

definition load_arch :: "phys_mem \<Rightarrow> usize \<Rightarrow> HvArchZoneConfig" where
  "load_arch m a = \<lparr>gicd_base = read_u64 m a, gicr_base = read_u64 m (a + 8), gicd_size = read_u64 m (a + 16),
     gicr_size = read_u64 m (a + 24)\<rparr>"

definition load_config :: "phys_mem \<Rightarrow> usize \<Rightarrow> HvZoneConfig" where
  "load_config m a = \<lparr>zone_id = read_u32 m a, cfg_cpus = read_u64 m (a + 8), num_memory_regions = read_u32 m (a + 16),
     memory_regions_arr = map (\<lambda>i. load_region m (a + 24 + 32 * of_nat i)) [0..<CONFIG_MAX_MEMORY_REGIONS],
     num_interrupts = read_u32 m (a + 536), interrupts_arr = map (\<lambda>i. read_u32 m (a + 540 + 4 * of_nat i)) [0..<CONFIG_MAX_INTERRUPTS],
     entry_point = read_u64 m (a + 672), kernel_load_paddr = read_u64 m (a + 680), kernel_size = read_u64 m (a + 688),
     dtb_load_paddr = read_u64 m (a + 696), dtb_size = read_u64 m (a + 704), arch = load_arch m (a + 712)\<rparr>"

text \<open>
  A reference is neither null nor misaligned; making one of another address is undefined. The hypervisor runs on the tables of \<open>boot_pt.S\<close>, which map the first
  4 GiB, so that reading a configuration, 744 bytes, that is not below them faults. The address is read before anything else, for the log.
\<close>

definition config_ref :: "u64 \<Rightarrow> bool" where
  "config_ref a \<longleftrightarrow> a \<noteq> 0 \<and> a AND 7 = 0 \<and> unat a + 744 \<le> 2 ^ 32"

definition deref_config :: "u64 \<Rightarrow> ('b, 'd, HvZoneConfig) hvp" where
  "deref_config a s = (if config_ref a then Ok (load_config (bytes (mem s)) a) else Fault, s)"

section \<open>Hypercalls\<close>

datatype HyperCallCode = HvVirtioInit | HvVirtioInjectIrq | HvZoneStart | HvZoneShutdown

definition HyperCallCode_try_from :: "u64 \<Rightarrow> HyperCallCode option" where
  "HyperCallCode_try_from c = (if c = 0 then Some HvVirtioInit else if c = 1 then Some HvVirtioInjectIrq
     else if c = 2 then Some HvZoneStart else if c = 3 then Some HvZoneShutdown else None)"

definition require_root :: "('b, 'd) env \<Rightarrow> u64 \<Rightarrow> ('b, 'd, unit) hvp" where
  "require_root E me = bindP (is_this_root_zone E me) (\<lambda>r. if r then retP () else errP EPERM)"

definition hv_virtio_init :: "('b, 'd) env \<Rightarrow> u64 \<Rightarrow> u64 \<Rightarrow> ('b, 'd, usize) hvp" where
  "hv_virtio_init E me shared_region_addr =
     bindP (require_root E me) (\<lambda>_.
     bindP (liftP (rust_assert (shared_region_addr mod PAGE_SIZE = 0))) (\<lambda>_.
     bindP (modifyP (\<lambda>s. s\<lparr>VIRTIO_BRIDGE := set_base_addr shared_region_addr (VIRTIO_BRIDGE s)\<rparr>)) (\<lambda>_. retP 0)))"

definition hv_virtio_inject_irq :: "('b, 'd) env \<Rightarrow> u64 \<Rightarrow> ('b, 'd, usize) hvp" where
  "hv_virtio_inject_irq E me =
     bindP (require_root E me) (\<lambda>_.
     bindP immut_region (\<lambda>_.
     bindP (\<lambda>s. case inject_all E me s of Some r \<Rightarrow> r | None \<Rightarrow> (Hang, s)) (\<lambda>_. retP 0)))"

definition hv_zone_start :: "('b, 'd) env \<Rightarrow> u64 \<Rightarrow> HvZoneConfig \<Rightarrow> ('b, 'd, usize) hvp" where
  "hv_zone_start E me config =
     bindP (require_root E me) (\<lambda>_.
     bindP (zone_create E config) (\<lambda>z.
     bindP (read_zone z) (\<lambda>zn.
     bindP (liftP (first_cpu (cpu_set zn))) (\<lambda>fc. bindP (liftP (unwrap_opt fc)) (\<lambda>boot_cpu.
     bindP (get_cpu_data E boot_cpu) (\<lambda>target_data.
     if \<not> psci_on (arch_cpu target_data)
     then bindP (send_event E me boot_cpu SGI_IPI_ID IPI_EVENT_WAKEUP) (\<lambda>_. retP 0)
     else errP EBUSY))))))"

definition shutdown_cpu :: "('b, 'd) env \<Rightarrow> u64 \<Rightarrow> usize \<Rightarrow> ('b, 'd, unit) hvp" where
  "shutdown_cpu E me c =
     bindP (get_cpu_data E c) (\<lambda>old.
     bindP (update_cpu_data E c (\<lambda>d. d\<lparr>zone := None\<rparr>)) (\<lambda>_.
     bindP (release E (zone old)) (\<lambda>_.
     bindP (update_cpu_data E c (\<lambda>d. d\<lparr>cpu_on_entry := INVALID_ADDRESS\<rparr>)) (\<lambda>_.
     send_event E me c SGI_IPI_ID IPI_EVENT_SHUTDOWN))))"

definition hv_zone_shutdown :: "('b, 'd) env \<Rightarrow> u64 \<Rightarrow> u64 \<Rightarrow> ('b, 'd, usize) hvp" where
  "hv_zone_shutdown E me i =
     bindP (require_root E me) (\<lambda>_.
     if i = 0 then errP EINVAL else
     bindP (find_zone i) (\<lambda>found. case found of None \<Rightarrow> errP EEXIST
     | Some z \<Rightarrow>
       bindP (read_zone z) (\<lambda>zone_r.
       bindP (liftP (cpu_iter (cpu_set zone_r))) (\<lambda>cs.
       bindP (forP cs (shutdown_cpu E me)) (\<lambda>_.
       bindP (arch_irqchip_reset E zone_r) (\<lambda>_.
       bindP (remove_zone E i) (\<lambda>_. retP 0)))))))"

definition hypercall :: "('b, 'd) env \<Rightarrow> u64 \<Rightarrow> u64 \<Rightarrow> u64 \<Rightarrow> u64 \<Rightarrow> ('b, 'd, usize) hvp" where
  "hypercall E me c arg0 arg1 = (case HyperCallCode_try_from c of
     None \<Rightarrow> retP 0
   | Some HvVirtioInit \<Rightarrow> hv_virtio_init E me arg0
   | Some HvVirtioInjectIrq \<Rightarrow> hv_virtio_inject_irq E me
   | Some HvZoneStart \<Rightarrow> bindP (deref_config arg0) (hv_zone_start E me)
   | Some HvZoneShutdown \<Rightarrow> hv_zone_shutdown E me arg0)"

section \<open>Permission\<close>

text \<open>The zone of a CPU, and whether it is the root zone.\<close>

definition caller :: "('b, 'd) env \<Rightarrow> u64 \<Rightarrow> zone_ptr \<Rightarrow> ('b, 'd) hv \<Rightarrow> bool" where
  "caller E me z s \<longleftrightarrow> cpus_wf E s \<and> unat (this_cpu_id me) < 4 \<and> zone (percpu s ! unat (this_cpu_id me)) = Some z \<and> ZONE_LIST s \<noteq> []"

lemma require_root_run:
  assumes "caller E me z s"
  shows "require_root E me s = (if z = hd (ZONE_LIST s) then Ok () else Err EPERM, s)"
  using assms by (cases "ZONE_LIST s") (auto simp: require_root_def caller_def bindP_def is_this_root_zone_in errP_def)

lemma hypercall_denied:
  assumes "caller E me z s" "z \<noteq> hd (ZONE_LIST s)"
  shows "hypercall E me c a b s = (if HyperCallCode_try_from c = None then Ok 0
    else if c = 2 \<and> \<not> config_ref a then Fault else Err EPERM, s)"
proof -
  have r: "require_root E me s = (Err EPERM, s)" using require_root_run [OF assms(1)] assms(2) by simp
  have "hv_virtio_init E me a s = (Err EPERM, s)" "hv_virtio_inject_irq E me s = (Err EPERM, s)" "hv_zone_start E me cfg s = (Err EPERM, s)"
    "hv_zone_shutdown E me a s = (Err EPERM, s)" for cfg
    using r by (simp_all add: hv_virtio_init_def hv_virtio_inject_irq_def hv_zone_start_def hv_zone_shutdown_def bindP_simps)
  moreover from this(3) have "bindP (deref_config a) (hv_zone_start E me) s = (if config_ref a then Err EPERM else Fault, s)"
    by (simp add: deref_config_def bindP_def)
  ultimately show ?thesis
    by (cases "HyperCallCode_try_from c") (auto simp: hypercall_def HyperCallCode_try_from_def split: if_splits)
qed

section \<open>Shutting a zone down\<close>

lemma forP_dev:
  assumes "\<And>x s. x \<in> set xs \<Longrightarrow> \<exists>d. f x s = (Ok (), s\<lparr>dev := d\<rparr>)"
  shows "\<exists>d. forP xs f s = (Ok (), s\<lparr>dev := d\<rparr>)"
  using assms
proof (induction xs arbitrary: s)
  case Nil
  then show ?case by (intro exI [of _ "dev s"]) simp
next
  case (Cons x xs)
  from Cons.prems [of x s] obtain d where "f x s = (Ok (), s\<lparr>dev := d\<rparr>)" by auto
  moreover from Cons.IH [of "s\<lparr>dev := d\<rparr>"] Cons.prems obtain d' where "forP xs f (s\<lparr>dev := d\<rparr>) = (Ok (), s\<lparr>dev := d\<rparr>\<lparr>dev := d'\<rparr>)"
    by auto
  ultimately show ?case by (intro exI [of _ d']) (simp add: bindP_def)
qed

lemma irqchip_reset_run:
  assumes "GIC s = Some g" "unat (host_gicd g) + 0x400 < 2 ^ 64" "length (irq_bitmap zn) = 32"
  shows "\<exists>d. arch_irqchip_reset E zn s = (Ok (), s\<lparr>dev := d\<rparr>)"
proof -
  let ?f = "\<lambda>e :: nat \<times> u32. if fst e = 0 then retP ()
    else bindP (liftP (add_chk (host_gicd g) (GICD_ICENABLER + of_nat (fst e) * 4))) (\<lambda>en.
      bindP (write_volatile E en 4 (ucast (snd e))) (\<lambda>_.
      bindP (liftP (add_chk (host_gicd g) (GICD_ICACTIVER + of_nat (fst e) * 4))) (\<lambda>ac.
      write_volatile E ac 4 (ucast (snd e)))))"
  have "\<exists>d. forP (enumerate 0 (irq_bitmap zn)) ?f s = (Ok (), s\<lparr>dev := d\<rparr>)"
  proof (rule forP_dev)
    fix e and s :: "('a, 'b) hv" assume "e \<in> set (enumerate 0 (irq_bitmap zn))"
    then have "fst e < 32" using assms(3) by (auto simp: in_set_enumerate_eq)
    then have u: "unat (of_nat (fst e) * 4 :: usize) = 4 * fst e" by (simp add: unat_mul_exact unat_of_nat_exact)
    then have "unat (GICD_ICENABLER + of_nat (fst e) * 4) = 0x180 + 4 * fst e"
      "unat (GICD_ICACTIVER + of_nat (fst e) * 4) = 0x380 + 4 * fst e"
      using \<open>fst e < 32\<close> by (simp_all add: GICD_ICENABLER_def GICD_ICACTIVER_def unat_add_exact)
    with assms(2) \<open>fst e < 32\<close> show "\<exists>d. ?f e s = (Ok (), s\<lparr>dev := d\<rparr>)"
      by (cases "fst e = 0") (auto simp: add_chk_def bindP_simps write_volatile_def intro: exI [of _ "dev s"])
  qed
  then show ?thesis using assms(1) by (simp add: arch_irqchip_reset_def bindP_simps host_gicd_base_def gic_get_def)
qed

lemma shutdown_cpu_run:
  assumes wf: "cpus_wf E s" "unat c < 4" and em: "EVENT_MANAGER s = Some em"
    and old: "\<forall>z. zone (percpu s ! unat c) = Some z \<longrightarrow> z \<in> set (ZONE_LIST s)"
  shows "shutdown_cpu E me c s = (Ok (), s\<lparr>percpu := (percpu s)[unat c := (percpu s ! unat c)\<lparr>zone := None, cpu_on_entry := INVALID_ADDRESS\<rparr>],
     EVENT_MANAGER := Some (snd (EventManager_add_event em c IPI_EVENT_SHUTDOWN)),
     dev := msr E me ICC_SGI1R_EL1 (push_bit 24 SGI_IPI_ID OR push_bit (unat c) 1) (dev s)\<rparr>)"
proof -
  have len: "unat c < length (percpu s)" using cpus_wf_D [OF wf(1)] wf(2) by simp
  let ?s = "s\<lparr>percpu := (percpu s)[unat c := (percpu s ! unat c)\<lparr>zone := None\<rparr>]\<rparr>"
  have "release E (zone (percpu s ! unat c)) ?s = (Ok (), ?s)"
    using old by (cases "zone (percpu s ! unat c)") (simp_all add: release_def)
  moreover have "unat c < 64" using wf(2) by simp
  ultimately show ?thesis
    using len em update_cpu_data_in [OF wf, where f = "\<lambda>d. d\<lparr>zone := None\<rparr>"] update_cpu_data_in [of E ?s c, OF _ wf(2)] wf(1)
    by (simp add: shutdown_cpu_def bindP_simps get_cpu_data_in [OF wf] send_event_run)
qed

lemma shutdown_cpus_run:
  assumes "cpus_wf E s" "\<forall>c \<in> set cs. unat c < 4" "distinct cs" "EVENT_MANAGER s = Some em" "length em = 4"
    and "\<forall>i < 4. \<forall>z. zone (percpu s ! i) = Some z \<longrightarrow> z \<in> set (ZONE_LIST s)"
  shows "\<exists>ps em' d. forP cs (shutdown_cpu E me) s = (Ok (), s\<lparr>percpu := ps, EVENT_MANAGER := Some em', dev := d\<rparr>) \<and>
    length ps = length (percpu s) \<and> length em' = 4 \<and>
    (\<forall>i < 4. ps ! i = (if i \<in> unat ` set cs then (percpu s ! i)\<lparr>zone := None, cpu_on_entry := INVALID_ADDRESS\<rparr> else percpu s ! i) \<and>
       em' ! i = em ! i @ (if i \<in> unat ` set cs then [IPI_EVENT_SHUTDOWN] else []))"
  using assms
proof (induction cs arbitrary: s em)
  case Nil
  then show ?case by (intro exI [of _ "percpu s"] exI [of _ em] exI [of _ "dev s"]) simp
next
  case (Cons c cs)
  let ?s = "s\<lparr>percpu := (percpu s)[unat c := (percpu s ! unat c)\<lparr>zone := None, cpu_on_entry := INVALID_ADDRESS\<rparr>],
     EVENT_MANAGER := Some (snd (EventManager_add_event em c IPI_EVENT_SHUTDOWN)),
     dev := msr E me ICC_SGI1R_EL1 (push_bit 24 SGI_IPI_ID OR push_bit (unat c) 1) (dev s)\<rparr>"
  let ?em = "em[unat c := em ! unat c @ [IPI_EVENT_SHUTDOWN]]"
  have c: "unat c < 4" and len: "length (percpu s) = 4" using Cons.prems(1,2) cpus_wf_D by auto
  have one: "shutdown_cpu E me c s = (Ok (), ?s)"
    by (rule shutdown_cpu_run [OF Cons.prems(1) c Cons.prems(4)]) (use Cons.prems(6) c in blast)
  have em: "snd (EventManager_add_event em c IPI_EVENT_SHUTDOWN) = ?em"
    using c Cons.prems(5) by (simp add: EventManager_add_event_def)
  have wf: "cpus_wf E ?s" using Cons.prems(1) by (simp add: cpus_wf_def)
  have old: "\<forall>i < 4. \<forall>z. zone (percpu ?s ! i) = Some z \<longrightarrow> z \<in> set (ZONE_LIST ?s)"
  proof (intro allI impI)
    fix i z assume "i < 4" "zone (percpu ?s ! i) = Some z"
    then show "z \<in> set (ZONE_LIST ?s)" using Cons.prems(6) len by (cases "i = unat c") auto
  qed
  from Cons.IH [OF wf _ _ _ _ old, of ?em] Cons.prems(2,3,5) em obtain ps em' d where
    r: "forP cs (shutdown_cpu E me) ?s = (Ok (), ?s\<lparr>percpu := ps, EVENT_MANAGER := Some em', dev := d\<rparr>)"
    "length ps = length (percpu s)" "length em' = 4"
    "\<forall>i < 4. ps ! i = (if i \<in> unat ` set cs then (percpu ?s ! i)\<lparr>zone := None, cpu_on_entry := INVALID_ADDRESS\<rparr> else percpu ?s ! i) \<and>
       em' ! i = ?em ! i @ (if i \<in> unat ` set cs then [IPI_EVENT_SHUTDOWN] else [])" by auto
  have nc: "unat c \<notin> unat ` set cs" using Cons.prems(3) by (auto dest: word_unat_eq_iff [THEN iffD2])
  have "\<forall>i < 4. ps ! i = (if i \<in> unat ` set (c # cs) then (percpu s ! i)\<lparr>zone := None, cpu_on_entry := INVALID_ADDRESS\<rparr> else percpu s ! i) \<and>
       em' ! i = em ! i @ (if i \<in> unat ` set (c # cs) then [IPI_EVENT_SHUTDOWN] else [])"
  proof (intro allI impI)
    fix i :: nat assume i: "i < 4"
    with r(4) have "ps ! i = (if i \<in> unat ` set cs then (percpu ?s ! i)\<lparr>zone := None, cpu_on_entry := INVALID_ADDRESS\<rparr> else percpu ?s ! i)"
      "em' ! i = ?em ! i @ (if i \<in> unat ` set cs then [IPI_EVENT_SHUTDOWN] else [])" by simp_all
    then show "ps ! i = (if i \<in> unat ` set (c # cs) then (percpu s ! i)\<lparr>zone := None, cpu_on_entry := INVALID_ADDRESS\<rparr> else percpu s ! i) \<and>
       em' ! i = em ! i @ (if i \<in> unat ` set (c # cs) then [IPI_EVENT_SHUTDOWN] else [])"
      using i nc len Cons.prems(5) c by (cases "i = unat c") (simp_all add: nth_list_update)
  qed
  with r(1-3) one show ?case
    by (intro exI [of _ ps] exI [of _ em'] exI [of _ d]) (simp add: bindP_def)
qed

lemma find_zone_live:
  assumes "hv_ok E s" "zone_at s z = Some zn"
  shows "find_zone (zid zn) s = (Ok (Some z), s)"
proof -
  note H = assms(1) [unfolded hv_ok_def]
  let ?P = "\<lambda>z. map_option zid (zone_at s z) = Some (zid zn)"
  have z: "z \<in> set (ZONE_LIST s)" using H assms(2) by simp
  have "find ?P (ZONE_LIST s) \<noteq> None" using z assms(2) by (auto simp: find_None_iff)
  then obtain y where y: "find ?P (ZONE_LIST s) = Some y" by blast
  then have "y \<in> set (ZONE_LIST s)" "zid (the (zone_at s y)) = zid (the (zone_at s z))" using assms(2) by (auto simp: find_Some_iff)
  moreover have "inj_on (\<lambda>z. zid (the (zone_at s z))) (set (ZONE_LIST s))" using H by (simp add: distinct_map)
  ultimately have "y = z" using z by (auto dest: inj_onD)
  with y show ?thesis using zone_exists_iff(1) [OF assms(1), of "zid zn"] by simp
qed

lemma remove_zone_run:
  assumes A: "bit_alloc (bits E)" and ok: "hv_ok E s" and z: "zone_at s z = Some zn"
    and free: "\<forall>i < 4. zone (percpu s ! i) \<noteq> Some z"
  obtains m' t where "remove_zone E (zid zn) s = (Ok (), t)"
    "t = s\<lparr>ZONE_LIST := remove1 z (ZONE_LIST s), mem := m', zone_heap := (zone_heap s)[z := None]\<rparr>" "hv_ok E t"
    "kept (bits E) (set (live_sets t)) (mem s) m'" "\<And>z'. zone_at t z' = (if z' = z then None else zone_at s z')"
    "\<And>q. frame_free (bits E) (falloc m') q \<longleftrightarrow> frame_free (bits E) (falloc (mem s)) q \<or> q \<in> tables (mem s) (gpm zn)"
    "within (bits E) (mem s) (set (live_sets s)) m' (set (live_sets t))"
proof -
  note H = ok [unfolded hv_ok_def]
  let ?L = "remove1 z (ZONE_LIST s)" and ?park = "case PARKING_MEMORY_SET s of Some ms \<Rightarrow> [ms] | None \<Rightarrow> []"
  let ?S = "map (\<lambda>z. gpm (the (zone_at s z))) ?L @ ?park"
  have zl: "z \<in> set (ZONE_LIST s)" "distinct (ZONE_LIST s)" using H z by auto
  then have L: "set ?L = set (ZONE_LIST s) - {z}" "distinct ?L" by (simp_all add: distinct_remove1)
  let ?g = "\<lambda>z. gpm (the (zone_at s z))"
  have dl: "inj_on ?g (set (ZONE_LIST s))" "?g ` set (ZONE_LIST s) \<inter> set ?park = {}" "distinct ?park"
    using H by (simp_all add: sets_ok_def live_sets_def distinct_map)
  have "?g ` set (ZONE_LIST s) = insert (gpm zn) (?g ` set ?L)" using zl z L by (force simp: image_iff)
  then have all: "set (gpm zn # ?S) = set (live_sets s)" by (simp add: live_sets_def)
  have "distinct (gpm zn # ?S)"
  proof -
    have "?g z \<notin> ?g ` set ?L" using dl(1) zl(1) L by (auto dest: inj_onD)
    then show ?thesis using dl zl L z by (auto simp: distinct_map intro: inj_on_subset)
  qed
  with all have so: "sets_ok (bits E) (mem s) (gpm zn # ?S)"
    using H sets_ok_perm [of "gpm zn # ?S" "live_sets s" "bits E" "mem s"] by (simp add: sets_ok_def)
  obtain m' where d: "MemorySet_drop S2_pte (bits E) (gpm zn) (mem s) = (Ok (), m')" "sets_ok (bits E) m' ?S"
    "kept (bits E) (set ?S) (mem s) m'"
    "\<And>q. frame_free (bits E) (falloc m') q \<longleftrightarrow> frame_free (bits E) (falloc (mem s)) q \<or> q \<in> tables (mem s) (gpm zn)"
    "within (bits E) (mem s) (set (gpm zn # ?S)) m' (set ?S)"
    by (rule sets_drop [OF A so]) blast
  define t where "t = s\<lparr>ZONE_LIST := ?L, mem := m', zone_heap := (zone_heap s)[z := None]\<rparr>"
  have zh: "z < length (zone_heap s)" using z by (simp add: zone_at_def split: if_splits)
  have at: "zone_at t z' = (if z' = z then None else zone_at s z')" for z' using zh by (auto simp: t_def zone_at_def nth_list_update)
  have tl: "ZONE_LIST t = ?L" "mem t = m'" "percpu t = percpu s" "PARKING_MEMORY_SET t = PARKING_MEMORY_SET s" by (simp_all add: t_def)
  have old: "map (\<lambda>z. h (the (zone_at t z))) ?L = map (\<lambda>z. h (the (zone_at s z))) ?L" for h :: "Zone \<Rightarrow> 'x"
    using L by (auto simp: at)
  then have live: "live_sets t = ?S" by (simp add: live_sets_def tl)
  have len: "length (percpu s) = 4" using H cpus_wf_D by blast
  have "count_list ?L z = 0" unfolding count_list_0_iff L(1) by simp
  then have "strong_count (s\<lparr>ZONE_LIST := ?L\<rparr>) z = 1"
    using free len by (auto simp: strong_count_def filter_empty_conv in_set_conv_nth count_list_0_iff)
  then have "remove_zone E (zid zn) s = (Ok (), t)"
    using find_zone_live [OF ok z] z d(1) by (simp add: remove_zone_def bindP_simps drop_zone_def read_zone_def with_mem_def t_def)
  moreover have "hv_ok E t"
    unfolding hv_ok_def live tl
  proof (intro conjI)
    show "cpus_wf E t" using H by (simp add: cpus_wf_def tl)
    show "sets_ok (bits E) m' ?S" "distinct ?L" using d(2) L by simp_all
    show "\<forall>y. (y \<in> set ?L) = (zone_at t y \<noteq> None)" using H L at by auto
    show "\<forall>y zn. zone_at t y = Some zn \<longrightarrow> zone_wf zn" using H at by auto
    have "distinct (map (\<lambda>z. zid (the (zone_at s z))) (ZONE_LIST s))" using H by simp
    then show "distinct (map (\<lambda>z. zid (the (zone_at t z))) ?L)"
      unfolding old [of zid] distinct_map using L by (auto intro: inj_on_subset)
    show "\<forall>i < 4. \<forall>y. zone (percpu s ! i) = Some y \<longrightarrow> (\<exists>zn. zone_at t y = Some zn \<and> i \<in> members (cpu_set zn))"
      using H free at by auto
  qed
  moreover have "within (bits E) (mem s) (set (live_sets s)) m' (set (live_sets t))" using d(5) unfolding all live .
  ultimately show thesis using that [of t m'] t_def d(3,4) at live by simp
qed

lemma cpu_iter_run:
  assumes "zone_wf zn"
  obtains cs where "cpu_iter (cpu_set zn) = Ok cs" "distinct cs" "unat ` set cs = members (cpu_set zn)" "\<forall>c \<in> set cs. unat c < 4"
proof -
  have wf: "cpuset_wf (cpu_set zn)" "members (cpu_set zn) \<subseteq> {..<4}" using assms by (simp_all add: zone_wf_def)
  obtain cs where cs: "cpu_iter (cpu_set zn) = Ok cs" using cpu_iter_Ok(1) [OF wf(1)] by blast
  note m = cpu_iter_members [OF wf(1) cs]
  have "distinct cs" using m(2) by (metis distinct_map strict_sorted_iff)
  with that [OF cs] m(1) wf(2) show thesis by blast
qed

lemma zone_shutdown_run:
  assumes A: "bit_alloc (bits E)" and ok: "hv_ok E s" and r: "caller E me (hd (ZONE_LIST s)) s" and z: "zone_at s z = Some zn" "zid zn \<noteq> 0"
    and em: "EVENT_MANAGER s = Some em" "length em = 4" and g: "GIC s = Some g" "unat (host_gicd g) + 0x400 < 2 ^ 64"
  obtains m' ps em' d t where "hv_zone_shutdown E me (zid zn) s = (Ok 0, t)"
    "t = s\<lparr>percpu := ps, EVENT_MANAGER := Some em', dev := d, ZONE_LIST := remove1 z (ZONE_LIST s), mem := m', zone_heap := (zone_heap s)[z := None]\<rparr>"
    "hv_ok E t" "kept (bits E) (set (live_sets t)) (mem s) m'" "\<And>z'. zone_at t z' = (if z' = z then None else zone_at s z')"
    "\<And>q. frame_free (bits E) (falloc m') q \<longleftrightarrow> frame_free (bits E) (falloc (mem s)) q \<or> q \<in> tables (mem s) (gpm zn)"
    "length em' = 4" "length ps = length (percpu s)"
    "\<forall>i < 4. ps ! i = (if i \<in> members (cpu_set zn) then (percpu s ! i)\<lparr>zone := None, cpu_on_entry := INVALID_ADDRESS\<rparr> else percpu s ! i) \<and>
       em' ! i = em ! i @ (if i \<in> members (cpu_set zn) then [IPI_EVENT_SHUTDOWN] else [])"
proof -
  note H = ok [unfolded hv_ok_def]
  have zw: "zone_wf zn" using H z(1) by blast
  obtain cs where cs: "cpu_iter (cpu_set zn) = Ok cs" "distinct cs" "unat ` set cs = members (cpu_set zn)" "\<forall>c \<in> set cs. unat c < 4"
    by (rule cpu_iter_run [OF zw])
  have held: "\<forall>i < 4. \<forall>z. zone (percpu s ! i) = Some z \<longrightarrow> z \<in> set (ZONE_LIST s)" using H by (metis option.distinct(1))
  from shutdown_cpus_run [OF _ cs(4,2) em held, of E me] H obtain ps em' d where
    f: "forP cs (shutdown_cpu E me) s = (Ok (), s\<lparr>percpu := ps, EVENT_MANAGER := Some em', dev := d\<rparr>)"
    "length ps = length (percpu s)" "length em' = 4"
    "\<forall>i < 4. ps ! i = (if i \<in> members (cpu_set zn) then (percpu s ! i)\<lparr>zone := None, cpu_on_entry := INVALID_ADDRESS\<rparr> else percpu s ! i) \<and>
       em' ! i = em ! i @ (if i \<in> members (cpu_set zn) then [IPI_EVENT_SHUTDOWN] else [])" unfolding cs(3) by blast
  let ?s1 = "s\<lparr>percpu := ps, EVENT_MANAGER := Some em', dev := d\<rparr>"
  from irqchip_reset_run [of ?s1 g zn E] g zw obtain d' where d': "arch_irqchip_reset E zn ?s1 = (Ok (), ?s1\<lparr>dev := d'\<rparr>)"
    by (auto simp: zone_wf_def)
  let ?s2 = "s\<lparr>percpu := ps, EVENT_MANAGER := Some em', dev := d'\<rparr>"
  have at: "zone_at ?s2 = zone_at s" by (auto simp: zone_at_def)
  then have ls: "live_sets ?s2 = live_sets s" by (simp add: live_sets_def)
  have own: "\<forall>i < 4. \<forall>y. zone (ps ! i) = Some y \<longrightarrow> i \<notin> members (cpu_set zn) \<and> zone (percpu s ! i) = Some y"
    using f(4) by auto
  have ok2: "hv_ok E ?s2"
    unfolding hv_ok_def at ls using H f(2) own by (simp add: cpus_wf_def)
  have free: "\<forall>i < 4. zone (percpu ?s2 ! i) \<noteq> Some z" using own H z(1) by fastforce
  have z2: "zone_at ?s2 z = Some zn" using at z(1) by simp
  obtain m' t where t: "remove_zone E (zid zn) ?s2 = (Ok (), t)"
    "t = ?s2\<lparr>ZONE_LIST := remove1 z (ZONE_LIST ?s2), mem := m', zone_heap := (zone_heap ?s2)[z := None]\<rparr>" "hv_ok E t"
    "kept (bits E) (set (live_sets t)) (mem ?s2) m'" "\<And>z'. zone_at t z' = (if z' = z then None else zone_at ?s2 z')"
    "\<And>q. frame_free (bits E) (falloc m') q \<longleftrightarrow> frame_free (bits E) (falloc (mem ?s2)) q \<or> q \<in> tables (mem ?s2) (gpm zn)"
    "within (bits E) (mem ?s2) (set (live_sets ?s2)) m' (set (live_sets t))"
    by (rule remove_zone_run [OF A ok2 z2 free]) (rule that)
  have "hv_zone_shutdown E me (zid zn) s = (Ok 0, t)"
    using require_root_run [OF r] z find_zone_live [OF ok z(1)] cs(1) f(1) d' t(1)
    by (simp add: hv_zone_shutdown_def bindP_simps read_zone_def)
  moreover have "zone_at t z' = (if z' = z then None else zone_at s z')" for z' using t(5) at by simp
  ultimately show thesis using that [where t = t and m' = m'] t(2-4,6) f(2-4) by simp
qed

section \<open>Starting a zone\<close>

lemma zone_start_run:
  assumes A: "bit_alloc (bits E)" and ok: "hv_ok E s" and r: "caller E me (hd (ZONE_LIST s)) s" and good: "config_good s g cfg rs irqs"
    and fresh: "\<forall>z \<in> set (ZONE_LIST s). zid (the (zone_at s z)) \<noteq> ucast (zone_id cfg)" and em: "EVENT_MANAGER s = Some em"
    and cpus: "config_cpus cfg \<noteq> {}"
  obtains (started) m' zn ps f t where
      "t = s\<lparr>mem := m', zone_heap := zone_heap s @ [Some zn], percpu := ps, ZONE_LIST := ZONE_LIST s @ [length (zone_heap s)]\<rparr>"
      "hv_zone_start E me cfg s = (if psci_on (arch_cpu (percpu s ! unat f)) then (Err EBUSY, t)
         else (Ok 0, t\<lparr>EVENT_MANAGER := Some (snd (EventManager_add_event em f IPI_EVENT_WAKEUP)),
           dev := msr E me ICC_SGI1R_EL1 (push_bit 24 SGI_IPI_ID OR push_bit (unat f) 1) (dev s)\<rparr>))"
      "unat f = Min (config_cpus cfg)" "unat f < 4" "hv_ok E t" "zone_at t (length (zone_heap s)) = Some zn"
      "va_limit (pt (gpm zn)) = s2_limit s" "\<And>v. spec_query (gpm zn) v = config_maps rs v"
      "percpu t ! unat f = assigned (length (zone_heap s)) f (entry_point cfg) (config_dtb E cfg rs) f (percpu s ! unat f)"
      "length ps = length (percpu s)"
    | (exhausted) t where "hv_zone_start E me cfg s = (Panic, t)" "\<And>q. \<not> frame_free (bits E) (falloc (mem t)) q"
proof (cases rule: zone_create_run [OF A ok good fresh])
  case (1 m' zn ps f)
  let ?t = "s\<lparr>mem := m', zone_heap := zone_heap s @ [Some zn], percpu := ps, ZONE_LIST := ZONE_LIST s @ [length (zone_heap s)]\<rparr>"
  note zw = 1(6) [unfolded zone_wf_def]
  have f: "unat f = Min (config_cpus cfg)" using 1(13) cpus by blast
  have fin: "finite (config_cpus cfg)" "config_cpus cfg \<subseteq> {..<4}" using zw 1(9) finite_subset by auto
  then have f4: "unat f < 4" "unat f \<in> config_cpus cfg" using Min_in [OF _ cpus] f by auto
  have fc: "first_cpu (cpu_set zn) = Ok (Some f)"
  proof (cases rule: first_cpu_cases [OF zw [THEN conjunct2, THEN conjunct1]])
    case (2 c)
    then have "unat c = Min (config_cpus cfg)" using 1(9) fin Min_in [OF _ cpus] by (intro order.antisym) auto
    with 2 f show ?thesis by (simp add: word_unat_eq_iff)
  qed (use 1(9) cpus in simp)
  have okt: "hv_ok E ?t" "zone_at ?t (length (zone_heap s)) = Some zn"
    using hv_ok_created(1,3) [OF ok 1(2,6) _ 1(11) _ refl] 1(7,9,12) fresh by metis+
  have ps: "ps ! unat f = assigned (length (zone_heap s)) f (entry_point cfg) (config_dtb E cfg rs) f (percpu s ! unat f)"
    using 1(12) f4 by simp
  have wf: "cpus_wf E ?t" using okt(1) by (simp add: hv_ok_def)
  have on: "psci_on (arch_cpu (ps ! unat f)) = psci_on (arch_cpu (percpu s ! unat f))" using ps by (simp add: assigned_def)
  have "hv_zone_start E me cfg s = (if psci_on (arch_cpu (percpu s ! unat f)) then (Err EBUSY, ?t)
         else (Ok 0, ?t\<lparr>EVENT_MANAGER := Some (snd (EventManager_add_event em f IPI_EVENT_WAKEUP)),
           dev := msr E me ICC_SGI1R_EL1 (push_bit 24 SGI_IPI_ID OR push_bit (unat f) 1) (dev s)\<rparr>))"
    using require_root_run [OF r] 1(1) okt(2) fc get_cpu_data_in [OF wf f4(1)] on em f4(1)
    by (simp add: hv_zone_start_def bindP_simps read_zone_def send_event_run errP_def)
  from started [OF refl this f f4(1) okt 1(4,5)] ps 1(11) show thesis by simp
next
  case (2 t)
  then have "hv_zone_start E me cfg s = (Panic, t)" using require_root_run [OF r] by (simp add: hv_zone_start_def bindP_simps)
  with exhausted 2(2) show thesis by blast
qed

end
