(* ===== verification/Hv_HyperSpec.thy ===== *)
theory Hv_HyperSpec
  imports Hv_Hypercall
begin

text \<open>
  What the hypercalls promise: only the root zone gets anything done; starting a zone ends with its
  boot CPU in the new guest, shutting one down returns every frame of its tables and parks its CPUs;
  every finished virtio request leads to an interrupt for its guest.
\<close>

section \<open>States to evaluate\<close>

definition root_zn :: Zone where
  "root_zn = empty_zone\<lparr>cpu_set := CpuSet_new 4 1\<rparr>"

definition config_image :: "u8 list" where
  "config_image = [1, 0, 0, 0, 0, 0, 0, 0, 2] @ replicate 735 0"

text \<open>One zone, on CPU 0, with the configuration of a second one at address \<open>0x40400000\<close>.\<close>

definition image_mem :: "usize list pmem" where
  "image_mem = small_state\<lparr>bytes := (\<lambda>x. if unat (x - 0x40400000) < length config_image
     then config_image ! unat (x - 0x40400000) else bytes small_state x)\<rparr>"

definition root_hv :: "(usize list, regdev) hv" where
  "root_hv = bare_hv\<lparr>mem := image_mem, zone_heap := [Some root_zn], ZONE_LIST := [0],
     percpu := (percpu bare_hv)[0 := (percpu bare_hv ! 0)\<lparr>zone := Some 0\<rparr>]\<rparr>"

lemma list_bits_ok: "bit_alloc (bits (plain_env list_bits))"
  using list_bits.bit_alloc_axioms by (simp add: plain_env_def)

lemma small_state_sets: "sets_ok list_bits small_state [small_set]"
proof -
  have "sets_ok list_bits small_pool []" by (simp add: sets_ok_def small_pool_ok)
  then show ?thesis
    using sets_new [OF list_bits.bit_alloc_axioms _ _ small_set_new] by force
qed

lemma image_mem_sets: "sets_ok list_bits image_mem [small_set]"
proof -
  have "kept list_bits (set [small_set]) small_state image_mem"
    by (rule write_code_kept [OF small_state_sets, where p = "0x40400000" and bs = config_image])
      (simp_all add: is_aligned_iff small_state_def config_image_def image_mem_def)
  then show ?thesis by (rule kept_sets_ok [OF small_state_sets])
qed

lemma root_hv_sel: "GIC root_hv = Some demo_gic" "PARANGE_OK_CPUS root_hv = 4" "MIN_PARANGE root_hv = 2" "mem root_hv = image_mem"
  "ZONE_LIST root_hv = [0]" "zone_at root_hv z = (if z = 0 then Some root_zn else None)" "PARKING_MEMORY_SET root_hv = None"
  "length (percpu root_hv) = 4" "EVENT_MANAGER root_hv = Some [[], [], [], []]" "zone (percpu root_hv ! 0) = Some 0"
  "zone_heap root_hv = [Some root_zn]"
  by (auto simp: root_hv_def bare_hv_def zone_at_def demo_gic_def numeral_eq_Suc)

lemma root_hv_cpu:
  assumes "i < 4"
  shows "arch_cpu (percpu root_hv ! i) = ArchCpu_new (of_nat i)" "cpu_id (percpu root_hv ! i) = of_nat i"
    "i \<noteq> 0 \<Longrightarrow> zone (percpu root_hv ! i) = None"
proof -
  have "i = 0 \<or> i = 1 \<or> i = 2 \<or> i = 3" using assms by auto
  then show "arch_cpu (percpu root_hv ! i) = ArchCpu_new (of_nat i)" "cpu_id (percpu root_hv ! i) = of_nat i"
    "i \<noteq> 0 \<Longrightarrow> zone (percpu root_hv ! i) = None" by (auto simp: root_hv_def bare_hv_def)
qed

lemma root_zn_wf: "zone_wf root_zn" "members (cpu_set root_zn) = {0}" "zid root_zn = 0" "gpm root_zn = small_set"
  by (auto simp: zone_wf_def root_zn_def empty_zone_def CpuSet_new_def members_def cpuset_wf_def bit_1_iff)

lemma root_hv_ok: "hv_ok (plain_env list_bits) root_hv"
proof -
  have b: "bits (plain_env list_bits) = list_bits" "core_end (plain_env list_bits) = 0x40600000" by (simp_all add: plain_env_def)
  have "\<forall>i < 4. \<forall>z. zone (percpu root_hv ! i) = Some z \<longrightarrow> i = 0 \<and> z = 0"
  proof (intro allI impI)
    fix i z assume "i < 4" "zone (percpu root_hv ! i) = Some z"
    then show "i = 0 \<and> z = 0" using root_hv_cpu(3) [of i] root_hv_sel(10) by (cases "i = 0") auto
  qed
  then show ?thesis
    using image_mem_sets root_zn_wf by (auto simp: hv_ok_def cpus_wf_def root_hv_sel live_sets_def b MAX_CPU_NUM_def PER_CPU_SIZE_def)
qed

lemma root_hv_caller: "caller (plain_env list_bits) 0 0 root_hv"
  using root_hv_ok by (simp add: caller_def hv_ok_def root_hv_sel this_cpu_id_def mpidr_to_cpuid_def)

lemma root_hv_frames: "frames_wf (plain_env list_bits) root_hv"
  using root_hv_ok by (simp add: frames_wf_def hv_ok_def root_hv_sel) (simp add: root_hv_def bare_hv_def)

lemma config_image_nth: "n < 744 \<Longrightarrow> config_image ! n = (if n = 0 then 1 else if n = 8 then 2 else 0)"
  by (simp add: config_image_def nth_append nth_Cons')

lemma image_byte:
  "unat (x - 0x40400000) < 744 \<Longrightarrow>
     bytes image_mem x = (if x = 0x40400000 then 1 else if x = 0x40400008 then 2 else 0)"
proof -
  assume x: "unat (x - 0x40400000) < 744"
  have "unat (x - 0x40400000) = 0 \<longleftrightarrow> x = 0x40400000" by (simp add: unat_eq_zero)
  moreover have "unat (x - 0x40400000) = 8 \<longleftrightarrow> x - 0x40400000 = 8" by (simp add: word_unat_eq_iff)
  moreover have "x - 0x40400000 = 8 \<longleftrightarrow> x = 0x40400008" by (simp add: diff_eq_eq)
  moreover have "length config_image = 744" by (simp add: config_image_def)
  ultimately show ?thesis using x config_image_nth by (simp add: image_mem_def)
qed

lemma image_config:
  "zone_id (load_config (bytes image_mem) 0x40400000) = 1" "cfg_cpus (load_config (bytes image_mem) 0x40400000) = 2"
  "memory_regions (load_config (bytes image_mem) 0x40400000) = Ok []" "interrupts (load_config (bytes image_mem) 0x40400000) = Ok []"
  "arch (load_config (bytes image_mem) 0x40400000) = \<lparr>gicd_base = 0, gicr_base = 0, gicd_size = 0, gicr_size = 0\<rparr>"
  "entry_point (load_config (bytes image_mem) 0x40400000) = 0"
  by (simp_all add: load_config_def load_arch_def read_u32_def read_u64_def image_byte memory_regions_def interrupts_def)

lemma image_good:
  "config_good root_hv demo_gic (load_config (bytes image_mem) 0x40400000) [] []"
  "config_cpus (load_config (bytes image_mem) 0x40400000) = {1}"
proof -
  have "distinct (mmio_starts (gic_configs demo_gic \<lparr>gicd_base = 0, gicr_base = 0, gicd_size = 0, gicr_size = 0\<rparr>))"
    by (simp add: gic_configs_def demo_gic_def gicr_config_def PER_GICR_SIZE_def mmio_starts_def upt_rec)
  then show "config_good root_hv demo_gic (load_config (bytes image_mem) 0x40400000) [] []"
    by (simp add: config_good_def image_config root_hv_sel regions_apart_def) (simp add: demo_gic_def)
  show "config_cpus (load_config (bytes image_mem) 0x40400000) = {1}"
    by (auto simp: config_cpus_def image_config bit_two)
qed

text \<open>Beside the root zone a second one, on CPU 1, with 1 GiB of memory.\<close>

lemma image_fresh:
  obtains m1 where "MemorySet_new list_bits 3 image_mem = (Ok \<lparr>regions = [], pt = \<lparr>root = \<lparr>start_paddr = 0x80001000, frame_count = 1\<rparr>,
    level = 3, intrm_tables = []\<rparr>\<rparr>, m1)" "read_u64 (bytes m1) (table_entry_addr 0x80001000 (p3_index 0x40000000)) = 0"
proof -
  have al: "is_aligned 0x80001000" by (simp add: is_aligned_iff)
  have "Frame_new_zero list_bits image_mem = (Ok \<lparr>start_paddr = 0x80001000, frame_count = 1\<rparr>,
      image_mem\<lparr>falloc := \<lparr>base = 0x80000000, inner = [2, 3, 4, 5, 6, 7]\<rparr>, bytes := fill_bytes (bytes image_mem) 0x80001000 PAGE_SIZE 0\<rparr>)"
    by (simp add: Frame_new_zero_def Frame_new_def bindP_def with_falloc_def FrameAllocator_alloc_def frame_addr_def image_mem_def
      small_state_def list_bits_def mul_chk_def add_chk_def PAGE_SIZE_def Frame_clear_def Frame_fill_def Frame_size_def)
  then show thesis
    using that by (simp add: MemorySet_new_def HvPageTable_new_def bindP_def unwrapP_def table_entry_index read_slot_fill [OF al al])
qed

lemma demo_two: "is_ok (fst (bindP (Zone_new (plain_env list_bits) 1) (pt_init (plain_env list_bits) [demo_region]) root_hv))"
proof -
  have b: "bits (plain_env list_bits) = list_bits" by (simp add: plain_env_def)
  obtain m1 where m1: "MemorySet_new list_bits 3 image_mem = (Ok \<lparr>regions = [], pt = \<lparr>root = \<lparr>start_paddr = 0x80001000, frame_count = 1\<rparr>,
    level = 3, intrm_tables = []\<rparr>\<rparr>, m1)" "read_u64 (bytes m1) (table_entry_addr 0x80001000 (p3_index 0x40000000)) = 0" by (rule image_fresh)
  obtain t where "ms_insert S2_pte list_bits (config_region demo_region) (m1, \<lparr>regions = [], pt = \<lparr>root = \<lparr>start_paddr = 0x80001000, frame_count = 1\<rparr>,
      level = 3, intrm_tables = []\<rparr>\<rparr>) = (Ok (), (t, \<lparr>regions = [(0x40000000, config_region demo_region)],
      pt = \<lparr>root = \<lparr>start_paddr = 0x80001000, frame_count = 1\<rparr>, level = 3, intrm_tables = []\<rparr>\<rparr>))"
    by (rule demo_map [OF refl, of m1 "\<lparr>start_paddr = 0x80001000, frame_count = 1\<rparr>" list_bits]) (use m1(2) that in simp_all)
  moreover have "s2_level root_hv = 3" by (simp add: s2_level_def root_hv_sel PARANGE_TABLE_def)
  with new_s2_run [of root_hv "plain_env list_bits"] m1(1) have "new_s2_memory_set (plain_env list_bits) root_hv =
      (Ok \<lparr>regions = [], pt = \<lparr>root = \<lparr>start_paddr = 0x80001000, frame_count = 1\<rparr>, level = 3, intrm_tables = []\<rparr>\<rparr>, root_hv\<lparr>mem := m1\<rparr>)"
    by (simp add: root_hv_sel with_mem_def b)
  moreover have "mem_type demo_region = MEM_TYPE_RAM" by (simp add: demo_region_def)
  ultimately show ?thesis by (simp add: Zone_new_def bindP_simps gpm_insert_def b)
qed

lemma image_held:
  assumes "q \<in> held list_bits image_mem {small_set}"
  shows "unat q + 4096 \<le> 0x80008000"
proof -
  have "pt_ok S2_pte list_bits image_mem (pt small_set)" by (rule sets_okD(3) [OF image_mem_sets]) simp
  from pt_okD(4) [OF this] have "tables image_mem small_set = {0x80000000}" by (simp add: tracked_def small_set_def small_pt_def)
  moreover have "k \<in> {1, 2, 3, 4, 5, 6, 7} \<and> q = k * PAGE_SIZE + 0x80000000" if "ba_test list_bits k (inner (falloc image_mem))"
    "q = k * PAGE_SIZE + base (falloc image_mem)" for k
    using that by (simp add: image_mem_def small_state_def list_bits_def)
  moreover have "q \<in> tables image_mem small_set \<or> (\<exists>k. ba_test list_bits k (inner (falloc image_mem)) \<and> q = k * PAGE_SIZE + base (falloc image_mem))"
    using assms unfolding held_def frame_free_def by blast
  ultimately have "q = 0x80000000 \<or> (\<exists>k \<in> {1, 2, 3, 4, 5, 6, 7}. q = k * PAGE_SIZE + 0x80000000)" by blast
  then show ?thesis by (auto simp: PAGE_SIZE_def)
qed

lemma root_two:
  obtains t zn where "hv_ok (plain_env list_bits) t" "caller (plain_env list_bits) 0 (hd (ZONE_LIST t)) t" "zone_at t 1 = Some zn" "zid zn = 1"
    "EVENT_MANAGER t = Some [[], [], [], []]" "GIC t = Some demo_gic" "members (cpu_set zn) = {1}" "ZONE_LIST t = [0, 1]" "zone_at t 0 = Some root_zn"
    "frames_wf (plain_env list_bits) t" "stacks t = stacks root_hv" "dev t = dev root_hv" "PARKING_MEMORY_SET t = None"
    "base (falloc (mem t)) = base (falloc image_mem)" "zone (percpu t ! 1) = Some 1" "\<And>v. spec_query (gpm zn) v = config_maps [demo_region] v"
    "\<And>i. i < 4 \<Longrightarrow> cpu_id (percpu t ! i) = of_nat i \<and> arch_cpu (percpu t ! i) = ArchCpu_new (of_nat i)"
    "held list_bits (mem t) (set (live_sets t)) = held list_bits image_mem {small_set}" "va_limit (pt (gpm zn)) = 2 ^ 39"
proof -
  let ?E = "plain_env list_bits" and ?c = "demo_config 1 2 [demo_region]"
  have b: "bits ?E = list_bits" by (simp add: plain_env_def)
  have id: "ucast (zone_id ?c) = (1 :: usize)" by (simp add: demo_config_def)
  have cp: "config_cpus ?c = {1}" by (auto simp: config_cpus_def demo_config_def bit_two)
  have good: "config_good root_hv demo_gic ?c [demo_region] [33]" by (rule demo_good) (simp_all add: root_hv_sel)
  have fresh: "\<forall>z \<in> set (ZONE_LIST root_hv). zid (the (zone_at root_hv z)) \<noteq> ucast (zone_id ?c)"
    by (simp add: id root_hv_sel root_zn_wf)
  have live: "live_sets root_hv = [small_set]" by (simp add: live_sets_def root_hv_sel root_zn_wf)
  have lim: "s2_limit root_hv = 2 ^ 39" by (simp add: s2_limit_def s2_level_def root_hv_sel PARANGE_TABLE_def)
  show thesis
  proof (cases rule: zone_create_run [OF list_bits_ok root_hv_ok good fresh])
    case (1 m' zn ps f)
    let ?t = "root_hv\<lparr>mem := m', zone_heap := zone_heap root_hv @ [Some zn], percpu := ps,
       ZONE_LIST := ZONE_LIST root_hv @ [length (zone_heap root_hv)]\<rparr>"
    have ok: "hv_ok ?E ?t" "zone_at ?t (length (zone_heap root_hv)) = Some zn"
      using hv_ok_created(1,3) [OF root_hv_ok 1(2,6) _ 1(11) _ refl] 1(7,9,12) fresh by metis+
    have "ps ! 0 = percpu root_hv ! 0" using 1(12) by (simp add: cp)
    then have "caller ?E 0 0 ?t" using ok(1) by (simp add: caller_def hv_ok_def root_hv_sel this_cpu_id_def mpidr_to_cpuid_def)
    moreover have at: "zone_at ?t 0 = Some root_zn" by (simp add: zone_at_def root_hv_sel)
    moreover have "frames_wf ?E ?t" using root_hv_frames 1(11) by (simp add: frames_wf_def cpus_wf_def)
    moreover have "cpu_id (ps ! i) = of_nat i \<and> arch_cpu (ps ! i) = ArchCpu_new (of_nat i)" if "i < 4" for i
      using 1(12) that root_hv_cpu [OF that] by (simp add: assigned_def)
    moreover have "zone (ps ! 1) = Some 1" using 1(12) by (simp add: cp assigned_def root_hv_sel)
    moreover have "base (falloc m') = base (falloc image_mem)" using 1(3) by (simp add: kept_def root_hv_sel)
    moreover have "set (live_sets ?t) = {gpm zn, small_set}"
      using at ok(2) by (auto simp: live_sets_def root_hv_sel root_zn_wf)
    then have "held list_bits m' (set (live_sets ?t)) = held list_bits image_mem {small_set}"
      using 1(15) live by (simp add: within_def b root_hv_sel insert_commute)
    ultimately show thesis using that [of ?t zn] ok 1(4,5,7,9) id lim by (simp add: root_hv_sel cp)
  qed (use demo_two id in simp)
qed

section \<open>From a posted event to the guest\<close>

lemma wakeup_enters:
  assumes rf: "register_file E get" and wf: "frames_wf E s" and i: "unat (this_cpu_id me) < 4" "c = percpu s ! unat (this_cpu_id me)"
    "cpu_id c = this_cpu_id me" "cpuid (arch_cpu c) = this_cpu_id me" and z: "zone c = Some z" "zone_at s z = Some zn"
    and em: "EVENT_MANAGER s = Some em" "length em = 4" "em ! unat (this_cpu_id me) = IPI_EVENT_WAKEUP # es"
  obtains u where "check_events E me s = (Ok Vmreturn, u)" "get me VTTBR_EL2 (dev u) = vttbr_baddr E (root_paddr (pt (gpm zn)))"
    "get me ELR_EL2 (dev u) = cpu_on_entry c" "usr (stacks u ! unat (this_cpu_id me)) = dtb_ipa c # replicate 30 0"
    "mem u = mem s" "zone_at u = zone_at s" "hv_ok E s \<Longrightarrow> hv_ok E u"
proof -
  let ?i = "unat (this_cpu_id me)"
  let ?s = "s\<lparr>EVENT_MANAGER := Some (em[?i := es])\<rparr>"
  have cw: "cpus_wf E s" and wf': "frames_wf E ?s" using wf by (simp_all add: frames_wf_def)
  have zs: "zone_at ?s z = Some zn" using z(2) by simp
  define u where "u = ?s\<lparr>dev := reset_dev E me (cpu_on_entry c) ?s (msr E me VTTBR_EL2 (vttbr_baddr E (root_paddr (pt (gpm zn)))) (dev s)),
      stacks := (stacks s)[?i := fresh_regs (dtb_ipa c)], percpu := (percpu s)[?i := c\<lparr>arch_cpu := (arch_cpu c)\<lparr>psci_on := True\<rparr>\<rparr>]\<rparr>"
  have "run E me (arch_cpu c) ?s = (Ok Vmreturn, u)"
    using run_ready [OF wf' i(1) _ i(4) _ zs] i(2) z(1) by (simp add: Let_def u_def)
  then have "check_events E me s = (Ok Vmreturn, u)"
    using em i get_cpu_data_in [OF cw i(1)]
    by (simp add: check_events_def bindP_simps this_cpu_data_def fetch_event_run EventManager_fetch_event_def)
  moreover have vt: "VTTBR_EL2 \<in> control_regs" by (simp add: control_regs_def)
  moreover have len: "length (stacks s) = 4" "length (percpu s) = 4" using wf cpus_wf_D [OF cw] by (simp_all add: frames_wf_def)
  moreover have "hv_ok E u" if "hv_ok E s"
    by (rule hv_ok_cong_sets [OF that]) (use i(1,2) len in \<open>auto simp: u_def nth_list_update\<close>)
  moreover have "zone_at u = zone_at s" by (auto simp: u_def zone_at_def)
  ultimately show thesis
    using that [of u] i(1) reset_dev_get(1,5) [OF rf] register_fileD(1) [OF rf vt] by (simp add: u_def fresh_regs_def)
qed

lemma start_no_cpus:
  assumes "bit_alloc (bits E)" "hv_ok E s" "caller E me (hd (ZONE_LIST s)) s" "config_good s g cfg rs irqs"
    "\<forall>z \<in> set (ZONE_LIST s). zid (the (zone_at s z)) \<noteq> ucast (zone_id cfg)" "config_cpus cfg = {}"
  shows "\<exists>t. hv_zone_start E me cfg s = (Panic, t)"
proof (cases rule: zone_create_run [OF assms(1,2,4,5)])
  case (1 m' zn ps f)
  have "zone_at (s\<lparr>mem := m', zone_heap := zone_heap s @ [Some zn], percpu := ps, ZONE_LIST := ZONE_LIST s @ [length (zone_heap s)]\<rparr>)
      (length (zone_heap s)) = Some zn" by (simp add: zone_at_def)
  moreover have "first_cpu (cpu_set zn) = Ok None"
    by (rule first_cpu_cases [of "cpu_set zn"]) (use 1(6,9) assms(6) in \<open>auto simp: zone_wf_def\<close>)
  ultimately show ?thesis
    using require_root_run [OF assms(3)] 1(1) by (simp add: hv_zone_start_def bindP_simps read_zone_def)
next
  case (2 t)
  then show ?thesis using require_root_run [OF assms(3)] by (simp add: hv_zone_start_def bindP_simps)
qed

lemma started_boots:
  assumes A: "bit_alloc (bits E)" "register_file E get" and ok: "hv_ok E t" "frames_wf E t" and em: "length em = 4" "em ! f = []"
    and f: "f < 4" "this_cpu_id me' = of_nat f" "cpu_id (percpu t ! f) = of_nat f" "cpuid (arch_cpu (percpu t ! f)) = of_nat f"
    and z: "zone (percpu t ! f) = Some z" "zone_at t z = Some zn" "\<And>v. spec_query (gpm zn) v = config_maps rs v"
  shows "\<exists>u. check_events E me' (t\<lparr>EVENT_MANAGER := Some (em[f := [IPI_EVENT_WAKEUP]]), dev := d\<rparr>) = (Ok Vmreturn, u) \<and>
    zone_at u z = Some zn \<and> get me' VTTBR_EL2 (dev u) = vttbr_baddr E (root_paddr (pt (gpm zn))) \<and>
    get me' ELR_EL2 (dev u) = cpu_on_entry (percpu t ! f) \<and> usr (stacks u ! f) = dtb_ipa (percpu t ! f) # replicate 30 0 \<and> hv_ok E u \<and>
    (\<forall>v. unat v < va_limit (pt (gpm zn)) \<longrightarrow> translation (sees (mem u) (gpm zn) v) = config_maps rs v)"
proof -
  let ?t = "t\<lparr>EVENT_MANAGER := Some (em[f := [IPI_EVENT_WAKEUP]]), dev := d\<rparr>"
  have me': "unat (of_nat f :: usize) = f" using f(1) by (simp add: unat_of_nat_exact)
  have wf: "frames_wf E ?t" using ok(2) by (simp add: frames_wf_def cpus_wf_def)
  have zt: "zone_at ?t z = Some zn" using z(2) by simp
  have okt: "hv_ok E ?t" by (rule hv_ok_cong_sets [OF ok(1)]) simp_all
  obtain u where u: "check_events E me' ?t = (Ok Vmreturn, u)" "get me' VTTBR_EL2 (dev u) = vttbr_baddr E (root_paddr (pt (gpm zn)))"
    "get me' ELR_EL2 (dev u) = cpu_on_entry (percpu t ! f)" "usr (stacks u ! f) = dtb_ipa (percpu t ! f) # replicate 30 0"
    "mem u = mem t" "zone_at u = zone_at ?t" "hv_ok E u"
    using wakeup_enters [OF A(2) wf, where me = me' and em = "em[f := [IPI_EVENT_WAKEUP]]" and es = "[]" and zn = zn
        and z = z and c = "percpu t ! f"] zt f em z(1) okt by (auto simp: me')
  from set_ok_sees [OF A(1) live_zone(3) [OF ok(1) z(2)]] z(3) u zt show ?thesis by (intro exI [of _ u]) simp
qed

section \<open>Properties\<close>

text \<open>
  C7: starting a zone through the hypercall. For a well formed configuration in the memory of the root
  zone there are exactly these ends: the address of the configuration is null, misaligned or not mapped for the hypervisor, which is a fault; the identifier is taken, \<open>EEXIST\<close>, nothing changes; the boot CPU
  is on already, \<open>EBUSY\<close>; a panic, with no free frame left or because the configuration names no
  CPU; or success. After success the boot CPU, the lowest of the configuration, takes the event
  posted to it and enters the new guest: it runs at the entry point of the configuration with the
  device tree address in its first register, on stage 2 tables through which it sees exactly the
  regions of the configuration.
\<close>

theorem zone_start_boots:
  assumes "bit_alloc (bits E)" and "register_file E get" and "hv_ok E s" and "frames_wf E s"
    and "caller E me (hd (ZONE_LIST s)) s" and "cfg = load_config (bytes (mem s)) a"
    and "config_good s g cfg rs irqs" and "EVENT_MANAGER s = Some em" and "length em = 4" and "f = Min (config_cpus cfg)"
    and "this_cpu_id me' = of_nat f" and "cpu_id (percpu s ! f) = of_nat f" and "cpuid (arch_cpu (percpu s ! f)) = of_nat f"
    and "em ! f = []"
  shows "case hypercall E me 2 a b s of
      (Ok r, t) \<Rightarrow> r = 0 \<and> (\<exists>u zn. check_events E me' t = (Ok Vmreturn, u) \<and>
        zone_at u (length (zone_heap s)) = Some zn \<and> get me' VTTBR_EL2 (dev u) = vttbr_baddr E (root_paddr (pt (gpm zn))) \<and>
        get me' ELR_EL2 (dev u) = entry_point cfg \<and> usr (stacks u ! f) = config_dtb E cfg rs # replicate 30 0 \<and> hv_ok E u \<and>
        (\<forall>v. unat v < s2_limit s \<longrightarrow> translation (sees (mem u) (gpm zn) v) = config_maps rs v))
    | (Err e, t) \<Rightarrow> e = EEXIST \<and> t = s \<and> (\<exists>z \<in> set (ZONE_LIST s). zid (the (zone_at s z)) = ucast (zone_id cfg)) \<or> e = EBUSY \<and> psci_on (arch_cpu (percpu s ! f))
    | (Panic, t) \<Rightarrow> config_cpus cfg = {} \<or> (\<forall>q. \<not> frame_free (bits E) (falloc (mem t)) q)
    | (Fault, t) \<Rightarrow> t = s \<and> (a = 0 \<or> a AND 7 \<noteq> 0 \<or> 2 ^ 32 < unat a + 744)
    | _ \<Rightarrow> False"
proof (cases "config_ref a")
  case False
  then show ?thesis by (auto simp: hypercall_def HyperCallCode_try_from_def deref_config_def bindP_def config_ref_def)
next
  case ref: True
  then have hc: "hypercall E me 2 a b s = hv_zone_start E me cfg s"
    using assms(6) by (simp add: hypercall_def HyperCallCode_try_from_def deref_config_def bindP_def)
  consider (taken) "\<exists>z \<in> set (ZONE_LIST s). zid (the (zone_at s z)) = ucast (zone_id cfg)"
    | (fresh) "\<forall>z \<in> set (ZONE_LIST s). zid (the (zone_at s z)) \<noteq> ucast (zone_id cfg)" by blast
  then show ?thesis
  proof cases
    case taken
    from zone_create_exists [OF assms(3) this] show ?thesis
      using require_root_run [OF assms(5)] taken by (simp add: hc hv_zone_start_def bindP_simps)
  next
    case fresh
    show ?thesis
    proof (cases "config_cpus cfg = {}")
      case True
      from start_no_cpus [OF assms(1,3,5,7) fresh True] True show ?thesis by (auto simp: hc)
    next
      case False
      show ?thesis
      proof (cases rule: zone_start_run [OF assms(1,3,5,7) fresh assms(8) False])
        case (1 m' zn ps c t)
        show ?thesis
        proof (cases "psci_on (arch_cpu (percpu s ! f))")
          case True
          then show ?thesis using 1(2,3) assms(10) by (simp add: hc)
        next
          case off: False
          have fc: "unat c = f" "c = of_nat f" "f < 4" using 1(3,4) assms(10) by (auto simp: word_unat_eq_iff unat_of_nat_exact)
          let ?d = "msr E me ICC_SGI1R_EL1 (push_bit 24 SGI_IPI_ID OR push_bit f 1) (dev s)"
          have run: "hypercall E me 2 a b s = (Ok 0, t\<lparr>EVENT_MANAGER := Some (em[f := [IPI_EVENT_WAKEUP]]), dev := ?d\<rparr>)"
            using 1(2) off fc assms(9,14) by (simp add: hc EventManager_add_event_def)
          have "percpu t ! f = assigned (length (zone_heap s)) c (entry_point cfg) (config_dtb E cfg rs) c (percpu s ! f)"
            using 1(9) fc by simp
          moreover have "frames_wf E t" using assms(4) 1(1,10) by (simp add: frames_wf_def cpus_wf_def)
          ultimately show ?thesis
            using started_boots [OF assms(1,2) 1(5) _ assms(9,14) fc(3) assms(11) _ _ _ 1(6,8), of ?d] 1(7) assms(12,13)
            by (auto simp: run assigned_def)
        qed
      next
        case (2 t)
        then show ?thesis by (simp add: hc)
      qed
    qed
  qed
qed

theorem zone_start_boots_witness:
  "case hypercall (plain_env list_bits) 0 2 0x40400000 0 root_hv of
      (Ok r, t) \<Rightarrow> (\<exists>u zn. check_events (plain_env list_bits) 1 t = (Ok Vmreturn, u) \<and> zone_at u 1 = Some zn \<and>
        sregs (dev u) 1 VTTBR_EL2 = root_paddr (pt (gpm zn)) \<and> sregs (dev u) 1 ELR_EL2 = 0 \<and>
        translation (sees (mem u) (gpm zn) 0x1000) = None)
    | (Panic, t) \<Rightarrow> \<not> frame_free list_bits (falloc (mem t)) 0x80001000
    | _ \<Rightarrow> False"
proof -
  let ?E = "plain_env list_bits" and ?c = "load_config (bytes image_mem) 0x40400000"
  let ?r = "hypercall ?E 0 2 0x40400000 0 root_hv"
  have e: "vttbr_baddr ?E = (\<lambda>p. p)" "bits ?E = list_bits" by (simp_all add: plain_env_def)
  have c: "this_cpu_id 1 = 1" by (simp add: this_cpu_id_def mpidr_to_cpuid_def)
  have lim: "unat (0x1000 :: usize) < s2_limit root_hv" by (simp add: s2_limit_def)
  have mp: "config_maps [] 0x1000 = None" by (simp add: config_maps_def)
  have caller: "caller ?E 0 (hd (ZONE_LIST root_hv)) root_hv" using root_hv_caller by (simp add: root_hv_sel)
  have pre: "(0x40400000 :: u64) \<noteq> 0" "0x40400000 AND (7 :: u64) = 0" "?c = load_config (bytes (mem root_hv)) 0x40400000"
    "length [[], [], [], [] :: usize list] = 4" "1 = Min (config_cpus ?c)" "this_cpu_id 1 = of_nat 1" "cpu_id (percpu root_hv ! 1) = of_nat 1"
    "cpuid (arch_cpu (percpu root_hv ! 1)) = of_nat 1" "[[], [], [], [] :: usize list] ! 1 = []"
    using root_hv_cpu [of 1] by (simp_all add: root_hv_sel image_good(2) c ArchCpu_new_def)
  note z = zone_start_boots [OF list_bits_ok plain_register_file root_hv_ok root_hv_frames caller pre(3) image_good(1) root_hv_sel(9) pre(4-9), of 0]
  have off: "\<not> psci_on (arch_cpu (percpu root_hv ! 1))" using root_hv_cpu [of 1] by (simp add: ArchCpu_new_def)
  have new: "\<not> (\<exists>z \<in> set (ZONE_LIST root_hv). zid (the (zone_at root_hv z)) = ucast (zone_id ?c))"
    by (simp add: image_config root_hv_sel root_zn_wf)
  have len: "length (zone_heap root_hv) = 1" by (simp add: root_hv_sel)
  obtain o' t where r: "?r = (o', t)" by fastforce
  show ?thesis
    using z [unfolded r len e image_config(6) image_good(2)] lim mp off new pre(1,2)
    unfolding r by (cases o') (fastforce simp: plain_get_def)+
qed

text \<open>
  C8: shutting a zone down through the hypercall always succeeds for an existing zone other than zone 0:
  exactly the frames of its page tables return to the pool, its CPUs lose the zone and are told to
  park, the zone leaves the list, the invariant holds again, and no other guest sees a change.
\<close>

theorem zone_shutdown_releases:
  assumes "bit_alloc (bits E)" and "hv_ok E s" and "caller E me (hd (ZONE_LIST s)) s" and "zone_at s z = Some zn" and "zid zn \<noteq> 0"
    and "EVENT_MANAGER s = Some em" and "length em = 4" and "GIC s = Some g" and "unat (host_gicd g) + 0x400 < 2 ^ 64"
  shows "\<exists>t em'. hypercall E me 3 (zid zn) b s = (Ok 0, t) \<and> hv_ok E t \<and> ZONE_LIST t = remove1 z (ZONE_LIST s) \<and> zone_at t z = None \<and>
    (\<forall>q. frame_free (bits E) (falloc (mem t)) q \<longleftrightarrow> frame_free (bits E) (falloc (mem s)) q \<or> q \<in> tables (mem s) (gpm zn)) \<and>
    EVENT_MANAGER t = Some em' \<and> length em' = 4 \<and>
    (\<forall>i < 4. if i \<in> members (cpu_set zn) then zone (percpu t ! i) = None \<and> em' ! i = em ! i @ [IPI_EVENT_SHUTDOWN]
       else percpu t ! i = percpu s ! i \<and> em' ! i = em ! i) \<and>
    (\<forall>z' zn' v. z' \<noteq> z \<and> zone_at s z' = Some zn' \<and> unat v < va_limit (pt (gpm zn')) \<longrightarrow>
       zone_at t z' = Some zn' \<and> sees (mem t) (gpm zn') v = sees (mem s) (gpm zn') v)"
proof -
  obtain m' ps em' d t where t: "hv_zone_shutdown E me (zid zn) s = (Ok 0, t)"
    "t = s\<lparr>percpu := ps, EVENT_MANAGER := Some em', dev := d, ZONE_LIST := remove1 z (ZONE_LIST s), mem := m', zone_heap := (zone_heap s)[z := None]\<rparr>"
    "hv_ok E t" "kept (bits E) (set (live_sets t)) (mem s) m'" "\<And>z'. zone_at t z' = (if z' = z then None else zone_at s z')"
    "\<And>q. frame_free (bits E) (falloc m') q \<longleftrightarrow> frame_free (bits E) (falloc (mem s)) q \<or> q \<in> tables (mem s) (gpm zn)"
    "length em' = 4" "length ps = length (percpu s)"
    "\<forall>i < 4. ps ! i = (if i \<in> members (cpu_set zn) then (percpu s ! i)\<lparr>zone := None, cpu_on_entry := INVALID_ADDRESS\<rparr> else percpu s ! i) \<and>
       em' ! i = em ! i @ (if i \<in> members (cpu_set zn) then [IPI_EVENT_SHUTDOWN] else [])"
    by (rule zone_shutdown_run [OF assms]) (rule that)
  have sel: "mem t = m'" "percpu t = ps" "EVENT_MANAGER t = Some em'" "ZONE_LIST t = remove1 z (ZONE_LIST s)" using t(2) by simp_all
  have same: "sees m' (gpm zn') v = sees (mem s) (gpm zn') v"
    if "z' \<noteq> z" "zone_at s z' = Some zn'" "unat v < va_limit (pt (gpm zn'))" for z' zn' v
  proof -
    have at: "zone_at t z' = Some zn'" using that t(5) by simp
    note live = live_zone(2) [OF t(3) at]
    from kept_sees [OF live_zone(3) [OF assms(2) that(2)] t(4) live that(3)] show ?thesis .
  qed
  have "hypercall E me 3 (zid zn) b s = (Ok 0, t)" using t(1) by (simp add: hypercall_def HyperCallCode_try_from_def)
  moreover have "\<forall>z' zn' v. z' \<noteq> z \<and> zone_at s z' = Some zn' \<and> unat v < va_limit (pt (gpm zn')) \<longrightarrow>
      zone_at t z' = Some zn' \<and> sees (mem t) (gpm zn') v = sees (mem s) (gpm zn') v"
    using same t(5) sel(1) by auto
  ultimately show ?thesis using t(3,5,6,7,9) sel by (intro exI [of _ t] exI [of _ em']) simp
qed

theorem zone_shutdown_releases_witness:
  "\<exists>s t em' zn. zone_at s 1 = Some zn \<and> hypercall (plain_env list_bits) 0 3 1 0 s = (Ok 0, t) \<and> ZONE_LIST s = [0, 1] \<and> ZONE_LIST t = [0] \<and>
     EVENT_MANAGER t = Some em' \<and> zone (percpu t ! 1) = None \<and> em' ! 1 = [IPI_EVENT_SHUTDOWN] \<and> percpu t ! 0 = percpu s ! 0 \<and>
     sees (mem t) (gpm root_zn) 0x1000 = sees (mem s) (gpm root_zn) 0x1000"
proof -
  let ?E = "plain_env list_bits"
  obtain s zn where s: "hv_ok ?E s" "caller ?E 0 (hd (ZONE_LIST s)) s" "zone_at s 1 = Some zn" "zid zn = 1"
    "EVENT_MANAGER s = Some [[], [], [], []]" "GIC s = Some demo_gic" "members (cpu_set zn) = {1}" "ZONE_LIST s = [0, 1]" "zone_at s 0 = Some root_zn"
    by (rule root_two) (rule that)
  have g: "unat (host_gicd demo_gic) + 0x400 < 2 ^ 64" by (simp add: demo_gic_def)
  from zone_shutdown_releases [OF list_bits_ok s(1-3) _ s(5) _ s(6) g, of 0] s(4) obtain t em' where
    t: "hypercall ?E 0 3 1 0 s = (Ok 0, t)" "ZONE_LIST t = remove1 1 (ZONE_LIST s)" "EVENT_MANAGER t = Some em'"
    and i: "\<forall>i < 4. if i \<in> members (cpu_set zn) then zone (percpu t ! i) = None \<and> em' ! i = [[], [], [], []] ! i @ [IPI_EVENT_SHUTDOWN]
       else percpu t ! i = percpu s ! i \<and> em' ! i = [[], [], [], []] ! i"
    and same: "\<forall>z' zn' v. z' \<noteq> 1 \<and> zone_at s z' = Some zn' \<and> unat v < va_limit (pt (gpm zn')) \<longrightarrow>
       zone_at t z' = Some zn' \<and> sees (mem t) (gpm zn') v = sees (mem s) (gpm zn') v" by auto
  have "unat (0x1000 :: usize) < va_limit (pt (gpm root_zn))" by (simp add: va_limit_def)
  then have "sees (mem t) (gpm root_zn) 0x1000 = sees (mem s) (gpm root_zn) 0x1000" using same s(9) by (metis zero_neq_one)
  moreover have "ZONE_LIST t = [0]" using t(2) s(8) by simp
  ultimately show ?thesis using t i [rule_format, of 0] i [rule_format, of 1] s(3,7,8)
    by (intro exI [of _ s] exI [of _ t] exI [of _ em'] exI [of _ zn]) simp
qed

text \<open>
  C35: a zone other than the root zone gets nothing done by a hypercall, and the state does not change: every known code is answered
  with \<open>EPERM\<close>, every other with 0. The one exception is the call that starts a zone: its address is turned into a reference and read before the check, so that an address
  that is null, misaligned or not below 4 GiB faults in the hypervisor.
\<close>

theorem hypercall_root_only:
  assumes "caller E me z s" and "z \<noteq> hd (ZONE_LIST s)"
  shows "hypercall E me c a b s = (if c \<notin> {0, 1, 2, 3} then Ok 0
    else if c = 2 \<and> (a = 0 \<or> a AND 7 \<noteq> 0 \<or> 2 ^ 32 < unat a + 744) then Fault else Err EPERM, s)"
  using hypercall_denied [OF assms] by (auto simp: config_ref_def HyperCallCode_try_from_def)

theorem hypercall_root_only_witness:
  "hypercall (plain_env list_bits) 1 3 1 0 two_cpu_hv = (Err EPERM, two_cpu_hv) \<and>
   hypercall (plain_env list_bits) 1 9 0 0 two_cpu_hv = (Ok 0, two_cpu_hv) \<and>
   hypercall (plain_env list_bits) 1 2 0x40400004 0 two_cpu_hv = (Fault, two_cpu_hv)"
proof -
  have c: "this_cpu_id 1 = 1" by (simp add: this_cpu_id_def mpidr_to_cpuid_def)
  have "caller (plain_env list_bits) 1 1 two_cpu_hv" "hd (ZONE_LIST two_cpu_hv) = 0"
    using two_cpu_frames(1) [of list_bits] by (simp_all add: caller_def c frames_wf_def) (simp_all add: two_cpu_hv_def two_zone_hv_def bare_hv_def)
  then show ?thesis using hypercall_root_only [of "plain_env list_bits" 1 1 two_cpu_hv] by simp
qed






end
