(* ===== verification/Hv_Trap.thy ===== *)
theory Hv_Trap
  imports Hv_Hypercall
begin

text \<open>
  Exits of a guest: \<open>arch/aarch64/trap.rs\<close> and \<open>mmio_handle_access\<close> of \<open>memory/mmio.rs\<close>. The trap vector
  stores the registers of the guest in the frame of the CPU, element \<open>i\<close> of \<open>stacks\<close>, and calls
  \<open>arch_handle_exit\<close>, which ends in \<open>vmreturn\<close> or never: the endless loops of the sources are \<open>Hang\<close>.
\<close>

section \<open>Constants\<close>

definition EXIT_REASON_EL2_ABORT :: u64 where
  "EXIT_REASON_EL2_ABORT = 0x0"

definition EXIT_REASON_EL2_IRQ :: u64 where
  "EXIT_REASON_EL2_IRQ = 0x1"

definition EXIT_REASON_EL1_ABORT :: u64 where
  "EXIT_REASON_EL1_ABORT = 0x2"

definition EXIT_REASON_EL1_IRQ :: u64 where
  "EXIT_REASON_EL1_IRQ = 0x3"

definition SMC_TYPE_MASK :: u64 where
  "SMC_TYPE_MASK = 0x3F000000"

definition SmcType_ARCH_SC :: u64 where
  "SmcType_ARCH_SC = 0x0"

definition SmcType_STANDARD_SC :: u64 where
  "SmcType_STANDARD_SC = 0x4000000"

definition PSCI_VERSION_1_1 :: u64 where
  "PSCI_VERSION_1_1 = 0x10001"

definition PSCI_TOS_NOT_PRESENT_MP :: u64 where
  "PSCI_TOS_NOT_PRESENT_MP = 2"

definition ARM_SMCCC_VERSION_1_0 :: u64 where
  "ARM_SMCCC_VERSION_1_0 = 0x10000"

definition PSCI_VERSION :: u64 where
  "PSCI_VERSION = 0x84000000"

definition PSCI_CPU_SUSPEND_32 :: u64 where
  "PSCI_CPU_SUSPEND_32 = 0x84000001"

definition PSCI_CPU_OFF_32 :: u64 where
  "PSCI_CPU_OFF_32 = 0x84000002"

definition PSCI_CPU_ON_32 :: u64 where
  "PSCI_CPU_ON_32 = 0x84000003"

definition PSCI_AFFINITY_INFO_32 :: u64 where
  "PSCI_AFFINITY_INFO_32 = 0x84000004"

definition PSCI_MIG_INFO_TYPE :: u64 where
  "PSCI_MIG_INFO_TYPE = 0x84000006"

definition PSCI_SYSTEM_OFF :: u64 where
  "PSCI_SYSTEM_OFF = 0x84000008"

definition PSCI_FEATURES :: u64 where
  "PSCI_FEATURES = 0x8400000a"

definition PSCI_CPU_SUSPEND_64 :: u64 where
  "PSCI_CPU_SUSPEND_64 = 0xc4000001"

definition PSCI_CPU_OFF_64 :: u64 where
  "PSCI_CPU_OFF_64 = 0xc4000002"

definition PSCI_CPU_ON_64 :: u64 where
  "PSCI_CPU_ON_64 = 0xc4000003"

definition PSCI_AFFINITY_INFO_64 :: u64 where
  "PSCI_AFFINITY_INFO_64 = 0xc4000004"

definition SMCCC_VERSION :: u64 where
  "SMCCC_VERSION = 0x80000000"

definition SMCCC_ARCH_FEATURES :: u64 where
  "SMCCC_ARCH_FEATURES = 0x80000001"

lemmas psci_ids = PSCI_VERSION_def PSCI_CPU_SUSPEND_32_def PSCI_CPU_OFF_32_def PSCI_CPU_ON_32_def PSCI_AFFINITY_INFO_32_def
  PSCI_MIG_INFO_TYPE_def PSCI_SYSTEM_OFF_def PSCI_FEATURES_def PSCI_CPU_SUSPEND_64_def PSCI_CPU_OFF_64_def
  PSCI_CPU_ON_64_def PSCI_AFFINITY_INFO_64_def

section \<open>The frame and the program counter\<close>

text \<open>An array access of the sources panics out of range.\<close>

definition get_usr :: "nat \<Rightarrow> nat \<Rightarrow> ('b, 'd, u64) hvp" where
  "get_usr i r s = (if r < length (usr (stacks s ! i)) then Ok (usr (stacks s ! i) ! r) else Panic, s)"

definition set_usr :: "nat \<Rightarrow> nat \<Rightarrow> u64 \<Rightarrow> ('b, 'd, unit) hvp" where
  "set_usr i r v s = (if r < length (usr (stacks s ! i))
     then (Ok (), s\<lparr>stacks := (stacks s)[i := (stacks s ! i)\<lparr>usr := (usr (stacks s ! i))[r := v]\<rparr>]\<rparr>) else (Panic, s))"

definition arch_skip_instruction :: "('b, 'd) env \<Rightarrow> u64 \<Rightarrow> ('b, 'd, unit) hvp" where
  "arch_skip_instruction E me =
     bindP (read_sysreg E me ELR_EL2) (\<lambda>pc.
     bindP (read_sysreg E me ESR_EL2) (\<lambda>esr.
     let ins = (if esr_IL E esr = 0 then 2 else if esr_IL E esr = 1 then 4 else 0) in
     bindP (liftP (add_chk pc ins)) (write_sysreg E me ELR_EL2)))"

section \<open>Memory accesses\<close>

definition call_handler :: "('b, 'd) env \<Rightarrow> ('b, 'd) tick \<Rightarrow> u64 \<Rightarrow> MMIOHandler \<Rightarrow> MMIOAccess \<Rightarrow> usize \<Rightarrow> ('b, 'd, MMIOAccess) hvp" where
  "call_handler E tick me h acc a = (case h of
     Mmio_virtio_handler \<Rightarrow> mmio_virtio_handler E tick me acc a
   | Vgicv3_dist_handler \<Rightarrow> vgicv3_dist_handler E me acc a
   | Vgicv3_redist_handler \<Rightarrow> vgicv3_redist_handler E me acc a
   | Mmio_generic_handler \<Rightarrow> mmio_generic_handler E acc a)"

definition mmio_handle_access :: "('b, 'd) env \<Rightarrow> ('b, 'd) tick \<Rightarrow> u64 \<Rightarrow> MMIOAccess \<Rightarrow> ('b, 'd, MMIOAccess) hvp" where
  "mmio_handle_access E tick me acc =
     bindP (this_zone E me) (\<lambda>z. bindP (read_zone z) (\<lambda>zn.
     bindP (liftP (find_mmio_region zn (address acc) (acc_size acc))) (\<lambda>res. case res of
       Some (rg, h, a) \<Rightarrow>
         bindP (liftP (sub_chk (address acc) (mmio_start rg))) (\<lambda>off. call_handler E tick me h (acc\<lparr>address := off\<rparr>) a)
     | None \<Rightarrow> errP EINVAL)))"

definition extend_read :: "usize \<Rightarrow> usize \<Rightarrow> (HvErrorNum, usize) outcome" where
  "extend_read n v = bind_out (mul_chk 8 n) (\<lambda>b. bind_out (sub_chk 32 b) (\<lambda>k. bind_out (shl_chk v (unat k)) (\<lambda>x.
     Ok (drop_bit (unat k) (scast (ucast x :: u32))))))"

definition handle_dabt :: "('b, 'd) env \<Rightarrow> ('b, 'd) tick \<Rightarrow> u64 \<Rightarrow> nat \<Rightarrow> ('b, 'd, unit) hvp" where
  "handle_dabt E tick me i =
     bindP (read_sysreg E me ESR_EL2) (\<lambda>esr.
     let iss = esr_ISS E esr; w = bit iss 6; srt = unat (drop_bit 16 iss AND 0x1f); sse = bit iss 21;
         n = push_bit (unat (drop_bit 22 iss AND 0x3)) 1 in
     bindP (read_sysreg E me HPFAR_EL2) (\<lambda>hpfar.
     bindP (read_sysreg E me FAR_EL2) (\<lambda>far.
     bindP (if srt = 31 then retP 0 else get_usr i srt) (\<lambda>v.
     let acc = \<lparr>address = (far AND 0xfff) OR push_bit 8 hpfar, acc_size = n, is_write = w, acc_value = v\<rparr> in
     bindP (unwrapP (mmio_handle_access E tick me acc)) (\<lambda>acc.
     bindP (if \<not> w \<and> srt \<noteq> 31 then
         bindP (liftP (if sse then extend_read n (acc_value acc) else Ok (acc_value acc))) (set_usr i srt)
       else retP ()) (\<lambda>_.
     arch_skip_instruction E me))))))"

definition handle_iabt :: "('b, 'd) env \<Rightarrow> u64 \<Rightarrow> ('b, 'd, unit) hvp" where
  "handle_iabt E me =
     bindP (read_sysreg E me ESR_EL2) (\<lambda>_. bindP (read_sysreg E me HPFAR_EL2) (\<lambda>_. bindP (read_sysreg E me FAR_EL2) (\<lambda>_. liftP Hang)))"

definition handle_sysreg :: "('b, 'd) env \<Rightarrow> u64 \<Rightarrow> nat \<Rightarrow> ('b, 'd, unit) hvp" where
  "handle_sysreg E me i =
     bindP (read_sysreg E me ESR_EL2) (\<lambda>esr.
     bindP (get_usr i (unat (drop_bit 5 esr AND 0x1f))) (\<lambda>v.
     bindP (this_cpu_data E me) (\<lambda>d.
     bindP (if \<not> psci_on (arch_cpu d) then retP () else write_sysreg E me ICC_SGI1R_EL1 v) (\<lambda>_.
     arch_skip_instruction E me))))"

section \<open>Calls\<close>

definition handle_hvc :: "('b, 'd) env \<Rightarrow> u64 \<Rightarrow> nat \<Rightarrow> ('b, 'd, unit) hvp" where
  "handle_hvc E me i =
     bindP (get_usr i 0) (\<lambda>c. bindP (get_usr i 1) (\<lambda>arg0. bindP (get_usr i 2) (\<lambda>arg1.
     bindP (this_cpu_data E me) (\<lambda>_.
     bindP (\<lambda>s. case hypercall E me c arg0 arg1 s of (Ok r, t) \<Rightarrow> (Ok r, t) | (Err e, t) \<Rightarrow> (Ok (code e), t)
         | (Panic, t) \<Rightarrow> (Panic, t) | (Hang, t) \<Rightarrow> (Hang, t) | (Fault, t) \<Rightarrow> (Fault, t))
       (set_usr i 0)))))"

definition psci_emulate_features_info :: "u64 \<Rightarrow> u64" where
  "psci_emulate_features_info c = (if c \<in> {PSCI_VERSION, PSCI_CPU_SUSPEND_32, PSCI_CPU_SUSPEND_64, PSCI_CPU_OFF_32, PSCI_CPU_ON_32,
     PSCI_CPU_ON_64, PSCI_AFFINITY_INFO_32, PSCI_AFFINITY_INFO_64, PSCI_FEATURES, SMCCC_VERSION} then 0 else NOT 0)"

definition psci_emulate_cpu_on :: "('b, 'd) env \<Rightarrow> u64 \<Rightarrow> nat \<Rightarrow> ('b, 'd, u64) hvp" where
  "psci_emulate_cpu_on E me i =
     bindP (get_usr i 1) (\<lambda>target.
     let cpu = mpidr_to_cpuid target in
     bindP (get_cpu_data E cpu) (\<lambda>target_data.
     if \<not> psci_on (arch_cpu target_data) then
       bindP (get_usr i 2) (\<lambda>entry.
       bindP (update_cpu_data E cpu (\<lambda>d. d\<lparr>cpu_on_entry := entry, arch_cpu := (arch_cpu d)\<lparr>psci_on := True\<rparr>\<rparr>)) (\<lambda>_.
       bindP (send_event E me cpu SGI_IPI_ID IPI_EVENT_WAKEUP) (\<lambda>_. retP 0)))
     else retP (- 1 - 3)))"

definition off_cpu :: "('b, 'd) env \<Rightarrow> u64 \<Rightarrow> usize \<Rightarrow> ('b, 'd, unit) hvp" where
  "off_cpu E me c =
     bindP (get_cpu_data E c) (\<lambda>old.
     bindP (update_cpu_data E c (\<lambda>d. d\<lparr>zone := None\<rparr>)) (\<lambda>_.
     bindP (release E (zone old)) (\<lambda>_.
     send_event E me c SGI_IPI_ID IPI_EVENT_SHUTDOWN)))"

definition psci_system_off_call :: "('b, 'd) env \<Rightarrow> u64 \<Rightarrow> ('b, 'd, u64 ctl) hvp" where
  "psci_system_off_call E me =
     bindP (this_zone E me) (\<lambda>z. bindP (read_zone z) (\<lambda>zn.
     bindP (is_this_root_zone E me) (\<lambda>is_root.
     bindP (this_cpu_data E me) (\<lambda>d.
     bindP (liftP (cpu_iter_except (cpu_set zn) (cpu_id d))) (\<lambda>cs.
     bindP (forP cs (off_cpu E me)) (\<lambda>_.
     bindP (update_cpu_data E (this_cpu_id me) (\<lambda>d. d\<lparr>zone := None\<rparr>)) (\<lambda>_.
     bindP (release E (Some z)) (\<lambda>_.
     bindP (remove_zone E (zid zn)) (\<lambda>_.
     bindP (if is_root then (\<lambda>s. case psci_system_off E (dev s) of
         (None, d) \<Rightarrow> (Ok (), s\<lparr>dev := d\<rparr>) | (Some _, d) \<Rightarrow> (Panic, s\<lparr>dev := d\<rparr>)) else retP ()) (\<lambda>_.
     bindP (this_cpu_data E me) (\<lambda>d. idle E me (arch_cpu d))))))))))))"

definition handle_psci_smc :: "('b, 'd) env \<Rightarrow> u64 \<Rightarrow> nat \<Rightarrow> u64 \<Rightarrow> u64 \<Rightarrow> ('b, 'd, u64 ctl) hvp" where
  "handle_psci_smc E me i c arg0 =
     (if c = PSCI_VERSION then retP (Returns PSCI_VERSION_1_1)
      else if c = PSCI_CPU_SUSPEND_32 \<or> c = PSCI_CPU_SUSPEND_64 then
        bindP (modifyP (\<lambda>s. s\<lparr>dev := wfi E me (dev s)\<rparr>)) (\<lambda>_.
        bindP (gicv3_handle_irq_el1 E me) (\<lambda>r. case r of Vmreturn \<Rightarrow> retP Vmreturn | Returns _ \<Rightarrow> retP (Returns 0)))
      else if c = PSCI_CPU_OFF_32 \<or> c = PSCI_CPU_OFF_64 then liftP Panic
      else if c = PSCI_AFFINITY_INFO_32 \<or> c = PSCI_AFFINITY_INFO_64 then
        bindP (get_cpu_data E arg0) (\<lambda>d. retP (Returns (if psci_on (arch_cpu d) then 0 else 1)))
      else if c = PSCI_MIG_INFO_TYPE then retP (Returns PSCI_TOS_NOT_PRESENT_MP)
      else if c = PSCI_FEATURES then bindP (get_usr i 1) (\<lambda>x. retP (Returns (psci_emulate_features_info x)))
      else if c = PSCI_CPU_ON_32 \<or> c = PSCI_CPU_ON_64 then bindP (psci_emulate_cpu_on E me i) (\<lambda>r. retP (Returns r))
      else if c = PSCI_SYSTEM_OFF then psci_system_off_call E me
      else retP (Returns 0))"

definition handle_arch_smc :: "u64 \<Rightarrow> u64" where
  "handle_arch_smc c = (if c = SMCCC_VERSION then ARM_SMCCC_VERSION_1_0 else if c = SMCCC_ARCH_FEATURES then NOT 0 else NOT 0)"

definition handle_smc :: "('b, 'd) env \<Rightarrow> u64 \<Rightarrow> nat \<Rightarrow> ('b, 'd, unit ctl) hvp" where
  "handle_smc E me i =
     bindP (get_usr i 0) (\<lambda>c. bindP (get_usr i 1) (\<lambda>arg0. bindP (get_usr i 2) (\<lambda>_. bindP (get_usr i 3) (\<lambda>_.
     bindP (this_cpu_data E me) (\<lambda>_.
     bindP (if c AND SMC_TYPE_MASK = SmcType_ARCH_SC then retP (Returns (handle_arch_smc c))
       else if c AND SMC_TYPE_MASK = SmcType_STANDARD_SC then handle_psci_smc E me i c arg0
       else retP (Returns 0)) (\<lambda>r. case r of
         Vmreturn \<Rightarrow> retP Vmreturn
       | Returns v \<Rightarrow> bindP (set_usr i 0 v) (\<lambda>_. bindP (arch_skip_instruction E me) (\<lambda>_. retP (Returns ())))))))))"

section \<open>Dispatch\<close>

definition irqchip_handle_irq1 :: "('b, 'd) env \<Rightarrow> u64 \<Rightarrow> ('b, 'd, unit ctl) hvp" where
  "irqchip_handle_irq1 E me = gicv3_handle_irq_el1 E me"

definition irqchip_handle_irq2 :: "('b, 'd, unit ctl) hvp" where
  "irqchip_handle_irq2 = liftP Hang"

definition arch_handle_trap_el1 :: "('b, 'd) env \<Rightarrow> ('b, 'd) tick \<Rightarrow> u64 \<Rightarrow> nat \<Rightarrow> ('b, 'd, unit ctl) hvp" where
  "arch_handle_trap_el1 E tick me i =
     bindP (read_sysreg E me ESR_EL2) (\<lambda>esr. case esr_EC E esr of
       HVC64 \<Rightarrow> bindP (handle_hvc E me i) (\<lambda>_. retP (Returns ()))
     | SMC64 \<Rightarrow> handle_smc E me i
     | TrappedMsrMrs \<Rightarrow> bindP (handle_sysreg E me i) (\<lambda>_. retP (Returns ()))
     | DataAbortLowerEL \<Rightarrow> bindP (handle_dabt E tick me i) (\<lambda>_. retP (Returns ()))
     | InstrAbortLowerEL \<Rightarrow> bindP (handle_iabt E me) (\<lambda>_. retP (Returns ()))
     | _ \<Rightarrow> liftP Hang)"

definition arch_handle_trap_el2 :: "('b, 'd) env \<Rightarrow> u64 \<Rightarrow> ('b, 'd, unit ctl) hvp" where
  "arch_handle_trap_el2 E me =
     bindP (read_sysreg E me ELR_EL2) (\<lambda>_. bindP (read_sysreg E me ESR_EL2) (\<lambda>_. bindP (read_sysreg E me FAR_EL2) (\<lambda>_. liftP Hang)))"

definition arch_dump_exit :: "('b, 'd, unit ctl) hvp" where
  "arch_dump_exit = liftP Hang"

definition arch_handle_exit :: "('b, 'd) env \<Rightarrow> ('b, 'd) tick \<Rightarrow> u64 \<Rightarrow> nat \<Rightarrow> ('b, 'd, unit ctl) hvp" where
  "arch_handle_exit E tick me i =
     bindP (getP (\<lambda>s. exit_reason (stacks s ! i))) (\<lambda>reason.
     bindP (if reason = EXIT_REASON_EL1_IRQ then irqchip_handle_irq1 E me
       else if reason = EXIT_REASON_EL1_ABORT then arch_handle_trap_el1 E tick me i
       else if reason = EXIT_REASON_EL2_ABORT then arch_handle_trap_el2 E me
       else if reason = EXIT_REASON_EL2_IRQ then irqchip_handle_irq2
       else arch_dump_exit) (\<lambda>_. retP Vmreturn))"

end
