(* ===== verification/Hv_Keeps.thy ===== *)
theory Hv_Keeps
  imports Hv_Trap
begin

text \<open>
  What the handlers leave alone. \<open>keeps R m\<close> says that a program that returns, with a value or an error,
  relates the state before and after by \<open>R\<close>. The locale \<open>keeping\<close> has the rules for a reflexive and
  transitive \<open>R\<close>; \<open>hv_frame\<close> adds that \<open>R\<close> allows what most handlers do, changes of registers, queues and
  one frame, and shows that these handlers keep it.
\<close>

section \<open>Rules\<close>

definition returns :: "('e, 'a) outcome \<Rightarrow> bool" where
  "returns r \<longleftrightarrow> (case r of Ok _ \<Rightarrow> True | Err _ \<Rightarrow> True | _ \<Rightarrow> False)"

lemma returns_simps [simp]: "returns (Ok x)" "returns (Err e)" "\<not> returns Panic" "\<not> returns Hang" "\<not> returns Fault"
  by (simp_all add: returns_def)

definition keeps :: "('s \<Rightarrow> 's \<Rightarrow> bool) \<Rightarrow> ('s, 'e, 'a) prog \<Rightarrow> bool" where
  "keeps R m \<longleftrightarrow> (\<forall>s r t. m s = (r, t) \<and> returns r \<longrightarrow> R s t)"

lemma keepsI: "(\<And>s r t. m s = (r, t) \<Longrightarrow> returns r \<Longrightarrow> R s t) \<Longrightarrow> keeps R m"
  by (simp add: keeps_def)

lemma keepsD: "keeps R m \<Longrightarrow> m s = (r, t) \<Longrightarrow> returns r \<Longrightarrow> R s t"
  by (simp add: keeps_def)

named_theorems keeps_intros

locale keeping =
  fixes R :: "'s \<Rightarrow> 's \<Rightarrow> bool"
  assumes R_refl: "R s s" and R_trans: "R s t \<Longrightarrow> R t u \<Longrightarrow> R s u"
begin

lemma keeps_pure [keeps_intros]: "keeps R (retP x)" "keeps R (liftP r)" "keeps R (errP e)" "keeps R (getP f)"
  by (auto simp: keeps_def R_refl errP_def)

lemma keeps_bind_Ok:
  assumes "keeps R m" "\<And>s x t r u. m s = (Ok x, t) \<Longrightarrow> f x t = (r, u) \<Longrightarrow> returns r \<Longrightarrow> R t u"
  shows "keeps R (bindP m f)"
proof (rule keepsI)
  fix s r u assume run: "bindP m f s = (r, u)" "returns r"
  obtain q t where m: "m s = (q, t)" by fastforce
  show "R s u"
  proof (cases q)
    case (Ok x)
    with run(1) m have f: "f x t = (r, u)" by (simp add: bindP_simps)
    have "R s t" using keepsD [OF assms(1) m] Ok by simp
    then show ?thesis by (rule R_trans) (use assms(2) m Ok f run(2) in blast)
  qed (use run m keepsD [OF assms(1) m] in \<open>auto simp: bindP_simps\<close>)
qed

lemma keeps_bind [keeps_intros]: "keeps R m \<Longrightarrow> (\<And>x. keeps R (f x)) \<Longrightarrow> keeps R (bindP m f)"
  by (rule keeps_bind_Ok) (auto dest: keepsD)

lemma keeps_unwrap [keeps_intros]: "keeps R m \<Longrightarrow> keeps R (unwrapP m)"
proof (rule keepsI)
  fix s r t assume m: "keeps R m" "unwrapP m s = (r, t)" "returns r"
  obtain q where q: "m s = (q, t)" "r = unwrap q" using m(2) by (cases "m s") (auto simp: unwrapP_def)
  with m(3) have "returns q" by (cases q) auto
  with m(1) q(1) show "R s t" by (rule keepsD)
qed

lemma keeps_for [keeps_intros]:
  assumes "\<And>x. keeps R (f x)"
  shows "keeps R (forP xs f)"
proof (induction xs)
  case Nil
  then show ?case by (auto simp: keeps_def R_refl)
next
  case (Cons x xs)
  have "keeps R (bindP (f x) (\<lambda>_. forP xs f))" by (rule keeps_bind [OF assms Cons.IH])
  then show ?case by (simp add: keeps_def)
qed

lemma keeps_same: "(\<And>s. snd (m s) = s) \<Longrightarrow> keeps R m"
  by (rule keepsI) (metis R_refl snd_conv)

end

text \<open>Case distinctions.\<close>

lemma keeps_cases [keeps_intros]:
  "(b \<Longrightarrow> keeps R m) \<Longrightarrow> (\<not> b \<Longrightarrow> keeps R n) \<Longrightarrow> keeps R (if b then m else n)"
  "(x = None \<Longrightarrow> keeps R m) \<Longrightarrow> (\<And>y. x = Some y \<Longrightarrow> keeps R (g y)) \<Longrightarrow> keeps R (case x of None \<Rightarrow> m | Some y \<Rightarrow> g y)"
  "(\<And>a b. p = (a, b) \<Longrightarrow> keeps R (h a b)) \<Longrightarrow> keeps R (case p of (a, b) \<Rightarrow> h a b)"
  "(\<And>v. c = Returns v \<Longrightarrow> keeps R (k v)) \<Longrightarrow> (c = Vmreturn \<Longrightarrow> keeps R n) \<Longrightarrow> keeps R (case c of Returns v \<Rightarrow> k v | Vmreturn \<Rightarrow> n)"
  by (auto split: option.split prod.split ctl.split)

section \<open>Handlers\<close>

locale hv_frame = keeping R for R :: "('b, 'd) hv \<Rightarrow> ('b, 'd) hv \<Rightarrow> bool" +
  fixes i :: nat
  assumes R_dev: "R s (s\<lparr>dev := d\<rparr>)" and R_events: "map_option length e = map_option length (EVENT_MANAGER s) \<Longrightarrow> R s (s\<lparr>EVENT_MANAGER := e\<rparr>)" and R_shared: "R s (s\<lparr>shared := h\<rparr>)"
    and R_virqs: "R s (s\<lparr>VIRTIO_IRQS := v\<rparr>)" and R_timer: "R s (s\<lparr>TIMER_INTERRUPT_COUNTER := n\<rparr>)"
    and R_cpu: "zone c = zone (percpu s ! k) \<Longrightarrow> cpu_id c = cpu_id (percpu s ! k) \<Longrightarrow>
      cpuid (arch_cpu c) = cpuid (arch_cpu (percpu s ! k)) \<Longrightarrow> R s (s\<lparr>percpu := (percpu s)[k := c]\<rparr>)"
    and R_frame: "length (usr r) = length (usr (stacks s ! i)) \<Longrightarrow> R s (s\<lparr>stacks := (stacks s)[i := r]\<rparr>)"
begin

lemma keeps_registers [keeps_intros]:
  "keeps R (read_sysreg E me r)" "keeps R (write_sysreg E me r x)" "keeps R (read_volatile E a w)" "keeps R (write_volatile E a w x)"
  by (auto simp: keeps_def read_sysreg_def write_sysreg_def read_volatile_def write_volatile_def split_beta Let_def R_dev)

lemma keeps_modify [keeps_intros]:
  "keeps R (modifyP (\<lambda>s. s\<lparr>dev := f s\<rparr>))" "keeps R (modifyP (\<lambda>s. s\<lparr>VIRTIO_IRQS := g s\<rparr>))"
  "keeps R (modifyP (\<lambda>s. s\<lparr>TIMER_INTERRUPT_COUNTER := h s\<rparr>))"
  by (auto simp: keeps_def R_dev R_virqs R_timer)

lemma keeps_lookup [keeps_intros]:
  "keeps R (get_cpu_data E c)" "keeps R (this_cpu_data E me)" "keeps R (this_zone E me)" "keeps R (read_zone z)" "keeps R root_zone"
  "keeps R (is_this_root_zone E me)" "keeps R (find_zone n)" "keeps R (this_zone_id E me)"
proof -
  show g: "keeps R (get_cpu_data E c)" for c by (rule keepsI) (auto dest: get_cpu_data_state simp: R_refl)
  then show "keeps R (this_cpu_data E me)" by (simp add: this_cpu_data_def)
  then show z: "keeps R (this_zone E me)" by (simp add: this_zone_def keeps_intros)
  show r: "keeps R (read_zone z)" for z by (rule keepsI) (auto dest: read_zone_state simp: R_refl)
  show "keeps R root_zone" by (rule keeps_same) (simp add: root_zone_def split: list.split)
  then show "keeps R (is_this_root_zone E me)" using z by (simp add: is_this_root_zone_def keeps_intros)
  show "keeps R (find_zone n)" by (rule keepsI) (auto dest: find_zone_state simp: R_refl)
  show "keeps R (this_zone_id E me)" using z r by (simp add: this_zone_id_def keeps_intros)
qed

lemma keeps_update_cpu [keeps_intros]:
  assumes "\<And>d. zone (f d) = zone d" "\<And>d. cpu_id (f d) = cpu_id d" "\<And>d. cpuid (arch_cpu (f d)) = cpuid (arch_cpu d)"
  shows "keeps R (update_cpu_data E c f)"
  unfolding update_cpu_data_def
proof (rule keeps_bind_Ok)
  fix s d t r u assume g: "get_cpu_data E c s = (Ok d, t)" and m: "modifyP (\<lambda>s. s\<lparr>percpu := (percpu s)[unat c := f d]\<rparr>) t = (r, u)"
  have "d = percpu t ! unat c"
    using g by (auto simp: get_cpu_data_def cpu_data_addr_def mul_chk_def add_chk_def split: if_splits)
  with m assms show "R t u" by (auto intro!: R_cpu)
qed (rule keeps_lookup)

lemma keeps_frame [keeps_intros]: "keeps R (get_usr i n)" "keeps R (set_usr i n x)"
  by (auto simp: keeps_def get_usr_def set_usr_def R_refl R_frame)

lemma keeps_events [keeps_intros]: "keeps R (send_event E me c n ev)" "keeps R (fetch_event c)"
proof -
  have w: "keeps R (with_events f)" if "\<And>em. length (snd (f em)) = length em" for f :: "EventManager \<Rightarrow> 'x \<times> EventManager"
    using that by (intro keepsI) (auto simp: with_events_def bindP_def unwrap_opt_def R_refl intro!: R_events split: option.splits)
  show "keeps R (send_event E me c n ev)"
    unfolding send_event_def add_event_def arch_send_event_def by (intro keeps_intros w) (simp add: EventManager_add_event_def)
  show "keeps R (fetch_event c)"
    unfolding fetch_event_def by (rule w) (simp add: EventManager_fetch_event_def split: list.split)
qed

lemma keeps_inject [keeps_intros]: "keeps R (inject_irq E me irq h)"
proof -
  have l: "keeps R (read_lr E me n)" "keeps R (write_lr E me n x)" for n x by (simp_all add: read_lr_def write_lr_def keeps_intros)
  have "keeps R (inject_scan E me e irq ns free)" for e ns free
  proof (induction ns arbitrary: free)
    case (Cons n ns)
    have "keeps R (bindP (read_lr E me n) (\<lambda>v. if v AND 0xffffffff = irq then retP None else inject_scan E me e irq ns free))"
      using l(1) Cons.IH by (intro keeps_intros)
    then show ?case by (intro keepsI) (auto split: if_splits dest: keepsD [OF Cons.IH] keepsD)
  qed (auto simp: keeps_def R_refl)
  with l show ?thesis unfolding inject_irq_def by (intro keeps_intros)
qed

lemma keeps_irq [keeps_intros]: "keeps R (pending_irq E me)" "keeps R (deactivate_irq E me n)" "keeps R (handle_virtio_irq E me)"
  unfolding pending_irq_def deactivate_irq_def handle_virtio_irq_def Let_def by (intro keeps_intros)+

lemma keeps_gic [keeps_intros]: "keeps R (mmio_perform_access E b acc)" "keeps R host_gicd_base" "keeps R (host_gicr_base c)"
  unfolding mmio_perform_access_def host_gicd_base_def host_gicr_base_def gic_get_def by (intro keeps_intros)+

lemma keeps_vgic [keeps_intros]:
  "keeps R (vgicv3_dist_handler E me acc a)" "keeps R (vgicv3_redist_handler E me acc a)" "keeps R (mmio_generic_handler E acc a)"
proof -
  have "keeps R (restrict_bitmask_access E me acc n b p g)" "keeps R (vgicv3_handle_irq_ops E me acc q)"
    "keeps R (vgicv3_dist_misc_access E acc g)" for n b p g q
    unfolding restrict_bitmask_access_def vgicv3_handle_irq_ops_def vgicv3_dist_misc_access_def Let_def by (intro keeps_intros)+
  then show "keeps R (vgicv3_dist_handler E me acc a)" unfolding vgicv3_dist_handler_def Let_def by (intro keeps_intros)
  show "keeps R (vgicv3_redist_handler E me acc a)" "keeps R (mmio_generic_handler E acc a)"
    unfolding vgicv3_redist_handler_def mmio_generic_handler_def by (intro keeps_intros)+
qed

text \<open>The argument \<open>tick\<close>, the steps of the rest of the machine between two polls, has to keep \<open>R\<close> as well.\<close>

lemma keeps_wait_room:
  assumes "\<And>s. R s (tick s)" "wait_room tick s = Some (r, t)" "returns r"
  shows "R s t"
proof -
  have full: "snd (is_req_list_full s) = s" for s :: "('b, 'd) hv"
    by (cases "is_enable (VIRTIO_BRIDGE s)") (simp_all add: is_req_list_full_def bindP_def immut_region_def split: outcome.split)
  have "(\<forall>s. R s (tick s)) \<longrightarrow> R s (snd (r, t))"
  proof (rule wait_room.raw_induct [where P = "\<lambda>tick s y. (\<forall>s. R s (tick s)) \<longrightarrow> R s (snd y)", rotated])
    fix w tick s and y :: "(HvErrorNum, bool) outcome \<times> ('b, 'd) hv"
    assume IH: "\<And>tick s y. w tick s = Some y \<Longrightarrow> (\<forall>s. R s (tick s)) \<longrightarrow> R s (snd y)"
      and y: "(if fst (is_req_list_full s) = Ok True then w tick (tick s) else Some (is_req_list_full s)) = Some y"
    show "(\<forall>s. R s (tick s)) \<longrightarrow> R s (snd y)"
    proof (cases "fst (is_req_list_full s) = Ok True")
      case True
      with y have "w tick (tick s) = Some y" by simp
      from IH [OF this] show ?thesis by (blast intro: R_trans)
    next
      case False
      with y full [of s] show ?thesis by (auto simp: R_refl)
    qed
  qed (rule assms(2))
  with assms(1) show ?thesis by simp
qed

lemma keeps_poll_cfg:
  assumes "\<And>s. R s (tick s)"
  shows "R s (snd (poll_cfg tick b c old n s))"
  using assms
proof (induction tick b c old n s rule: poll_cfg.induct)
  case (1 tick b c old n s)
  have "R s (snd (poll_cfg tick b c old (n + 1) (tick s)))" if "cfg_flags (shared s b) ! c = old" "n < 2 ^ 31 - 1"
    by (rule R_trans [OF 1(2) 1(1) [OF that 1(2)]])
  then show ?case by (subst poll_cfg.simps) (simp add: R_refl)
qed

lemma keeps_virtio [keeps_intros]:
  assumes "\<And>s. R s (tick s)"
  shows "keeps R (mmio_virtio_handler E tick me acc b)"
proof -
  have "keeps R immut_region" by (rule keeps_same) (simp add: immut_region_def)
  moreover have "keeps R (take_lock_with_room tick)"
  proof (rule keepsI)
    fix s r t assume r: "take_lock_with_room tick s = (r, t)" "returns r"
    then obtain q where q: "wait_room tick s = Some (q, t)" "r = bind_out q (\<lambda>_. Ok ())"
      by (auto simp: take_lock_with_room_def split: option.splits)
    with r(2) have "returns q" by (cases q) auto
    with keeps_wait_room [OF assms q(1)] show "R s t" .
  qed
  moreover have "keeps R (poll_cfg tick x c old n)" for x c old n
    by (rule keepsI) (metis keeps_poll_cfg [OF assms] snd_conv)
  moreover have "keeps R (set_region r)" for r by (auto simp: keeps_def set_region_def R_shared)
  moreover from this calculation(1) have "keeps R (push_req q)" for q unfolding push_req_def by (intro keeps_intros)
  moreover have "keeps R need_wakeup" using calculation(1) unfolding need_wakeup_def by (intro keeps_intros)
  ultimately show ?thesis unfolding mmio_virtio_handler_def Let_def by (intro keeps_intros)
qed

lemma keeps_mmio [keeps_intros]:
  assumes "\<And>s. R s (tick s)"
  shows "keeps R (mmio_handle_access E tick me acc)"
proof -
  have "keeps R (call_handler E tick me h acc a)" for h acc a
    using assms by (cases h) (simp_all add: call_handler_def keeps_intros)
  then show ?thesis unfolding mmio_handle_access_def by (intro keeps_intros)
qed

lemma keeps_skip [keeps_intros]: "keeps R (arch_skip_instruction E me)"
  unfolding arch_skip_instruction_def Let_def by (intro keeps_intros)

lemma keeps_aborts [keeps_intros]:
  "(\<And>s. R s (tick s)) \<Longrightarrow> keeps R (handle_dabt E tick me i)" "keeps R (handle_iabt E me)" "keeps R (handle_sysreg E me i)"
  unfolding handle_dabt_def handle_iabt_def handle_sysreg_def Let_def by (intro keeps_intros | assumption)+

lemma keeps_cpu_on [keeps_intros]: "keeps R (psci_emulate_cpu_on E me i)"
  unfolding psci_emulate_cpu_on_def Let_def by (intro keeps_intros) simp_all

lemma guest_reg_own: "guest_reg E self s = (Ok k, t) \<Longrightarrow> k = unat (cpuid self) \<and> t = s"
  unfolding guest_reg_def by (auto elim!: bindP_OkE split: if_splits)

lemma keeps_reset [keeps_intros]:
  assumes "unat (cpuid self) = i"
  shows "keeps R (reset E me self entry dtb)"
proof -
  have u: "keeps R (update_regs i GeneralRegisters_clear)" "keeps R (update_regs i (\<lambda>r. r\<lparr>usr := (usr r)[0 := dtb]\<rparr>))"
    by (auto simp: keeps_def update_regs_def GeneralRegisters_clear_def intro!: R_frame)
  have p: "keeps R get_parange" "keeps R is_s2_pt_level3" "keeps R get_parange_bits"
    unfolding get_parange_def is_s2_pt_level3_def get_parange_bits_def by (intro keeps_intros)+
  have "keeps R (reset_vm_regs E me)" "keeps R (activate_vmm E me)"
    using p unfolding reset_vm_regs_def activate_vmm_def by (intro keeps_intros)+
  with u have tail: "keeps R (bindP (update_regs i GeneralRegisters_clear) (\<lambda>_. bindP (update_regs i (\<lambda>r. r\<lparr>usr := (usr r)[0 := dtb]\<rparr>)) (\<lambda>_.
      bindP (reset_vm_regs E me) (\<lambda>_. activate_vmm E me))))" by (intro keeps_intros)
  have g: "keeps R (guest_reg E self)" unfolding guest_reg_def by (intro keeps_intros keeps_same) simp
  have "keeps R (bindP (guest_reg E self) (\<lambda>i. bindP (update_regs i GeneralRegisters_clear) (\<lambda>_.
      bindP (update_regs i (\<lambda>r. r\<lparr>usr := (usr r)[0 := dtb]\<rparr>)) (\<lambda>_. bindP (reset_vm_regs E me) (\<lambda>_. activate_vmm E me)))))"
    by (rule keeps_bind_Ok [OF g]) (use tail assms in \<open>auto dest!: guest_reg_own dest: keepsD\<close>)
  then show ?thesis unfolding reset_def by (rule keeps_bind [OF keeps_registers(2) keeps_bind [OF keeps_registers(2)]])
qed

lemma keeps_run [keeps_intros]:
  assumes "unat (this_cpu_id me) = i"
  shows "keeps R (run E me self)"
proof (cases "this_cpu_id me = cpuid self")
  case True
  have g: "keeps R (guest_reg E self)" unfolding guest_reg_def by (intro keeps_intros keeps_same) simp
  have "unat (cpuid self) = i" using assms True by simp
  with g show ?thesis
    unfolding run_def activate_gpm_def ms_activate_def set_psci_on_def by (intro keeps_intros) simp_all
next
  case False
  then show ?thesis by (auto simp: keeps_def run_def bindP_simps)
qed

end

section \<open>Exits\<close>

text \<open>
  The whole of an exit on the CPU whose frame is \<open>i\<close>: it keeps \<open>R\<close> if parking the CPU, switching the zone
  off and the hypercalls do.
\<close>

locale exit_frame = hv_frame R i for R :: "('b, 'd) hv \<Rightarrow> ('b, 'd) hv \<Rightarrow> bool" and i +
  fixes E :: "('b, 'd) env" and me :: u64
  assumes own_cpu: "unat (this_cpu_id me) = i"
    and R_idle: "self = arch_cpu (percpu s ! i) \<Longrightarrow> idle E me self s = (r :: (HvErrorNum, bool ctl) outcome, t) \<Longrightarrow> returns r \<Longrightarrow> R s t"
    and R_off: "keeps R (psci_system_off_call E me)" and R_hypercall: "keeps R (hypercall E me c a b)"
begin

lemma keeps_check_events [keeps_intros]: "keeps R (check_events E me)"
proof (rule keepsI)
  fix s r t assume run: "check_events E me s = (r, t)" "returns r"
  obtain d where d: "this_cpu_data E me s = (Ok d, s)" "d = percpu s ! i"
    using run own_cpu by (auto simp: check_events_def this_cpu_data_def get_cpu_data_def cpu_data_addr_def mul_chk_def add_chk_def bindP_def split: if_splits)
  obtain q u where f: "fetch_event (cpu_id d) s = (q, u)" by fastforce
  have u: "percpu u = percpu s"
    using f by (auto simp: fetch_event_def with_events_def bindP_def unwrap_opt_def split: option.splits)
  let ?rest = "\<lambda>ev. if ev = Some IPI_EVENT_WAKEUP then run E me (arch_cpu d)
     else if ev = Some IPI_EVENT_SHUTDOWN then idle E me (arch_cpu d)
     else if ev = Some IPI_EVENT_VIRTIO_INJECT_IRQ then bindP (handle_virtio_irq E me) (\<lambda>_. retP (Returns True))
     else if ev = Some IPI_EVENT_WAKEUP_VIRTIO_DEVICE then
       bindP (inject_irq E me IRQ_WAKEUP_VIRTIO_DEVICE False) (\<lambda>_. retP (Returns True))
     else retP (Returns False)"
  have rest: "bindP (fetch_event (cpu_id d)) ?rest s = (r, t)" using run(1) d(1) by (simp add: check_events_def bindP_simps)
  note su = keepsD [OF keeps_events(2) f]
  show "R s t"
  proof (cases q)
    case (Ok ev)
    have r: "?rest ev u = (r, t)" using rest f Ok by (simp add: bindP_def)
    have "R u t"
    proof (cases "ev = Some IPI_EVENT_SHUTDOWN")
      case True
      with r have "idle E me (arch_cpu d) u = (r, t)" by (simp add: IPI_EVENT_defs)
      from R_idle [OF _ this run(2)] show ?thesis using d(2) u by simp
    next
      case False
      let ?other = "if ev = Some IPI_EVENT_WAKEUP then run E me (arch_cpu d)
       else if ev = Some IPI_EVENT_VIRTIO_INJECT_IRQ then bindP (handle_virtio_irq E me) (\<lambda>_. retP (Returns True))
       else if ev = Some IPI_EVENT_WAKEUP_VIRTIO_DEVICE then
         bindP (inject_irq E me IRQ_WAKEUP_VIRTIO_DEVICE False) (\<lambda>_. retP (Returns True))
       else retP (Returns False)"
      have "keeps R ?other" by (intro keeps_intros own_cpu)
      moreover have "?other u = (r, t)" using r by (simp only: False if_False)
      ultimately show ?thesis by (rule keepsD [OF _ _ run(2)])
    qed
    with su Ok show ?thesis by (auto intro: R_trans)
  qed (use su rest f run(2) in \<open>auto simp: bindP_def\<close>)
qed

lemma keeps_irq_el1 [keeps_intros]: "keeps R (gicv3_handle_irq_el1 E me)"
  unfolding gicv3_handle_irq_el1_def by (intro keeps_intros)

lemma keeps_hvc [keeps_intros]: "keeps R (handle_hvc E me i)"
proof -
  have "keeps R (\<lambda>s. case hypercall E me c a b s of (Ok r, t) \<Rightarrow> (Ok r, t) | (Err e, t) \<Rightarrow> (Ok (code e), t)
      | (Panic, t) \<Rightarrow> (Panic, t) | (Hang, t) \<Rightarrow> (Hang, t) | (Fault, t) \<Rightarrow> (Fault, t))" for c a b
    by (rule keepsI) (auto split: outcome.splits prod.splits dest: keepsD [OF R_hypercall])
  then show ?thesis unfolding handle_hvc_def by (intro keeps_intros)
qed

lemma keeps_smc [keeps_intros]: "keeps R (handle_smc E me i)"
proof -
  have "keeps R (handle_psci_smc E me i c a)" for c a
    unfolding handle_psci_smc_def by (intro keeps_intros R_off)
  then show ?thesis unfolding handle_smc_def by (intro keeps_intros)
qed

lemma keeps_exit:
  assumes "\<And>s. R s (tick s)"
  shows "keeps R (arch_handle_exit E tick me i)"
proof -
  have "keeps R (case ec of
       HVC64 \<Rightarrow> bindP (handle_hvc E me i) (\<lambda>_. retP (Returns ()))
     | SMC64 \<Rightarrow> handle_smc E me i
     | TrappedMsrMrs \<Rightarrow> bindP (handle_sysreg E me i) (\<lambda>_. retP (Returns ()))
     | DataAbortLowerEL \<Rightarrow> bindP (handle_dabt E tick me i) (\<lambda>_. retP (Returns ()))
     | InstrAbortLowerEL \<Rightarrow> bindP (handle_iabt E me) (\<lambda>_. retP (Returns ()))
     | _ \<Rightarrow> liftP Hang)" for ec
    using assms by (cases ec) (simp_all, (intro keeps_intros; assumption?)+)
  then have "keeps R (arch_handle_trap_el1 E tick me i)" unfolding arch_handle_trap_el1_def by (intro keeps_intros)
  moreover have "keeps R (arch_handle_trap_el2 E me)" unfolding arch_handle_trap_el2_def by (intro keeps_intros)
  ultimately show ?thesis
    unfolding arch_handle_exit_def irqchip_handle_irq1_def irqchip_handle_irq2_def arch_dump_exit_def by (intro keeps_intros)
qed

end

end
