(* ===== verification/Hv_TrapSpec.thy ===== *)
theory Hv_TrapSpec
  imports Hv_Keeps Hv_HyperSpec
begin

text \<open>
  What a guest can do to the rest of the machine through its exits. \<open>guarded\<close> is the relation every
  exit of a guest that is not the root zone keeps: the state stays well formed and the other zones keep
  the memory they see. Also here: a guest that switches itself off gives its memory back, and a guest
  that starts one of its CPUs has it enter the guest where it asked.
\<close>

section \<open>Switching a zone off from inside\<close>

lemma off_cpu_run:
  assumes wf: "cpus_wf E s" "unat c < 4" and em: "EVENT_MANAGER s = Some em"
    and old: "\<forall>z. zone (percpu s ! unat c) = Some z \<longrightarrow> z \<in> set (ZONE_LIST s)"
  shows "off_cpu E me c s = (Ok (), s\<lparr>percpu := (percpu s)[unat c := (percpu s ! unat c)\<lparr>zone := None\<rparr>],
     EVENT_MANAGER := Some (snd (EventManager_add_event em c IPI_EVENT_SHUTDOWN)),
     dev := msr E me ICC_SGI1R_EL1 (push_bit 24 SGI_IPI_ID OR push_bit (unat c) 1) (dev s)\<rparr>)"
proof -
  let ?s = "s\<lparr>percpu := (percpu s)[unat c := (percpu s ! unat c)\<lparr>zone := None\<rparr>]\<rparr>"
  have "release E (zone (percpu s ! unat c)) ?s = (Ok (), ?s)"
    using old by (cases "zone (percpu s ! unat c)") (simp_all add: release_def)
  moreover have "unat c < 64" using wf(2) by simp
  ultimately show ?thesis
    using em update_cpu_data_in [OF wf, where f = "\<lambda>d. d\<lparr>zone := None\<rparr>"]
    by (simp add: off_cpu_def bindP_simps get_cpu_data_in [OF wf] send_event_run)
qed

lemma off_cpus_run:
  assumes "cpus_wf E s" "\<forall>c \<in> set cs. unat c < 4" "EVENT_MANAGER s = Some em" "length em = 4"
    and "\<forall>i < 4. \<forall>z. zone (percpu s ! i) = Some z \<longrightarrow> z \<in> set (ZONE_LIST s)"
  shows "\<exists>ps em' d. forP cs (off_cpu E me) s = (Ok (), s\<lparr>percpu := ps, EVENT_MANAGER := Some em', dev := d\<rparr>) \<and>
    length ps = 4 \<and> length em' = 4 \<and>
    (\<forall>i < 4. ps ! i = (if i \<in> unat ` set cs then (percpu s ! i)\<lparr>zone := None\<rparr> else percpu s ! i))"
  using assms
proof (induction cs arbitrary: s em)
  case Nil
  then show ?case using cpus_wf_D [OF Nil.prems(1)] by (intro exI [of _ "percpu s"] exI [of _ em] exI [of _ "dev s"]) simp
next
  case (Cons c cs)
  let ?em = "snd (EventManager_add_event em c IPI_EVENT_SHUTDOWN)"
  let ?s = "s\<lparr>percpu := (percpu s)[unat c := (percpu s ! unat c)\<lparr>zone := None\<rparr>], EVENT_MANAGER := Some ?em,
     dev := msr E me ICC_SGI1R_EL1 (push_bit 24 SGI_IPI_ID OR push_bit (unat c) 1) (dev s)\<rparr>"
  have c: "unat c < 4" and len: "length (percpu s) = 4" using Cons.prems(1,2) cpus_wf_D by auto
  have one: "off_cpu E me c s = (Ok (), ?s)"
    by (rule off_cpu_run [OF Cons.prems(1) c Cons.prems(3)]) (use Cons.prems(5) c in blast)
  have upd: "percpu ?s ! i = (if i = unat c then (percpu s ! i)\<lparr>zone := None\<rparr> else percpu s ! i)" if "i < 4" for i
    using that c len by (simp add: nth_list_update)
  then have old: "\<forall>i < 4. \<forall>z. zone (percpu ?s ! i) = Some z \<longrightarrow> z \<in> set (ZONE_LIST ?s)"
    using Cons.prems(5) by (simp split: if_splits)
  have wf: "cpus_wf E ?s" "length ?em = 4" using Cons.prems(1,4) by (simp_all add: cpus_wf_def EventManager_add_event_def)
  from Cons.IH [OF wf(1) _ _ wf(2) old] Cons.prems(2) obtain ps em' d where
    r: "forP cs (off_cpu E me) ?s = (Ok (), ?s\<lparr>percpu := ps, EVENT_MANAGER := Some em', dev := d\<rparr>)"
    "length ps = 4" "length em' = 4" "\<forall>i < 4. ps ! i = (if i \<in> unat ` set cs then (percpu ?s ! i)\<lparr>zone := None\<rparr> else percpu ?s ! i)" by auto
  have "\<forall>i < 4. ps ! i = (if i \<in> unat ` set (c # cs) then (percpu s ! i)\<lparr>zone := None\<rparr> else percpu s ! i)"
  proof (intro allI impI)
    fix i :: nat assume "i < 4"
    with r(4) upd [of i] show "ps ! i = (if i \<in> unat ` set (c # cs) then (percpu s ! i)\<lparr>zone := None\<rparr> else percpu s ! i)"
      by (cases "i = unat c") auto
  qed
  with r(1-3) one show ?case by (intro exI [of _ ps] exI [of _ em'] exI [of _ d]) (simp add: bindP_def)
qed

text \<open>The invariant of a running machine: the zones, the frames, the parking set, the queues and the numbers of the CPUs.\<close>

definition hv_inv :: "('b, 'd) env \<Rightarrow> ('b, 'd) hv \<Rightarrow> bool" where
  "hv_inv E s \<longleftrightarrow> hv_ok E s \<and> frames_wf E s \<and> parking_ok E s \<and> map_option length (EVENT_MANAGER s) = Some 4 \<and>
     (\<forall>i < 4. cpu_id (percpu s ! i) = of_nat i \<and> cpuid (arch_cpu (percpu s ! i)) = of_nat i)"

lemma hv_invD:
  assumes "hv_inv E s"
  shows "hv_ok E s" "frames_wf E s" "parking_ok E s" "cpus_wf E s" "length (percpu s) = 4"
    "unat c < 4 \<Longrightarrow> cpu_id (percpu s ! unat c) = c" "unat c < 4 \<Longrightarrow> cpuid (arch_cpu (percpu s ! unat c)) = c"
    "\<And>P. (\<And>em. EVENT_MANAGER s = Some em \<Longrightarrow> length em = 4 \<Longrightarrow> P) \<Longrightarrow> P"
    "\<forall>i < 4. \<forall>z. zone (percpu s ! i) = Some z \<longrightarrow> z \<in> set (ZONE_LIST s)"
proof -
  note H = assms [unfolded hv_inv_def]
  show "hv_ok E s" "frames_wf E s" "parking_ok E s" using H by simp_all
  then show "cpus_wf E s" "\<forall>i < 4. \<forall>z. zone (percpu s ! i) = Some z \<longrightarrow> z \<in> set (ZONE_LIST s)"
    by (simp_all add: hv_ok_def) (metis option.distinct(1))
  then show "length (percpu s) = 4" by (simp add: cpus_wf_D)
  show "unat c < 4 \<Longrightarrow> cpu_id (percpu s ! unat c) = c" "unat c < 4 \<Longrightarrow> cpuid (arch_cpu (percpu s ! unat c)) = c"
    using H by simp_all
  show "(\<And>em. EVENT_MANAGER s = Some em \<Longrightarrow> length em = 4 \<Longrightarrow> P) \<Longrightarrow> P" for P using H by (auto simp: map_option_eq_Some)
qed

text \<open>A frame is free when it is held and no table of a set takes it.\<close>

lemma free_held:
  assumes "sets_ok A m S"
  shows "frame_free A (falloc m) q \<longleftrightarrow> q \<in> held A m (set S) \<and> (\<forall>ms \<in> set S. q \<notin> tables m ms)"
  using pt_ok_used(2) [OF sets_okD(3) [OF assms]] by (auto simp: held_def)

lemma parking_page_out:
  assumes "hv_ok E s" "parking_ok E s"
  shows "parking_page E \<notin> held (bits E) (mem s) (set (live_sets s))"
proof
  have so: "sets_ok (bits E) (mem s) (live_sets s)" using assms(1) by (simp add: hv_ok_def)
  assume "parking_page E \<in> held (bits E) (mem s) (set (live_sets s))"
  from pool_page(2) [OF sets_okD(1) [OF so] held_pool [OF so this]] assms(2) show False by (simp add: parking_ok_def)
qed

lemma idle_inv:
  assumes A: "bit_alloc (bits E)" and inv: "hv_inv E s" and c: "unat (this_cpu_id me) < 4" "self = arch_cpu (percpu s ! unat (this_cpu_id me))"
  obtains (parked) t p where "idle E me self s = (Ok Vmreturn :: (HvErrorNum, 'x ctl) outcome, t)" "hv_inv E t" "zone_at t = zone_at s"
      "ZONE_LIST t = ZONE_LIST s" "\<And>k. zone (percpu t ! k) = zone (percpu s ! k)" "EVENT_MANAGER t = EVENT_MANAGER s"
      "kept (bits E) (set (live_sets s)) (mem s) (mem t)" "PARKING_MEMORY_SET s \<noteq> None \<longrightarrow> mem t = mem s"
      "held (bits E) (mem t) (set (live_sets t)) = held (bits E) (mem s) (set (live_sets s))" "PARKING_MEMORY_SET t = Some p"
      "regions p = [(0, parking_region E)]" "\<not> psci_on (arch_cpu (percpu t ! unat (this_cpu_id me)))"
      "dev t = msr E me VTTBR_EL2 (vttbr_baddr E (root_paddr (pt p))) (reset_dev E me 0 s (dev s))"
      "PARKING_MEMORY_SET s = None \<longrightarrow> read_u64 (bytes (mem t)) (parking_page E) = 0x17ffffffd503207f"
    | (exhausted) t where "idle E me self s = (Panic :: (HvErrorNum, 'x ctl) outcome, t)" "\<And>q. \<not> frame_free (bits E) (falloc (mem t)) q"
      "PARKING_MEMORY_SET s = None"
proof -
  note I = hv_invD [OF inv]
  have id: "cpuid self = this_cpu_id me" using I(7) c by simp
  show thesis
  proof (cases rule: idle_run [where 'x = 'x, OF A I(1-3) c id])
    case (1 m' p)
    let ?i = "unat (this_cpu_id me)"
    define t where "t = s\<lparr>percpu := (percpu s)[?i := (percpu s ! ?i)\<lparr>arch_cpu := self\<lparr>psci_on := False\<rparr>\<rparr>], mem := m',
      PARKING_MEMORY_SET := Some p, stacks := (stacks s)[?i := fresh_regs (dtb_ipa (percpu s ! ?i))],
      dev := msr E me VTTBR_EL2 (vttbr_baddr E (root_paddr (pt p))) (reset_dev E me 0 s (dev s))\<rparr>"
    have sel: "zone_heap t = zone_heap s" "ZONE_LIST t = ZONE_LIST s" "mem t = m'" "EVENT_MANAGER t = EVENT_MANAGER s" by (simp_all add: t_def)
    have pc: "percpu t ! k = (if k = ?i then (percpu s ! k)\<lparr>arch_cpu := self\<lparr>psci_on := False\<rparr>\<rparr> else percpu s ! k)" for k
      using c(1) I(5) by (simp add: t_def nth_list_update)
    have "hv_ok E t" by (rule hv_ok_cong_sets [OF 1(2)]) (use pc in \<open>auto simp: t_def\<close>)
    moreover have "frames_wf E t"
      using I(2) by (auto simp: t_def frames_wf_def cpus_wf_def fresh_regs_def dest!: set_update_subset_insert [THEN subsetD])
    moreover have "parking_ok E t" using I(3) 1(3,4) by (simp add: parking_ok_def t_def kept_def)
    ultimately have "hv_inv E t" using inv c(2) by (simp add: hv_inv_def pc sel)
    moreover have "idle E me self s = (Ok Vmreturn :: (HvErrorNum, 'x ctl) outcome, t)" using 1(1) by (simp add: Let_def t_def)
    moreover have "zone_at t = zone_at s" using sel(1) by (auto simp: zone_at_def)
    moreover from this have "live_sets t = live_sets (s\<lparr>mem := m', PARKING_MEMORY_SET := Some p\<rparr>)"
      by (simp add: live_sets_def zone_at_def t_def)
    moreover have "PARKING_MEMORY_SET t = Some p" "dev t = msr E me VTTBR_EL2 (vttbr_baddr E (root_paddr (pt p))) (reset_dev E me 0 s (dev s))"
      by (simp_all add: t_def)
    ultimately show thesis using parked [of t p] sel 1(3,4,6-8) pc by simp
  qed (rule exhausted)
qed

lemma home_zone:
  assumes "hv_ok E s" "i < 4" "zone (percpu s ! i) = Some z"
  obtains zn where "zone_at s z = Some zn" "i \<in> members (cpu_set zn)" "zone_wf zn" "z \<in> set (ZONE_LIST s)"
proof -
  obtain zn where "zone_at s z = Some zn" "i \<in> members (cpu_set zn)" using assms unfolding hv_ok_def by blast
  moreover from this(1) assms(1) have "zone_wf zn" unfolding hv_ok_def by blast
  ultimately show thesis using that live_zone(1) [OF assms(1)] by blast
qed

text \<open>The frames that are free after parking: those that were, but for the tables of the parking set.\<close>

lemma parked_free:
  assumes "hv_ok E s" "hv_ok E t" "zone_at t = zone_at s" "ZONE_LIST t = ZONE_LIST s" "PARKING_MEMORY_SET t = Some p"
    and "kept (bits E) (set (live_sets s)) (mem s) (mem t)" "held (bits E) (mem t) (set (live_sets t)) = held (bits E) (mem s) (set (live_sets s))"
    and "PARKING_MEMORY_SET s \<noteq> None \<longrightarrow> mem t = mem s"
  shows "frame_free (bits E) (falloc (mem t)) q \<longleftrightarrow> frame_free (bits E) (falloc (mem s)) q \<and> (PARKING_MEMORY_SET s = None \<longrightarrow> q \<notin> tables (mem t) p)"
proof -
  have so: "sets_ok (bits E) (mem s) (live_sets s)" "sets_ok (bits E) (mem t) (live_sets t)" using assms(1,2) by (simp_all add: hv_ok_def)
  show ?thesis
  proof (cases "PARKING_MEMORY_SET s")
    case None
    then have "set (live_sets t) = insert p (set (live_sets s))" using assms(3-5) by (auto simp: live_sets_def)
    with None show ?thesis unfolding free_held [OF so(2)] free_held [OF so(1)] assms(7) using kept_tables [OF so(1) assms(6)] by auto
  next
    case (Some x)
    then show ?thesis using assms(8) by simp
  qed
qed

text \<open>The CPUs of the zone leave it, and the zone goes.\<close>

lemma disband_run:
  assumes A: "bit_alloc (bits E)" and inv: "hv_inv E s" and c: "unat (this_cpu_id me) < 4"
    and z: "zone (percpu s ! unat (this_cpu_id me)) = Some z" "zone_at s z = Some zn" "z \<noteq> hd (ZONE_LIST s)"
  obtains t where "psci_system_off_call E me s = bindP (this_cpu_data E me) (\<lambda>d. idle E me (arch_cpu d)) t" "hv_inv E t"
      "ZONE_LIST t = remove1 z (ZONE_LIST s)" "\<And>y. zone_at t y = (if y = z then None else zone_at s y)"
      "kept (bits E) (set (live_sets t)) (mem s) (mem t)" "PARKING_MEMORY_SET t = PARKING_MEMORY_SET s"
      "\<forall>i < 4. zone (percpu t ! i) = (if i \<in> members (cpu_set zn) then None else zone (percpu s ! i))"
      "\<And>q. frame_free (bits E) (falloc (mem t)) q \<longleftrightarrow> frame_free (bits E) (falloc (mem s)) q \<or> q \<in> tables (mem s) (gpm zn)"
      "within (bits E) (mem s) (set (live_sets s)) (mem t) (set (live_sets t))"
proof -
  note I = hv_invD [OF inv]
  let ?c = "this_cpu_id me" and ?M = "members (cpu_set zn)"
  obtain zw: "zone_wf zn" and own: "unat ?c \<in> ?M" "z \<in> set (ZONE_LIST s)"
    by (rule home_zone [OF I(1) c z(1)]) (use z(2) that in simp)
  obtain ids where ids: "cpu_iter (cpu_set zn) = Ok ids" "unat ` set ids = ?M" "\<forall>c \<in> set ids. unat c < 4"
    by (rule cpu_iter_run [OF zw]) (rule that)
  let ?cs = "filter (\<lambda>j. j \<noteq> ?c) ids"
  have wfs: "cpuset_wf (cpu_set zn)" using zw by (simp add: zone_wf_def)
  have ex: "cpu_iter_except (cpu_set zn) ?c = Ok ?cs"
    using cpu_iter_Ok(1,3) [OF wfs] ids(1) by (auto intro!: filter_cong)
  have others: "i \<in> ?M \<longleftrightarrow> i = unat ?c \<or> i \<in> unat ` set ?cs" for i
    using own(1) unfolding ids(2) [symmetric] by auto
  from I(8) obtain em where em: "EVENT_MANAGER s = Some em" "length em = 4" by blast
  from off_cpus_run [OF I(4) _ em I(9), of ?cs me] ids(3) obtain ps em' d where
    f: "forP ?cs (off_cpu E me) s = (Ok (), s\<lparr>percpu := ps, EVENT_MANAGER := Some em', dev := d\<rparr>)" "length ps = 4" "length em' = 4"
    "\<forall>i < 4. ps ! i = (if i \<in> unat ` set ?cs then (percpu s ! i)\<lparr>zone := None\<rparr> else percpu s ! i)" by auto
  let ?s1 = "s\<lparr>percpu := ps, EVENT_MANAGER := Some em', dev := d\<rparr>"
  let ?ps = "ps[unat ?c := (ps ! unat ?c)\<lparr>zone := None\<rparr>]"
  let ?s2 = "s\<lparr>percpu := ?ps, EVENT_MANAGER := Some em', dev := d\<rparr>"
  have ps: "?ps ! i = (if i \<in> ?M then (percpu s ! i)\<lparr>zone := None\<rparr> else percpu s ! i)" if "i < 4" for i
    using f(2,4) that c unfolding others by (auto simp: nth_list_update)
  have len: "length ps = length (percpu s)" using f(2) I(5) by simp
  have wf1: "cpus_wf E ?s1" using I(4) len by (simp add: cpus_wf_def)
  have upd: "update_cpu_data E ?c (\<lambda>d. d\<lparr>zone := None\<rparr>) ?s1 = (Ok (), ?s2)" using update_cpu_data_in [OF wf1 c] by simp
  have at: "zone_at ?s2 = zone_at s" by (auto simp: zone_at_def)
  then have ls: "live_sets ?s2 = live_sets s" by (simp add: live_sets_def)
  have ok2: "hv_ok E ?s2"
    unfolding hv_ok_def at ls using I(1) len ps by (simp add: hv_ok_def cpus_wf_def)
  have free: "\<forall>i < 4. zone (percpu ?s2 ! i) \<noteq> Some z"
  proof (intro allI impI)
    fix i :: nat assume i: "i < 4"
    have "i \<in> ?M" if "zone (percpu s ! i) = Some z" by (rule home_zone [OF I(1) i that]) (use z(2) in simp)
    then show "zone (percpu ?s2 ! i) \<noteq> Some z" using ps [OF i] by auto
  qed
  have z2: "zone_at ?s2 z = Some zn" using at z(2) by simp
  obtain m' t where t: "remove_zone E (zid zn) ?s2 = (Ok (), t)"
    "t = ?s2\<lparr>ZONE_LIST := remove1 z (ZONE_LIST ?s2), mem := m', zone_heap := (zone_heap ?s2)[z := None]\<rparr>" "hv_ok E t"
    "kept (bits E) (set (live_sets t)) (mem ?s2) m'" "\<And>z'. zone_at t z' = (if z' = z then None else zone_at ?s2 z')"
    "\<And>q. frame_free (bits E) (falloc m') q \<longleftrightarrow> frame_free (bits E) (falloc (mem ?s2)) q \<or> q \<in> tables (mem ?s2) (gpm zn)"
    "within (bits E) (mem ?s2) (set (live_sets ?s2)) m' (set (live_sets t))"
    by (rule remove_zone_run [OF A ok2 z2 free]) (rule that)
  have rel: "release E (Some z) ?s2 = (Ok (), ?s2)" using own(2) by (simp add: release_def)
  have root: "is_this_root_zone E me s = (Ok False, s)"
    using is_this_root_zone_in [OF I(4) c z(1)] own(2) z(3) by (cases "ZONE_LIST s") auto
  have id: "cpu_id (percpu s ! unat ?c) = ?c" by (rule I(6) [OF c])
  have "psci_system_off_call E me s = bindP (this_cpu_data E me) (\<lambda>d. idle E me (arch_cpu d)) t"
    using this_zone_in [OF I(4) c] z(1,2) root get_cpu_data_in [OF I(4) c] ex f(1) upd rel t(1)
    by (simp add: psci_system_off_call_def bindP_def read_zone_def this_cpu_data_def id)
  moreover have "hv_inv E t"
    using inv t(2,3,4) f(3) ps len by (simp add: hv_inv_def frames_wf_def cpus_wf_def parking_ok_def kept_def)
  ultimately show thesis using that [of t] t(2,4,5,6,7) at ls ps by simp
qed

lemma system_off_run:
  assumes A: "bit_alloc (bits E)" and inv: "hv_inv E s" and c: "unat (this_cpu_id me) < 4"
    and z: "zone (percpu s ! unat (this_cpu_id me)) = Some z" "zone_at s z = Some zn" "z \<noteq> hd (ZONE_LIST s)"
  obtains (off) t p s1 where "psci_system_off_call E me s = (Ok Vmreturn, t)" "hv_inv E t" "ZONE_LIST t = remove1 z (ZONE_LIST s)"
      "\<And>y. zone_at t y = (if y = z then None else zone_at s y)"
      "\<And>y yn v. y \<noteq> z \<Longrightarrow> zone_at s y = Some yn \<Longrightarrow> unat v < va_limit (pt (gpm yn)) \<Longrightarrow> sees (mem t) (gpm yn) v = sees (mem s) (gpm yn) v"
      "\<forall>i < 4. zone (percpu t ! i) = (if i \<in> members (cpu_set zn) then None else zone (percpu s ! i))"
      "\<And>q. frame_free (bits E) (falloc (mem t)) q \<longleftrightarrow>
         (frame_free (bits E) (falloc (mem s)) q \<or> q \<in> tables (mem s) (gpm zn)) \<and> (PARKING_MEMORY_SET s = None \<longrightarrow> q \<notin> tables (mem t) p)"
      "base (falloc (mem t)) = base (falloc (mem s))"
      "held (bits E) (mem t) (set (live_sets t)) = held (bits E) (mem s) (set (live_sets s))" "PARKING_MEMORY_SET t = Some p"
      "regions p = [(0, parking_region E)]" "\<not> psci_on (arch_cpu (percpu t ! unat (this_cpu_id me)))"
      "dev t = msr E me VTTBR_EL2 (vttbr_baddr E (root_paddr (pt p))) (reset_dev E me 0 s1 (dev s1))"
      "PARKING_MEMORY_SET s = None \<or> read_u64 (bytes (mem s)) (parking_page E) = 0x17ffffffd503207f \<Longrightarrow>
         read_u64 (bytes (mem t)) (parking_page E) = 0x17ffffffd503207f"
    | (exhausted) t where "psci_system_off_call E me s = (Panic, t)" "\<And>q. \<not> frame_free (bits E) (falloc (mem t)) q"
      "PARKING_MEMORY_SET s = None"
proof -
  obtain s1 where s1: "psci_system_off_call E me s = bindP (this_cpu_data E me) (\<lambda>d. idle E me (arch_cpu d)) s1" "hv_inv E s1"
      "ZONE_LIST s1 = remove1 z (ZONE_LIST s)" "\<And>y. zone_at s1 y = (if y = z then None else zone_at s y)"
      "kept (bits E) (set (live_sets s1)) (mem s) (mem s1)" "PARKING_MEMORY_SET s1 = PARKING_MEMORY_SET s"
      "\<forall>i < 4. zone (percpu s1 ! i) = (if i \<in> members (cpu_set zn) then None else zone (percpu s ! i))"
      "\<And>q. frame_free (bits E) (falloc (mem s1)) q \<longleftrightarrow> frame_free (bits E) (falloc (mem s)) q \<or> q \<in> tables (mem s) (gpm zn)"
      "within (bits E) (mem s) (set (live_sets s)) (mem s1) (set (live_sets s1))"
    by (rule disband_run [OF assms]) (rule that)
  note I = hv_invD [OF s1(2)] and J = hv_invD [OF inv]
  have run: "psci_system_off_call E me s = idle E me (arch_cpu (percpu s1 ! unat (this_cpu_id me))) s1"
    using s1(1) get_cpu_data_in [OF I(4) c] by (simp add: this_cpu_data_def bindP_simps)
  show thesis
  proof (cases rule: idle_inv [where 'x = u64, OF A s1(2) c refl])
    case (1 t p)
    have see: "sees (mem t) (gpm yn) v = sees (mem s) (gpm yn) v"
      if y: "y \<noteq> z" "zone_at s y = Some yn" and v: "unat v < va_limit (pt (gpm yn))" for y yn v
    proof -
      have y1: "zone_at s1 y = Some yn" using y s1(4) by simp
      note l = live_zone(2,3) [OF I(1) y1] and l0 = live_zone(3) [OF J(1) y(2)]
      show ?thesis using kept_sees [OF l(2) 1(7) l(1) v] kept_sees [OF l0 s1(5) l(1) v] by simp
    qed
    note free = parked_free [OF I(1) hv_invD(1) [OF 1(2)] 1(3,4,10,7,9,8)]
    have "read_u64 (bytes (mem s1)) (slot (parking_page E) 0) = read_u64 (bytes (mem s)) (slot (parking_page E) 0)"
      using s1(9) parking_page_out [OF J(1,3)] J(3) unfolding within_def parking_ok_def by simp
    then have loop: "read_u64 (bytes (mem t)) (parking_page E) = 0x17ffffffd503207f"
      if "PARKING_MEMORY_SET s = None \<or> read_u64 (bytes (mem s)) (parking_page E) = 0x17ffffffd503207f"
      using that 1(8,14) s1(6) by (cases "PARKING_MEMORY_SET s") (simp_all add: slot_def)
    show thesis
    proof (rule off [of t p s1])
      show "held (bits E) (mem t) (set (live_sets t)) = held (bits E) (mem s) (set (live_sets s))" using 1(9) s1(9) by (simp add: within_def)
      show "base (falloc (mem t)) = base (falloc (mem s))" using 1(7) s1(5) by (simp add: kept_def)
    qed (use run 1 s1(3-8) see free loop in simp_all)
  next
    case (2 t)
    with run exhausted s1(6) show thesis by simp
  qed
qed

section \<open>Exits of a guest\<close>

text \<open>
  The CPU runs the zone \<open>z\<close>, which is not the root zone, or is parked after it; \<open>guarded\<close> says that
  whatever happened since left the machine well formed, the memory of every other zone as it was, and the frames of the hypervisor
  with the allocator and the tables of the zones and of the parking set.
\<close>

definition confined :: "('b, 'd) env \<Rightarrow> u64 \<Rightarrow> zone_ptr \<Rightarrow> ('b, 'd) hv \<Rightarrow> bool" where
  "confined E me z s \<longleftrightarrow> unat (this_cpu_id me) < 4 \<and> hv_inv E s \<and> zone (percpu s ! unat (this_cpu_id me)) \<in> {None, Some z} \<and>
     ZONE_LIST s \<noteq> [] \<and> z \<noteq> hd (ZONE_LIST s)"








lemma nth_update: "j < length xs \<Longrightarrow> xs[k := x] ! j = (if j = k then x else xs ! j)"
  by (cases "k < length xs") auto


section \<open>Running a guest\<close>

text \<open>
  The memory of the hypervisor itself goes from where the linker script puts its image, over the per-CPU areas, to the end of the
  pool of frames. \<open>private_memory\<close> says that the zone \<open>z\<close> was given none of it, and that the allocator hands out frames of the pool only.
\<close>

definition BASE_ADDRESS :: PhysAddr where
  "BASE_ADDRESS = 0x40400000"

definition hv_memory :: "('b, 'd) hv \<Rightarrow> PhysAddr \<Rightarrow> bool" where
  "hv_memory s a \<longleftrightarrow> unat BASE_ADDRESS \<le> unat a \<and> unat a < unat (base (falloc (mem s))) + unat HV_MEM_POOL_SIZE"

definition private_memory :: "('b, 'd) env \<Rightarrow> zone_ptr \<Rightarrow> ('b, 'd) hv \<Rightarrow> bool" where
  "private_memory E z s \<longleftrightarrow> unat BASE_ADDRESS \<le> unat (base (falloc (mem s))) \<and>
     (\<forall>q \<in> held (bits E) (mem s) (set (live_sets s)). unat q + 4096 \<le> unat (base (falloc (mem s))) + unat HV_MEM_POOL_SIZE) \<and>
     (\<forall>zn v a fl. zone_at s z = Some zn \<and> spec_query (gpm zn) v = Some (a, fl) \<longrightarrow> \<not> hv_memory s a)"

text \<open>
  While the guest of zone \<open>z\<close> has the CPU it stores bytes wherever its stage 2 table leads, changes its
  registers and the devices, and leaves to the hypervisor, which handles the exit. A store that reaches the memory of the hypervisor
  can lead to any state at all: it may change the code, the static data or the stacks, which the state does not hold as bytes.
\<close>

inductive guest_run :: "('b, 'd) env \<Rightarrow> ('b, 'd) tick \<Rightarrow> u64 \<Rightarrow> zone_ptr \<Rightarrow> ('b, 'd) hv \<Rightarrow> ('b, 'd) hv \<Rightarrow> bool"
  for E :: "('b, 'd) env" and tick :: "('b, 'd) tick" and me :: u64 and z :: zone_ptr and s :: "('b, 'd) hv" where
  start: "guest_run E tick me z s s"
| store: "guest_run E tick me z s t \<Longrightarrow> zone (percpu t ! unat (this_cpu_id me)) = Some z \<Longrightarrow> zone_at t z = Some zn \<Longrightarrow>
    unat v < va_limit (pt (gpm zn)) \<Longrightarrow> translation (sees (mem t) (gpm zn) v) = Some (a, fl) \<Longrightarrow>
    guest_run E tick me z s (t\<lparr>mem := (mem t)\<lparr>bytes := (bytes (mem t))(a := b)\<rparr>\<rparr>)"
| overwrite: "guest_run E tick me z s t \<Longrightarrow> zone (percpu t ! unat (this_cpu_id me)) = Some z \<Longrightarrow> zone_at t z = Some zn \<Longrightarrow>
    unat v < va_limit (pt (gpm zn)) \<Longrightarrow> translation (sees (mem t) (gpm zn) v) = Some (a, fl) \<Longrightarrow> hv_memory t a \<Longrightarrow> guest_run E tick me z s u"
| compute: "guest_run E tick me z s t \<Longrightarrow> length (usr r) = 31 \<Longrightarrow>
    guest_run E tick me z s (t\<lparr>stacks := (stacks t)[unat (this_cpu_id me) := r], dev := d\<rparr>)"
| leave: "guest_run E tick me z s t \<Longrightarrow> arch_handle_exit E tick me (unat (this_cpu_id me)) t = (Ok c, u) \<Longrightarrow> guest_run E tick me z s u"





section \<open>Properties\<close>


text \<open>A zone with one CPU beside the root zone.\<close>

lemma demo_above: "config_maps [demo_region] v = Some (a, fl) \<Longrightarrow> 0xC0000000 \<le> unat a"
proof -
  assume "config_maps [demo_region] v = Some (a, fl)"
  then have a: "a = 0xC0000000 + (v - 0x40000000)" and v: "0x40000000 \<le> unat v" "unat v < 0x80000000"
    by (auto simp: config_maps_def in_region_def demo_region_def split: if_splits)
  then have "unat (v - 0x40000000) = unat v - 0x40000000" by (simp add: unat_sub word_le_nat_alt)
  then have "unat a = 0xC0000000 + (unat v - 0x40000000)" using v unfolding a by (subst unat_add_exact) simp_all
  then show ?thesis by simp
qed

lemma two_confined:
  obtains s zn where "confined (plain_env list_bits) 1 1 s" "private_memory (plain_env list_bits) 1 s" "zone_at s 0 = Some root_zn" "zone_at s 1 = Some zn"
    "zone (percpu s ! 1) = Some 1" "dev s = dev root_hv" "stacks s = stacks root_hv" "ZONE_LIST s = [0, 1]" "1 \<in> members (cpu_set zn)"
    "EVENT_MANAGER s = Some [[], [], [], []]" "\<not> psci_on (arch_cpu (percpu s ! 1))" "PARKING_MEMORY_SET s = None"
    "\<And>v. unat v < 2 ^ 39 \<Longrightarrow> unat v < va_limit (pt (gpm zn)) \<and> translation (sees (mem s) (gpm zn) v) = config_maps [demo_region] v"
proof -
  let ?E = "plain_env list_bits"
  obtain s zn where s: "hv_ok ?E s" "zone_at s 1 = Some zn" "EVENT_MANAGER s = Some [[], [], [], []]" "ZONE_LIST s = [0, 1]" "zone_at s 0 = Some root_zn"
    "frames_wf ?E s" "stacks s = stacks root_hv" "dev s = dev root_hv" "PARKING_MEMORY_SET s = None"
    "members (cpu_set zn) = {1}" "base (falloc (mem s)) = base (falloc image_mem)" "zone (percpu s ! 1) = Some 1" "\<And>v. spec_query (gpm zn) v = config_maps [demo_region] v"
    "\<And>i. i < 4 \<Longrightarrow> cpu_id (percpu s ! i) = of_nat i \<and> arch_cpu (percpu s ! i) = ArchCpu_new (of_nat i)"
    "held list_bits (mem s) (set (live_sets s)) = held list_bits image_mem {small_set}" "va_limit (pt (gpm zn)) = 2 ^ 39"
    by (rule root_two) (rule that)
  have c: "this_cpu_id 1 = 1" and b: "bits ?E = list_bits" by (simp_all add: this_cpu_id_def mpidr_to_cpuid_def plain_env_def)
  have "parking_ok ?E s" by (simp add: parking_ok_def s(9,11) plain_env_def is_aligned_iff image_mem_def small_state_def small_pool_def)
  then have "hv_inv ?E s" using s(1,3,6,14) by (simp add: hv_inv_def ArchCpu_new_def)
  then have "confined ?E 1 1 s" using s(4,12) by (simp add: confined_def c)
  moreover have base: "base (falloc (mem s)) = 0x80000000" by (simp add: s(11) image_mem_def small_state_def)
  have "\<not> hv_memory s a" if "config_maps [demo_region] v = Some (a, fl)" for v a fl
    using demo_above [OF that] by (simp add: hv_memory_def base HV_MEM_POOL_SIZE_def)
  then have "private_memory ?E 1 s" using s(2,13) image_held by (force simp: private_memory_def base b s(15) BASE_ADDRESS_def HV_MEM_POOL_SIZE_def)
  moreover have "unat v < 2 ^ 39 \<Longrightarrow> unat v < va_limit (pt (gpm zn)) \<and> translation (sees (mem s) (gpm zn) v) = config_maps [demo_region] v" for v
    using set_ok_sees [OF list_bits_ok live_zone(3) [OF s(1,2)]] s(13,16) by simp
  moreover have "\<not> psci_on (arch_cpu (percpu s ! 1))" using s(14) [of 1] by (simp add: ArchCpu_new_def)
  ultimately show thesis using that [of s zn] s(2-5,7-10,12) by simp
qed


text \<open>
  C9: a guest other than the root zone that calls \<open>PSCI_SYSTEM_OFF\<close> goes away: the zone leaves the list, none of its
  CPUs belongs to a zone any more, and nothing changes for the other zones. The call does not return to the guest; the calling CPU is
  parked: it counts as off and runs, from address 0, through the parking set, by which it reaches one page only, the one with the parking
  loop. The frames of the zone's stage 2 tables are free again; when this is the first CPU to be parked, the tables of the parking set are
  taken from the free frames. The only other end is a panic, when the first CPU to be parked
  finds no frame for the parking set. When a parking set exists already, its page is taken to hold the loop.
\<close>

theorem system_off_releases:
  assumes "bit_alloc (bits E)" and "register_file E get" and "hv_inv E s" and "unat (this_cpu_id me) < 4"
    and "zone (percpu s ! unat (this_cpu_id me)) = Some z" and "zone_at s z = Some zn" and "z \<noteq> hd (ZONE_LIST s)"
    and "PARKING_MEMORY_SET s \<noteq> None \<longrightarrow> read_u64 (bytes (mem s)) (parking_page E) = 0x17ffffffd503207f"
  shows "case handle_psci_smc E me i PSCI_SYSTEM_OFF a s of
      (Ok Vmreturn, t) \<Rightarrow> hv_inv E t \<and> ZONE_LIST t = remove1 z (ZONE_LIST s) \<and> zone_at t z = None \<and>
        (\<forall>k < 4. zone (percpu t ! k) = (if k \<in> members (cpu_set zn) then None else zone (percpu s ! k))) \<and>
        (\<forall>y yn v. y \<noteq> z \<and> zone_at s y = Some yn \<and> unat v < va_limit (pt (gpm yn)) \<longrightarrow>
           zone_at t y = Some yn \<and> sees (mem t) (gpm yn) v = sees (mem s) (gpm yn) v) \<and>
        (\<exists>p. PARKING_MEMORY_SET t = Some p \<and> get me VTTBR_EL2 (dev t) = vttbr_baddr E (root_paddr (pt p)) \<and>
           get me ELR_EL2 (dev t) = 0 \<and> (\<forall>v. unat v < va_limit (pt p) \<longrightarrow> translation (sees (mem t) p v) =
             (if unat v < 4096 then Some (v + parking_page E, READ OR WRITE OR IO) else None)) \<and>
           (\<forall>q. frame_free (bits E) (falloc (mem t)) q \<longleftrightarrow> (frame_free (bits E) (falloc (mem s)) q \<or> q \<in> tables (mem s) (gpm zn)) \<and>
             (PARKING_MEMORY_SET s = None \<longrightarrow> q \<notin> tables (mem t) p))) \<and>
        \<not> psci_on (arch_cpu (percpu t ! unat (this_cpu_id me))) \<and> read_u64 (bytes (mem t)) (parking_page E) = 0x17ffffffd503207f
    | (Panic, t) \<Rightarrow> PARKING_MEMORY_SET s = None \<and> (\<forall>q. \<not> frame_free (bits E) (falloc (mem t)) q)
    | _ \<Rightarrow> False"
proof -
  have call: "handle_psci_smc E me i PSCI_SYSTEM_OFF a s = psci_system_off_call E me s" by (simp add: handle_psci_smc_def psci_ids)
  show ?thesis
  proof (cases rule: system_off_run [OF assms(1,3-7)])
    case (1 t p s1)
    have so: "sets_ok (bits E) (mem t) (live_sets t)" using hv_invD(1) [OF 1(2)] by (simp add: hv_ok_def)
    have p: "set_ok (bits E) (mem t) p" by (rule sets_okD(2) [OF so]) (simp add: live_sets_def 1(10))
    have vt: "VTTBR_EL2 \<in> control_regs" "ELR_EL2 \<in> control_regs" by (simp_all add: control_regs_def)
    have "get me VTTBR_EL2 (dev t) = vttbr_baddr E (root_paddr (pt p))" "get me ELR_EL2 (dev t) = 0"
      using register_fileD(1) [OF assms(2) vt(1)] register_fileD(2) [OF assms(2) vt(2)] vt reset_dev_get(1) [OF assms(2)]
      by (simp_all add: 1(13))
    moreover have "read_u64 (bytes (mem t)) (parking_page E) = 0x17ffffffd503207f" by (rule 1(14)) (use assms(8) in blast)
    ultimately show ?thesis unfolding call 1(1) using 1(2-7,10,12) parking_sees [OF assms(1) p 1(11)] by simp blast
  next
    case (2 t)
    then show ?thesis unfolding call by simp
  qed
qed

theorem system_off_releases_witness:
  "\<exists>s zn. zone_at s 1 = Some zn \<and> (case handle_psci_smc (plain_env list_bits) 1 1 PSCI_SYSTEM_OFF 0 s of
      (Ok Vmreturn, t) \<Rightarrow> ZONE_LIST t = [0] \<and> zone_at t 1 = None \<and> zone (percpu t ! 1) = None \<and> sregs (dev t) 1 ELR_EL2 = 0
    | (Panic, t) \<Rightarrow> \<not> frame_free list_bits (falloc (mem t)) 0x80000000 | _ \<Rightarrow> False)"
proof -
  let ?E = "plain_env list_bits"
  obtain s zn where s: "confined ?E 1 1 s" "zone_at s 1 = Some zn" "zone (percpu s ! 1) = Some 1" "ZONE_LIST s = [0, 1]"
    "1 \<in> members (cpu_set zn)" "PARKING_MEMORY_SET s = None"
    by (rule two_confined) (rule that)
  have c: "this_cpu_id 1 = 1" and b: "bits ?E = list_bits" by (simp_all add: this_cpu_id_def mpidr_to_cpuid_def plain_env_def)
  let ?r = "handle_psci_smc ?E 1 1 PSCI_SYSTEM_OFF 0 s"
  note off = system_off_releases [OF list_bits_ok plain_register_file, of s 1 1 zn 1 0]
  have h: "hv_inv ?E s" "unat (this_cpu_id 1) < 4" "zone (percpu s ! unat (this_cpu_id 1)) = Some 1" "1 \<noteq> hd (ZONE_LIST s)"
    "PARKING_MEMORY_SET s \<noteq> None \<longrightarrow> read_u64 (bytes (mem s)) (parking_page ?E) = 0x17ffffffd503207f"
    using s by (simp_all add: confined_def c)
  have "case ?r of (Ok Vmreturn, t) \<Rightarrow> ZONE_LIST t = [0] \<and> zone_at t 1 = None \<and> zone (percpu t ! 1) = None \<and> sregs (dev t) 1 ELR_EL2 = 0
    | (Panic, t) \<Rightarrow> \<not> frame_free list_bits (falloc (mem t)) 0x80000000 | _ \<Rightarrow> False"
  proof (cases ?r)
    case (Pair r t)
    note goal = off [OF h(1-3) s(2) h(4,5), unfolded Pair prod.case]
    show ?thesis
    proof (cases r)
      case (Ok x)
      then show ?thesis using goal Pair s(4,5) by (cases x) (auto simp: plain_get_def)
    qed (use goal Pair in \<open>simp_all add: b\<close>)
  qed
  with s(2) show ?thesis by (intro exI [of _ s] exI [of _ zn]) simp
qed

text \<open>
  C10: a guest starts a CPU with \<open>PSCI_CPU_ON\<close>. A CPU that is on is left alone and the caller gets
  \<open>ALREADY_ON\<close>, -4. Otherwise the call succeeds, and the CPU that takes the event enters the guest of
  its zone at the address the caller gave, with the device tree address in its first register.
\<close>

theorem cpu_on_boots:
  assumes "register_file E get" and "hv_inv E s" and "i < 4" and "mpidr_to_cpuid (usr (stacks s ! i) ! 1) = this_cpu_id me'"
    and "unat (this_cpu_id me') < 4" and "c = percpu s ! unat (this_cpu_id me')" and "zone c = Some z" and "zone_at s z = Some zn"
    and "EVENT_MANAGER s = Some em" and "em ! unat (this_cpu_id me') = []"
  shows "if psci_on (arch_cpu c) then handle_psci_smc E me i PSCI_CPU_ON_64 a s = (Ok (Returns (- 4)), s)
    else \<exists>t u. handle_psci_smc E me i PSCI_CPU_ON_64 a s = (Ok (Returns 0), t) \<and> check_events E me' t = (Ok Vmreturn, u) \<and>
      get me' VTTBR_EL2 (dev u) = vttbr_baddr E (root_paddr (pt (gpm zn))) \<and> get me' ELR_EL2 (dev u) = usr (stacks s ! i) ! 2 \<and>
      usr (stacks u ! unat (this_cpu_id me')) = dtb_ipa c # replicate 30 0 \<and> mem u = mem s \<and> hv_ok E u"
proof -
  note I = hv_invD [OF assms(2)]
  let ?k = "unat (this_cpu_id me')"
  have em: "length em = 4" using I(8) assms(9) by auto
  have u: "length (usr (stacks s ! i)) = 31" using I(2) assms(3) by (simp add: frames_wf_def)
  have call: "handle_psci_smc E me i PSCI_CPU_ON_64 a s = bindP (psci_emulate_cpu_on E me i) (\<lambda>r. retP (Returns r)) s"
    by (simp add: handle_psci_smc_def psci_ids)
  show ?thesis
  proof (cases "psci_on (arch_cpu c)")
    case True
    then show ?thesis using call u assms(4,6) get_cpu_data_in [OF I(4) assms(5)]
      by (simp add: psci_emulate_cpu_on_def Let_def bindP_def get_usr_def)
  next
    case False
    let ?c = "c\<lparr>cpu_on_entry := usr (stacks s ! i) ! 2, arch_cpu := (arch_cpu c)\<lparr>psci_on := True\<rparr>\<rparr>"
    define t where "t = s\<lparr>percpu := (percpu s)[?k := ?c], EVENT_MANAGER := Some (em[?k := [IPI_EVENT_WAKEUP]]),
      dev := msr E me ICC_SGI1R_EL1 (push_bit 24 SGI_IPI_ID OR push_bit ?k 1) (dev s)\<rparr>"
    have "unat (this_cpu_id me') < 64" using assms(5) by simp
    then have run: "handle_psci_smc E me i PSCI_CPU_ON_64 a s = (Ok (Returns 0), t)"
      using call u False assms(4,5,6,9,10) em get_cpu_data_in [OF I(4) assms(5)] update_cpu_data_in [OF I(4) assms(5)]
      by (simp add: psci_emulate_cpu_on_def Let_def bindP_def get_usr_def send_event_run EventManager_add_event_def t_def)
    have ct: "percpu t ! ?k = ?c" using I(5) assms(5) by (simp add: t_def)
    have at: "zone_at t = zone_at s" by (auto simp: t_def zone_at_def)
    have ok: "hv_ok E t" by (rule hv_ok_cong_sets [OF I(1)]) (use assms(6) I(5) in \<open>auto simp: t_def nth_update\<close>)
    have wf: "frames_wf E t" using I(2) by (simp add: t_def frames_wf_def cpus_wf_def)
    obtain u where u: "check_events E me' t = (Ok Vmreturn, u)" "get me' VTTBR_EL2 (dev u) = vttbr_baddr E (root_paddr (pt (gpm zn)))"
      "get me' ELR_EL2 (dev u) = cpu_on_entry ?c" "usr (stacks u ! ?k) = dtb_ipa ?c # replicate 30 0" "mem u = mem t" "hv_ok E t \<Longrightarrow> hv_ok E u"
    proof (rule wakeup_enters [OF assms(1) wf assms(5) ct [symmetric]])
      show "cpu_id ?c = this_cpu_id me'" "cpuid (arch_cpu ?c) = this_cpu_id me'" "zone ?c = Some z" "zone_at t z = Some zn"
        using I(6,7) assms(5-8) at by simp_all
      show "EVENT_MANAGER t = Some (em[?k := [IPI_EVENT_WAKEUP]])" "length (em[?k := [IPI_EVENT_WAKEUP]]) = 4"
        "em[?k := [IPI_EVENT_WAKEUP]] ! ?k = IPI_EVENT_WAKEUP # []" using em assms(5) by (simp_all add: t_def)
    qed (rule that)
    have "mem t = mem s" by (simp add: t_def)
    with False run u ok show ?thesis by auto
  qed
qed

theorem cpu_on_boots_witness:
  "\<exists>s zn t u. zone_at s 1 = Some zn \<and> handle_psci_smc (plain_env list_bits) 0 0 PSCI_CPU_ON_64 0 s = (Ok (Returns 0), t) \<and>
     check_events (plain_env list_bits) 1 t = (Ok Vmreturn, u) \<and> sregs (dev u) 1 ELR_EL2 = 0x40080000 \<and>
     sregs (dev u) 1 VTTBR_EL2 = root_paddr (pt (gpm zn))"
proof -
  let ?E = "plain_env list_bits"
  obtain s zn where s: "confined ?E 1 1 s" "zone_at s 1 = Some zn" "zone (percpu s ! 1) = Some 1" "stacks s = stacks root_hv"
    "EVENT_MANAGER s = Some [[], [], [], []]" "\<not> psci_on (arch_cpu (percpu s ! 1))"
    by (rule two_confined) (rule that)
  have c: "this_cpu_id 1 = 1" "mpidr_to_cpuid 1 = 1" by (simp_all add: this_cpu_id_def mpidr_to_cpuid_def)
  let ?r = "\<lparr>exit_reason = EXIT_REASON_EL1_ABORT, usr = PSCI_CPU_ON_64 # 1 # 0x40080000 # replicate 28 0\<rparr>"
  define s1 where "s1 = s\<lparr>stacks := (stacks s)[0 := ?r]\<rparr>"
  have st: "stacks s1 ! 0 = ?r" "length (stacks s) = 4" by (simp_all add: s1_def s(4) root_hv_def bare_hv_def)
  have inv: "hv_inv ?E s" using s(1) by (simp add: confined_def)
  have "hv_ok ?E s1" by (rule hv_ok_cong_sets [OF hv_invD(1) [OF inv]]) (simp_all add: s1_def)
  moreover have "frames_wf ?E s1" "parking_ok ?E s1"
    using hv_invD(2,3) [OF inv] by (auto simp: s1_def frames_wf_def cpus_wf_def parking_ok_def dest!: set_update_subset_insert [THEN subsetD])
  ultimately have "hv_inv ?E s1" using inv by (simp add: hv_inv_def s1_def)
  moreover have "zone_at s1 1 = Some zn" using s(2) by (simp add: s1_def zone_at_def split: if_splits)
  ultimately have "\<exists>t u. handle_psci_smc ?E 0 0 PSCI_CPU_ON_64 0 s1 = (Ok (Returns 0), t) \<and> check_events ?E 1 t = (Ok Vmreturn, u) \<and>
      plain_get 1 VTTBR_EL2 (dev u) = vttbr_baddr ?E (root_paddr (pt (gpm zn))) \<and> plain_get 1 ELR_EL2 (dev u) = 0x40080000"
    using cpu_on_boots [OF plain_register_file [of list_bits], where em = "[[], [], [], []]" and s = s1 and i = 0 and me' = 1 and me = 0 and a = 0 and z = 1 and zn = zn and c = "percpu s ! 1"]
      st s(3,5,6) by (auto simp: c s1_def)
  moreover have "vttbr_baddr ?E = (\<lambda>p. p)" by (simp add: plain_env_def)
  ultimately show ?thesis using \<open>zone_at s1 1 = Some zn\<close> unfolding plain_get_def by metis
qed

end
