(* ===== verification/Hv_Shape.thy ===== *)
theory Hv_Shape
  imports Hv_TrapSpec
begin

text \<open>
  Exits of any zone, the root zone with its hypercalls included. \<open>zone_frame\<close> is the contract of a relation that
  also allows what creating, removing and parking change; every exit keeps such a relation. The instance
  \<open>shaped\<close> says that the tables of the machine keep their sizes and the CPUs their numbers, and that no CPU writes
  the registers another one has saved.
\<close>

section \<open>Everything an exit may do\<close>

locale zone_frame = hv_frame R i for R :: "('b, 'd) hv \<Rightarrow> ('b, 'd) hv \<Rightarrow> bool" and i +
  fixes E :: "('b, 'd) env" and me :: u64
  assumes this_is_i: "unat (this_cpu_id me) = i"
    and R_mem: "R s (s\<lparr>mem := m\<rparr>)" and R_heap: "R s (s\<lparr>zone_heap := zh\<rparr>)" and R_list: "R s (s\<lparr>ZONE_LIST := zl\<rparr>)"
    and R_bridge: "R s (s\<lparr>VIRTIO_BRIDGE := vb\<rparr>)" and R_parking: "R s (s\<lparr>PARKING_MEMORY_SET := p\<rparr>)"
    and R_zone: "cpu_id c = cpu_id (percpu s ! k) \<Longrightarrow> cpuid (arch_cpu c) = cpuid (arch_cpu (percpu s ! k)) \<Longrightarrow> R s (s\<lparr>percpu := (percpu s)[k := c]\<rparr>)"
begin

lemma keeps_change [keeps_intros]:
  "keeps R (with_mem g)" "keeps R (modifyP (\<lambda>s. s\<lparr>zone_heap := f1 s\<rparr>))" "keeps R (modifyP (\<lambda>s. s\<lparr>ZONE_LIST := f2 s\<rparr>))"
  "keeps R (modifyP (\<lambda>s. s\<lparr>VIRTIO_BRIDGE := f3 s\<rparr>))" "keeps R (modifyP (\<lambda>s. s\<lparr>mem := f4 s\<rparr>))" "keeps R (Arc_new zn)" "keeps R (add_zone z)"
  by (auto simp: keeps_def with_mem_def Arc_new_def add_zone_def split_beta Let_def intro: R_mem R_heap R_list R_bridge)

lemma keeps_assign [keeps_intros]:
  assumes "\<And>d. cpu_id (f d) = cpu_id d" "\<And>d. cpuid (arch_cpu (f d)) = cpuid (arch_cpu d)"
  shows "keeps R (update_cpu_data E c f)"
  unfolding update_cpu_data_def
proof (rule keeps_bind_Ok)
  fix s d t r u assume g: "get_cpu_data E c s = (Ok d, t)" and m: "modifyP (\<lambda>s. s\<lparr>percpu := (percpu s)[unat c := f d]\<rparr>) t = (r, u)"
  have "d = percpu t ! unat c"
    using g by (auto simp: get_cpu_data_def cpu_data_addr_def mul_chk_def add_chk_def split: if_splits)
  with m assms show "R t u" by (auto intro!: R_zone)
qed (rule keeps_lookup)

lemma keeps_drop [keeps_intros]: "keeps R (drop_zone E z)" "keeps R (release E old)" "keeps R (remove_zone E n)"
proof -
  show d: "keeps R (drop_zone E z)" for z unfolding drop_zone_def by (intro keeps_intros)
  show "keeps R (release E old)" by (rule keepsI) (auto simp: release_def R_refl split: option.splits if_splits dest: keepsD [OF d])
  show "keeps R (remove_zone E n)" unfolding remove_zone_def by (intro keeps_intros d)
qed

lemma keeps_root [keeps_intros]: "keeps R (require_root E me)"
  unfolding require_root_def by (intro keeps_intros)

lemma keeps_new_set [keeps_intros]: "keeps R (new_s2_memory_set E)" "keeps R get_parange_bits" "keeps R get_parange" "keeps R is_s2_pt_level3"
  unfolding new_s2_memory_set_def is_s2_pt_level3_def get_parange_bits_def get_parange_def by (intro keeps_intros)+

lemma keeps_create [keeps_intros]: "keeps R (zone_create E config)"
proof -
  have gi: "keeps R (gpm_insert E r zn)" for r zn
    by (rule keepsI) (auto simp: gpm_insert_def R_mem split: prod.splits)
  have pt: "keeps R (pt_init E rs zn)" for rs zn
  proof (induction rs arbitrary: zn)
    case (Cons r rs)
    then have "keeps R (bindP (if mem_type r = MEM_TYPE_RAM \<or> mem_type r = MEM_TYPE_IO then gpm_insert E (config_region r) zn
       else if mem_type r = MEM_TYPE_VIRTIO then
         liftP (mmio_region_register zn (physical_start r) (mr_size r) Mmio_virtio_handler (physical_start r))
       else liftP Panic) (pt_init E rs))" using gi by (intro keeps_intros)
    then show ?case by simp
  qed (simp add: keeps_intros)
  have "keeps R (Zone_new E n)" for n unfolding Zone_new_def by (intro keeps_intros)
  moreover have "keeps R (mmio_init zn a)" for zn a
    unfolding mmio_init_def vgicv3_mmio_init_def host_gicd_size_def gic_get_def by (intro keeps_intros)
  moreover have "keeps R (zone_install E config rs zn)" for rs zn
    unfolding zone_install_def assign_cpu_def by (intro keeps_intros) simp_all
  ultimately show ?thesis unfolding zone_create_def Let_def using pt by (intro keeps_intros)
qed

lemma keeps_deliver [keeps_intros]: "keeps R (hv_virtio_inject_irq E me)"
proof -
  have im: "keeps R immut_region" by (rule keeps_same) (simp add: immut_region_def)
  have em: "snd (is_res_list_empty s) = s" for s :: "('b, 'd) hv"
    by (simp add: is_res_list_empty_def bindP_def immut_region_def)
  have "keeps R (set_region r)" for r by (auto simp: keeps_def set_region_def R_shared)
  then have one: "keeps R (inject_one E me)" unfolding inject_one_def Let_def using im by (intro keeps_intros)
  have "returns (fst y) \<longrightarrow> R s (snd y)" if "inject_all E me s = Some y" for s y
  proof -
    have "E' = E \<and> me' = me \<and> returns (fst y) \<longrightarrow> R s (snd y)" if "inject_all E' me' s = Some y" for E' me' s y
    proof (rule inject_all.raw_induct [where P = "\<lambda>E' me' s y. E' = E \<and> me' = me \<and> returns (fst y) \<longrightarrow> R s (snd y)", OF _ that])
      fix g E' me' s and y :: "(HvErrorNum, unit) outcome \<times> ('b, 'd) hv"
      assume IH: "\<And>E' me' s y. g E' me' s = Some y \<Longrightarrow> E' = E \<and> me' = me \<and> returns (fst y) \<longrightarrow> R s (snd y)"
        and y: "(if fst (is_res_list_empty s) = Ok False then
          (if fst (inject_one E' me' s) = Ok () then g E' me' (snd (inject_one E' me' s)) else Some (inject_one E' me' s))
          else Some (bind_out (fst (is_res_list_empty s)) (\<lambda>_. Ok ()), s)) = Some y"
      show "E' = E \<and> me' = me \<and> returns (fst y) \<longrightarrow> R s (snd y)"
      proof (intro impI, elim conjE)
        assume e: "E' = E" "me' = me" and r: "returns (fst y)"
        have o: "returns (fst (inject_one E me s)) \<Longrightarrow> R s (snd (inject_one E me s))" by (rule keepsD [OF one prod.collapse [symmetric]])
        show "R s (snd y)"
        proof (cases "fst (is_res_list_empty s) = Ok False \<and> fst (inject_one E me s) = Ok ()")
          case True
          with y e have "g E me (snd (inject_one E me s)) = Some y" by simp
          from IH [OF this] r have "R (snd (inject_one E me s)) (snd y)" by blast
          moreover have "R s (snd (inject_one E me s))" using o True by simp
          ultimately show ?thesis by (blast intro: R_trans)
        next
          case False
          with y e o r R_refl show ?thesis by (auto split: if_splits)
        qed
      qed
    qed
    with that show ?thesis by blast
  qed
  then have "keeps R (\<lambda>s. case inject_all E me s of Some r \<Rightarrow> r | None \<Rightarrow> (Hang, s))"
    by (intro keepsI) (auto split: option.splits)
  with im show ?thesis unfolding hv_virtio_inject_irq_def by (intro keeps_intros)
qed

lemma keeps_hypercall: "keeps R (hypercall E me c a b)"
proof -
  have "keeps R (hv_virtio_init E me a)" unfolding hv_virtio_init_def by (intro keeps_intros)
  moreover have "keeps R (hv_zone_start E me cfg)" for cfg unfolding hv_zone_start_def by (intro keeps_intros)
  moreover have "keeps R (hv_zone_shutdown E me a)"
    unfolding hv_zone_shutdown_def shutdown_cpu_def arch_irqchip_reset_def by (intro keeps_intros) simp_all
  moreover have "keeps R (deref_config a)" by (rule keeps_same) (simp add: deref_config_def)
  ultimately show ?thesis unfolding hypercall_def
    by (cases "HyperCallCode_try_from c") (auto split: HyperCallCode.split intro!: keeps_intros)
qed

lemma keeps_idle [keeps_intros]: "keeps R (idle E me self)"
proof (cases "this_cpu_id me = cpuid self")
  case True
  then have i: "unat (cpuid self) = i" using this_is_i by simp
  have g: "keeps R (guest_reg E self)" unfolding guest_reg_def by (intro keeps_intros keeps_same) simp
  have "keeps R (\<lambda>s. case ms_insert S2_pte (bits E) (parking_region E) (mem s, ms) of
          (Ok _, (m', g')) \<Rightarrow> (Ok (), s\<lparr>mem := m', PARKING_MEMORY_SET := Some g'\<rparr>)
        | (Hang, (m', _)) \<Rightarrow> (Hang, s\<lparr>mem := m'\<rparr>) | (Fault, (m', _)) \<Rightarrow> (Fault, s\<lparr>mem := m'\<rparr>)
        | (_, (m', _)) \<Rightarrow> (Panic, s\<lparr>mem := m'\<rparr>))" for ms
    by (rule keepsI) (auto split: outcome.splits prod.splits intro: R_trans [OF R_mem R_parking])
  then have "keeps R (parking_init E)" unfolding parking_init_def write_code_def by (intro keeps_intros)
  then show ?thesis unfolding idle_def set_psci_on_def ms_activate_def using g i by (intro keeps_intros) simp_all
next
  case False
  then show ?thesis by (auto simp: keeps_def idle_def bindP_simps)
qed

lemma keeps_off: "keeps R (psci_system_off_call E me)"
proof -
  have "keeps R (\<lambda>s. case psci_system_off E (dev s) of (None, d) \<Rightarrow> (Ok (), s\<lparr>dev := d\<rparr>) | (Some _, d) \<Rightarrow> (Panic, s\<lparr>dev := d\<rparr>))"
    by (rule keepsI) (auto split: prod.splits option.splits intro: R_dev)
  then show ?thesis unfolding psci_system_off_call_def off_cpu_def by (intro keeps_intros) simp_all
qed

end

sublocale zone_frame \<subseteq> exit_frame R i E me
proof
  show "unat (this_cpu_id me) = i" by (rule this_is_i)
qed (auto intro: keepsD [OF keeps_idle] keeps_off keeps_hypercall)

section \<open>Shapes\<close>

definition shaped :: "nat \<Rightarrow> ('b, 'd) hv \<Rightarrow> ('b, 'd) hv \<Rightarrow> bool" where
  "shaped i s t \<longleftrightarrow> map cpu_id (percpu t) = map cpu_id (percpu s) \<and> map (cpuid o arch_cpu) (percpu t) = map (cpuid o arch_cpu) (percpu s) \<and>
     map (length o usr) (stacks t) = map (length o usr) (stacks s) \<and> (\<forall>k. k \<noteq> i \<longrightarrow> stacks t ! k = stacks s ! k) \<and>
     map_option length (EVENT_MANAGER t) = map_option length (EVENT_MANAGER s) \<and>
     GIC t = GIC s \<and> MIN_PARANGE t = MIN_PARANGE s \<and> PARANGE_OK_CPUS t = PARANGE_OK_CPUS s"

lemma map_same_update: "f x = f (xs ! k) \<Longrightarrow> map f (xs[k := x]) = map f xs"
  by (rule nth_equalityI) (auto simp: nth_update)

interpretation shaped: zone_frame "shaped (unat (this_cpu_id me))" "unat (this_cpu_id me)" E me for E :: "('b, 'd) env" and me
  by unfold_locales (auto simp: shaped_def map_same_update)

section \<open>Properties\<close>

text \<open>
  C22: whatever a guest, the root zone included, exits for, when the handler is done the machine still has one record
  and one frame of 31 registers for each CPU, numbered as before, one queue for each CPU and the same
  interrupt controller, and the saved registers of every other CPU are what they were.
\<close>

theorem exit_shape:
  assumes "frames_wf E s" and "\<forall>s. shaped (unat (this_cpu_id me)) s (tick s)"
    and "arch_handle_exit E tick me (unat (this_cpu_id me)) s = (Ok c, t)"
  shows "frames_wf E t \<and> map cpu_id (percpu t) = map cpu_id (percpu s) \<and>
    map_option length (EVENT_MANAGER t) = map_option length (EVENT_MANAGER s) \<and> GIC t = GIC s \<and>
    (\<forall>k. k \<noteq> unat (this_cpu_id me) \<longrightarrow> stacks t ! k = stacks s ! k)"
proof -
  have "keeps (shaped (unat (this_cpu_id me))) (arch_handle_exit E tick me (unat (this_cpu_id me)))"
    by (rule shaped.keeps_exit) (use assms(2) in blast)
  from keepsD [OF this assms(3)] have sh: "shaped (unat (this_cpu_id me)) s t" by simp
  then have "length (percpu t) = length (percpu s)" "length (stacks t) = length (stacks s)"
    unfolding shaped_def by (auto dest: map_eq_imp_length_eq)
  moreover have "(length o usr) ` set (stacks t) = (length o usr) ` set (stacks s)"
    using sh unfolding shaped_def by (metis list.set_map)
  then have "\<forall>r \<in> set (stacks t). length (usr r) = 31" using assms(1) by (auto simp: frames_wf_def)
  ultimately show ?thesis using assms(1) sh by (simp add: frames_wf_def cpus_wf_def shaped_def)
qed

theorem exit_shape_witness:
  "\<exists>t. arch_handle_exit (plain_env list_bits) (\<lambda>s. s) 0 0 (root_hv\<lparr>stacks := (stacks root_hv)[0 := \<lparr>exit_reason = EXIT_REASON_EL1_IRQ, usr = replicate 31 7\<rparr>],
       dev := (dev root_hv)\<lparr>sregs := (\<lambda>_ _. 0x3ff)\<rparr>\<rparr>) = (Ok Vmreturn, t) \<and> frames_wf (plain_env list_bits) t \<and> stacks t ! 2 = stacks root_hv ! 2"
proof -
  let ?E = "plain_env list_bits"
  let ?s = "root_hv\<lparr>stacks := (stacks root_hv)[0 := \<lparr>exit_reason = EXIT_REASON_EL1_IRQ, usr = replicate 31 7\<rparr>],
       dev := (dev root_hv)\<lparr>sregs := (\<lambda>_ _. 0x3ff)\<rparr>\<rparr>"
  have c: "this_cpu_id 0 = 0" by (simp add: this_cpu_id_def mpidr_to_cpuid_def)
  have wf: "frames_wf ?E ?s" using root_hv_frames
    by (auto simp: frames_wf_def cpus_wf_def dest!: set_update_subset_insert [THEN subsetD])
  have "length (stacks root_hv) = 4" using root_hv_frames by (simp add: frames_wf_def)
  then obtain t where t: "arch_handle_exit ?E (\<lambda>s. s) 0 0 ?s = (Ok Vmreturn, t)"
    by (simp add: arch_handle_exit_def irqchip_handle_irq1_def gicv3_handle_irq_el1_def pending_irq_def bindP_def read_sysreg_def
      plain_env_def plain_mrs_def EXIT_REASON_EL1_IRQ_def split_beta)
  have "shaped (unat (this_cpu_id 0)) u u" for u :: "(usize list, regdev) hv" by (simp add: shaped_def)
  with exit_shape [OF wf, where me = 0 and tick = "\<lambda>s. s" and c = Vmreturn and t = t] t
  have "frames_wf ?E t \<and> stacks t ! 2 = stacks root_hv ! 2" by (simp add: c)
  with t show ?thesis by blast
qed

end
