(* ===== verification/Hv_Boot.thy ===== *)
theory Hv_Boot
  imports Hv_Shape
begin

text \<open>
  Start of the machine: \<open>main.rs\<close>, the root zone's configuration of \<open>config.rs\<close> and \<open>install_trap_vector\<close> of
  \<open>arch/aarch64/trap.rs\<close>. \<open>rust_main\<close> is the code of one CPU, with an argument \<open>tick\<close> for what the
  others do while it spins; \<open>boot_stage\<close> cuts it at its accesses to shared counters, so that the CPUs
  can be interleaved, and running the stages one after the other is \<open>rust_main\<close> again. The heap of the crate
  \<open>buddy_system_allocator\<close> and the log have no state in the model.
\<close>

section \<open>Statics\<close>

record ('b, 'd) boot =
  hv :: "('b, 'd) hv"
  INITED_CPUS :: u32
  ENTERED_CPUS :: u32
  INIT_EARLY_OK :: u32
  INIT_LATE_OK :: u32
  MASTER_CPU :: u32
  HV_ROOT_ZONE_CONFIG :: "HvZoneConfig option"

type_synonym ('b, 'd, 'a) bootp = "(('b, 'd) boot, HvErrorNum, 'a) prog"

definition in_hv :: "('b, 'd, 'a) hvp \<Rightarrow> ('b, 'd, 'a) bootp" where
  "in_hv m b = (case m (hv b) of (r, s) \<Rightarrow> (r, b\<lparr>hv := s\<rparr>))"

lemma unat_step: "p < e \<Longrightarrow> unat (p + 1) = unat p + 1" for p e :: usize
proof -
  assume "p < e"
  then have "unat p + 1 \<le> unat e" by (simp add: word_less_nat_alt)
  moreover have "unat e < 18446744073709551616" using unsigned_less [of e] by simp
  ultimately have "unat p < 18446744073709551615" by linarith
  then show "unat (p + 1) = unat p + 1" by (subst unat_add_exact) simp_all
qed

function clear_bss_from :: "usize \<Rightarrow> usize \<Rightarrow> phys_mem \<Rightarrow> phys_mem" where
  "clear_bss_from p ebss m = (if p < ebss then clear_bss_from (p + 1) ebss (m(p := 0)) else m)"
  by auto
termination
  by (relation "measure (\<lambda>(p, e, m). unat e - unat p)") (auto simp: unat_step word_less_nat_alt)

definition clear_bss :: "usize \<Rightarrow> usize \<Rightarrow> ('b, 'd, unit) bootp" where
  "clear_bss sbss ebss = in_hv (modifyP (\<lambda>s. s\<lparr>mem := (mem s)\<lparr>bytes := clear_bss_from sbss ebss (bytes (mem s))\<rparr>\<rparr>))"

section \<open>Parts of the start\<close>

text \<open>What the linker, the device tree and the chosen platform fix.\<close>

record layout =
  hyp_trap_vector :: usize
  arch_entry :: usize
  host_dtb :: usize
  plat :: platform

definition install_trap_vector :: "('b, 'd) env \<Rightarrow> layout \<Rightarrow> u64 \<Rightarrow> ('b, 'd, unit) hvp" where
  "install_trap_vector E L me = write_sysreg E me VBAR_EL2 (hyp_trap_vector L)"

definition wait_for_counter :: "(('b, 'd) boot \<Rightarrow> ('b, 'd) boot) \<Rightarrow> (('b, 'd) boot \<Rightarrow> u32) \<Rightarrow> u32 \<Rightarrow> ('b, 'd, unit) bootp" where
  "wait_for_counter tick counter max_value = wait_for tick (\<lambda>b. counter b < max_value)"

definition config_init :: "layout \<Rightarrow> ('b, 'd, unit) bootp" where
  "config_init L = bindP (getP HV_ROOT_ZONE_CONFIG) (\<lambda>c. case c of Some _ \<Rightarrow> retP ()
     | None \<Rightarrow> bindP (liftP (platform_root_zone_config (plat L))) (\<lambda>c. modifyP (\<lambda>b. b\<lparr>HV_ROOT_ZONE_CONFIG := Some c\<rparr>)))"

definition root_zone_config :: "layout \<Rightarrow> ('b, 'd, HvZoneConfig) bootp" where
  "root_zone_config L = bindP (config_init L) (\<lambda>_. bindP (getP HV_ROOT_ZONE_CONFIG) (\<lambda>c. liftP (unwrap_opt c)))"

definition primary_init_early :: "('b, 'd) env \<Rightarrow> layout \<Rightarrow> ('b, 'd, unit) bootp" where
  "primary_init_early E L =
     bindP (in_hv (with_mem (frame_init (bits E) (core_end E)))) (\<lambda>_.
     bindP (in_hv (with_mem (frame_test (bits E)))) (\<lambda>_.
     bindP (in_hv (event_init MAX_CPU_NUM)) (\<lambda>_.
     bindP (root_zone_config L) (\<lambda>root_config. bindP (in_hv (gic_primary_init_early root_config)) (\<lambda>_.
     bindP (root_zone_config L) (\<lambda>config. bindP (in_hv (unwrapP (zone_create E config))) (\<lambda>_.
     modifyP (\<lambda>b. b\<lparr>INIT_EARLY_OK := 1\<rparr>))))))))"

definition primary_init_late :: "('b, 'd) env \<Rightarrow> u64 \<Rightarrow> ('b, 'd, unit) bootp" where
  "primary_init_late E me = bindP (in_hv (gic_primary_init_late E me)) (\<lambda>_. modifyP (\<lambda>b. b\<lparr>INIT_LATE_OK := 1\<rparr>))"

definition per_cpu_init :: "PerCpu \<Rightarrow> ('b, 'd, unit) bootp" where
  "per_cpu_init cpu = retP ()"

definition wakeup_secondary_cpus :: "('b, 'd) env \<Rightarrow> layout \<Rightarrow> usize \<Rightarrow> ('b, 'd, unit) bootp" where
  "wakeup_secondary_cpus E L this_id = forP (map of_nat [0..<unat MAX_CPU_NUM]) (\<lambda>c.
     if c = this_id then retP () else in_hv (cpu_start E c (arch_entry L) (host_dtb L)))"

definition entered_cpus :: "('b, 'd) boot \<Rightarrow> u32" where
  "entered_cpus b = ENTERED_CPUS b"

text \<open>The whole of \<open>rust_main\<close> on the CPU with the number \<open>cpu_no\<close>, whose \<open>MPIDR_EL1\<close> is \<open>me\<close>.\<close>

definition rust_main :: "('b, 'd) env \<Rightarrow> layout \<Rightarrow> (('b, 'd) boot \<Rightarrow> ('b, 'd) boot) \<Rightarrow> u64 \<Rightarrow> usize \<Rightarrow> ('b, 'd, unit ctl) bootp" where
  "rust_main E L tick me cpu_no =
     bindP (in_hv (install_trap_vector E L me)) (\<lambda>_.
     bindP (getP (\<lambda>b. MASTER_CPU b = - 1)) (\<lambda>is_primary.
     bindP (if is_primary then modifyP (\<lambda>b. b\<lparr>MASTER_CPU := ucast cpu_no\<rparr>) else retP ()) (\<lambda>_.
     bindP (in_hv (PerCpu_new E cpu_no)) (\<lambda>_.
     bindP (if is_primary then wakeup_secondary_cpus E L cpu_no else retP ()) (\<lambda>_.
     bindP (modifyP (\<lambda>b. b\<lparr>ENTERED_CPUS := ENTERED_CPUS b + 1\<rparr>)) (\<lambda>_.
     bindP (wait_for tick (\<lambda>b. entered_cpus b < ucast MAX_CPU_NUM)) (\<lambda>_.
     bindP (getP entered_cpus) (\<lambda>n. bindP (liftP (rust_assert (n = ucast MAX_CPU_NUM))) (\<lambda>_.
     bindP (in_hv (parange_join E me)) (\<lambda>_. bindP (wait_for tick (\<lambda>b. parange_pending (hv b))) (\<lambda>_.
     bindP (if is_primary then primary_init_early E L else wait_for_counter tick INIT_EARLY_OK 1) (\<lambda>_.
     bindP (in_hv (get_cpu_data E cpu_no)) (\<lambda>cpu. bindP (per_cpu_init cpu) (\<lambda>_.
     bindP (in_hv (percpu_init E me)) (\<lambda>_.
     bindP (modifyP (\<lambda>b. b\<lparr>INITED_CPUS := INITED_CPUS b + 1\<rparr>)) (\<lambda>_.
     bindP (wait_for_counter tick INITED_CPUS (ucast MAX_CPU_NUM)) (\<lambda>_.
     bindP (if is_primary then primary_init_late E me else wait_for_counter tick INIT_LATE_OK 1) (\<lambda>_.
     bindP (in_hv (get_cpu_data E cpu_no)) (\<lambda>cpu. in_hv (run_vm E me cpu))))))))))))))))))))"

section \<open>Stages\<close>

text \<open>
  Where a CPU is in \<open>rust_main\<close>. The argument is \<open>is_primary\<close>; \<open>Wake\<close> has the CPUs still to be started,
  and a CPU that is \<open>Off\<close> has not been started.
\<close>

datatype stage = Off | Start | Claim | New bool | Wake "usize list" | Enter bool | Entered bool | EnterCheck bool
  | Parange bool | ParangeWait bool | Early bool | PerCpuInit bool | Inited bool | InitedWait bool | Late bool | RunVm bool | InGuest bool

text \<open>What a CPU is waiting for.\<close>

fun held :: "stage \<Rightarrow> ('b, 'd) boot \<Rightarrow> bool" where
  "held (Entered p) b \<longleftrightarrow> entered_cpus b < ucast MAX_CPU_NUM"
| "held (ParangeWait p) b \<longleftrightarrow> parange_pending (hv b)"
| "held (Early p) b \<longleftrightarrow> \<not> p \<and> INIT_EARLY_OK b < 1"
| "held (InitedWait p) b \<longleftrightarrow> INITED_CPUS b < ucast MAX_CPU_NUM"
| "held (Late p) b \<longleftrightarrow> \<not> p \<and> INIT_LATE_OK b < 1"
| "held Off b \<longleftrightarrow> True"
| "held (InGuest p) b \<longleftrightarrow> True"
| "held _ b \<longleftrightarrow> False"

text \<open>One stage, for a CPU that does not have to wait.\<close>

fun boot_stage :: "('b, 'd) env \<Rightarrow> layout \<Rightarrow> u64 \<Rightarrow> usize \<Rightarrow> stage \<Rightarrow> ('b, 'd, stage) bootp" where
  "boot_stage E L me n Off = retP Off"
| "boot_stage E L me n Start = bindP (in_hv (install_trap_vector E L me)) (\<lambda>_.
     bindP (getP (\<lambda>b. MASTER_CPU b = - 1)) (\<lambda>is_primary. retP (if is_primary then Claim else New False)))"
| "boot_stage E L me n Claim = bindP (modifyP (\<lambda>b. b\<lparr>MASTER_CPU := ucast n\<rparr>)) (\<lambda>_. retP (New True))"
| "boot_stage E L me n (New p) = bindP (in_hv (PerCpu_new E n)) (\<lambda>_.
     retP (if p then Wake (map of_nat [0..<unat MAX_CPU_NUM]) else Enter False))"
| "boot_stage E L me n (Wake []) = retP (Enter True)"
| "boot_stage E L me n (Wake (c # cs)) =
     bindP (if c = n then retP () else in_hv (cpu_start E c (arch_entry L) (host_dtb L))) (\<lambda>_. retP (Wake cs))"
| "boot_stage E L me n (Enter p) = bindP (modifyP (\<lambda>b. b\<lparr>ENTERED_CPUS := ENTERED_CPUS b + 1\<rparr>)) (\<lambda>_. retP (Entered p))"
| "boot_stage E L me n (Entered p) = retP (EnterCheck p)"
| "boot_stage E L me n (EnterCheck p) = bindP (getP entered_cpus) (\<lambda>m. bindP (liftP (rust_assert (m = ucast MAX_CPU_NUM))) (\<lambda>_. retP (Parange p)))"
| "boot_stage E L me n (Parange p) = bindP (in_hv (parange_join E me)) (\<lambda>_. retP (ParangeWait p))"
| "boot_stage E L me n (ParangeWait p) = retP (Early p)"
| "boot_stage E L me n (Early p) = bindP (if p then primary_init_early E L else retP ()) (\<lambda>_. retP (PerCpuInit p))"
| "boot_stage E L me n (PerCpuInit p) = bindP (in_hv (get_cpu_data E n)) (\<lambda>cpu. bindP (per_cpu_init cpu) (\<lambda>_.
     bindP (in_hv (percpu_init E me)) (\<lambda>_. retP (Inited p))))"
| "boot_stage E L me n (Inited p) = bindP (modifyP (\<lambda>b. b\<lparr>INITED_CPUS := INITED_CPUS b + 1\<rparr>)) (\<lambda>_. retP (InitedWait p))"
| "boot_stage E L me n (InitedWait p) = retP (Late p)"
| "boot_stage E L me n (Late p) = bindP (if p then primary_init_late E me else retP ()) (\<lambda>_. retP (RunVm p))"
| "boot_stage E L me n (RunVm p) = bindP (in_hv (get_cpu_data E n)) (\<lambda>cpu.
     bindP (in_hv (run_vm E me cpu :: ('b, 'd, unit ctl) hvp)) (\<lambda>_. retP (InGuest p)))"
| "boot_stage E L me n (InGuest p) = retP (InGuest p)"

text \<open>One CPU alone, with \<open>tick\<close> between two looks at what it waits for.\<close>

partial_function (option) boot_run :: "('b, 'd) env \<Rightarrow> layout \<Rightarrow> (('b, 'd) boot \<Rightarrow> ('b, 'd) boot) \<Rightarrow> u64 \<Rightarrow> usize \<Rightarrow>
    stage \<Rightarrow> ('b, 'd) boot \<Rightarrow> ((HvErrorNum, unit ctl) outcome \<times> ('b, 'd) boot) option" where
  "boot_run E L tick me n st b =
     (if (\<exists>p. st = InGuest p) then Some (Ok Vmreturn, b)
      else if held st b then boot_run E L tick me n st (tick b)
      else case boot_stage E L me n st b of
          (Ok st', b') \<Rightarrow> boot_run E L tick me n st' b' | (Err e, b') \<Rightarrow> Some (Err e, b')
        | (Panic, b') \<Rightarrow> Some (Panic, b') | (Hang, b') \<Rightarrow> Some (Hang, b') | (Fault, b') \<Rightarrow> Some (Fault, b'))"

section \<open>The stages are the code\<close>

definition runs_as :: "('b, 'd) env \<Rightarrow> layout \<Rightarrow> (('b, 'd) boot \<Rightarrow> ('b, 'd) boot) \<Rightarrow> u64 \<Rightarrow> usize \<Rightarrow> stage \<Rightarrow> ('b, 'd, unit ctl) bootp \<Rightarrow> bool" where
  "runs_as E L tick me n st m \<longleftrightarrow> (\<forall>b. case boot_run E L tick me n st b of Some r \<Rightarrow> m b = r | None \<Rightarrow> fst (m b) = Hang)"

lemma runs_asI: "(\<And>b. case boot_run E L tick me n st b of Some r \<Rightarrow> m b = r | None \<Rightarrow> fst (m b) = Hang) \<Longrightarrow> runs_as E L tick me n st m"
  by (simp add: runs_as_def)

lemma runs_asD:
  assumes "runs_as E L tick me n st m"
  shows "boot_run E L tick me n st b = Some r \<Longrightarrow> m b = r" "boot_run E L tick me n st b = None \<Longrightarrow> fst (m b) = Hang"
  using assms [unfolded runs_as_def, rule_format, of b] by auto

lemma runs_step:
  fixes E :: "('b, 'd) env"
  assumes "\<And>b :: ('b, 'd) boot. \<not> held st b" "boot_stage E L me n st = bindP f (\<lambda>x. retP (next_st x))" "\<And>x. runs_as E L tick me n (next_st x) (k x)"
  shows "runs_as E L tick me n st (bindP f k)"
proof (rule runs_asI)
  fix b
  have "st \<noteq> InGuest p" for p using assms(1) [of b] by auto
  then have run: "boot_run E L tick me n st b = (case f b of (Ok x, b') \<Rightarrow> boot_run E L tick me n (next_st x) b'
      | (Err e, b') \<Rightarrow> Some (Err e, b') | (Panic, b') \<Rightarrow> Some (Panic, b') | (Hang, b') \<Rightarrow> Some (Hang, b') | (Fault, b') \<Rightarrow> Some (Fault, b'))"
    using assms(1) by (subst boot_run.simps) (auto simp: assms(2) bindP_def split: prod.split outcome.split)
  show "case boot_run E L tick me n st b of Some r \<Rightarrow> bindP f k b = r | None \<Rightarrow> fst (bindP f k b) = Hang"
    unfolding run using runs_asD [OF assms(3)] by (cases "f b") (auto simp: bindP_def split: outcome.split option.split)
qed

lemma runs_wait:
  fixes E :: "('b, 'd) env"
  assumes "\<And>b. held st b = c b" "\<And>b. boot_stage E L me n st b = (Ok st', b)" "\<And>p. st \<noteq> InGuest p" "runs_as E L tick me n st' m"
  shows "runs_as E L tick me n st (bindP (wait_for tick c) (\<lambda>_. m))"
proof (rule runs_asI)
  fix b
  have run: "boot_run E L tick me n st b = (if c b then boot_run E L tick me n st (tick b) else boot_run E L tick me n st' b)" for b
    using assms(1-3) by (subst boot_run.simps) simp
  have some: "boot_run E L tick me n st b = boot_run E L tick me n st' t" if "spin_while tick c b = Some t" for t
  proof -
    have "tick' = tick \<and> c' = c \<longrightarrow> boot_run E L tick me n st b = boot_run E L tick me n st' t" if "spin_while tick' c' b = Some t" for tick' c' b t
    proof (rule spin_while.raw_induct [where P = "\<lambda>tick' c' b t. tick' = tick \<and> c' = c \<longrightarrow> boot_run E L tick me n st b = boot_run E L tick me n st' t", OF _ that])
      fix g tick' c' b t
      assume "\<And>tick' c' b t. g tick' c' b = Some t \<Longrightarrow> tick' = tick \<and> c' = c \<longrightarrow> boot_run E L tick me n st b = boot_run E L tick me n st' t"
        "(if c' b then g tick' c' (tick' b) else Some b) = Some t"
      then show "tick' = tick \<and> c' = c \<longrightarrow> boot_run E L tick me n st b = boot_run E L tick me n st' t"
        by (cases "c b") (auto simp: run [of b])
    qed
    with that show ?thesis by blast
  qed
  have none: "spin_while tick c b \<noteq> None" if "boot_run E L tick me n st b = Some y" for y
  proof -
    let ?P = "\<lambda>E' L' tick' me' n' st0 b y. E' = E \<and> L' = L \<and> tick' = tick \<and> me' = me \<and> n' = n \<and> st0 = st \<longrightarrow> spin_while tick c b \<noteq> None"
    have "?P E' L' tick' me' n' st0 b y" if "boot_run E' L' tick' me' n' st0 b = Some y" for E' L' tick' me' n' st0 b y
    proof (rule boot_run.raw_induct [where P = ?P, OF _ that])
      fix g :: "('b, 'd) env \<Rightarrow> layout \<Rightarrow> (('b, 'd) boot \<Rightarrow> ('b, 'd) boot) \<Rightarrow> u64 \<Rightarrow> usize \<Rightarrow>
          stage \<Rightarrow> ('b, 'd) boot \<Rightarrow> ((HvErrorNum, unit ctl) outcome \<times> ('b, 'd) boot) option" and E' L' tick' me' n' st0 b y
      assume IH: "\<And>E' L' tick' me' n' st0 b y. g E' L' tick' me' n' st0 b = Some y \<Longrightarrow> ?P E' L' tick' me' n' st0 b y"
        and y: "(if (\<exists>p. st0 = InGuest p) then Some (Ok Vmreturn, b)
          else if held st0 b then g E' L' tick' me' n' st0 (tick' b)
          else case boot_stage E' L' me' n' st0 b of
            (Ok st', b') \<Rightarrow> g E' L' tick' me' n' st' b' | (Err e, b') \<Rightarrow> Some (Err e, b')
          | (Panic, b') \<Rightarrow> Some (Panic, b') | (Hang, b') \<Rightarrow> Some (Hang, b') | (Fault, b') \<Rightarrow> Some (Fault, b')) = Some y"
      show "?P E' L' tick' me' n' st0 b y"
      proof (intro impI, elim conjE)
        assume e: "E' = E" "L' = L" "tick' = tick" "me' = me" "n' = n" "st0 = st"
        show "spin_while tick c b \<noteq> None"
        proof (cases "c b")
          case True
          with y e assms(1,3) have "g E L tick me n st (tick b) = Some y" by simp
          from IH [OF this] True show ?thesis by (subst spin_while.simps) simp
        next
          case False
          then show ?thesis by (subst spin_while.simps) simp
        qed
      qed
    qed
    with that show ?thesis by blast
  qed
  show "case boot_run E L tick me n st b of Some r \<Rightarrow> bindP (wait_for tick c) (\<lambda>_. m) b = r | None \<Rightarrow> fst (bindP (wait_for tick c) (\<lambda>_. m) b) = Hang"
  proof (cases "spin_while tick c b")
    case None
    with none show ?thesis by (cases "boot_run E L tick me n st b") (auto simp: bindP_def wait_for_def)
  next
    case (Some t)
    then have "bindP (wait_for tick c) (\<lambda>_. m) b = m t" by (simp add: bindP_def wait_for_def)
    with some [OF Some] runs_asD [OF assms(4), of t] show ?thesis by (auto split: option.split)
  qed
qed

lemma run_vm_leaves: "run_vm E me self s = (Ok c, t) \<Longrightarrow> c = Vmreturn"
  by (auto simp: run_vm_def run_def idle_def elim!: bindP_OkE split: if_splits)

lemma runs_guest: "runs_as E L tick me n (InGuest p) (retP Vmreturn)"
  by (rule runs_asI) (subst boot_run.simps, simp)

lemma bindP_assoc: "bindP (bindP m f) g = bindP m (\<lambda>x. bindP (f x) g)"
  by (rule ext) (simp add: bindP_def split: prod.split outcome.split)

lemma bindP_known: "(\<And>s x t. m s = (Ok x, t) \<Longrightarrow> x = y) \<Longrightarrow> bindP m (\<lambda>_. retP y) = m"
  by (rule ext) (auto simp: bindP_def split: prod.split outcome.split)

lemma runs_last: "runs_as E L tick me n (RunVm p) (bindP (in_hv (get_cpu_data E n)) (\<lambda>cpu. in_hv (run_vm E me cpu)))" (is "runs_as _ _ _ _ _ _ ?m")
proof -
  have "runs_as E L tick me n (RunVm p) (bindP ?m (\<lambda>_. retP Vmreturn))"
    by (rule runs_step [where next_st = "\<lambda>_. InGuest p"]) (simp_all add: runs_guest bindP_assoc)
  moreover have "bindP ?m (\<lambda>_. retP Vmreturn) = ?m"
    by (rule bindP_known) (auto simp: in_hv_def dest: run_vm_leaves elim!: bindP_OkE split: prod.splits)
  ultimately show ?thesis by simp
qed

lemma runs_stages:
  "runs_as E L tick me n (New True) m \<Longrightarrow> runs_as E L tick me n Claim (bindP (modifyP (\<lambda>b. b\<lparr>MASTER_CPU := ucast n\<rparr>)) (\<lambda>_. m))"
  "runs_as E L tick me n (if p then Wake (map of_nat [0..<unat MAX_CPU_NUM]) else Enter False) m \<Longrightarrow>
     runs_as E L tick me n (New p) (bindP (in_hv (PerCpu_new E n)) (\<lambda>_. m))"
  "runs_as E L tick me n (Entered p) m \<Longrightarrow> runs_as E L tick me n (Enter p) (bindP (modifyP (\<lambda>b. b\<lparr>ENTERED_CPUS := ENTERED_CPUS b + 1\<rparr>)) (\<lambda>_. m))"
  "runs_as E L tick me n (ParangeWait p) m \<Longrightarrow> runs_as E L tick me n (Parange p) (bindP (in_hv (parange_join E me)) (\<lambda>_. m))"
  "runs_as E L tick me n (InitedWait p) m \<Longrightarrow> runs_as E L tick me n (Inited p) (bindP (modifyP (\<lambda>b. b\<lparr>INITED_CPUS := INITED_CPUS b + 1\<rparr>)) (\<lambda>_. m))"
  by (rule runs_step; auto)+

lemma runs_check:
  assumes "runs_as E L tick me n (Parange p) m"
  shows "runs_as E L tick me n (EnterCheck p) (bindP (getP entered_cpus) (\<lambda>k. bindP (liftP (rust_assert (k = ucast MAX_CPU_NUM))) (\<lambda>_. m)))"
  unfolding bindP_assoc [symmetric] by (rule runs_step [where next_st = "\<lambda>_. Parange p"]) (simp_all add: bindP_assoc assms)

lemma runs_percpu:
  assumes "runs_as E L tick me n (Inited p) m"
  shows "runs_as E L tick me n (PerCpuInit p) (bindP (in_hv (get_cpu_data E n)) (\<lambda>cpu. bindP (per_cpu_init cpu) (\<lambda>_. bindP (in_hv (percpu_init E me)) (\<lambda>_. m))))"
  unfolding bindP_assoc [symmetric] by (rule runs_step [where next_st = "\<lambda>_. Inited p"]) (simp_all add: bindP_assoc assms)

lemma runs_waits:
  "runs_as E L tick me n (EnterCheck p) m \<Longrightarrow> runs_as E L tick me n (Entered p) (bindP (wait_for tick (\<lambda>b. entered_cpus b < ucast MAX_CPU_NUM)) (\<lambda>_. m))"
  "runs_as E L tick me n (Early p) m \<Longrightarrow> runs_as E L tick me n (ParangeWait p) (bindP (wait_for tick (\<lambda>b. parange_pending (hv b))) (\<lambda>_. m))"
  "runs_as E L tick me n (Late p) m \<Longrightarrow> runs_as E L tick me n (InitedWait p) (bindP (wait_for_counter tick INITED_CPUS (ucast MAX_CPU_NUM)) (\<lambda>_. m))"
  unfolding wait_for_counter_def by (rule runs_wait; simp)+

lemma runs_either:
  "runs_as E L tick me n (RunVm p) m \<Longrightarrow>
     runs_as E L tick me n (Late p) (bindP (if p then primary_init_late E me else wait_for_counter tick INIT_LATE_OK 1) (\<lambda>_. m))"
  "runs_as E L tick me n (PerCpuInit p) m \<Longrightarrow>
     runs_as E L tick me n (Early p) (bindP (if p then primary_init_early E L else wait_for_counter tick INIT_EARLY_OK 1) (\<lambda>_. m))"
proof -
  have go: "runs_as E L tick me n (Late True) (bindP (primary_init_late E me) (\<lambda>_. m))" if "runs_as E L tick me n (RunVm True) m"
    by (rule runs_step [where next_st = "\<lambda>_. RunVm True"]) (simp_all add: that)
  have go': "runs_as E L tick me n (Early True) (bindP (primary_init_early E L) (\<lambda>_. m))" if "runs_as E L tick me n (PerCpuInit True) m"
    by (rule runs_step [where next_st = "\<lambda>_. PerCpuInit True"]) (simp_all add: that)
  have stay: "runs_as E L tick me n (Late False) (bindP (wait_for_counter tick INIT_LATE_OK 1) (\<lambda>_. m))" if "runs_as E L tick me n (RunVm False) m"
    unfolding wait_for_counter_def by (rule runs_wait [where st' = "RunVm False"]) (simp_all add: that bindP_def)
  have stay': "runs_as E L tick me n (Early False) (bindP (wait_for_counter tick INIT_EARLY_OK 1) (\<lambda>_. m))" if "runs_as E L tick me n (PerCpuInit False) m"
    unfolding wait_for_counter_def by (rule runs_wait [where st' = "PerCpuInit False"]) (simp_all add: that bindP_def)
  show "runs_as E L tick me n (RunVm p) m \<Longrightarrow>
     runs_as E L tick me n (Late p) (bindP (if p then primary_init_late E me else wait_for_counter tick INIT_LATE_OK 1) (\<lambda>_. m))"
    using go stay by (cases p) simp_all
  show "runs_as E L tick me n (PerCpuInit p) m \<Longrightarrow>
     runs_as E L tick me n (Early p) (bindP (if p then primary_init_early E L else wait_for_counter tick INIT_EARLY_OK 1) (\<lambda>_. m))"
    using go' stay' by (cases p) simp_all
qed

lemma bindP_left: "bindP (retP x) f = f x" "forP [] g = retP ()"
  by (rule ext, simp add: bindP_def)+

lemma runs_wake:
  assumes "runs_as E L tick me n (Enter True) m"
  shows "runs_as E L tick me n (Wake cs) (bindP (forP cs (\<lambda>c. if c = n then retP () else in_hv (cpu_start E c (arch_entry L) (host_dtb L)))) (\<lambda>_. m))"
proof (induction cs)
  case Nil
  have "runs_as E L tick me n (Wake []) (bindP (retP ()) (\<lambda>_. m))"
    by (rule runs_step [where next_st = "\<lambda>_. Enter True"]) (auto simp: assms bindP_left fun_eq_iff)
  then show ?case by (simp only: bindP_left)
next
  case (Cons c cs)
  let ?f = "\<lambda>c. if c = n then retP () else in_hv (cpu_start E c (arch_entry L) (host_dtb L))"
  have "runs_as E L tick me n (Wake (c # cs)) (bindP (?f c) (\<lambda>_. bindP (forP cs ?f) (\<lambda>_. m)))"
    by (rule runs_step [where next_st = "\<lambda>_. Wake cs"]) (simp_all add: Cons.IH)
  then show ?case by (simp add: bindP_assoc)
qed

lemma runs_rust_main: "runs_as E L tick me n Start (rust_main E L tick me n)"
proof -
  have rest: "runs_as E L tick me n (Enter p) (bindP (modifyP (\<lambda>b. b\<lparr>ENTERED_CPUS := ENTERED_CPUS b + 1\<rparr>)) (\<lambda>_.
     bindP (wait_for tick (\<lambda>b. entered_cpus b < ucast MAX_CPU_NUM)) (\<lambda>_.
     bindP (getP entered_cpus) (\<lambda>k. bindP (liftP (rust_assert (k = ucast MAX_CPU_NUM))) (\<lambda>_.
     bindP (in_hv (parange_join E me)) (\<lambda>_. bindP (wait_for tick (\<lambda>b. parange_pending (hv b))) (\<lambda>_.
     bindP (if p then primary_init_early E L else wait_for_counter tick INIT_EARLY_OK 1) (\<lambda>_.
     bindP (in_hv (get_cpu_data E n)) (\<lambda>cpu. bindP (per_cpu_init cpu) (\<lambda>_.
     bindP (in_hv (percpu_init E me)) (\<lambda>_.
     bindP (modifyP (\<lambda>b. b\<lparr>INITED_CPUS := INITED_CPUS b + 1\<rparr>)) (\<lambda>_.
     bindP (wait_for_counter tick INITED_CPUS (ucast MAX_CPU_NUM)) (\<lambda>_.
     bindP (if p then primary_init_late E me else wait_for_counter tick INIT_LATE_OK 1) (\<lambda>_.
     bindP (in_hv (get_cpu_data E n)) (\<lambda>cpu. in_hv (run_vm E me cpu))))))))))))))))" (is "runs_as _ _ _ _ _ _ (?K p)") for p
    by (intro runs_stages runs_waits runs_check runs_percpu runs_either runs_last)
  have N: "runs_as E L tick me n (New p) (bindP (in_hv (PerCpu_new E n)) (\<lambda>_. bindP (if p then wakeup_secondary_cpus E L n else retP ()) (\<lambda>_. ?K p)))"
    (is "runs_as _ _ _ _ _ _ (?N p)") for p
    by (rule runs_stages(2)) (use rest [of p] runs_wake [OF rest [of True]] in \<open>cases p; simp only: if_True if_False wakeup_secondary_cpus_def bindP_left\<close>)
  have c: "runs_as E L tick me n (if p then Claim else New False)
      (bindP (if p then modifyP (\<lambda>b. b\<lparr>MASTER_CPU := ucast n\<rparr>) else retP ()) (\<lambda>_. ?N p))" for p
    using N [of p] runs_stages(1) [OF N [of True]] by (cases p; simp only: if_True if_False bindP_left)
  have "runs_as E L tick me n Start (bindP (bindP (in_hv (install_trap_vector E L me)) (\<lambda>_. getP (\<lambda>b. MASTER_CPU b = - 1)))
      (\<lambda>p. bindP (if p then modifyP (\<lambda>b. b\<lparr>MASTER_CPU := ucast n\<rparr>) else retP ()) (\<lambda>_. ?N p)))"
    by (rule runs_step [where next_st = "\<lambda>p. if p then Claim else New False"]) (simp_all only: held.simps simp_thms boot_stage.simps bindP_assoc c not_False_eq_True)
  then show ?thesis by (simp only: rust_main_def bindP_assoc)
qed

text \<open>
  Running the stages of one CPU one after the other, polling what it waits for, is the same as \<open>rust_main\<close>:
  the same result and state when it comes to an end, and endless waiting in one exactly when in the other. The stages are
  therefore a cut of \<open>rust_main\<close> at its barriers and locks, at which CPUs can interleave, and nothing else.
\<close>

lemma rust_main_stages:
  "case boot_run E L tick me n Start b of Some r \<Rightarrow> rust_main E L tick me n b = r | None \<Rightarrow> fst (rust_main E L tick me n b) = Hang"
  using runs_asD [OF runs_rust_main, of E L tick me n b] by (auto split: option.split)

end
