(* ===== verification/Hv_BootSteps.thy ===== *)
theory Hv_BootSteps
  imports Hv_Boot
begin

text \<open>
  The CPUs of the machine during the start, interleaved in any order: the steps, and what each stage does to
  the counters, flags and ranges the CPUs wait for.
\<close>

section \<open>Interleaving\<close>

text \<open>A started CPU runs from the entry, which leads to \<open>rust_main\<close>.\<close>

fun powered :: "usize \<Rightarrow> stage \<Rightarrow> stage list \<Rightarrow> stage list" where
  "powered n (Wake (c # cs)) st = (if c \<noteq> n \<and> st ! unat c = Off then st[unat c := Start] else st)"
| "powered n _ st = st"

inductive boot_step :: "('b, 'd) env \<Rightarrow> layout \<Rightarrow> (nat \<Rightarrow> u64) \<Rightarrow> ('b, 'd) boot \<times> stage list \<Rightarrow> ('b, 'd) boot \<times> stage list \<Rightarrow> bool"
  for E :: "('b, 'd) env" and L :: layout and mp :: "nat \<Rightarrow> u64" where
  step: "i < length st \<Longrightarrow> \<not> held (st ! i) b \<Longrightarrow> boot_stage E L (mp i) (of_nat i) (st ! i) b = (Ok x, b') \<Longrightarrow>
    boot_step E L mp (b, st) (b', (powered (of_nat i) (st ! i) st)[i := x])"

text \<open>Any number of steps, counted.\<close>

inductive boot_reach :: "('b, 'd) env \<Rightarrow> layout \<Rightarrow> (nat \<Rightarrow> u64) \<Rightarrow> ('b, 'd) boot \<times> stage list \<Rightarrow> nat \<Rightarrow> ('b, 'd) boot \<times> stage list \<Rightarrow> bool"
  for E :: "('b, 'd) env" and L :: layout and mp :: "nat \<Rightarrow> u64" and c0 :: "('b, 'd) boot \<times> stage list" where
  here: "boot_reach E L mp c0 0 c0"
| more: "boot_reach E L mp c0 k c \<Longrightarrow> boot_step E L mp c c' \<Longrightarrow> boot_reach E L mp c0 (Suc k) c'"

text \<open>Power on: one CPU is at the entry, the others are off, the statics have their initial values.\<close>

definition boot_start :: "nat \<Rightarrow> ('b, 'd) boot \<times> stage list \<Rightarrow> bool" where
  "boot_start i0 c \<longleftrightarrow> i0 < 4 \<and> snd c = (replicate 4 Off)[i0 := Start] \<and>
     INITED_CPUS (fst c) = 0 \<and> ENTERED_CPUS (fst c) = 0 \<and> INIT_EARLY_OK (fst c) = 0 \<and> INIT_LATE_OK (fst c) = 0 \<and> MASTER_CPU (fst c) = - 1 \<and>
     MIN_PARANGE (hv (fst c)) = 7 \<and> PARANGE_OK_CPUS (hv (fst c)) = 0"

fun rank :: "stage \<Rightarrow> nat" where
  "rank Off = 0" | "rank Start = 1" | "rank Claim = 2" | "rank (New p) = 3" | "rank (Wake cs) = 4" | "rank (Enter p) = 5"
| "rank (Entered p) = 6" | "rank (EnterCheck p) = 7" | "rank (Parange p) = 8" | "rank (ParangeWait p) = 9" | "rank (Early p) = 10"
| "rank (PerCpuInit p) = 11" | "rank (Inited p) = 12" | "rank (InitedWait p) = 13" | "rank (Late p) = 14" | "rank (RunVm p) = 15"
| "rank (InGuest p) = 16"

fun primary :: "stage \<Rightarrow> bool" where
  "primary Off = False" | "primary Start = False" | "primary Claim = True" | "primary (New p) = p" | "primary (Wake cs) = True"
| "primary (Enter p) = p" | "primary (Entered p) = p" | "primary (EnterCheck p) = p" | "primary (Parange p) = p" | "primary (ParangeWait p) = p"
| "primary (Early p) = p" | "primary (PerCpuInit p) = p" | "primary (Inited p) = p" | "primary (InitedWait p) = p" | "primary (Late p) = p"
| "primary (RunVm p) = p" | "primary (InGuest p) = p"

section \<open>What a stage changes\<close>

definition same_ranges :: "('b, 'd) hv \<Rightarrow> ('b, 'd) hv \<Rightarrow> bool" where
  "same_ranges s t \<longleftrightarrow> MIN_PARANGE t = MIN_PARANGE s \<and> PARANGE_OK_CPUS t = PARANGE_OK_CPUS s"

interpretation ranges: zone_frame same_ranges "unat (this_cpu_id me)" E me for E :: "('b, 'd) env" and me
  by unfold_locales (auto simp: same_ranges_def)

definition same_counters :: "('b, 'd) boot \<Rightarrow> ('b, 'd) boot \<Rightarrow> bool" where
  "same_counters b c \<longleftrightarrow> same_ranges (hv b) (hv c) \<and> INITED_CPUS c = INITED_CPUS b \<and> ENTERED_CPUS c = ENTERED_CPUS b \<and>
     INIT_EARLY_OK c = INIT_EARLY_OK b \<and> INIT_LATE_OK c = INIT_LATE_OK b \<and> MASTER_CPU c = MASTER_CPU b"

interpretation counters: keeping same_counters
  by unfold_locales (auto simp: same_counters_def same_ranges_def)

lemma counters_hv: "keeps same_ranges m \<Longrightarrow> keeps same_counters (in_hv m)"
  by (rule keepsI) (auto simp: in_hv_def same_counters_def split: prod.splits dest: keepsD)

lemmas ranges_intros = ranges.keeps_pure ranges.keeps_bind ranges.keeps_registers ranges.keeps_modify ranges.keeps_lookup ranges.keeps_gic
  ranges.keeps_for ranges.keeps_unwrap ranges.keeps_change ranges.keeps_create keeps_cases

lemma ranges_cpu_new: "keeps same_ranges (PerCpu_new E n)"
  unfolding PerCpu_new_def update_cpu_data_def by (intro ranges_intros) (auto simp: keeps_def same_ranges_def)

lemma ranges_cpu_start: "keeps same_ranges (cpu_start E c a x)"
  by (rule keepsI) (auto simp: cpu_start_def same_ranges_def split: prod.splits option.splits psci_error.splits)

lemma ranges_once: "keeps same_ranges (event_init k)" "keeps same_ranges (gic_primary_init_early cfg)"
  by (auto simp: keeps_def event_init_def gic_primary_init_early_def same_ranges_def split: option.split)

lemma ranges_late: "keeps same_ranges (gic_primary_init_late E me)"
  unfolding gic_primary_init_late_def enable_gic_are_ns_def enable_irqs_def by (intro ranges_intros)

lemma ranges_run_vm: "keeps same_ranges (run_vm E me cpu)"
  unfolding run_vm_def by (intro ranges_intros ranges.keeps_run ranges.keeps_idle) simp

lemma ranges_percpu_init: "keeps same_ranges (percpu_init E me)"
proof -
  have "keeps same_ranges (wait_while E c a)" for c a
    by (rule keepsI) (auto simp: wait_while_def same_ranges_def split: option.splits)
  then have "keeps same_ranges (enable_ipi E me)"
    unfolding enable_ipi_def update_reg_def Let_def by (intro ranges_intros)
  moreover have "keeps same_ranges (gicc_init E me)"
    unfolding gicc_init_def gicv3_clear_pending_irqs_def write_lr_def Let_def by (intro ranges_intros)
  ultimately show ?thesis unfolding percpu_init_def by (intro ranges_intros)
qed

lemmas counters_intros = counters.keeps_pure counters.keeps_bind keeps_cases counters_hv ranges_intros ranges_cpu_new ranges_cpu_start
  ranges_once ranges_late ranges_run_vm ranges_percpu_init

lemma counters_config: "keeps same_counters (root_zone_config L)"
proof -
  have "keeps same_counters (modifyP (\<lambda>b. b\<lparr>HV_ROOT_ZONE_CONFIG := c\<rparr>))" for c
    by (auto simp: keeps_def same_counters_def same_ranges_def)
  then show ?thesis unfolding root_zone_config_def config_init_def by (intro counters_intros)
qed

text \<open>The last step of an initialisation sets its flag; what comes before leaves the counters alone.\<close>

lemma counters_last:
  assumes "bindP m (\<lambda>_. modifyP f) b = (Ok x, c)" and "keeps same_counters m"
  obtains b' where "same_counters b b'" "c = f b'"
  using assms by (elim bindP_OkE) (auto dest!: keepsD)

lemma early_counters:
  assumes "primary_init_early E L b = (Ok x, c)"
  obtains b' where "same_counters b b'" "c = b'\<lparr>INIT_EARLY_OK := 1\<rparr>"
proof (rule counters_last)
  show "bindP (bindP (in_hv (with_mem (frame_init (bits E) (core_end E)))) (\<lambda>_.
     bindP (in_hv (with_mem (frame_test (bits E)))) (\<lambda>_. bindP (in_hv (event_init MAX_CPU_NUM)) (\<lambda>_.
     bindP (root_zone_config L) (\<lambda>root_config. bindP (in_hv (gic_primary_init_early root_config)) (\<lambda>_.
     bindP (root_zone_config L) (\<lambda>config. in_hv (unwrapP (zone_create E config)))))))))
     (\<lambda>_. modifyP (\<lambda>b. b\<lparr>INIT_EARLY_OK := 1\<rparr>)) b = (Ok x, c)"
    using assms unfolding primary_init_early_def bindP_assoc .
qed (intro counters_intros counters_config, rule that)

lemma late_counters:
  assumes "primary_init_late E me b = (Ok x, c)"
  obtains b' where "same_counters b b'" "c = b'\<lparr>INIT_LATE_OK := 1\<rparr>"
  by (rule counters_last [OF assms [unfolded primary_init_late_def]]) (intro counters_intros, rule that)

section \<open>Effects of the stages\<close>

fun next_stage :: "bool \<Rightarrow> stage \<Rightarrow> stage" where
  "next_stage free Off = Off"
| "next_stage free Start = (if free then Claim else New False)"
| "next_stage free Claim = New True"
| "next_stage free (New p) = (if p then Wake (map of_nat [0..<unat MAX_CPU_NUM]) else Enter False)"
| "next_stage free (Wake []) = Enter True"
| "next_stage free (Wake (c # cs)) = Wake cs"
| "next_stage free (Enter p) = Entered p"
| "next_stage free (Entered p) = EnterCheck p"
| "next_stage free (EnterCheck p) = Parange p"
| "next_stage free (Parange p) = ParangeWait p"
| "next_stage free (ParangeWait p) = Early p"
| "next_stage free (Early p) = PerCpuInit p"
| "next_stage free (PerCpuInit p) = Inited p"
| "next_stage free (Inited p) = InitedWait p"
| "next_stage free (InitedWait p) = Late p"
| "next_stage free (Late p) = RunVm p"
| "next_stage free (RunVm p) = InGuest p"
| "next_stage free (InGuest p) = InGuest p"

definition passes :: "nat \<Rightarrow> stage \<Rightarrow> stage \<Rightarrow> bool" where
  "passes k x y \<longleftrightarrow> rank x < k \<and> k \<le> rank y"

definition stage_effect :: "u64 \<Rightarrow> usize \<Rightarrow> stage \<Rightarrow> stage \<Rightarrow> ('b, 'd) boot \<Rightarrow> ('b, 'd) boot \<Rightarrow> bool" where
  "stage_effect pr n x y b c \<longleftrightarrow>
     ENTERED_CPUS c = ENTERED_CPUS b + (if passes 6 x y then 1 else 0) \<and>
     PARANGE_OK_CPUS (hv c) = PARANGE_OK_CPUS (hv b) + (if passes 9 x y then 1 else 0) \<and>
     INITED_CPUS c = INITED_CPUS b + (if passes 13 x y then 1 else 0) \<and>
     MIN_PARANGE (hv c) = (if passes 9 x y then min (MIN_PARANGE (hv b)) pr else MIN_PARANGE (hv b)) \<and>
     INIT_EARLY_OK c = (if primary x \<and> passes 11 x y then 1 else INIT_EARLY_OK b) \<and>
     INIT_LATE_OK c = (if primary x \<and> passes 15 x y then 1 else INIT_LATE_OK b) \<and>
     MASTER_CPU c = (if x = Claim then ucast n else MASTER_CPU b)"

lemma effect_same:
  assumes "same_counters b c" "\<not> passes 6 x y" "\<not> passes 9 x y" "\<not> passes 13 x y" "primary x \<Longrightarrow> \<not> passes 11 x y \<and> \<not> passes 15 x y" "x \<noteq> Claim"
  shows "stage_effect pr n x y b c"
  using assms by (auto simp: stage_effect_def same_counters_def same_ranges_def)

lemma counters_refl: "same_counters b b"
  by (rule counters.R_refl)

lemma then_ret:
  assumes "bindP m (\<lambda>_. retP y) b = (Ok z, c)" "keeps same_counters m"
  shows "same_counters b c" "z = y"
  using assms by (auto elim!: bindP_OkE dest!: keepsD)

lemma stage_moves:
  fixes E :: "('b, 'd) env"
  assumes "boot_stage E L me n x b = (Ok y, c)" and pr: "\<And>d. fst (mrs E me ID_AA64MMFR0_EL1 d) AND 0xf = pr"
  shows "y = next_stage (MASTER_CPU b = - 1) x \<and> stage_effect pr n x y b c"
proof (cases x)
  case Start
  have k: "keeps same_counters (in_hv (install_trap_vector E L me))" unfolding install_trap_vector_def by (intro counters_intros)
  with assms(1) Start show ?thesis
    by (auto elim!: bindP_OkE dest!: keepsD intro!: effect_same simp: passes_def) (auto simp: same_counters_def)
next
  case (New p)
  have k: "keeps same_counters (in_hv (PerCpu_new E n))" by (intro counters_intros)
  with assms(1) New show ?thesis
    by (auto elim!: bindP_OkE dest!: keepsD intro!: effect_same simp: passes_def)
next
  case (Wake cs)
  show ?thesis
  proof (cases cs)
    case (Cons d ds)
    have k: "keeps same_counters (if d = n then retP () else in_hv (cpu_start E d (arch_entry L) (host_dtb L)))" by (intro counters_intros)
    from assms(1) Wake Cons have "bindP (if d = n then retP () else in_hv (cpu_start E d (arch_entry L) (host_dtb L))) (\<lambda>_. retP (Wake ds)) b = (Ok y, c)"
      by simp
    from then_ret [OF this k] Wake Cons show ?thesis by (auto intro!: effect_same simp: passes_def)
  qed (use assms(1) Wake in \<open>auto intro!: effect_same counters_refl simp: passes_def\<close>)
next
  case (Parange p)
  with assms show ?thesis
    by (auto elim!: bindP_OkE simp: in_hv_def parange_join_def read_sysreg_def bindP_def Let_def split_beta stage_effect_def passes_def)
next
  case (Early p)
  show ?thesis
  proof (cases p)
    case True
    with assms(1) Early obtain z where "primary_init_early E L b = (Ok z, c)" "y = PerCpuInit p" by (auto elim!: bindP_OkE)
    with Early True show ?thesis
      by (auto elim!: early_counters simp: stage_effect_def same_counters_def same_ranges_def passes_def)
  qed (use assms(1) Early in \<open>auto intro!: effect_same counters_refl simp: passes_def\<close>)
next
  case (PerCpuInit p)
  have k: "keeps same_counters (bindP (in_hv (get_cpu_data E n)) (\<lambda>cpu. bindP (per_cpu_init cpu) (\<lambda>_. in_hv (percpu_init E me))))"
    unfolding per_cpu_init_def by (intro counters_intros)
  from assms(1) PerCpuInit have "bindP (bindP (in_hv (get_cpu_data E n)) (\<lambda>cpu. bindP (per_cpu_init cpu) (\<lambda>_. in_hv (percpu_init E me)))) (\<lambda>_. retP (Inited p)) b = (Ok y, c)"
    by (simp add: bindP_assoc)
  from then_ret [OF this k] PerCpuInit show ?thesis by (auto intro!: effect_same simp: passes_def)
next
  case (Late p)
  show ?thesis
  proof (cases p)
    case True
    with assms(1) Late obtain z where "primary_init_late E me b = (Ok z, c)" "y = RunVm p" by (auto elim!: bindP_OkE)
    with Late True show ?thesis
      by (auto elim!: late_counters simp: stage_effect_def same_counters_def same_ranges_def passes_def)
  qed (use assms(1) Late in \<open>auto intro!: effect_same counters_refl simp: passes_def\<close>)
next
  case (RunVm p)
  have k: "keeps same_counters (bindP (in_hv (get_cpu_data E n)) (\<lambda>cpu. in_hv (run_vm E me cpu :: ('b, 'd, unit ctl) hvp)))"
    by (intro counters_intros)
  from assms(1) RunVm have "bindP (bindP (in_hv (get_cpu_data E n)) (\<lambda>cpu. in_hv (run_vm E me cpu :: ('b, 'd, unit ctl) hvp))) (\<lambda>_. retP (InGuest p)) b = (Ok y, c)"
    by (simp add: bindP_assoc)
  from then_ret [OF this k] RunVm show ?thesis by (auto intro!: effect_same simp: passes_def)
qed (use assms(1) in \<open>auto elim!: bindP_OkE intro!: effect_same counters_refl simp: passes_def stage_effect_def rust_assert_def split: if_splits\<close>)

end
