(* ===== verification/Hv_BootSpec.thy ===== *)
theory Hv_BootSpec
  imports Hv_BootSteps
begin

text \<open>
  The start of the machine, whatever the order in which the CPUs run. Exactly one CPU becomes the primary
  one; each barrier holds a CPU until the others have come as far; nobody enters a guest before the root zone
  exists and every CPU is initialised; and as long as somebody is not in a guest somebody can go on.
\<close>

section \<open>Invariant\<close>

definition joined :: "nat \<Rightarrow> stage list \<Rightarrow> nat" where
  "joined k st = length (filter (\<lambda>x. k \<le> rank x) st)"

definition ranges_of :: "(nat \<Rightarrow> u64) \<Rightarrow> stage list \<Rightarrow> u64" where
  "ranges_of pr st = Min (insert 7 (pr ` {j. j < length st \<and> 9 \<le> rank (st ! j)}))"

definition counts_ok :: "(nat \<Rightarrow> u64) \<Rightarrow> ('b, 'd) boot \<times> stage list \<Rightarrow> bool" where
  "counts_ok pr = (\<lambda>(b, st). ENTERED_CPUS b = of_nat (joined 6 st) \<and> PARANGE_OK_CPUS (hv b) = of_nat (joined 9 st) \<and>
     INITED_CPUS b = of_nat (joined 13 st) \<and> MIN_PARANGE (hv b) = ranges_of pr st)"

definition order_ok :: "stage list \<Rightarrow> bool" where
  "order_ok st \<longleftrightarrow> (\<forall>x \<in> set st. (7 \<le> rank x \<longrightarrow> joined 6 st = 4) \<and> (10 \<le> rank x \<longrightarrow> joined 9 st = 4) \<and> (14 \<le> rank x \<longrightarrow> joined 13 st = 4))"

definition roles_ok :: "nat \<Rightarrow> ('b, 'd) boot \<times> stage list \<Rightarrow> bool" where
  "roles_ok i0 = (\<lambda>(b, st). 1 \<le> rank (st ! i0) \<and> (2 \<le> rank (st ! i0) \<longrightarrow> primary (st ! i0)) \<and>
     (\<forall>j < 4. j \<noteq> i0 \<longrightarrow> \<not> primary (st ! j)) \<and>
     (rank (st ! i0) \<le> 3 \<longrightarrow> (\<forall>j < 4. j \<noteq> i0 \<longrightarrow> st ! j = Off)) \<and>
     (5 \<le> rank (st ! i0) \<longrightarrow> (\<forall>j < 4. st ! j \<noteq> Off)) \<and>
     (\<forall>cs. st ! i0 = Wake cs \<longrightarrow> (\<forall>j < 4. j \<noteq> i0 \<longrightarrow> st ! j = Off \<longrightarrow> of_nat j \<in> set cs)) \<and>
     MASTER_CPU b = (if rank (st ! i0) \<le> 2 then - 1 else of_nat i0))"

definition flags_ok :: "nat \<Rightarrow> ('b, 'd) boot \<times> stage list \<Rightarrow> bool" where
  "flags_ok i0 = (\<lambda>(b, st). INIT_EARLY_OK b = (if 11 \<le> rank (st ! i0) then 1 else 0) \<and> INIT_LATE_OK b = (if 15 \<le> rank (st ! i0) then 1 else 0) \<and>
     (\<forall>x \<in> set st. (11 \<le> rank x \<longrightarrow> 11 \<le> rank (st ! i0)) \<and> (15 \<le> rank x \<longrightarrow> 15 \<le> rank (st ! i0))))"

definition boot_inv :: "(nat \<Rightarrow> u64) \<Rightarrow> nat \<Rightarrow> ('b, 'd) boot \<times> stage list \<Rightarrow> bool" where
  "boot_inv pr i0 c \<longleftrightarrow> i0 < 4 \<and> length (snd c) = 4 \<and> counts_ok pr c \<and> order_ok (snd c) \<and> roles_ok i0 c \<and> flags_ok i0 c"

subsection \<open>Counting\<close>

lemma joined_le: "joined k st \<le> length st"
  by (simp add: joined_def)

lemma joined_all: "joined k st = length st \<longleftrightarrow> (\<forall>x \<in> set st. k \<le> rank x)"
  unfolding joined_def by (metis filter_True length_filter_less less_irrefl)

lemma joined_update:
  "i < length st \<Longrightarrow> rank (st ! i) \<le> rank y \<Longrightarrow> joined k (st[i := y]) = joined k st + (if passes k (st ! i) y then 1 else 0)"
  unfolding joined_def passes_def
proof (induction st arbitrary: i)
  case (Cons x st)
  then show ?case by (cases i) auto
qed simp

lemma next_rank: "rank x \<le> rank (next_stage f x)"
  by (induction f x rule: next_stage.induct) auto

lemma powered_cases:
  obtains "powered n x st = st"
    | j cs where "x = Wake (of_nat j # cs)" "of_nat j \<noteq> n" "st ! j = Off" "powered n x st = st[j := Start]"
proof (cases "(n, x, st)" rule: powered.cases)
  case (1 n' c cs st')
  then show ?thesis using that(2) [of "unat c" cs] that(1) by (cases "c \<noteq> n' \<and> st' ! unat c = Off") auto
qed (use that(1) in auto)

lemma powered_length [simp]: "length (powered n x st) = length st"
  by (cases n x st rule: powered_cases) auto

text \<open>The stages after a step: the CPU that made it is in its next stage, another one may have been started.\<close>

definition advance :: "bool \<Rightarrow> nat \<Rightarrow> stage list \<Rightarrow> stage list" where
  "advance free i st = (powered (of_nat i) (st ! i) st)[i := next_stage free (st ! i)]"

lemma advance_length [simp]: "length (advance f i st) = length st"
  by (simp add: advance_def)

lemma advance_own: "i < length st \<Longrightarrow> advance f i st ! i = next_stage f (st ! i)"
  by (simp add: advance_def)

lemma advance_other:
  assumes "j \<noteq> i"
  shows "advance f i st ! j = st ! j \<or> st ! j = Off \<and> advance f i st ! j = Start \<and> (\<exists>cs. st ! i = Wake (of_nat j # cs))"
proof (cases "of_nat i :: usize" "st ! i" st rule: powered_cases)
  case (2 k cs)
  with assms show ?thesis by (cases "k < length st") (auto simp: advance_def nth_list_update list_update_beyond)
qed (use assms in \<open>auto simp: advance_def\<close>)

lemma advance_rank: "i < length st \<Longrightarrow> rank (st ! j) \<le> rank (advance f i st ! j)"
  using advance_other [of j i f st] by (cases "j = i") (auto simp: advance_own next_rank)

lemma advance_joined:
  assumes "i < length st" "2 \<le> k"
  shows "joined k (advance f i st) = joined k st + (if passes k (st ! i) (next_stage f (st ! i)) then 1 else 0)"
proof (cases "of_nat i :: usize" "st ! i" st rule: powered_cases)
  case 1
  with assms show ?thesis by (simp add: advance_def joined_update next_rank)
next
  case (2 j cs)
  then have ij: "i \<noteq> j" by auto
  have "joined k (st[j := Start]) = joined k st" if "j < length st"
    using joined_update [OF that, of Start k] 2 assms by (simp add: passes_def)
  then have "joined k (st[j := Start]) = joined k st" by (cases "j < length st") (auto simp: list_update_beyond)
  with joined_update [of i "st[j := Start]" "next_stage f (st ! i)" k] 2 assms ij next_rank [of "st ! i" f]
  show ?thesis by (simp add: advance_def del: next_stage.simps rank.simps)
qed

lemma advance_joined_mono: "i < length st \<Longrightarrow> 2 \<le> k \<Longrightarrow> joined k st = length st \<Longrightarrow> joined k (advance f i st) = length st"
  using advance_joined [of i st k f] joined_le [of k "advance f i st"] by simp

lemma advance_ranges:
  assumes "i < length st"
  shows "ranges_of pr (advance f i st) = (if passes 9 (st ! i) (next_stage f (st ! i)) then min (ranges_of pr st) (pr i) else ranges_of pr st)"
proof -
  have other: "9 \<le> rank (advance f i st ! j) \<longleftrightarrow> 9 \<le> rank (st ! j)" if "j \<noteq> i" for j
    using advance_other [OF that, of f st] by auto
  show ?thesis
  proof (cases "passes 9 (st ! i) (next_stage f (st ! i))")
    case True
    then have "9 \<le> rank (advance f i st ! i)" using assms by (simp add: advance_own passes_def)
    with other have "9 \<le> rank (advance f i st ! j) \<longleftrightarrow> j = i \<or> 9 \<le> rank (st ! j)" for j by (cases "j = i") simp_all
    then have "{j. j < length st \<and> 9 \<le> rank (advance f i st ! j)} = insert i {j. j < length st \<and> 9 \<le> rank (st ! j)}"
      using assms by auto
    with True show ?thesis by (simp add: ranges_of_def insert_commute [of 7] min.commute)
  next
    case False
    then have "9 \<le> rank (advance f i st ! i) \<longleftrightarrow> 9 \<le> rank (st ! i)"
      using assms next_rank [of "st ! i" f] by (auto simp: advance_own passes_def)
    with other have "9 \<le> rank (advance f i st ! j) \<longleftrightarrow> 9 \<le> rank (st ! j)" for j by (cases "j = i") simp_all
    with False show ?thesis by (simp add: ranges_of_def)
  qed
qed

subsection \<open>Steps keep the invariant\<close>

definition constant_range :: "('b, 'd) env \<Rightarrow> (nat \<Rightarrow> u64) \<Rightarrow> (nat \<Rightarrow> u64) \<Rightarrow> bool" where
  "constant_range E mp pr \<longleftrightarrow> (\<forall>i d. fst (mrs E (mp i) ID_AA64MMFR0_EL1 d) AND 0xf = pr i)"

lemma boot_stepE:
  assumes "boot_step E L mp c c'" "constant_range E mp pr"
  obtains i b st b' where "c = (b, st)" "i < length st" "\<not> held (st ! i) b" "c' = (b', advance (MASTER_CPU b = - 1) i st)"
    "stage_effect (pr i) (of_nat i) (st ! i) (next_stage (MASTER_CPU b = - 1) (st ! i)) b b'"
  using assms(1)
proof cases
  case (step i st b x b')
  from step(5) assms(2) have "x = next_stage (MASTER_CPU b = - 1) (st ! i) \<and> stage_effect (pr i) (of_nat i) (st ! i) x b b'"
    by (intro stage_moves) (auto simp: constant_range_def)
  with step show ?thesis by (intro that [of b st i b']) (auto simp: advance_def)
qed

lemma counts_step:
  assumes "counts_ok pr (b, st)" "i < length st" "stage_effect (pr i) n (st ! i) (next_stage f (st ! i)) b b'"
  shows "counts_ok pr (b', advance f i st)"
  using assms by (simp add: counts_ok_def stage_effect_def advance_joined advance_ranges)

lemma counter_full:
  assumes "k \<le> 4"
  shows "\<not> (of_nat k :: u32) < ucast MAX_CPU_NUM \<longleftrightarrow> k = 4"
proof -
  have "k = 0 \<or> k = 1 \<or> k = 2 \<or> k = 3 \<or> k = 4" using assms by auto
  then show ?thesis by (auto simp: MAX_CPU_NUM_def)
qed

lemma advance_barrier:
  assumes "\<forall>x \<in> set st. b \<le> rank x \<longrightarrow> joined a st = 4" "passes b (st ! i) (next_stage f (st ! i)) \<Longrightarrow> joined a st = 4"
    and "2 \<le> a" "2 \<le> b" "i < length st" "length st = 4"
  shows "\<forall>x \<in> set (advance f i st). b \<le> rank x \<longrightarrow> joined a (advance f i st) = 4"
proof (intro ballI impI)
  fix x assume x: "x \<in> set (advance f i st)" "b \<le> rank x"
  then obtain j where j: "j < length st" "x = advance f i st ! j" by (auto simp: in_set_conv_nth)
  have "joined a st = 4"
  proof (cases "j = i")
    case True
    with j x assms(5) have "b \<le> rank (st ! i) \<or> passes b (st ! i) (next_stage f (st ! i))" by (auto simp: advance_own passes_def)
    with assms(1, 2, 5) show ?thesis by auto
  next
    case False
    with advance_other [OF False, of f st] j x assms(4) have "b \<le> rank (st ! j)" by auto
    with assms(1) j show ?thesis by auto
  qed
  with advance_joined_mono [of i st a f] assms(3, 5, 6) show "joined a (advance f i st) = 4" by simp
qed

lemma passes_barrier:
  "passes 7 x (next_stage f x) \<longleftrightarrow> (\<exists>p. x = Entered p)" "passes 10 x (next_stage f x) \<longleftrightarrow> (\<exists>p. x = ParangeWait p)"
  "passes 14 x (next_stage f x) \<longleftrightarrow> (\<exists>p. x = InitedWait p)" "passes 11 x (next_stage f x) \<longleftrightarrow> (\<exists>p. x = Early p)"
  "passes 15 x (next_stage f x) \<longleftrightarrow> (\<exists>p. x = Late p)"
  by (cases "(f, x)" rule: next_stage.cases; simp add: passes_def)+

lemma order_step:
  assumes "order_ok st" "counts_ok pr (b, st)" "i < length st" "length st = 4" "\<not> held (st ! i) b"
  shows "order_ok (advance f i st)"
proof -
  have full: "joined k st \<le> 4" for k using joined_le [of k st] assms(4) by simp
  have "joined 6 st = 4" if "passes 7 (st ! i) (next_stage f (st ! i))"
    using that assms(2, 5) counter_full [OF full [of 6]] by (auto simp: passes_barrier counts_ok_def entered_cpus_def)
  moreover have "joined 9 st = 4" if "passes 10 (st ! i) (next_stage f (st ! i))"
    using that assms(2, 5) counter_full [OF full [of 9]] by (auto simp: passes_barrier counts_ok_def parange_pending_def)
  moreover have "joined 13 st = 4" if "passes 14 (st ! i) (next_stage f (st ! i))"
    using that assms(2, 5) counter_full [OF full [of 13]] by (auto simp: passes_barrier counts_ok_def)
  ultimately have "\<forall>x \<in> set (advance f i st). 7 \<le> rank x \<longrightarrow> joined 6 (advance f i st) = 4"
    "\<forall>x \<in> set (advance f i st). 10 \<le> rank x \<longrightarrow> joined 9 (advance f i st) = 4"
    "\<forall>x \<in> set (advance f i st). 14 \<le> rank x \<longrightarrow> joined 13 (advance f i st) = 4"
    using assms(1) by (intro advance_barrier [OF _ _ _ _ assms(3, 4)]; simp add: order_ok_def)+
  then show ?thesis unfolding order_ok_def by blast
qed

lemma roles_okD:
  assumes "roles_ok i0 (b, st)"
  shows "1 \<le> rank (st ! i0)" "2 \<le> rank (st ! i0) \<Longrightarrow> primary (st ! i0)" "j < 4 \<Longrightarrow> j \<noteq> i0 \<Longrightarrow> \<not> primary (st ! j)"
    "rank (st ! i0) \<le> 3 \<Longrightarrow> j < 4 \<Longrightarrow> j \<noteq> i0 \<Longrightarrow> st ! j = Off" "5 \<le> rank (st ! i0) \<Longrightarrow> j < 4 \<Longrightarrow> st ! j \<noteq> Off"
    "st ! i0 = Wake cs \<Longrightarrow> j < 4 \<Longrightarrow> j \<noteq> i0 \<Longrightarrow> st ! j = Off \<Longrightarrow> of_nat j \<in> set cs"
    "MASTER_CPU b = (if rank (st ! i0) \<le> 2 then - 1 else of_nat i0)"
  using assms unfolding roles_ok_def prod.case by blast+

lemma roles_okI:
  assumes "1 \<le> rank (st ! i0)" "2 \<le> rank (st ! i0) \<Longrightarrow> primary (st ! i0)" "\<And>j. j < 4 \<Longrightarrow> j \<noteq> i0 \<Longrightarrow> \<not> primary (st ! j)"
    "\<And>j. rank (st ! i0) \<le> 3 \<Longrightarrow> j < 4 \<Longrightarrow> j \<noteq> i0 \<Longrightarrow> st ! j = Off" "\<And>j. 5 \<le> rank (st ! i0) \<Longrightarrow> j < 4 \<Longrightarrow> st ! j \<noteq> Off"
    "\<And>cs j. st ! i0 = Wake cs \<Longrightarrow> j < 4 \<Longrightarrow> j \<noteq> i0 \<Longrightarrow> st ! j = Off \<Longrightarrow> of_nat j \<in> set cs"
    "MASTER_CPU b = (if rank (st ! i0) \<le> 2 then - 1 else of_nat i0)"
  shows "roles_ok i0 (b, st)"
  using assms unfolding roles_ok_def prod.case by blast

lemma cpu_not_free: "i0 < 4 \<Longrightarrow> (of_nat i0 :: u32) \<noteq> - 1"
proof -
  assume "i0 < 4"
  then have "i0 = 0 \<or> i0 = 1 \<or> i0 = 2 \<or> i0 = 3" by auto
  then show ?thesis by auto
qed

lemma master_free: "roles_ok i0 (b, st) \<Longrightarrow> i0 < 4 \<Longrightarrow> MASTER_CPU b = - 1 \<longleftrightarrow> rank (st ! i0) \<le> 2"
  using roles_okD(7) [of i0 b st] cpu_not_free [of i0] by auto

lemma roles_other:
  assumes "roles_ok i0 (b, st)" "i0 < 4" "i < 4" "length st = 4" "i \<noteq> i0" "\<not> held (st ! i) b"
  shows "MASTER_CPU b \<noteq> - 1" "4 \<le> rank (st ! i0)" "\<not> primary (st ! i)" "st ! i \<noteq> Off"
    "advance False i st ! i0 = st ! i0" "\<And>j. j \<noteq> i \<Longrightarrow> advance False i st ! j = st ! j"
proof -
  show off: "st ! i \<noteq> Off" using assms(6) by auto
  with assms show r: "4 \<le> rank (st ! i0)" by (auto simp: roles_ok_def not_less_eq_eq numeral_eq_Suc)
  then show "MASTER_CPU b \<noteq> - 1" using master_free [OF assms(1, 2)] by simp
  show np: "\<not> primary (st ! i)" using assms by (auto simp: roles_ok_def)
  show same: "advance False i st ! j = st ! j" if "j \<noteq> i" for j
    using advance_other [OF that, of False st] np by auto
  show "advance False i st ! i0 = st ! i0" using same assms(5) by simp
qed

lemma next_role: "x \<noteq> Start \<Longrightarrow> primary (next_stage f x) = primary x" "x \<noteq> Off \<Longrightarrow> next_stage f x \<noteq> Off"
  by (cases "(f, x)" rule: next_stage.cases; simp)+

lemma roles_step_other:
  assumes "roles_ok i0 (b, st)" "i0 < 4" "i < 4" "length st = 4" "i \<noteq> i0" "\<not> held (st ! i) b"
    and "stage_effect r n (st ! i) (next_stage False (st ! i)) b b'"
  shows "roles_ok i0 (b', advance False i st)"
proof -
  note o = roles_other [OF assms(1-6)]
  have m: "MASTER_CPU b' = MASTER_CPU b" using assms(7) o(3) by (auto simp: stage_effect_def)
  have own: "\<not> primary (advance False i st ! i)" "advance False i st ! i \<noteq> Off"
    using o(3, 4) assms(3, 4) next_role [of "st ! i" False] by (cases "st ! i = Start"; simp add: advance_own)+
  have np: "\<not> primary (advance False i st ! j)" if "j < 4" "j \<noteq> i0" for j
    using own(1) o(6) [of j] assms(1) that by (cases "j = i") (auto simp: roles_ok_def)
  have off: "st ! j = Off" if "advance False i st ! j = Off" for j using own(2) o(6) [of j] that by (cases "j = i") auto
  note d = roles_okD [OF assms(1)]
  show ?thesis
  proof (rule roles_okI)
    show "of_nat j \<in> set cs" if "advance False i st ! i0 = Wake cs" "j < 4" "j \<noteq> i0" "advance False i st ! j = Off" for cs j
      using that d(6) o(5) off by simp
    show "MASTER_CPU b' = (if rank (advance False i st ! i0) \<le> 2 then - 1 else of_nat i0)" using d(7) m o(5) by simp
    show "advance False i st ! j \<noteq> Off" if "5 \<le> rank (advance False i st ! i0)" "j < 4" for j using off [of j] d(5) that o(5) by auto
    show "primary (advance False i st ! i0)" using o(2, 5) d(2) by simp
  qed (use o(2, 5) np in auto)
qed

lemma advance_starts:
  assumes "st ! i = Wake (of_nat j # cs)" "i \<noteq> j" "i < 4" "j < 4" "length st = 4"
  shows "advance f i st ! j \<noteq> Off"
proof -
  have u: "unat (of_nat k :: usize) = k" if "k < 4" for k using that by (simp add: unat_of_nat)
  have "(of_nat j :: usize) \<noteq> of_nat i" using u [OF assms(3)] u [OF assms(4)] assms(2) by metis
  with assms u [OF assms(4)] show ?thesis by (simp add: advance_def)
qed

lemma next_wake:
  assumes "next_stage f x = Wake cs"
  obtains "x = New True" "cs = map of_nat [0..<4]" | c where "x = Wake (c # cs)"
  using assms by (cases "(f, x)" rule: next_stage.cases) (auto simp: MAX_CPU_NUM_def split: if_splits)

lemma next_master:
  assumes "roles_ok i0 (b, st)" "i0 < 4" "x = st ! i0" "stage_effect r (of_nat i0) x (next_stage (MASTER_CPU b = - 1) x) b b'"
  shows "MASTER_CPU b' = (if rank (next_stage (MASTER_CPU b = - 1) x) \<le> 2 then - 1 else of_nat i0)"
proof -
  have m: "MASTER_CPU b = (if rank x \<le> 2 then - 1 else of_nat i0)" "1 \<le> rank x" using roles_okD(1, 7) [OF assms(1)] assms(3) by simp_all
  have e: "MASTER_CPU b' = (if x = Claim then ucast (of_nat i0 :: usize) else MASTER_CPU b)"
    using assms(4) unfolding stage_effect_def by blast
  have "i0 = 0 \<or> i0 = 1 \<or> i0 = 2 \<or> i0 = 3" using assms(2) by auto
  then have u: "ucast (of_nat i0 :: usize) = (of_nat i0 :: u32)" by auto
  consider "x = Start" | "x = Claim" | "3 \<le> rank x" using m(2) by (cases x) auto
  then show ?thesis
  proof cases
    case 3
    then show ?thesis using m e next_rank [of x "MASTER_CPU b = - 1"] by auto
  qed (use m e u in auto)
qed

lemma roles_step_own:
  assumes "roles_ok i0 (b, st)" "i0 < 4" "length st = 4" "stage_effect r (of_nat i0) (st ! i0) (next_stage (MASTER_CPU b = - 1) (st ! i0)) b b'"
  shows "roles_ok i0 (b', advance (MASTER_CPU b = - 1) i0 st)"
proof -
  let ?f = "MASTER_CPU b = - 1" let ?x = "st ! i0" let ?t = "advance ?f i0 st"
  note d = roles_okD [OF assms(1)]
  have own: "?t ! i0 = next_stage ?f ?x" using assms(2, 3) by (simp add: advance_own)
  have other: "?t ! j = st ! j \<or> st ! j = Off \<and> ?t ! j = Start \<and> (\<exists>cs. ?x = Wake (of_nat j # cs))" if "j \<noteq> i0" for j
    using advance_other [OF that] .
  show ?thesis
  proof (rule roles_okI)
    show "1 \<le> rank (?t ! i0)" using d(1) next_rank [of ?x ?f] own by simp
    show "primary (?t ! i0)"
      using d(1, 2, 7) own next_role(1) [of ?x ?f] by (cases "?x = Start") (auto, cases ?x, auto)
    show "\<not> primary (?t ! j)" if "j < 4" "j \<noteq> i0" for j using other [OF that(2)] d(3) [OF that] by auto
    show "?t ! j = Off" if "rank (?t ! i0) \<le> 3" "j < 4" "j \<noteq> i0" for j
      using other [OF that(3)] d(4) [OF _ that(2, 3)] next_rank [of ?x ?f] that(1) own by fastforce
    show "?t ! j \<noteq> Off" if "5 \<le> rank (?t ! i0)" "j < 4" for j
    proof (cases "j = i0")
      case False
      have "5 \<le> rank ?x \<or> ?x = Wake []"
        using that(1) own d(2) by (cases "(?f, ?x)" rule: next_stage.cases) (auto split: if_splits)
      then have "st ! j \<noteq> Off" using d(5) d(6) [OF _ that(2) False] that(2) by auto
      then show ?thesis using other [OF False] by auto
    qed (use that in auto)
    show "of_nat j \<in> set cs" if "?t ! i0 = Wake cs" "j < 4" "j \<noteq> i0" "?t ! j = Off" for cs j
      using that(1) unfolding own
    proof (cases rule: next_wake)
      case (2 c)
      have "st ! j = Off" using other [OF that(3)] that(4) by auto
      with d(6) [OF 2 that(2, 3)] have "of_nat j \<in> set (c # cs)" .
      moreover have "of_nat j \<noteq> c" using advance_starts [of st i0 j cs ?f] 2 that assms(2, 3) by auto
      ultimately show ?thesis by simp
    qed (use that(2) in auto)
    show "MASTER_CPU b' = (if rank (?t ! i0) \<le> 2 then - 1 else of_nat i0)"
      using next_master [OF assms(1, 2) refl assms(4)] own by simp
  qed
qed

lemma flag_passed:
  assumes "roles_ok i0 (b, st)" "i0 < length st" "k = 11 \<or> k = 15"
  shows "k \<le> rank (advance f i0 st ! i0) \<longleftrightarrow> primary (st ! i0) \<and> passes k (st ! i0) (next_stage f (st ! i0)) \<or> k \<le> rank (st ! i0)"
proof -
  have "primary (st ! i0)" if "passes k (st ! i0) (next_stage f (st ! i0))"
    using roles_okD(2) [OF assms(1)] assms(3) that by (auto simp: passes_barrier)
  then show ?thesis using next_rank [of "st ! i0" f] assms(2) by (auto simp: advance_own passes_def)
qed

lemma flag_values:
  assumes "flags_ok i0 (b, st)" "roles_ok i0 (b, st)" "i0 < 4" "i < 4" "length st = 4" "\<not> held (st ! i) b"
    and "stage_effect r n (st ! i) (next_stage f (st ! i)) b b'" "f = (MASTER_CPU b = - 1)"
  shows "INIT_EARLY_OK b' = (if 11 \<le> rank (advance f i st ! i0) then 1 else 0)"
    "INIT_LATE_OK b' = (if 15 \<le> rank (advance f i st ! i0) then 1 else 0)"
proof -
  have flag: "INIT_EARLY_OK b' = (if primary (st ! i) \<and> passes 11 (st ! i) (next_stage f (st ! i)) then 1 else INIT_EARLY_OK b)"
    "INIT_LATE_OK b' = (if primary (st ! i) \<and> passes 15 (st ! i) (next_stage f (st ! i)) then 1 else INIT_LATE_OK b)"
    using assms(7) unfolding stage_effect_def by blast+
  have old: "INIT_EARLY_OK b = (if 11 \<le> rank (st ! i0) then 1 else 0)" "INIT_LATE_OK b = (if 15 \<le> rank (st ! i0) then 1 else 0)"
    using assms(1) unfolding flags_ok_def prod.case by blast+
  have "INIT_EARLY_OK b' = (if 11 \<le> rank (advance f i st ! i0) then 1 else 0) \<and> INIT_LATE_OK b' = (if 15 \<le> rank (advance f i st ! i0) then 1 else 0)"
  proof (cases "i = i0")
    case True
    with flag old flag_passed [OF assms(2), of _ f] assms(3, 5) show ?thesis by simp
  next
    case False
    with roles_other(1, 3, 5) [OF assms(2-5) False assms(6)] flag old assms(8) show ?thesis by simp
  qed
  then show "INIT_EARLY_OK b' = (if 11 \<le> rank (advance f i st ! i0) then 1 else 0)"
    "INIT_LATE_OK b' = (if 15 \<le> rank (advance f i st ! i0) then 1 else 0)" by blast+
qed

lemma flag_bound:
  assumes "flags_ok i0 (b, st)" "roles_ok i0 (b, st)" "i < 4" "length st = 4" "\<not> held (st ! i) b"
    and "x \<in> set (advance f i st)" "k \<le> rank x" "k = 11 \<or> k = 15"
  shows "k \<le> rank (advance f i st ! i0)"
proof -
  have i: "i < length st" using assms(3, 4) by simp
  have up: "k \<le> rank (advance f i st ! i0)" if "k \<le> rank (st ! i0)" using advance_rank [OF i, of i0 f] that by simp
  from assms(6) obtain j where j: "j < length st" "x = advance f i st ! j" by (auto simp: in_set_conv_nth)
  have old: "k \<le> rank y \<Longrightarrow> k \<le> rank (st ! i0)" if "y \<in> set st" for y
    using assms(1, 8) that unfolding flags_ok_def prod.case by blast
  consider "j = i0" | "k \<le> rank (st ! j)" | "j \<noteq> i0" "\<not> k \<le> rank (st ! j)" by blast
  then show ?thesis
  proof cases
    case 2
    then show ?thesis using old [of "st ! j"] j up by simp
  next
    case 3
    have ji: "j = i"
    proof (rule ccontr)
      assume "j \<noteq> i"
      from advance_other [OF this, of f st] show False using 3 j assms(7, 8) by auto
    qed
    with 3 j assms(7) i have "passes k (st ! i) (next_stage f (st ! i))" by (simp add: advance_own passes_def)
    moreover have "\<not> primary (st ! i)" using roles_okD(3) [OF assms(2)] 3 ji assms(3) by blast
    ultimately have "k = 11 \<and> \<not> INIT_EARLY_OK b < 1 \<or> k = 15 \<and> \<not> INIT_LATE_OK b < 1" using assms(5, 8) by (auto simp: passes_barrier)
    moreover have "INIT_EARLY_OK b = (if 11 \<le> rank (st ! i0) then 1 else 0)" "INIT_LATE_OK b = (if 15 \<le> rank (st ! i0) then 1 else 0)"
      using assms(1) unfolding flags_ok_def prod.case by blast+
    ultimately have "k \<le> rank (st ! i0)" by (auto split: if_splits)
    then show ?thesis by (rule up)
  qed (use j assms(7) in simp)
qed

lemma flags_step:
  assumes "flags_ok i0 (b, st)" "roles_ok i0 (b, st)" "i0 < 4" "i < 4" "length st = 4" "\<not> held (st ! i) b"
    and "stage_effect r n (st ! i) (next_stage (MASTER_CPU b = - 1) (st ! i)) b b'"
  shows "flags_ok i0 (b', advance (MASTER_CPU b = - 1) i st)"
  unfolding flags_ok_def prod.case
proof (intro conjI ballI impI)
  fix x assume x: "x \<in> set (advance (MASTER_CPU b = - 1) i st)"
  show "11 \<le> rank x \<Longrightarrow> 11 \<le> rank (advance (MASTER_CPU b = - 1) i st ! i0)" by (rule flag_bound [OF assms(1, 2, 4-6) x]) simp_all
  show "15 \<le> rank x \<Longrightarrow> 15 \<le> rank (advance (MASTER_CPU b = - 1) i st ! i0)" by (rule flag_bound [OF assms(1, 2, 4-6) x]) simp_all
qed (fact flag_values [OF assms refl])+

lemma boot_inv_step:
  assumes "boot_inv pr i0 c" "boot_step E L mp c c'" "constant_range E mp pr"
  shows "boot_inv pr i0 c'"
  using assms(2, 3)
proof (rule boot_stepE)
  fix i b st b' assume c: "c = (b, st)" and i: "i < length st" "\<not> held (st ! i) b" and c': "c' = (b', advance (MASTER_CPU b = - 1) i st)"
    and e: "stage_effect (pr i) (of_nat i) (st ! i) (next_stage (MASTER_CPU b = - 1) (st ! i)) b b'"
  from assms(1) c have inv: "i0 < 4" "length st = 4" "counts_ok pr (b, st)" "order_ok st" "roles_ok i0 (b, st)" "flags_ok i0 (b, st)"
    by (simp_all add: boot_inv_def)
  have "roles_ok i0 c'"
  proof (cases "i = i0")
    case True
    with roles_step_own [OF inv(5, 1, 2)] e c' show ?thesis by simp
  next
    case False
    with roles_other(1) [OF inv(5, 1)] inv i have "(MASTER_CPU b = - 1) = False" by simp
    with roles_step_other [OF inv(5, 1) _ inv(2) False i(2)] inv i e c' show ?thesis by simp
  qed
  moreover have "flags_ok i0 c'" using flags_step [OF inv(6, 5, 1) _ inv(2) i(2) e] inv i c' by simp
  moreover have "counts_ok pr c'" using counts_step [OF inv(3) i(1) e] c' by simp
  moreover have "order_ok (snd c')" using order_step [OF inv(4, 3) i(1) inv(2) i(2)] c' by simp
  ultimately show ?thesis using inv c' by (simp add: boot_inv_def)
qed

lemma boot_inv_start: "boot_start i0 c \<Longrightarrow> boot_inv pr i0 c"
proof -
  assume c: "boot_start i0 c"
  then have i0: "i0 = 0 \<or> i0 = 1 \<or> i0 = 2 \<or> i0 = 3" by (auto simp: boot_start_def)
  obtain b st where bst: "c = (b, st)" by force
  have st: "st = (replicate 4 Off)[i0 := Start]" using c bst by (simp add: boot_start_def)
  have own: "st ! i0 = Start" "\<And>j. j < 4 \<Longrightarrow> j \<noteq> i0 \<Longrightarrow> st ! j = Off" using st i0 by auto
  have "set st \<subseteq> {Off, Start}" using set_update_subset_insert [of "replicate 4 Off" i0 Start] st by auto
  then have low: "rank x \<le> 1" if "x \<in> set st" for x using that by auto
  then have none: "joined k st = 0" if "2 \<le> k" for k using that by (auto simp: joined_def filter_empty_conv dest!: low)
  have no: "{j. j < length st \<and> 9 \<le> rank (st ! j)} = {}" by (auto dest!: nth_mem low)
  have "ranges_of pr st = 7" unfolding ranges_of_def no by simp
  then have "counts_ok pr c" using c bst none by (simp add: counts_ok_def boot_start_def)
  moreover have "order_ok st" using low by (fastforce simp: order_ok_def)
  moreover have "roles_ok i0 c" using c own bst unfolding bst by (intro roles_okI) (auto simp: boot_start_def)
  moreover have "flags_ok i0 c" using c own bst low by (fastforce simp: flags_ok_def boot_start_def)
  ultimately show ?thesis using i0 bst st by (auto simp: boot_inv_def)
qed

lemma boot_inv_reach: "boot_reach E L mp c0 k c \<Longrightarrow> boot_start i0 c0 \<Longrightarrow> constant_range E mp pr \<Longrightarrow> boot_inv pr i0 c"
  by (induction rule: boot_reach.induct) (auto intro: boot_inv_start boot_inv_step)

section \<open>Progress\<close>

fun left :: "bool \<Rightarrow> stage \<Rightarrow> nat" where
  "left f Off = 13" | "left f Start = (if f then 19 else 13)" | "left f Claim = 18" | "left f (New p) = (if p then 17 else 12)"
| "left f (Wake cs) = 12 + length cs" | "left f x = 16 - rank x"

definition steps_left :: "('b, 'd) boot \<times> stage list \<Rightarrow> nat" where
  "steps_left = (\<lambda>(b, st). sum_list (map (left (MASTER_CPU b = - 1)) st))"

lemma sum_update: "i < length st \<Longrightarrow> sum_list (map g (st[i := y])) + g (st ! i) = sum_list (map g st) + (g y :: nat)"
proof (induction st arbitrary: i)
  case (Cons x st)
  then show ?case by (cases i) auto
qed simp

lemma sum_powered: "g Off = g Start \<or> (\<forall>cs. x \<noteq> Wake cs) \<Longrightarrow> sum_list (map g (powered n x st)) = (sum_list (map g st) :: nat)"
proof (cases n x st rule: powered_cases)
  case (2 j cs)
  assume "g Off = g Start \<or> (\<forall>cs. x \<noteq> Wake cs)"
  with 2 show ?thesis using sum_update [of j st g Start] by (cases "j < length st") (auto simp: list_update_beyond)
qed simp

lemma powered_own: "powered (of_nat i) (st ! i) st ! i = st ! i"
proof (cases "of_nat i :: usize" "st ! i" st rule: powered_cases)
  case (2 j cs)
  then have "j \<noteq> i" by auto
  with 2 show ?thesis by simp
qed simp

lemma sum_advance:
  assumes "i < length st" "g Off = g Start \<or> (\<forall>cs. st ! i \<noteq> Wake cs)"
  shows "sum_list (map g (advance f i st)) + g (st ! i) = sum_list (map g st) + (g (next_stage f (st ! i)) :: nat)"
  using sum_update [of i "powered (of_nat i) (st ! i) st" g "next_stage f (st ! i)"] sum_powered [OF assms(2)] assms(1) powered_own [of i st]
  by (simp add: advance_def)

lemma left_next: "x \<noteq> Off \<Longrightarrow> (\<And>p. x \<noteq> InGuest p) \<Longrightarrow> left f (next_stage f x) + 1 = left f x"
  by (cases "(f, x)" rule: next_stage.cases) (auto simp: MAX_CPU_NUM_def)

lemma left_claimed: "x \<noteq> Start \<Longrightarrow> left f x = left g x"
  by (cases x) auto

lemma steps_left_claim:
  assumes "roles_ok i0 (b, st)" "roles_ok i0 (b', advance True i0 st)" "i0 < 4" "length st = 4" "rank (st ! i0) \<le> 2"
  shows "steps_left (b', advance True i0 st) + 1 = steps_left (b, st)"
proof -
  have i0: "i0 < length st" using assms(3, 4) by simp
  have own: "advance True i0 st ! i0 = next_stage True (st ! i0)" by (rule advance_own [OF i0])
  have f: "MASTER_CPU b = - 1" "MASTER_CPU b' = - 1 \<longleftrightarrow> rank (next_stage True (st ! i0)) \<le> 2"
    using master_free [OF assms(1, 3)] master_free [OF assms(2, 3)] assms(5) own by simp_all
  have "st ! i0 = Start \<or> st ! i0 = Claim" using roles_okD(1) [OF assms(1)] assms(5) by (cases "st ! i0") auto
  then show ?thesis
  proof
    assume s: "st ! i0 = Start"
    with f sum_advance [OF i0, of "left True" True] show ?thesis by (simp add: steps_left_def)
  next
    assume s: "st ! i0 = Claim"
    have "st ! j \<noteq> Start" if "j < length st" for j
      using that roles_okD(4) [OF assms(1), of j] assms(4) s by (cases "j = i0") auto
    then have "x \<noteq> Start" if "x \<in> set st" for x using that by (auto simp: in_set_conv_nth)
    then have "map (left True) st = map (left False) st" by (intro map_cong refl left_claimed)
    with s f sum_advance [OF i0, of "left False" True] show ?thesis by (simp add: steps_left_def del: map_eq_conv)
  qed
qed

lemma steps_left_step:
  assumes "boot_inv pr i0 c" "boot_step E L mp c c'" "constant_range E mp pr"
  shows "steps_left c' + 1 = steps_left c"
  using assms(2, 3)
proof (rule boot_stepE)
  fix i b st b' assume c: "c = (b, st)" and i: "i < length st" "\<not> held (st ! i) b" and c': "c' = (b', advance (MASTER_CPU b = - 1) i st)"
  let ?f = "MASTER_CPU b = - 1" let ?t = "advance ?f i st"
  from assms(1) c have inv: "i0 < 4" "length st = 4" "roles_ok i0 (b, st)" by (simp_all add: boot_inv_def)
  from boot_inv_step [OF assms] c' have roles': "roles_ok i0 (b', ?t)" by (simp add: boot_inv_def)
  have nx: "left ?f (next_stage ?f (st ! i)) + 1 = left ?f (st ! i)" using i(2) by (intro left_next) auto
  show ?thesis
  proof (cases "rank (st ! i0) \<le> 2")
    case True
    then have "i = i0" using roles_okD(4) [OF inv(3)] i inv by force
    with steps_left_claim [OF inv(3) _ inv(1, 2) True] roles' master_free [OF inv(3, 1)] True show ?thesis by (simp add: c c')
  next
    case False
    then have "\<not> rank (?t ! i0) \<le> 2" using advance_rank [OF i(1), of i0 ?f] by simp
    with False master_free [OF inv(3, 1)] master_free [OF roles' inv(1)] have "\<not> ?f" "MASTER_CPU b' \<noteq> - 1" by simp_all
    with sum_advance [OF i(1), of "left False" False] nx show ?thesis by (simp add: steps_left_def c c')
  qed
qed

lemma reach_steps:
  assumes "boot_reach E L mp c0 k c" "boot_start i0 c0" "constant_range E mp pr"
  shows "steps_left c + k = steps_left c0"
  using assms
proof (induction rule: boot_reach.induct)
  case (more k c c')
  have "boot_inv pr i0 c" by (rule boot_inv_reach) fact+
  from steps_left_step [OF this more(2, 5)] more(3) [OF more(4, 5)] show ?case by simp
qed simp

lemma start_steps: "boot_start i0 c0 \<Longrightarrow> steps_left c0 = 58"
proof -
  assume c: "boot_start i0 c0"
  then have "i0 = 0 \<or> i0 = 1 \<or> i0 = 2 \<or> i0 = 3" by (auto simp: boot_start_def)
  with c show ?thesis by (cases c0) (auto simp: boot_start_def steps_left_def numeral_eq_Suc)
qed

text \<open>Of the CPUs that are not in a guest, one that is behind all others does not have to wait.\<close>

lemma least_rank:
  assumes "st \<noteq> []"
  obtains i where "i < length st" "\<And>x. x \<in> set st \<Longrightarrow> rank (st ! i) \<le> rank x"
proof -
  let ?m = "Min (rank ` set st)"
  have "?m \<in> rank ` set st" using assms by (intro Min_in) auto
  then obtain i where "i < length st" "rank (st ! i) = ?m" by (auto simp: in_set_conv_nth)
  with that [of i] show ?thesis by simp
qed

lemma behind_goes_on:
  assumes "boot_inv pr i0 (b, st)" "x \<in> set st" "rank x < 10"
  shows "\<exists>i < 4. rank (st ! i) < 10 \<and> \<not> held (st ! i) b"
proof -
  from assms(1) have inv: "i0 < 4" "length st = 4" "counts_ok pr (b, st)" "roles_ok i0 (b, st)" by (simp_all add: boot_inv_def)
  note d = roles_okD [OF inv(4)]
  show ?thesis
  proof (cases "rank (st ! i0) < 5")
    case True
    then have "\<not> held (st ! i0) b" using d(1) by (cases "st ! i0") auto
    with True inv(1) show ?thesis by force
  next
    case False
    obtain i where i: "i < length st" "\<And>x. x \<in> set st \<Longrightarrow> rank (st ! i) \<le> rank x" by (rule least_rank [of st]) (use inv(2) in auto)
    have all: "joined (rank (st ! i)) st = 4" using i(2) joined_all [of _ st] inv(2) by simp
    have lo: "rank (st ! i) < 10" using i(2) [OF assms(2)] assms(3) by simp
    have on: "st ! i \<noteq> Off" using d(5) False i(1) inv(2) by simp
    have "\<not> held (st ! i) b"
      using all on inv(3) lo by (cases "st ! i") (auto simp: counts_ok_def entered_cpus_def parange_pending_def MAX_CPU_NUM_def)
    with lo i(1) inv(2) show ?thesis by auto
  qed
qed

lemma somebody_goes_on:
  assumes "boot_inv pr i0 (b, st)"
  shows "(\<exists>i < 4. \<not> held (st ! i) b) \<or> (\<forall>x \<in> set st. rank x = 16)"
proof (cases "\<exists>x \<in> set st. rank x < 10")
  case True
  with behind_goes_on [OF assms] show ?thesis by blast
next
  case False
  from assms have inv: "i0 < 4" "length st = 4" "counts_ok pr (b, st)" "roles_ok i0 (b, st)" "flags_ok i0 (b, st)"
    by (simp_all add: boot_inv_def)
  obtain i where i: "i < length st" "\<And>x. x \<in> set st \<Longrightarrow> rank (st ! i) \<le> rank x" by (rule least_rank [of st]) (use inv(2) in auto)
  have all: "joined (rank (st ! i)) st = 4" using i(2) joined_all [of _ st] inv(2) by simp
  have own: "rank (st ! i) \<le> rank (st ! i0)" using i(2) inv(1, 2) by simp
  have first: "\<not> held (st ! i0) b" if "st ! i0 = Early p \<or> st ! i0 = Late p" for p using that roles_okD(2) [OF inv(4)] by auto
  have hi: "10 \<le> rank (st ! i)" using False nth_mem [OF i(1)] by (meson not_less)
  have flags: "INIT_EARLY_OK b = (if 11 \<le> rank (st ! i0) then 1 else 0)" "INIT_LATE_OK b = (if 15 \<le> rank (st ! i0) then 1 else 0)"
    using inv(5) unfolding flags_ok_def prod.case by blast+
  have early: "rank (st ! i0) = 10 \<Longrightarrow> \<exists>p. st ! i0 = Early p" "rank (st ! i0) = 14 \<Longrightarrow> \<exists>p. st ! i0 = Late p" by (cases "st ! i0"; simp)+
  have "\<not> held (st ! i) b \<or> \<not> held (st ! i0) b \<or> rank (st ! i) = 16"
  proof (cases "st ! i")
    case (Early p)
    then show ?thesis using own first flags early(1) by (cases "rank (st ! i0) = 10") auto
  next
    case (Late p)
    then show ?thesis using own first flags early(2) by (cases "rank (st ! i0) = 14") auto
  qed (use all hi inv(3) in \<open>auto simp: counts_ok_def MAX_CPU_NUM_def\<close>)
  moreover have "rank x \<le> 16" for x by (cases x) auto
  ultimately show ?thesis using i inv(1, 2) by (metis le_antisym)
qed

lemma left_guest: "left False x = 0 \<longleftrightarrow> rank x = 16"
  by (cases x) auto

lemma done_steps:
  assumes "boot_inv pr i0 (b, st)"
  shows "steps_left (b, st) = 0 \<longleftrightarrow> (\<forall>x \<in> set st. rank x = 16)"
proof -
  have inv: "roles_ok i0 (b, st)" "i0 < 4" "length st = 4" using assms by (simp_all add: boot_inv_def)
  show ?thesis
  proof (cases "MASTER_CPU b = - 1")
    case True
    then have r: "rank (st ! i0) \<le> 2" using master_free [OF inv(1, 2)] by simp
    moreover have "st ! i0 \<in> set st" using inv(2, 3) by simp
    moreover have "left True (st ! i0) \<noteq> 0" using r by (cases "st ! i0") auto
    ultimately show ?thesis using True by (auto simp: steps_left_def)
  next
    case False
    then show ?thesis by (simp add: steps_left_def left_guest)
  qed
qed

section \<open>A run to the second barrier\<close>

text \<open>Up to the early initialisation no stage can fail, so every CPU gets there.\<close>

lemma early_stage:
  fixes E :: "('b, 'd) env"
  assumes "cpus_wf E (hv b)" "\<And>c a x d. fst (psci_cpu_on E c a x d) = None" "rank x < 10" "unat n < 4" "\<And>p. x = EnterCheck p \<Longrightarrow> ENTERED_CPUS b = 4"
  shows "\<exists>y c. boot_stage E L me n x b = (Ok y, c) \<and> cpus_wf E (hv c)"
proof -
  have up: "update_cpu_data E n f (hv b) = (Ok (), (hv b)\<lparr>percpu := (percpu (hv b))[unat n := f (percpu (hv b) ! unat n)]\<rparr>)" for f
    using get_cpu_data_in [OF assms(1, 4)] by (simp add: update_cpu_data_def bindP_simps)
  have on: "\<exists>d'. psci_cpu_on E c a x d = (None, d')" for c a x d using assms(2) [of c a x d] by (cases "psci_cpu_on E c a x d") auto
  have start: "\<exists>d'. cpu_start E c a x (hv b) = (Ok (), (hv b)\<lparr>dev := d'\<rparr>)" for c a x
    using on [of "c OR 0x80000000" a x "dev (hv b)"] by (auto simp: cpu_start_def)
  show ?thesis
  proof (cases "(E, L, me, n, x)" rule: boot_stage.cases)
    case (6 E' L' me' n' c cs)
    with start [of c "arch_entry L" "host_dtb L"] assms(1) show ?thesis by (auto simp: in_hv_def bindP_def cpus_wf_def)
  qed (use assms up in \<open>auto simp: in_hv_def bindP_def cpus_wf_def install_trap_vector_def write_sysreg_def PerCpu_new_def
      parange_join_def read_sysreg_def Let_def rust_assert_def entered_cpus_def MAX_CPU_NUM_def split_beta\<close>)
qed

lemma next_early: "rank x < 10 \<Longrightarrow> rank (next_stage f x) \<le> 10"
  by (cases "(f, x)" rule: next_stage.cases) auto

lemma early_step:
  assumes "boot_inv pr i0 (b, st)" "constant_range E mp pr" "cpus_wf E (hv b)" "\<And>c a x d. fst (psci_cpu_on E c a x d) = None"
    and "x \<in> set st" "rank x < 10" "\<forall>x \<in> set st. rank x \<le> 10"
  shows "\<exists>b' st'. boot_step E L mp (b, st) (b', st') \<and> cpus_wf E (hv b') \<and> (\<forall>x \<in> set st'. rank x \<le> 10)"
proof -
  from assms(1) have inv: "length st = 4" "counts_ok pr (b, st)" "order_ok st" by (simp_all add: boot_inv_def)
  from behind_goes_on [OF assms(1, 5, 6)] obtain i where i: "i < 4" "rank (st ! i) < 10" "\<not> held (st ! i) b" by blast
  have check: "ENTERED_CPUS b = 4" if "st ! i = EnterCheck p" for p
  proof -
    have "joined 6 st = 4" using inv(1, 3) i(1) that nth_mem [of i st] by (auto simp: order_ok_def)
    with inv(2) show ?thesis by (simp add: counts_ok_def)
  qed
  have "unat (of_nat i :: usize) < 4" using i(1) by (simp add: unat_of_nat)
  from early_stage [OF assms(3, 4) i(2) this, of L "mp i"] check obtain y b' where
    y: "boot_stage E L (mp i) (of_nat i) (st ! i) b = (Ok y, b')" "cpus_wf E (hv b')" by auto
  have st: "boot_step E L mp (b, st) (b', advance (MASTER_CPU b = - 1) i st)"
    using boot_step.step [of i st b E L mp y b'] stage_moves [OF y(1), of "pr i"] assms(2) i y inv(1)
    by (simp add: advance_def constant_range_def)
  moreover have "rank (advance (MASTER_CPU b = - 1) i st ! j) \<le> 10" if "j < length st" for j
    using advance_other [of j i "MASTER_CPU b = - 1" st] next_early [OF i(2), of "MASTER_CPU b = - 1"] assms(7) that i(1) inv(1)
    by (cases "j = i") (auto simp: advance_own)
  ultimately show ?thesis using y(2) by (metis advance_length in_set_conv_nth)
qed

lemma reach_early:
  assumes "boot_start i0 c0" "constant_range E mp pr" "cpus_wf E (hv (fst c0))" "\<And>c a x d. fst (psci_cpu_on E c a x d) = None"
  obtains k b st where "boot_reach E L mp c0 k (b, st)" "\<forall>x \<in> set st. rank x = 10"
proof -
  have "\<exists>k b st. boot_reach E L mp c0 k (b, st) \<and> (\<forall>x \<in> set st. rank x = 10)"
    if "boot_reach E L mp c0 k (b, st)" "cpus_wf E (hv b)" "\<forall>x \<in> set st. rank x \<le> 10" "n = steps_left (b, st)" for n k b st
    using that
  proof (induction n arbitrary: k b st rule: less_induct)
    case (less n)
    have inv: "boot_inv pr i0 (b, st)" by (rule boot_inv_reach [OF less(2) assms(1, 2)])
    show ?case
    proof (cases "\<exists>x \<in> set st. rank x < 10")
      case True
      with early_step [OF inv assms(2) less(3) assms(4)] less(4) obtain b' st' where
        s: "boot_step E L mp (b, st) (b', st')" "cpus_wf E (hv b')" "\<forall>x \<in> set st'. rank x \<le> 10" by blast
      have "steps_left (b', st') < n" using steps_left_step [OF inv s(1) assms(2)] less(5) by simp
      from less(1) [OF this boot_reach.more [OF less(2) s(1)] s(2, 3)] show ?thesis by simp
    next
      case False
      with less(4) have "\<forall>x \<in> set st. rank x = 10" by (meson le_antisym not_less)
      with less(2) show ?thesis by blast
    qed
  qed
  moreover have "\<forall>x \<in> set (snd c0). rank x \<le> 10"
    using assms(1) set_update_subset_insert [of "replicate 4 Off" i0 Start] by (auto simp: boot_start_def)
  ultimately show ?thesis using boot_reach.here [of E L mp c0] assms(3) that by (metis prod.collapse)
qed

text \<open>A machine at power on, for examples: the identification register of each CPU has one value.\<close>

definition power_env :: "(usize list, regdev) env" where
  "power_env = (plain_env list_bits)\<lparr>mrs := (\<lambda>me r d. if r = ID_AA64MMFR0_EL1 then (2 + me, d) else plain_mrs me r d)\<rparr>"

definition power_layout :: layout where
  "power_layout = \<lparr>hyp_trap_vector = 0x40402000, arch_entry = 0x40400000, host_dtb = 0x40000000, plat = qemu_aarch64\<rparr>"

definition power_on :: "(usize list, regdev) boot" where
  "power_on = \<lparr>hv = bare_hv\<lparr>mem := \<lparr>falloc = FrameAllocator_empty list_bits, bytes = (\<lambda>_. 0)\<rparr>, EVENT_MANAGER := None, GIC := None,
       MIN_PARANGE := 7, PARANGE_OK_CPUS := 0\<rparr>, INITED_CPUS = 0, ENTERED_CPUS = 0, INIT_EARLY_OK = 0,
     INIT_LATE_OK = 0, MASTER_CPU = - 1, HV_ROOT_ZONE_CONFIG = None\<rparr>"

lemma power_on_start: "boot_start 1 (power_on, [Off, Start, Off, Off])"
  by (simp add: boot_start_def power_on_def numeral_eq_Suc)

lemma power_on_range: "constant_range power_env of_nat (\<lambda>i. (2 + of_nat i) AND 0xf)"
  by (simp add: constant_range_def power_env_def)

lemma power_on_early:
  obtains k b st where "boot_reach power_env power_layout of_nat (power_on, [Off, Start, Off, Off]) k (b, st)" "\<forall>x \<in> set st. rank x = 10"
proof (rule reach_early [OF power_on_start power_on_range])
  show "cpus_wf power_env (hv (fst (power_on, [Off, Start, Off, Off])))"
    using two_cpu_frames(2) [of list_bits] by (simp add: frames_wf_def cpus_wf_def power_env_def power_on_def plain_env_def)
  show "fst (psci_cpu_on power_env c a x d) = None" for c a x d by (simp add: power_env_def plain_env_def)
qed (rule that)

section \<open>Properties\<close>

text \<open>
  C11: the order of the start. Whichever way the four CPUs interleave, the CPU the machine starts on is the only primary one;
  a CPU is past the first barrier only if all have entered, past the second only if all have joined the common physical
  address range, which then is the least of theirs; it initialises itself only after the primary CPU made the root zone,
  and it starts a guest only when all CPUs are initialised and the primary one has done its late initialisation.
\<close>

theorem boot_order:
  assumes "boot_start i0 c0" and "constant_range E mp pr" and "boot_reach E L mp c0 k (b, st)" and "i < 4"
  shows "(primary (st ! i) \<longrightarrow> i = i0) \<and>
    (7 \<le> rank (st ! i) \<longrightarrow> ENTERED_CPUS b = 4 \<and> (\<forall>x \<in> set st. 6 \<le> rank x)) \<and>
    (10 \<le> rank (st ! i) \<longrightarrow> PARANGE_OK_CPUS (hv b) = 4 \<and> MIN_PARANGE (hv b) = Min (insert 7 (pr ` {..<4}))) \<and>
    (11 \<le> rank (st ! i) \<longrightarrow> INIT_EARLY_OK b = 1 \<and> 11 \<le> rank (st ! i0)) \<and>
    (14 \<le> rank (st ! i) \<longrightarrow> INITED_CPUS b = 4 \<and> (\<forall>x \<in> set st. 13 \<le> rank x)) \<and>
    (15 \<le> rank (st ! i) \<longrightarrow> INIT_LATE_OK b = 1 \<and> MASTER_CPU b = of_nat i0)"
proof -
  have "boot_inv pr i0 (b, st)" by (rule boot_inv_reach [OF assms(3, 1, 2)])
  then have inv: "length st = 4" "counts_ok pr (b, st)" "order_ok st" "roles_ok i0 (b, st)" "flags_ok i0 (b, st)"
    by (simp_all add: boot_inv_def)
  have mem: "st ! i \<in> set st" using assms(4) inv(1) by simp
  have o: "7 \<le> rank (st ! i) \<Longrightarrow> joined 6 st = 4" "10 \<le> rank (st ! i) \<Longrightarrow> joined 9 st = 4" "14 \<le> rank (st ! i) \<Longrightarrow> joined 13 st = 4"
    using inv(3) mem unfolding order_ok_def by blast+
  have all: "joined n st = 4 \<longleftrightarrow> (\<forall>x \<in> set st. n \<le> rank x)" for n using joined_all [of n st] inv(1) by simp
  have c: "ENTERED_CPUS b = of_nat (joined 6 st)" "PARANGE_OK_CPUS (hv b) = of_nat (joined 9 st)" "INITED_CPUS b = of_nat (joined 13 st)"
    "MIN_PARANGE (hv b) = ranges_of pr st" using inv(2) by (simp_all add: counts_ok_def)
  have fl: "11 \<le> rank (st ! i) \<Longrightarrow> 11 \<le> rank (st ! i0)" "15 \<le> rank (st ! i) \<Longrightarrow> 15 \<le> rank (st ! i0)"
    "INIT_EARLY_OK b = (if 11 \<le> rank (st ! i0) then 1 else 0)" "INIT_LATE_OK b = (if 15 \<le> rank (st ! i0) then 1 else 0)"
    using inv(5) mem unfolding flags_ok_def prod.case by blast+
  have "ranges_of pr st = Min (insert 7 (pr ` {..<4}))" if "joined 9 st = 4"
  proof -
    have "{j. j < length st \<and> 9 \<le> rank (st ! j)} = {..<4}" using that all [of 9] inv(1) by auto
    then show ?thesis by (simp only: ranges_of_def)
  qed
  with c(4) have range: "10 \<le> rank (st ! i) \<Longrightarrow> MIN_PARANGE (hv b) = Min (insert 7 (pr ` {..<4}))" using o(2) by simp
  show ?thesis
  proof (intro conjI impI)
    show "i = i0" if "primary (st ! i)" using that roles_okD(3) [OF inv(4) assms(4)] by blast
    show "MASTER_CPU b = of_nat i0" if "15 \<le> rank (st ! i)" using fl(2) [OF that] roles_okD(7) [OF inv(4)] by simp
  qed (use o c fl range in \<open>simp_all add: all [symmetric]\<close>)
qed

theorem boot_order_witness:
  "\<exists>k b st. boot_reach power_env power_layout of_nat (power_on, [Off, Start, Off, Off]) k (b, st) \<and> rank (st ! 3) = 10 \<and>
     ENTERED_CPUS b = 4 \<and> MIN_PARANGE (hv b) = 2"
proof -
  obtain k b st where r: "boot_reach power_env power_layout of_nat (power_on, [Off, Start, Off, Off]) k (b, st)"
    and st: "\<forall>x \<in> set st. rank x = 10" by (rule power_on_early)
  have "length st = 4" using boot_inv_reach [OF r power_on_start power_on_range] by (simp add: boot_inv_def)
  with st have "rank (st ! 3) = 10" by simp
  moreover have "Min (insert 7 ((\<lambda>i. (2 + of_nat i :: u64) AND 0xf) ` {..<4})) = 2"
  proof -
    have "{..<4} = {0, 1, 2, 3 :: nat}" by auto
    then show ?thesis by simp
  qed
  ultimately show ?thesis using boot_order [OF power_on_start power_on_range r, of 3] r by (intro exI [of _ k] exI [of _ b] exI [of _ st]) simp
qed

text \<open>
  C12: the start does not deadlock. Whichever way the four CPUs interleave, they take at most 58 steps together, they have
  taken 58 exactly if all four are in a guest, and before that some CPU does not have to wait: unless its next stage fails,
  it makes a step.
\<close>

theorem boot_progress:
  assumes "boot_start i0 c0" and "constant_range E mp pr" and "boot_reach E L mp c0 k (b, st)"
  shows "k \<le> 58 \<and> (k = 58 \<longleftrightarrow> (\<forall>x \<in> set st. rank x = 16)) \<and>
    (k < 58 \<longrightarrow> (\<exists>i < 4. \<not> held (st ! i) b \<and>
       (\<forall>x b'. boot_stage E L (mp i) (of_nat i) (st ! i) b = (Ok x, b') \<longrightarrow> (\<exists>c'. boot_reach E L mp c0 (Suc k) c'))))"
proof -
  have inv: "boot_inv pr i0 (b, st)" by (rule boot_inv_reach [OF assms(3, 1, 2)])
  then have len: "length st = 4" by (simp add: boot_inv_def)
  have k: "steps_left (b, st) + k = 58" using reach_steps [OF assms(3, 1, 2)] start_steps [OF assms(1)] by simp
  then have fin: "k = 58 \<longleftrightarrow> (\<forall>x \<in> set st. rank x = 16)" using done_steps [OF inv] by linarith
  have "\<exists>i < 4. \<not> held (st ! i) b" if "k < 58" using somebody_goes_on [OF inv] fin that by blast
  moreover have "\<exists>c'. boot_reach E L mp c0 (Suc k) c'"
    if "i < 4" "\<not> held (st ! i) b" "boot_stage E L (mp i) (of_nat i) (st ! i) b = (Ok x, b')" for i x b'
    using boot_step.step [of i st b E L mp x b'] that len boot_reach.more [OF assms(3)] by auto
  ultimately show ?thesis using k fin by (metis le_add2)
qed

theorem boot_progress_witness:
  "\<exists>k b st. boot_reach power_env power_layout of_nat (power_on, [Off, Start, Off, Off]) k (b, st) \<and> k < 58 \<and> (\<exists>i < 4. \<not> held (st ! i) b)"
proof -
  obtain k b st where r: "boot_reach power_env power_layout of_nat (power_on, [Off, Start, Off, Off]) k (b, st)"
    and st: "\<forall>x \<in> set st. rank x = 10" by (rule power_on_early)
  have "length st = 4" using boot_inv_reach [OF r power_on_start power_on_range] by (simp add: boot_inv_def)
  then have "st ! 0 \<in> set st" by simp
  with st have "\<not> (\<forall>x \<in> set st. rank x = 16)" by auto
  with boot_progress [OF power_on_start power_on_range r] r show ?thesis by (metis le_neq_implies_less)
qed

end
