(* ===== verification/Hv_RootZone.thy ===== *)
theory Hv_RootZone
  imports Hv_BootSpec
begin

text \<open>
  The early initialisation on the primary CPU: with the configuration of either aarch64 platform the frame pool, the
  event queues, the interrupt controller and the root zone are set up, and the root zone sees exactly the
  regions of the platform.
\<close>

section \<open>Platform configurations\<close>

definition aarch64_platforms :: "platform list" where
  "aarch64_platforms = [qemu_aarch64, imx8mp_aarch64]"

definition platform_gic :: "platform \<Rightarrow> Gic" where
  "platform_gic p = \<lparr>host_gicd = gicd_base (ROOT_ARCH_ZONE_CONFIG p), host_gicr = gicr_base (ROOT_ARCH_ZONE_CONFIG p),
     host_gicd_sz = gicd_size (ROOT_ARCH_ZONE_CONFIG p), host_gicr_sz = gicr_size (ROOT_ARCH_ZONE_CONFIG p)\<rparr>"

lemmas platform_defs = aarch64_platforms_def qemu_aarch64_def imx8mp_aarch64_def mem_region_def MEM_TYPE_RAM_def MEM_TYPE_IO_def MEM_TYPE_VIRTIO_def

lemma aarch64_sizes: "p \<in> set aarch64_platforms \<Longrightarrow> length (ROOT_ZONE_MEMORY_REGIONS p) \<le> CONFIG_MAX_MEMORY_REGIONS \<and>
    length (ROOT_ZONE_IRQS p) \<le> CONFIG_MAX_INTERRUPTS"
  by (auto simp: platform_defs CONFIG_MAX_MEMORY_REGIONS_def CONFIG_MAX_INTERRUPTS_def)

lemma root_config_good:
  assumes "p \<in> set aarch64_platforms" "PARANGE_OK_CPUS s = 4" "unat (MIN_PARANGE s) < 6" "GIC s = Some (platform_gic p)"
  obtains c where "platform_root_zone_config p = Ok c" "zone_id c = 0" "cfg_cpus c = 3" "arch c = ROOT_ARCH_ZONE_CONFIG p"
    "config_good s (platform_gic p) c (ROOT_ZONE_MEMORY_REGIONS p) (ROOT_ZONE_IRQS p)"
proof -
  have n: "length (ROOT_ZONE_MEMORY_REGIONS p) \<le> CONFIG_MAX_MEMORY_REGIONS" "length (ROOT_ZONE_IRQS p) \<le> CONFIG_MAX_INTERRUPTS"
    using aarch64_sizes [OF assms(1)] by simp_all
  obtain c where c: "platform_root_zone_config p = Ok c" "config_wf c"
    "memory_regions c = Ok (ROOT_ZONE_MEMORY_REGIONS p)" "interrupts c = Ok (ROOT_ZONE_IRQS p)" by (rule root_config_regions [OF n])
  have f: "zone_id c = 0" "cfg_cpus c = 3" "dtb_load_paddr c = 0xa0000000" "arch c = ROOT_ARCH_ZONE_CONFIG p"
    using c(1) n by (auto simp: platform_root_zone_config_def fill_prefix_def ROOT_ZONE_CPUS_def ROOT_ZONE_DTB_ADDR_def)
  have lim: "2 ^ 39 \<le> s2_limit s" by (simp add: s2_limit_def)
  have "\<forall>r \<in> set (ROOT_ZONE_MEMORY_REGIONS p). region_good (s2_limit s) r \<and>
        (dtb_in (dtb_load_paddr c) r \<longrightarrow> unat (virtual_start r) + unat (dtb_load_paddr c) < 2 ^ 64)"
    using assms(1) lim f(3) by (auto simp: platform_defs region_good_def  is_aligned_iff dtb_in_def)
  moreover have "regions_apart (ROOT_ZONE_MEMORY_REGIONS p)"
    using assms(1) by (auto simp: platform_defs regions_apart_def  disjoint_regions_def)
  moreover have "\<forall>irq \<in> set (ROOT_ZONE_IRQS p). irq < 1024"
    using assms(1) by (auto simp: platform_defs)
  moreover have "unat (if gicr_base (arch c) = 0 then host_gicr (platform_gic p) else gicr_base (arch c)) + 0x80000 < 2 ^ 64"
    using assms(1) f(4) by (auto simp: platform_defs platform_gic_def)
  moreover have "distinct (mmio_starts (map virtio_config (filter is_virtio (ROOT_ZONE_MEMORY_REGIONS p)) @ gic_configs (platform_gic p) (arch c)))"
  proof -
    have "map of_nat [0..<4] = [0, 1, 2, 3 :: usize]" by (simp add: upt_rec)
    then show ?thesis using assms(1) f(4) by (auto simp: platform_defs platform_gic_def gic_configs_def gicr_config_def PER_GICR_SIZE_def)
  qed
  ultimately have "config_good s (platform_gic p) c (ROOT_ZONE_MEMORY_REGIONS p) (ROOT_ZONE_IRQS p)"
    using c(3, 4) assms(2-4) f(2) by (simp add: config_good_def)
  with c(1) f that show thesis by blast
qed

section \<open>Early initialisation\<close>

text \<open>The statics as they are before any zone exists, with all CPUs past the barrier of the address ranges.\<close>

definition fresh_boot :: "('b, 'd) env \<Rightarrow> ('b, 'd) boot \<Rightarrow> bool" where
  "fresh_boot E b \<longleftrightarrow> cpus_wf E (hv b) \<and> falloc (mem (hv b)) = FrameAllocator_empty (bits E) \<and> zone_heap (hv b) = [] \<and> ZONE_LIST (hv b) = [] \<and>
     (\<forall>i < 4. zone (percpu (hv b) ! i) = None) \<and> EVENT_MANAGER (hv b) = None \<and> GIC (hv b) = None \<and> PARKING_MEMORY_SET (hv b) = None \<and>
     PARANGE_OK_CPUS (hv b) = 4 \<and> unat (MIN_PARANGE (hv b)) < 6 \<and> HV_ROOT_ZONE_CONFIG b = None"

lemma pool_ready:
  assumes "bit_alloc A" "is_aligned ce" "unat ce + 0x200000 + 2 ^ 32 \<le> 2 ^ 48" "falloc s = FrameAllocator_empty A"
  obtains t u where "frame_init A ce s = (Ok (), t)" "frame_test A t = (Ok (), u)" "falloc_ok A (falloc u)" "bytes u = bytes s"
proof -
  from frame_init_pool [OF assms] obtain t where t: "frame_init A ce s = (Ok (), t)" "falloc_ok A (falloc t)" "bytes t = bytes s"
    "\<And>p. frame_free A (falloc t) p \<longleftrightarrow> is_aligned p \<and> unat ce + 0x200000 \<le> unat p \<and> unat p < unat ce + 0x1200000" by blast
  let ?f = "\<lambda>k. ce + 0x200000 + of_nat (4096 * k)"
  have u: "unat (?f k) = unat ce + 0x200000 + 4096 * k" if "k < 5" for k
  proof -
    have "unat (ce + 0x200000) = unat ce + 0x200000" using assms(3) by (subst unat_add_exact) auto
    moreover have "unat (of_nat (4096 * k) :: usize) = 4096 * k" using that by (intro unat_of_nat_exact) simp
    ultimately show ?thesis using assms(3) that by (subst unat_add_exact) auto
  qed
  have "?f ` {..<5} \<subseteq> Collect (frame_free A (falloc t))"
    using assms(2) u by (auto simp: t(4) is_aligned_iff mod_add_eq)
  moreover have "inj_on ?f {..<5}" by (rule inj_onI) (metis u add_left_cancel lessThan_iff mult_cancel1 zero_neq_numeral)
  then have "card (?f ` {..<5}) = 5" by (simp add: card_image)
  moreover have "finite (Collect (frame_free A (falloc t)))" by simp
  ultimately have "5 \<le> card (Collect (frame_free A (falloc t)))" by (metis card_mono)
  from frame_test_ok [OF assms(1) t(2) this] t that show thesis by metis
qed

lemma root_config_runs:
  assumes "platform_root_zone_config (plat L) = Ok c" "HV_ROOT_ZONE_CONFIG b \<in> {None, Some c}"
  shows "root_zone_config L b = (Ok c, b\<lparr>HV_ROOT_ZONE_CONFIG := Some c\<rparr>)"
  using assms by (auto simp: root_zone_config_def config_init_def bindP_def split: option.splits)

text \<open>The state in which the primary CPU creates the root zone.\<close>

definition before_root :: "platform \<Rightarrow> 'b pmem \<Rightarrow> ('b, 'd) hv \<Rightarrow> ('b, 'd) hv" where
  "before_root p m s = s\<lparr>mem := m, EVENT_MANAGER := Some (EventManager_new MAX_CPU_NUM), GIC := Some (platform_gic p)\<rparr>"

lemma early_runs:
  assumes "bit_alloc (bits E)" "is_aligned (core_end E)" "unat (core_end E) + 0x200000 + 2 ^ 32 \<le> 2 ^ 48" "fresh_boot E b"
    and "plat L \<in> set aarch64_platforms"
  obtains m c where "primary_init_early E L b = bindP (in_hv (unwrapP (zone_create E c))) (\<lambda>_. modifyP (\<lambda>b. b\<lparr>INIT_EARLY_OK := 1\<rparr>))
      (b\<lparr>hv := before_root (plat L) m (hv b), HV_ROOT_ZONE_CONFIG := Some c\<rparr>)"
    "hv_ok E (before_root (plat L) m (hv b))" "zone_id c = 0" "cfg_cpus c = 3"
    "config_good (before_root (plat L) m (hv b)) (platform_gic (plat L)) c (ROOT_ZONE_MEMORY_REGIONS (plat L)) (ROOT_ZONE_IRQS (plat L))"
proof -
  note F = assms(4) [unfolded fresh_boot_def]
  obtain t m where t: "frame_init (bits E) (core_end E) (mem (hv b)) = (Ok (), t)" "frame_test (bits E) t = (Ok (), m)" "falloc_ok (bits E) (falloc m)"
    using pool_ready [OF assms(1-3)] F by metis
  let ?s = "before_root (plat L) m (hv b)"
  obtain c where c: "platform_root_zone_config (plat L) = Ok c" "zone_id c = 0" "cfg_cpus c = 3" "arch c = ROOT_ARCH_ZONE_CONFIG (plat L)"
    "config_good ?s (platform_gic (plat L)) c (ROOT_ZONE_MEMORY_REGIONS (plat L)) (ROOT_ZONE_IRQS (plat L))"
    by (rule root_config_good [OF assms(5), of ?s]) (use F in \<open>simp_all add: before_root_def\<close>)
  have "hv_ok E ?s" using F t(3) by (auto simp: hv_ok_def before_root_def live_sets_def sets_ok_def zone_at_def cpus_wf_def)
  moreover have "primary_init_early E L b = bindP (in_hv (unwrapP (zone_create E c))) (\<lambda>_. modifyP (\<lambda>b. b\<lparr>INIT_EARLY_OK := 1\<rparr>))
      (b\<lparr>hv := ?s, HV_ROOT_ZONE_CONFIG := Some c\<rparr>)"
    using F t(1, 2) by (simp add: primary_init_early_def in_hv_def with_mem_def bindP_simps root_config_runs [OF c(1)] event_init_def
      gic_primary_init_early_def before_root_def platform_gic_def c(4))
  ultimately show thesis using that c(2, 3, 5) by blast
qed

lemma root_cpus: "{i. bit (3 :: u64) i} = {0, 1}"
proof -
  have "(3 :: u64) = mask 2" by (simp add: mask_eq_exp_minus_1)
  then have b: "bit (3 :: u64) i \<longleftrightarrow> i < 2" for i by (simp only: bit_mask_iff) auto
  show ?thesis unfolding b by auto
qed

section \<open>Property\<close>

text \<open>
  C13: on either aarch64 platform the early initialisation of the primary CPU leaves a machine whose invariant holds, with one empty
  event queue for each CPU and one zone, the root zone. The root zone's page tables translate exactly the regions of
  the platform and its interrupts are those of the platform. The only other end is the panic for want of a frame.
\<close>

theorem early_creates_root:
  assumes "bit_alloc (bits E)" and "is_aligned (core_end E)" and "unat (core_end E) + 0x200000 + 2 ^ 32 \<le> 2 ^ 48" and "fresh_boot E b"
    and "plat L \<in> set aarch64_platforms"
  shows "(\<exists>c zn. primary_init_early E L b = (Ok (), c) \<and> INIT_EARLY_OK c = 1 \<and> hv_ok E (hv c) \<and> ZONE_LIST (hv c) = [0] \<and>
      EVENT_MANAGER (hv c) = Some (replicate 4 []) \<and> zone_at (hv c) 0 = Some zn \<and> zid zn = 0 \<and> zone_irqs zn = unat ` set (ROOT_ZONE_IRQS (plat L)) \<and>
      members (cpu_set zn) = {0, 1} \<and>
      (\<forall>v. unat v < s2_limit (hv b) \<longrightarrow> translation (sees (mem (hv c)) (gpm zn) v) = config_maps (ROOT_ZONE_MEMORY_REGIONS (plat L)) v)) \<or>
    (\<exists>c. primary_init_early E L b = (Panic, c) \<and> (\<forall>q. \<not> frame_free (bits E) (falloc (mem (hv c))) q))"
proof -
  note F = assms(4) [unfolded fresh_boot_def]
  obtain m c where run: "primary_init_early E L b = bindP (in_hv (unwrapP (zone_create E c))) (\<lambda>_. modifyP (\<lambda>b. b\<lparr>INIT_EARLY_OK := 1\<rparr>))
      (b\<lparr>hv := before_root (plat L) m (hv b), HV_ROOT_ZONE_CONFIG := Some c\<rparr>)" and ok: "hv_ok E (before_root (plat L) m (hv b))" and id: "zone_id c = 0" "cfg_cpus c = 3"
    and good: "config_good (before_root (plat L) m (hv b)) (platform_gic (plat L)) c (ROOT_ZONE_MEMORY_REGIONS (plat L)) (ROOT_ZONE_IRQS (plat L))"
    by (rule early_runs [OF assms])
  let ?s = "before_root (plat L) m (hv b)"
  have old: "zone_heap ?s = []" "ZONE_LIST ?s = []" "s2_limit ?s = s2_limit (hv b)" "EVENT_MANAGER ?s = Some (replicate 4 [])"
    using F by (simp_all add: before_root_def s2_limit_def s2_level_def EventManager_new_def MAX_CPU_NUM_def)
  have fresh: "\<forall>z \<in> set (ZONE_LIST ?s). zid (the (zone_at ?s z)) \<noteq> ucast (zone_id c)" using old by simp
  show ?thesis
  proof (cases rule: zone_create_run [OF assms(1) ok good fresh])
    case (1 m' zn ps f)
    let ?t = "?s\<lparr>mem := m', zone_heap := zone_heap ?s @ [Some zn], percpu := ps, ZONE_LIST := ZONE_LIST ?s @ [length (zone_heap ?s)]\<rparr>"
    have t: "hv_ok E ?t" "zone_at ?t 0 = Some zn"
      using hv_ok_created(1, 3) [OF ok 1(2, 6) _ 1(11), of f "entry_point c"] 1(7, 9, 12) old fresh by auto
    moreover have "translation (sees (mem ?t) (gpm zn) v) = config_maps (ROOT_ZONE_MEMORY_REGIONS (plat L)) v" if "unat v < s2_limit (hv b)" for v
      using set_ok_sees [OF assms(1) sets_okD(2) [OF 1(2)], of "gpm zn" v] that 1(4, 5) old(3) by simp
    moreover have "config_cpus c = {0, 1}" using id(2) root_cpus by (simp add: config_cpus_def)
    moreover have "primary_init_early E L b = (Ok (), b\<lparr>hv := ?t, HV_ROOT_ZONE_CONFIG := Some c, INIT_EARLY_OK := 1\<rparr>)"
      using 1(1) by (simp add: run in_hv_def unwrapP_def bindP_def)
    ultimately show ?thesis using 1(7-9) id(1) old by (intro disjI1 exI [of _ "b\<lparr>hv := ?t, HV_ROOT_ZONE_CONFIG := Some c, INIT_EARLY_OK := 1\<rparr>"] exI [of _ zn]) simp
  next
    case (2 t)
    then show ?thesis by (simp add: run in_hv_def unwrapP_def bindP_def)
  qed
qed

theorem early_creates_root_witness:
  "(\<exists>c zn. primary_init_early power_env power_layout (power_on\<lparr>hv := (hv power_on)\<lparr>MIN_PARANGE := 2, PARANGE_OK_CPUS := 4\<rparr>\<rparr>) = (Ok (), c) \<and>
      ZONE_LIST (hv c) = [0] \<and> zone_at (hv c) 0 = Some zn \<and> translation (sees (mem (hv c)) (gpm zn) 0x9000010) = Some (0x9000010, READ OR WRITE OR IO)) \<or>
    (\<exists>c. primary_init_early power_env power_layout (power_on\<lparr>hv := (hv power_on)\<lparr>MIN_PARANGE := 2, PARANGE_OK_CPUS := 4\<rparr>\<rparr>) = (Panic, c) \<and>
      (\<forall>q. \<not> frame_free list_bits (falloc (mem (hv c))) q))"
proof -
  let ?b = "power_on\<lparr>hv := (hv power_on)\<lparr>MIN_PARANGE := 2, PARANGE_OK_CPUS := 4\<rparr>\<rparr>"
  have E: "bits power_env = list_bits" "core_end power_env = 0x40600000" by (simp_all add: power_env_def plain_env_def)
  have "cpus_wf power_env (hv ?b)" using two_cpu_frames(2) [of list_bits] by (simp add: frames_wf_def cpus_wf_def power_env_def power_on_def plain_env_def)
  moreover have "zone (percpu bare_hv ! i) = None" if "i < 4" for i
  proof -
    have "i = 0 \<or> i = 1 \<or> i = 2 \<or> i = 3" using that by auto
    then show ?thesis by (auto simp: bare_hv_def)
  qed
  ultimately have fresh: "fresh_boot power_env ?b" by (simp add: fresh_boot_def power_on_def E) (simp add: bare_hv_def)
  have "config_maps (ROOT_ZONE_MEMORY_REGIONS qemu_aarch64) 0x9000010 = Some (0x9000010, READ OR WRITE OR IO)"
    by (simp add: config_maps_def in_region_def) (simp add: platform_defs region_flags_def norm_flags_def MemFlags_defs)
  moreover have "unat (0x9000010 :: usize) < s2_limit (hv ?b)" by (simp add: s2_limit_def)
  moreover have p: "plat power_layout = qemu_aarch64" "qemu_aarch64 \<in> set aarch64_platforms" by (simp_all add: power_layout_def aarch64_platforms_def)
  moreover have "bit_alloc (bits power_env)" "is_aligned (core_end power_env)" "unat (core_end power_env) + 0x200000 + 2 ^ 32 \<le> 2 ^ 48"
    using list_bits.bit_alloc_axioms by (simp_all add: E is_aligned_iff)
  ultimately show ?thesis using early_creates_root [OF _ _ _ fresh, of power_layout] unfolding p(1) E(1) by force
qed

end
