(* ===== verification/Hv_Layout.thy ===== *)
theory Hv_Layout
  imports Hv_Cpu
begin

text \<open>
  The memory behind the hypervisor's image, as \<open>consts.rs\<close>, \<open>percpu.rs\<close>, \<open>arch/aarch64/cpu.rs\<close> and \<open>memory/frame.rs\<close>
  compute it: one area per CPU, with the \<open>PerCpu\<close> data at its start and the stack and the register frame
  at its end, then the pool of frames. The computations are independent of each other in the source; here they are shown to fit together.
\<close>

lemma cpu_data_addr_run:
  assumes "unat (core_end E) + 0x200000 < 2 ^ 64" "unat i \<le> 4"
  shows "\<exists>a. cpu_data_addr E i = Ok a \<and> unat a = unat (core_end E) + unat i * 524288"
proof -
  have m: "unat (i * PER_CPU_SIZE) = unat i * 524288" using assms(2) by (subst unat_mul_exact) (simp_all add: PER_CPU_SIZE_def)
  have "unat (core_end E + i * PER_CPU_SIZE) = unat (core_end E) + unat i * 524288" using assms m by (subst unat_add_exact) simp_all
  moreover have "cpu_data_addr E i = Ok (core_end E + i * PER_CPU_SIZE)"
    using assms m by (simp add: cpu_data_addr_def mul_chk_def add_chk_def PER_CPU_SIZE_def)
  ultimately show ?thesis by blast
qed

lemma stack_top_next:
  assumes "unat (cpuid c) < 4"
  shows "stack_top E c = cpu_data_addr E (cpuid c + 1)"
proof -
  have "add_chk (cpuid c) 1 = (Ok (cpuid c + 1) :: (HvErrorNum, usize) outcome)" using assms by (simp add: add_chk_def)
  then show ?thesis by (simp add: stack_top_def cpu_data_addr_def)
qed

text \<open>
  C27: for two different CPUs and a page aligned image, no computation overflows; the areas of the CPUs are disjoint, each ends in the
  stack of its CPU, they lie behind the image and before the pool, and every frame the allocator has is inside the pool. So no
  frame of a page table or of a guest's data is on a stack, in the data of a CPU or in the image.
\<close>

theorem layout_disjoint:
  assumes "bit_alloc (bits E)" and "is_aligned (core_end E)" and "unat (core_end E) + 0x200000 + 2 ^ 32 \<le> 2 ^ 48"
    and "falloc s = FrameAllocator_empty (bits E)" and "unat (cpuid c) < unat (cpuid d)" and "unat (cpuid d) < 4"
  shows "\<exists>c_data c_top d_data d_top pool_start pool_end t.
    cpu_data_addr E (cpuid c) = Ok c_data \<and> stack_top E c = Ok c_top \<and> cpu_data_addr E (cpuid d) = Ok d_data \<and> stack_top E d = Ok d_top \<and>
    (mem_pool_start (core_end E) :: (HvErrorNum, usize) outcome) = Ok pool_start \<and> (hv_end (core_end E) :: (HvErrorNum, usize) outcome) = Ok pool_end \<and>
    frame_init (bits E) (core_end E) s = (Ok (), t) \<and>
    unat (core_end E) \<le> unat c_data \<and> unat c_top = unat c_data + unat PER_CPU_SIZE \<and> unat c_top \<le> unat d_data \<and>
    unat d_top = unat d_data + unat PER_CPU_SIZE \<and> unat d_top \<le> unat pool_start \<and>
    (\<forall>p. frame_free (bits E) (falloc t) p \<longrightarrow> unat pool_start \<le> unat p \<and> unat p + unat PAGE_SIZE \<le> unat pool_end)"
proof -
  have le: "unat (core_end E) + 0x200000 < 2 ^ 64" "unat (core_end E) + 0x1200000 < 2 ^ 64" using assms(3) by simp_all
  have suc: "unat (cpuid c + 1) = unat (cpuid c) + 1" "unat (cpuid d + 1) = unat (cpuid d) + 1" using assms(5,6) by (simp_all add: unat_add_exact)
  obtain cd where cd: "cpu_data_addr E (cpuid c) = Ok cd" "unat cd = unat (core_end E) + unat (cpuid c) * 524288"
    using cpu_data_addr_run [OF le(1), of "cpuid c"] assms(5,6) by auto
  obtain dd where dd: "cpu_data_addr E (cpuid d) = Ok dd" "unat dd = unat (core_end E) + unat (cpuid d) * 524288"
    using cpu_data_addr_run [OF le(1), of "cpuid d"] assms(6) by auto
  obtain ct where ct: "stack_top E c = Ok ct" "unat ct = unat (core_end E) + (unat (cpuid c) + 1) * 524288"
    using cpu_data_addr_run [OF le(1), of "cpuid c + 1"] assms(5,6) suc by (auto simp: stack_top_next)
  obtain dt where dt: "stack_top E d = Ok dt" "unat dt = unat (core_end E) + (unat (cpuid d) + 1) * 524288"
    using cpu_data_addr_run [OF le(1), of "cpuid d + 1"] assms(6) suc by (auto simp: stack_top_next)
  have ps: "(mem_pool_start (core_end E) :: (HvErrorNum, usize) outcome) = Ok (core_end E + 0x200000)"
    "unat (core_end E + 0x200000) = unat (core_end E) + 0x200000"
    using le by (simp_all add: mem_pool_start_def mul_chk_def add_chk_def MAX_CPU_NUM_def PER_CPU_SIZE_def unat_add_exact)
  have he: "(hv_end (core_end E) :: (HvErrorNum, usize) outcome) = Ok (core_end E + 0x1200000)"
    "unat (core_end E + 0x1200000) = unat (core_end E) + 0x1200000"
    using le ps by (simp_all add: hv_end_def add_chk_def HV_MEM_POOL_SIZE_def unat_add_exact add.assoc)
  from frame_init_pool [OF assms(1-4)] obtain t where t: "frame_init (bits E) (core_end E) s = (Ok (), t)"
    and free: "\<And>p. frame_free (bits E) (falloc t) p \<Longrightarrow>
      is_aligned p \<and> unat (core_end E) + 0x200000 \<le> unat p \<and> unat p < unat (core_end E) + 0x1200000" by blast
  obtain b where b: "unat (core_end E) = 4096 * b" using assms(2) by (auto simp: is_aligned_iff mod_eq_0_iff_dvd)
  have inside: "unat (core_end E) + 0x200000 \<le> unat p \<and> unat p + 4096 \<le> unat (core_end E) + 0x1200000"
    if fp: "frame_free (bits E) (falloc t) p" for p
  proof -
    obtain a where "unat p = 4096 * a" using free [OF fp] by (auto simp: is_aligned_iff mod_eq_0_iff_dvd)
    moreover from this have "4096 * a < 4096 * (b + 4608)" using free [OF fp] b by simp
    then have "a + 1 \<le> b + 4608" by simp
    then have "4096 * (a + 1) \<le> 4096 * (b + 4608)" by (rule mult_le_mono2)
    ultimately show ?thesis using free [OF fp] b by simp
  qed
  have "unat (cpuid c) * 524288 + 524288 \<le> unat (cpuid d) * 524288" "unat (cpuid d) * 524288 + 524288 \<le> 0x200000" using assms(5,6) by simp_all
  then show ?thesis
    using cd ct dd dt ps he t inside by (simp add: PER_CPU_SIZE_def PAGE_SIZE_def)
qed

theorem layout_disjoint_witness:
  "\<exists>t. frame_init list_bits 0x40600000 \<lparr>falloc = FrameAllocator_empty list_bits, bytes = (\<lambda>_. 0)\<rparr> = (Ok (), t) \<and>
     \<not> frame_free list_bits (falloc t) 0x40680000"
proof -
  let ?E = "plain_env list_bits" and ?s = "\<lparr>falloc = FrameAllocator_empty list_bits, bytes = (\<lambda>_. 0)\<rparr>"
  let ?c = "\<lparr>cpuid = 0, psci_on = False\<rparr>" and ?d = "\<lparr>cpuid = 1, psci_on = False\<rparr>"
  have h: "bit_alloc (bits ?E)" "is_aligned (core_end ?E)" "unat (core_end ?E) + 0x200000 + 2 ^ 32 \<le> 2 ^ 48" "falloc ?s = FrameAllocator_empty (bits ?E)"
    "unat (cpuid ?c) < unat (cpuid ?d)" "unat (cpuid ?d) < 4"
    using list_bits.bit_alloc_axioms by (simp_all add: plain_env_def is_aligned_iff)
  show ?thesis using layout_disjoint [OF h]
  proof (elim exE conjE)
    fix d_data d_top ps pe t
    assume "cpu_data_addr ?E (cpuid ?d) = Ok d_data" "unat d_top = unat d_data + unat PER_CPU_SIZE" "unat d_top \<le> unat ps"
      and t: "frame_init (bits ?E) (core_end ?E) ?s = (Ok (), t)"
      and free: "\<forall>p. frame_free (bits ?E) (falloc t) p \<longrightarrow> unat ps \<le> unat p \<and> unat p + unat PAGE_SIZE \<le> unat pe"
    then have "unat (0x40700000 :: usize) \<le> unat ps" by (auto simp: cpu_data_addr_def mul_chk_def add_chk_def plain_env_def PER_CPU_SIZE_def)
    with free have "\<not> frame_free list_bits (falloc t) 0x40680000" by (auto simp: plain_env_def)
    with t show ?thesis by (simp add: plain_env_def)
  qed
qed

end
