(* ===== verification/Hv_Switch.thy ===== *)
theory Hv_Switch
  imports Hv_Layout
begin

unbundle bit_operations_syntax

text \<open>
  The assembly code around a guest's exit: \<open>handle_vmexit\<close> of \<open>arch/aarch64/trap.S\<close>, which saves the
  guest's registers on the stack of the CPU, and \<open>vmreturn\<close> of \<open>arch/aarch64/trap.rs\<close>, which loads them and returns to the
  guest. The other theories rely on this: for them the register frame of a CPU is a \<open>GeneralRegisters\<close> at a fixed place of its stack.
  The instructions act on the general registers, the stack pointer and system registers of EL2, and on memory.
\<close>

section \<open>Instructions\<close>

datatype el2_reg = Mpidr_el1 | Ttbr0_el2 | Mair_el2 | Tcr_el2 | Sctlr_el2

record a64 =
  xr :: "u64 list"
  sp :: u64
  el2 :: "el2_reg \<Rightarrow> u64"
  ram :: phys_mem

text \<open>
  \<open>Mov_imm\<close> is \<open>mov xa, #v\<close>, \<open>mov xa, xzr\<close>, \<open>ldr xa, =v\<close> and \<open>adrp xa, v\<close>; \<open>Stp\<close> and \<open>Ldp\<close> are the
  pre-decrement and post-increment forms on \<open>sp\<close>. Barriers and TLB maintenance have no effect here.
\<close>

datatype a64_instr =
    Stp nat nat | Ldp nat nat | Str nat nat u64 | Mov_imm nat u64 | Mov_reg nat nat | Mov_from_sp nat | Mov_to_sp nat
  | Add_imm nat nat u64 | Add_reg nat nat nat | And_imm nat nat u64 | Bic nat nat nat | Madd nat nat nat nat
  | Mrs nat el2_reg | Msr el2_reg nat | Msr_zero el2_reg

fun a64_step :: "a64_instr \<Rightarrow> a64 \<Rightarrow> a64" where
  "a64_step (Stp a b) s = s\<lparr>sp := sp s - 16, ram := write_u64 (write_u64 (ram s) (sp s - 16) (xr s ! a)) (sp s - 8) (xr s ! b)\<rparr>"
| "a64_step (Ldp a b) s = s\<lparr>sp := sp s + 16, xr := (xr s)[a := read_u64 (ram s) (sp s), b := read_u64 (ram s) (sp s + 8)]\<rparr>"
| "a64_step (Str a b off) s = s\<lparr>ram := write_u64 (ram s) (xr s ! b + off) (xr s ! a)\<rparr>"
| "a64_step (Mov_imm a v) s = s\<lparr>xr := (xr s)[a := v]\<rparr>"
| "a64_step (Mov_reg a b) s = s\<lparr>xr := (xr s)[a := xr s ! b]\<rparr>"
| "a64_step (Mov_from_sp a) s = s\<lparr>xr := (xr s)[a := sp s]\<rparr>"
| "a64_step (Mov_to_sp a) s = s\<lparr>sp := xr s ! a\<rparr>"
| "a64_step (Add_imm a b v) s = s\<lparr>xr := (xr s)[a := xr s ! b + v]\<rparr>"
| "a64_step (Add_reg a b c) s = s\<lparr>xr := (xr s)[a := xr s ! b + xr s ! c]\<rparr>"
| "a64_step (And_imm a b v) s = s\<lparr>xr := (xr s)[a := xr s ! b AND v]\<rparr>"
| "a64_step (Bic a b c) s = s\<lparr>xr := (xr s)[a := xr s ! b AND NOT (xr s ! c)]\<rparr>"
| "a64_step (Madd a b c d) s = s\<lparr>xr := (xr s)[a := xr s ! d + xr s ! b * xr s ! c]\<rparr>"
| "a64_step (Mrs a r) s = s\<lparr>xr := (xr s)[a := el2 s r]\<rparr>"
| "a64_step (Msr r a) s = s\<lparr>el2 := (el2 s)(r := xr s ! a)\<rparr>"
| "a64_step (Msr_zero r) s = s\<lparr>el2 := (el2 s)(r := 0)\<rparr>"

definition a64_run :: "a64_instr list \<Rightarrow> a64 \<Rightarrow> a64" where
  "a64_run is s = fold a64_step is s"

section \<open>Leaving and entering a guest\<close>

definition handle_vmexit :: "u64 \<Rightarrow> a64_instr list" where
  "handle_vmexit reason =
    [Stp 29 30, Stp 27 28, Stp 25 26, Stp 23 24, Stp 21 22, Stp 19 20, Stp 17 18, Stp 15 16, Stp 13 14, Stp 11 12, Stp 9 10,
     Stp 7 8, Stp 5 6, Stp 3 4, Stp 1 2, Mov_imm 1 reason, Stp 1 0, Mov_imm 29 0, Mov_imm 30 0, Mov_from_sp 0]"

text \<open>
  The vector of EL2: the entries that leave a guest, or that the hypervisor causes itself, with
  their reason; the others branch to themselves.
\<close>

definition trap_vector :: "a64_instr list option list" where
  "trap_vector = [None, None, None, None, Some (handle_vmexit 0), Some (handle_vmexit 1), None, None,
     Some (handle_vmexit 2), Some (handle_vmexit 3), None, None, None, None, None, None]"

definition vmreturn :: "a64_instr list" where
  "vmreturn =
    [Mov_to_sp 0, Ldp 1 0, Ldp 1 2, Ldp 3 4, Ldp 5 6, Ldp 7 8, Ldp 9 10, Ldp 11 12, Ldp 13 14, Ldp 15 16, Ldp 17 18, Ldp 19 20,
     Ldp 21 22, Ldp 23 24, Ldp 25 26, Ldp 27 28, Ldp 29 30]"

definition shutdown_el2 :: "a64_instr list" where
  "shutdown_el2 =
    [Mrs 1 Sctlr_el2, Mov_imm 2 0x00001005, Bic 1 1 2, Msr Sctlr_el2 1, Msr_zero Mair_el2, Msr_zero Ttbr0_el2, Msr_zero Tcr_el2,
     Mov_to_sp 0, Ldp 1 0, Ldp 1 2, Ldp 3 4, Ldp 5 6, Ldp 7 8, Ldp 9 10, Ldp 11 12, Ldp 13 14, Ldp 15 16, Ldp 17 18, Ldp 19 20,
     Ldp 21 22, Ldp 23 24, Ldp 25 26, Ldp 27 28, Ldp 29 30]"

text \<open>The \<open>repr(C)\<close> structure \<open>GeneralRegisters\<close> at an address.\<close>

definition regs_at :: "phys_mem \<Rightarrow> u64 \<Rightarrow> GeneralRegisters" where
  "regs_at m a = \<lparr>exit_reason = read_u64 m a, usr = map (\<lambda>i. read_u64 m (a + 8 * of_nat i + 8)) [0..<31]\<rparr>"

section \<open>The registers in memory\<close>

lemma read_write_far:
  assumes "8 \<le> b - a" "8 \<le> a - b"
  shows "read_u64 (write_u64 m a v) b = read_u64 m b"
proof (rule read_u64_cong)
  fix k :: usize assume k: "k < 8"
  have ge: "8 \<le> unat (b - a)" using assms(1) by (simp add: word_le_nat_alt)
  have "8 \<le> unat (a - b)" using assms(2) by (simp add: word_le_nat_alt)
  then have "unat (b - a) \<le> 2 ^ 64 - 8"
    using ge unat_word_less_64 [of a] unat_word_less_64 [of b] by (auto simp: unat_sub_if' split: if_splits)
  moreover have "unat k < 8" using k by (simp add: word_less_nat_alt)
  ultimately have "unat (b - a + k) = unat (b - a) + unat k" by (intro unat_add_exact) simp
  then have "8 \<le> unat (b + k - a)" using ge by (simp add: diff_add_eq [symmetric])
  then have "\<not> b + k - a < 8" by (simp add: word_less_nat_alt)
  then show "write_u64 m a v (b + k) = m (b + k)" unfolding write_u64_def by presburger
qed

lemma upt31: "[0..<31] = [0,1,2,3,4,5,6,7,8,9,10,11,12,13,14,15,16,17,18,19,20,21,22,23,24,25,26,27,28,29,30 :: nat]"
  by code_simp

lemma list31: "length l = 31 \<Longrightarrow> l = map ((!) l) [0,1,2,3,4,5,6,7,8,9,10,11,12,13,14,15,16,17,18,19,20,21,22,23,24,25,26,27,28,29,30]"
  using map_nth [of l] upt31 by simp

lemma vmreturn_loads:
  assumes "length (xr s) = 31"
  shows "xr (a64_run vmreturn s) = usr (regs_at (ram s) (xr s ! 0))" "sp (a64_run vmreturn s) = xr s ! 0 + 256"
    "ram (a64_run vmreturn s) = ram s"
proof -
  have "xr (a64_run vmreturn s) = map ((!) (xr (a64_run vmreturn s))) [0,1,2,3,4,5,6,7,8,9,10,11,12,13,14,15,16,17,18,19,20,21,22,23,24,25,26,27,28,29,30]"
    by (rule list31) (simp add: vmreturn_def a64_run_def assms)
  also have "\<dots> = usr (regs_at (ram s) (xr s ! 0))"
    by (simp add: vmreturn_def a64_run_def assms regs_at_def upt31 algebra_simps)
  finally show "xr (a64_run vmreturn s) = usr (regs_at (ram s) (xr s ! 0))" .
qed (simp_all add: vmreturn_def a64_run_def)

text \<open>\<open>shutdown_el2\<close> turns the MMU and the caches of EL2 off before it loads the registers.\<close>

lemma shutdown_el2_loads:
  assumes "length (xr s) = 31"
  shows "xr (a64_run shutdown_el2 s) = usr (regs_at (ram s) (xr s ! 0))" "el2 (a64_run shutdown_el2 s) Ttbr0_el2 = 0"
    "\<not> bit (el2 (a64_run shutdown_el2 s) Sctlr_el2) 0"
proof -
  let ?off = "[Mrs 1 Sctlr_el2, Mov_imm 2 0x00001005, Bic 1 1 2, Msr Sctlr_el2 1, Msr_zero Mair_el2, Msr_zero Ttbr0_el2, Msr_zero Tcr_el2]"
  have run: "a64_run shutdown_el2 s = a64_run vmreturn (a64_run ?off s)" by (simp add: shutdown_el2_def vmreturn_def a64_run_def)
  have off: "length (xr (a64_run ?off s)) = 31" "xr (a64_run ?off s) ! 0 = xr s ! 0" "ram (a64_run ?off s) = ram s" using assms by (simp_all add: a64_run_def)
  show "xr (a64_run shutdown_el2 s) = usr (regs_at (ram s) (xr s ! 0))" unfolding run using vmreturn_loads(1) [OF off(1)] off by simp
  show "el2 (a64_run shutdown_el2 s) Ttbr0_el2 = 0" by (simp add: shutdown_el2_def a64_run_def)
  show "\<not> bit (el2 (a64_run shutdown_el2 s) Sctlr_el2) 0"
    using assms by (simp add: shutdown_el2_def a64_run_def bit_and_iff bit_not_iff bit_numeral_rec)
qed

lemma vmexit_saves:
  assumes "length (xr s) = 31"
  shows "regs_at (ram (a64_run (handle_vmexit r) s)) (sp s - 256) = \<lparr>exit_reason = r, usr = xr s\<rparr>"
    "sp (a64_run (handle_vmexit r) s) = sp s - 256" "xr (a64_run (handle_vmexit r) s) ! 0 = sp s - 256"
    "length (xr (a64_run (handle_vmexit r) s)) = 31"
proof -
  show "regs_at (ram (a64_run (handle_vmexit r) s)) (sp s - 256) = \<lparr>exit_reason = r, usr = xr s\<rparr>"
    by (subst list31 [OF assms]) (simp add: handle_vmexit_def a64_run_def assms regs_at_def upt31 read_write_far)
qed (simp_all add: handle_vmexit_def a64_run_def assms)

lemma vmexit_outside:
  assumes "\<not> x - (sp s - 256) < 256"
  shows "ram (a64_run (handle_vmexit r) s) x = ram s x"
proof -
  define y where "y = x - (sp s - 256)"
  have x: "x = y + (sp s - 256)" by (simp add: y_def)
  have y: "256 \<le> unat y" using assms by (simp add: y_def word_less_nat_alt)
  have far: "\<not> y - e < 8" if "unat e \<le> 248" for e using that y by (simp add: word_less_nat_alt unat_sub_if')
  have far0: "\<not> y < 8" using y by (simp add: word_less_nat_alt)
  show ?thesis by (simp add: handle_vmexit_def a64_run_def write_u64_def x far far0)
qed

lemma stack_top_room:
  assumes "stack_top E c = Ok t"
  shows "256 \<le> unat t"
proof -
  from assms obtain n m where n: "add_chk (cpuid c) 1 = (Ok n :: (HvErrorNum, usize) outcome)" and m: "mul_chk n PER_CPU_SIZE = (Ok m :: (HvErrorNum, usize) outcome)"
    and t: "add_chk (core_end E) m = (Ok t :: (HvErrorNum, usize) outcome)"
    by (auto simp: stack_top_def bind_out_Ok_iff)
  have "unat m = unat n * 524288" "1 \<le> unat n" "unat t = unat (core_end E) + unat m"
    using n m t by (auto simp: add_chk_Ok_iff mul_chk_def PER_CPU_SIZE_def unat_add_exact unat_mul_exact split: if_splits)
  then show ?thesis by simp
qed

section \<open>Property\<close>

text \<open>
  C21: \<open>handle_vmexit\<close>, entered with the stack pointer at the top of the stack of the CPU, puts the reason and
  the 31 registers of the guest where \<open>guest_reg\<close> looks for them and changes no other byte. Whatever the hypervisor does with registers and memory
  in between, \<open>vmreturn\<close> on that frame loads the guest's registers from it and leaves the stack pointer at the
  top again, ready for the next exit.
\<close>

theorem world_switch:
  assumes "length (xr s) = 31" and "stack_top E c = Ok (sp s)" and "s1 = a64_run (handle_vmexit r) s"
    and "length (xr s2) = 31" and "xr s2 ! 0 = xr s1 ! 0"
  shows "bind_out (stack_top E c) (\<lambda>t. sub_chk t (32 * 8)) = Ok (xr s1 ! 0) \<and>
    regs_at (ram s1) (xr s1 ! 0) = \<lparr>exit_reason = r, usr = xr s\<rparr> \<and>
    (\<forall>x. x - xr s1 ! 0 < 256 \<or> ram s1 x = ram s x) \<and>
    xr (a64_run vmreturn s2) = usr (regs_at (ram s2) (xr s1 ! 0)) \<and> sp (a64_run vmreturn s2) = sp s"
proof -
  note e = vmexit_saves [OF assms(1), of r, folded assms(3)]
  note v = vmreturn_loads [OF assms(4)]
  have "sub_chk (sp s) 256 = (Ok (sp s - 256) :: (HvErrorNum, usize) outcome)"
    using stack_top_room [OF assms(2)] by (simp add: sub_chk_def word_le_nat_alt)
  then show ?thesis using assms(2,3,5) e v vmexit_outside [of _ s r] by auto
qed

theorem world_switch_witness:
  "xr (a64_run vmreturn (a64_run (handle_vmexit 2) \<lparr>xr = map of_nat [0..<31], sp = 0x40680000, el2 = (\<lambda>_. 0), ram = (\<lambda>_. 0)\<rparr>)) = map of_nat [0..<31]"
proof -
  let ?s = "\<lparr>xr = map of_nat [0..<31], sp = 0x40680000, el2 = (\<lambda>_. 0), ram = (\<lambda>_. 0)\<rparr>" and ?c = "\<lparr>cpuid = 0, psci_on = False\<rparr>"
  have "stack_top (plain_env list_bits) ?c = Ok (sp ?s)" by (simp add: stack_top_def add_chk_def mul_chk_def plain_env_def PER_CPU_SIZE_def)
  from world_switch [OF _ this refl _ refl, of 2] vmexit_saves(4) [of ?s 2] show ?thesis by simp
qed

end
