(* ===== verification/Hv_Entry.thy ===== *)
theory Hv_Entry
  imports Hv_Switch Hv_Boot
begin

unbundle bit_operations_syntax

text \<open>
  The way from the boot loader to \<open>rust_main\<close>: \<open>arch_entry\<close> of \<open>arch/aarch64/entry.rs\<close> and the
  boot page tables of \<open>arch/aarch64/boot_pt.S\<close>, in the instructions of \<open>Hv_Switch\<close>.
\<close>

section \<open>Boot page tables\<close>

definition PTE_TABLE_FLAGS :: u64 where "PTE_TABLE_FLAGS = 0x3"

definition PAGE_DEFAULT_FLAG :: u64 where "PAGE_DEFAULT_FLAG = 0x741"

definition PAGE_DEVICE_FLAG :: u64 where "PAGE_DEVICE_FLAG = 0x745"

definition boot_pt_init :: "u64 \<Rightarrow> u64 \<Rightarrow> a64_instr list" where
  "boot_pt_init boot_pt_l0 boot_pt_l1 =
    [Mov_imm 1 boot_pt_l0, Mov_imm 2 boot_pt_l1, Add_imm 2 2 PTE_TABLE_FLAGS, Str 2 1 0,
     Mov_imm 1 boot_pt_l1,
     Mov_imm 2 (0x0 OR PAGE_DEVICE_FLAG), Str 2 1 0,
     Mov_imm 2 (0x40000000 OR PAGE_DEFAULT_FLAG), Str 2 1 0x8,
     Mov_imm 2 (0x80000000 OR PAGE_DEFAULT_FLAG), Str 2 1 0x10,
     Mov_imm 2 (0xC0000000 OR PAGE_DEFAULT_FLAG), Str 2 1 0x18]"

definition enable_boot_pt :: "u64 \<Rightarrow> a64_instr list" where
  "enable_boot_pt boot_pt_l0 =
    [Mov_imm 1 boot_pt_l0, Msr Ttbr0_el2 1, Mov_imm 1 0x004404ff, Msr Mair_el2 1, Mov_imm 1 0x80853510, Msr Tcr_el2 1,
     Mov_imm 1 0x30c51835, Msr Sctlr_el2 1]"

section \<open>The entry\<close>

text \<open>Addresses the linker gives.\<close>

record image =
  img_core_end :: u64
  img_sbss :: u64
  img_ebss :: u64
  boot_pt_l0 :: u64
  boot_pt_l1 :: u64

text \<open>
  The registers a call of the compiled \<open>clear_bss\<close> leaves are the parameter \<open>clob\<close>, about which nothing is assumed: the calling convention
  lets the call change \<open>x0\<close> and \<open>x18\<close>. A call also sets \<open>x30\<close>, which nothing here reads.
\<close>

definition arch_entry_asm :: "image \<Rightarrow> (u64 list \<Rightarrow> u64 list) \<Rightarrow> a64 \<Rightarrow> a64" where
  "arch_entry_asm I clob s =
     (let s = a64_run [Mov_reg 18 0, Mrs 0 Mpidr_el1, And_imm 0 0 0xff, Mov_imm 2 (img_core_end I), Mov_imm 3 PER_CPU_SIZE,
            Madd 4 0 3 3, Add_reg 5 2 4, Mov_to_sp 5] s;
          s = (if xr s ! 0 \<noteq> 0 then s else
               let s = s\<lparr>xr := clob (xr s), ram := clear_bss_from (img_sbss I) (img_ebss I) (ram s)\<rparr>
               in a64_run (boot_pt_init (boot_pt_l0 I) (boot_pt_l1 I)) s);
          s = a64_run (enable_boot_pt (boot_pt_l0 I)) s
      in a64_run [Mov_reg 1 18, Mov_imm 18 0] s)"

section \<open>Clearing the data\<close>

declare clear_bss_from.simps [simp del]

lemma clear_bss_from_bytes: "clear_bss_from p e m = (\<lambda>x. if p \<le> x \<and> x < e then 0 else m x)"
proof (induction p e m rule: clear_bss_from.induct)
  case (1 p e m)
  show ?case
  proof (cases "p < e")
    case True
    have "(p + 1 \<le> x \<and> x < e) \<or> x = p \<longleftrightarrow> p \<le> x \<and> x < e" for x
      using True unat_step [OF True] by (auto simp: word_less_nat_alt word_le_nat_alt word_unat_eq_iff)
    then have "(\<lambda>x. if p + 1 \<le> x \<and> x < e then 0 else (m(p := 0)) x) = (\<lambda>x. if p \<le> x \<and> x < e then 0 else m x)" by (auto simp: fun_eq_iff)
    with 1 [OF True] True show ?thesis by (subst clear_bss_from.simps) (simp add: fun_upd_def)
  next
    case False
    then have "(\<lambda>x. if p \<le> x \<and> x < e then 0 else m x) = m" by (auto simp: fun_eq_iff)
    with False show ?thesis by (subst clear_bss_from.simps) simp
  qed
qed

text \<open>The tables in the cleared data, and the image where the machine can reach it.\<close>

definition image_ok :: "image \<Rightarrow> bool" where
  "image_ok I \<longleftrightarrow> is_aligned (boot_pt_l0 I) \<and> is_aligned (boot_pt_l1 I) \<and> boot_pt_l0 I \<noteq> boot_pt_l1 I \<and> unat (img_ebss I) < 2 ^ 48 \<and>
     unat (img_sbss I) \<le> unat (boot_pt_l0 I) \<and> unat (boot_pt_l0 I) + 4096 \<le> unat (img_ebss I) \<and>
     unat (img_sbss I) \<le> unat (boot_pt_l1 I) \<and> unat (boot_pt_l1 I) + 4096 \<le> unat (img_ebss I)"

lemma cleared_slot:
  assumes "is_aligned p" "i < 512" "unat b \<le> unat p" "unat p + 4096 \<le> unat e"
  shows "read_u64 (clear_bss_from b e m) (slot p i) = 0"
proof (rule read_u64_const)
  fix k :: usize assume "k < 8"
  then have k: "unat k < 8" by (simp add: word_less_nat_alt)
  have "unat (slot p i) = unat p + 8 * i" by (rule unat_slot [OF assms(1,2)])
  moreover have "unat p + 8 * i + unat k < 18446744073709551616" using assms(2,4) k unat_word_less_64 [of e] by linarith
  ultimately have "unat (slot p i + k) = unat p + 8 * i + unat k" by (subst unat_add_exact) simp_all
  with assms \<open>k < 8\<close> show "clear_bss_from b e m (slot p i + k) = 0"
    by (simp add: clear_bss_from_bytes word_less_nat_alt word_le_nat_alt)
qed

text \<open>Memory after \<open>boot_pt_init\<close>, as entries.\<close>

definition boot_entry :: "image \<Rightarrow> phys_mem \<Rightarrow> u64 \<Rightarrow> nat \<Rightarrow> u64" where
  "boot_entry I m q i = (if q = boot_pt_l0 I \<and> i = 0 then boot_pt_l1 I + 3
     else if q = boot_pt_l1 I \<and> i = 0 then 0x745 else if q = boot_pt_l1 I \<and> i < 4 then (of_nat i * 0x40000000) OR 0x741
     else read_u64 m (slot q i))"

lemma boot_pt_init_ram:
  assumes "length (xr s) = 31"
  shows "ram (a64_run (boot_pt_init (boot_pt_l0 I) (boot_pt_l1 I)) s) =
      write_u64 (write_u64 (write_u64 (write_u64 (write_u64 (ram s) (slot (boot_pt_l0 I) 0) (boot_pt_l1 I + 3))
        (slot (boot_pt_l1 I) 0) 0x745) (slot (boot_pt_l1 I) 1) (0x40000000 OR 0x741)) (slot (boot_pt_l1 I) 2) (0x80000000 OR 0x741))
        (slot (boot_pt_l1 I) 3) (0xC0000000 OR 0x741)"
  using assms by (simp add: boot_pt_init_def a64_run_def PTE_TABLE_FLAGS_def PAGE_DEVICE_FLAG_def PAGE_DEFAULT_FLAG_def slot_def)

lemma boot_pt_init_entries:
  assumes "image_ok I" "length (xr s) = 31" "is_aligned q" "i < 512"
  shows "read_u64 (ram (a64_run (boot_pt_init (boot_pt_l0 I) (boot_pt_l1 I)) s)) (slot q i) = boot_entry I (ram s) q i"
proof -
  have "i = 0 \<or> i = 1 \<or> i = 2 \<or> i = 3 \<or> 4 \<le> i" by arith
  moreover have al: "is_aligned (boot_pt_l0 I)" "is_aligned (boot_pt_l1 I)" "boot_pt_l0 I \<noteq> boot_pt_l1 I" using assms(1) by (simp_all add: image_ok_def)
  ultimately show ?thesis
    unfolding boot_pt_init_ram [OF assms(2)] boot_entry_def by (elim disjE) (simp_all add: read_slot_write_slot assms(3,4) al al(3) [symmetric])
qed

text \<open>Outside the two tables it changes nothing.\<close>

lemma write_slot_out:
  assumes "is_aligned p" "i < 512" "\<not> page_of p x"
  shows "write_u64 m (slot p i) v x = m x"
proof -
  have "\<not> x - slot p i < 8"
  proof
    assume "x - slot p i < 8"
    then have k: "unat (x - slot p i) < 8" by (simp add: word_less_nat_alt)
    have s: "unat (slot p i) = unat p + 8 * i" by (rule unat_slot [OF assms(1,2)])
    have "unat p \<le> 2 ^ 64 - 4096" by (rule aligned_bound [OF assms(1)])
    then have "unat (slot p i + (x - slot p i)) = unat p + 8 * i + unat (x - slot p i)" using s k assms(2) by (subst unat_add_exact) simp_all
    with k assms(2,3) show False by (simp add: page_of_def)
  qed
  then show ?thesis by (simp add: write_u64_def)
qed

lemma boot_pt_init_out:
  assumes "image_ok I" "length (xr s) = 31" "\<not> page_of (boot_pt_l0 I) x" "\<not> page_of (boot_pt_l1 I) x"
  shows "ram (a64_run (boot_pt_init (boot_pt_l0 I) (boot_pt_l1 I)) s) x = ram s x"
proof -
  have al: "is_aligned (boot_pt_l0 I)" "is_aligned (boot_pt_l1 I)" using assms(1) by (simp_all add: image_ok_def)
  show ?thesis unfolding boot_pt_init_ram [OF assms(2)] using assms(3,4) by (simp add: write_slot_out al)
qed

lemma boot_table_pointer:
  assumes "is_aligned p" "unat p < 2 ^ 48"
  shows "S1_is_present (p + 3)" "\<not> S1_is_huge (p + 3)" "S1_addr (p + 3) = p"
proof -
  have p: "p AND PHYS_ADDR_MASK = p" using assms by (intro pte_frame_mask) (simp add: pte_frame_def)
  have z: "PHYS_ADDR_MASK AND 3 = 0" by (simp add: PHYS_ADDR_MASK_val)
  have "p AND 3 = (p AND PHYS_ADDR_MASK) AND 3" by (simp only: p)
  also have "\<dots> = 0" by (simp only: and.assoc z and_zero_eq)
  finally have "p AND 3 = 0" .
  then have or: "p + 3 = p OR 3" by (rule disjunctive_add_eq_or)
  have bits: "bit (p OR 3) 0" "bit (p OR 3) (Suc 0)" by (simp_all add: bit_or_iff bit_numeral_rec)
  have c: "contains (x AND mk) (push_bit n 1) \<longleftrightarrow> bit x n \<and> bit mk n" if "n < 64" for x mk n using contains_bit [OF that] by (simp add: bit_and_iff)
  show "S1_is_present (p + 3)" "\<not> S1_is_huge (p + 3)"
    using bits unfolding or S1_is_present_def S1_is_huge_def S1_from_bits_truncate_def S1_VALID_def S1_NON_BLOCK_def
    by (subst c; simp add: bit_or_iff)+
  show "S1_addr (p + 3) = p" unfolding or S1_addr_def by (simp add: bit.conj_disj_distrib2 p) (simp add: PHYS_ADDR_MASK_val)
qed

lemma boot_blocks:
  "i < 4 \<Longrightarrow> S1_addr ((of_nat i * 0x40000000) OR 0x741) = of_nat i * 0x40000000 \<and> S1_is_huge ((of_nat i * 0x40000000) OR 0x741) \<and>
     S1_flags ((of_nat i * 0x40000000) OR 0x741) = Ok (READ OR WRITE) \<and> (of_nat i * 0x40000000) OR 0x741 \<noteq> (0 :: u64)"
  "S1_addr 0x745 = 0" "S1_is_huge 0x745" "S1_flags 0x745 = Ok (READ OR WRITE OR IO)"
proof -
  assume "i < 4"
  then have "i = 0 \<or> i = 1 \<or> i = 2 \<or> i = 3" by arith
  then show "S1_addr ((of_nat i * 0x40000000) OR 0x741) = of_nat i * 0x40000000 \<and> S1_is_huge ((of_nat i * 0x40000000) OR 0x741) \<and>
     S1_flags ((of_nat i * 0x40000000) OR 0x741) = Ok (READ OR WRITE) \<and> (of_nat i * 0x40000000) OR 0x741 \<noteq> (0 :: u64)"
    by (elim disjE) (simp_all add: S1_addr_def PHYS_ADDR_MASK_val S1_is_huge_def S1_flags_def S1_flags_of_attr_def S1_mem_type_def S1_from_bits_truncate_def
      S1_attr_defs contains_def MemFlags_defs Let_def)
qed (simp_all add: S1_addr_def PHYS_ADDR_MASK_val S1_is_huge_def S1_flags_def S1_flags_of_attr_def S1_mem_type_def S1_from_bits_truncate_def
      S1_attr_defs contains_def MemFlags_defs Let_def)

text \<open>The boot table as a table of four levels.\<close>

definition boot_table :: "image \<Rightarrow> HvPageTable" where
  "boot_table I = \<lparr>root = \<lparr>start_paddr = boot_pt_l0 I, frame_count = 0\<rparr>, level = 4, intrm_tables = []\<rparr>"

lemma boot_table_query:
  assumes ok: "image_ok I" and v: "unat v < 2 ^ 48"
    and m: "\<And>q i. q \<in> {boot_pt_l0 I, boot_pt_l1 I} \<Longrightarrow> i < 512 \<Longrightarrow> read_u64 m (slot q i) = boot_entry I (\<lambda>_. 0) q i"
  shows "query S1_pte (boot_table I) v m =
    (if unat v < 2 ^ 30 then Ok (v, READ OR WRITE OR IO, Size1G) else if unat v < 2 ^ 32 then Ok (v, READ OR WRITE, Size1G) else Err NotMapped)"
proof -
  let ?a = "unat v"
  have l: "is_aligned (boot_pt_l1 I)" "unat (boot_pt_l1 I) < 2 ^ 48" "boot_pt_l0 I \<noteq> boot_pt_l1 I" using ok by (auto simp: image_ok_def)
  have z: "read_u64 (\<lambda>_. 0) x = 0" for x by (simp add: read_u64_def)
  have sel: "pte_addr S1_pte = S1_addr" "pte_flags S1_pte = S1_flags" "is_unused S1_pte = S1_is_unused" "is_present S1_pte = S1_is_present"
    "is_huge S1_pte = S1_is_huge" by (simp_all add: S1_pte_def)
  have root: "root_paddr (boot_table I) = boot_pt_l0 I" "level (boot_table I) = 4" by (simp_all add: boot_table_def root_paddr_def)
  have e4: "read_u64 m (slot (boot_pt_l0 I) (blk 3 ?a mod 512)) = (if ?a < 2 ^ 39 then boot_pt_l1 I + 3 else 0)"
    using v l(3) by (subst m) (auto simp: boot_entry_def z blk_def div_eq_0_iff)
  let ?e = "read_u64 m (slot (boot_pt_l1 I) (blk 2 ?a mod 512))"
  show ?thesis
  proof (cases "?a < 2 ^ 39")
    case False
    then have "read_u64 m (slot (boot_pt_l0 I) (blk 3 ?a mod 512)) = 0" using e4 by simp
    then have "get_entry_mut S1_pte (boot_table I) v m = Err NotMapped"
      by (simp add: get_entry_mut_def root table_entry_index sel next_table_mut_def S1_is_present_def S1_from_bits_truncate_def contains_def S1_VALID_def)
    then show ?thesis using False by (simp add: query_def)
  next
    case True
    define i where "i = ?a div 2 ^ 30"
    have i: "blk 2 ?a mod 512 = i" "i < 512" using True by (auto simp: blk_def i_def)
    have e: "?e = (if i = 0 then 0x745 else if i < 4 then (of_nat i * 0x40000000) OR 0x741 else 0)"
      using i l(3) by (subst m) (auto simp: boot_entry_def z)
    have huge: "S1_is_huge ?e" unfolding e using boot_blocks by (auto simp: S1_is_huge_def S1_from_bits_truncate_def contains_def S1_NON_BLOCK_def)
    have entry: "get_entry_mut S1_pte (boot_table I) v m = Ok (slot (boot_pt_l1 I) (blk 2 ?a mod 512), Size1G)"
      using e4 True huge boot_table_pointer [OF l(1,2)] by (simp add: get_entry_mut_def root table_entry_index sel next_table_mut_def)
    have off: "unat (PageSize_page_offset Size1G v) = ?a mod 2 ^ 30" using unat_PageSize_offset [of Size1G v] by simp
    have split: "?a = i * 2 ^ 30 + ?a mod 2 ^ 30" by (simp add: i_def)
    have sum: "add_chk (of_nat i * 0x40000000) (PageSize_page_offset Size1G v) = (Ok v :: (PagingError, usize) outcome)" if "i < 4"
    proof -
      have u: "unat (of_nat i * 0x40000000 :: u64) = i * 2 ^ 30" using that by (subst unat_mul_exact) (simp_all add: unsigned_of_nat take_bit_nat_eq_self)
      then have "unat (of_nat i * 0x40000000 + PageSize_page_offset Size1G v) = ?a" using split off v by (subst unat_add_exact) simp_all
      then have "of_nat i * 0x40000000 + PageSize_page_offset Size1G v = v" by (simp add: word_unat_eq_iff)
      then show ?thesis using u off split v by (simp add: add_chk_def)
    qed
    show ?thesis
    proof (cases "i < 4")
      case True
      have lt: "?a < 2 ^ 32" using True by (simp add: i_def less_mult_imp_div_less div_less_iff_less_mult)
      show ?thesis
      proof (cases "i = 0")
        case True
        then have "?a < 2 ^ 30" by (simp add: i_def div_eq_0_iff)
        then show ?thesis using True sum boot_blocks(2,4) by (simp add: query_def entry e sel S1_is_unused_def)
      next
        case False
        then have "\<not> ?a < 2 ^ 30" by (auto simp: i_def)
        then show ?thesis using False \<open>i < 4\<close> lt sum boot_blocks(1) [of i] by (simp add: query_def entry e sel S1_is_unused_def)
      qed
    next
      case False
      then have "\<not> ?a < 2 ^ 32" using split by simp
      then show ?thesis using False by (simp add: query_def entry e sel S1_is_unused_def)
    qed
  qed
qed

section \<open>Property\<close>

lemma entry_stack:
  assumes "unat (core_end E) + 0x200000 < 2 ^ 64" "unat (cpuid c) < 4"
  shows "stack_top E c = Ok (core_end E + (PER_CPU_SIZE + cpuid c * PER_CPU_SIZE))"
proof -
  have u: "unat (cpuid c + 1) = unat (cpuid c) + 1" using assms(2) by (simp add: unat_add_exact)
  have m: "unat ((cpuid c + 1) * PER_CPU_SIZE) = (unat (cpuid c) + 1) * 524288"
    using assms(2) u by (subst unat_mul_exact) (simp_all add: PER_CPU_SIZE_def)
  have "stack_top E c = Ok (core_end E + (cpuid c + 1) * PER_CPU_SIZE)"
    using assms u m by (simp add: stack_top_def add_chk_def mul_chk_def PER_CPU_SIZE_def)
  then show ?thesis by (simp add: ring_distribs add.commute)
qed

lemma boot_code_registers:
  assumes "length (xr s) = 31"
  shows "length (xr (a64_run (boot_pt_init p q) s)) = 31" "xr (a64_run (boot_pt_init p q) s) ! 0 = xr s ! 0" "xr (a64_run (boot_pt_init p q) s) ! 18 = xr s ! 18"
    "sp (a64_run (boot_pt_init p q) s) = sp s" "length (xr (a64_run (enable_boot_pt p) s)) = 31" "xr (a64_run (enable_boot_pt p) s) ! 0 = xr s ! 0"
    "xr (a64_run (enable_boot_pt p) s) ! 18 = xr s ! 18" "sp (a64_run (enable_boot_pt p) s) = sp s" "ram (a64_run (enable_boot_pt p) s) = ram s"
    "el2 (a64_run (enable_boot_pt p) s) Ttbr0_el2 = p"
  using assms by (simp_all add: boot_pt_init_def enable_boot_pt_def a64_run_def)

text \<open>
  C29: \<open>arch_entry\<close> comes to \<open>rust_main\<close> on a stack whose top is where the
  CPU later expects its register frame, and with the boot table installed. A CPU other than CPU 0 leaves memory alone and passes its number
  and the address of the device tree. CPU 0 has cleared the data but for the two tables, which it has written, and no other memory: the
  tables map the first four GiB to themselves, the first as device memory, and nothing else. CPU 0 passes as number and address what the compiled \<open>clear_bss\<close>
  leaves in \<open>x0\<close> and \<open>x18\<close>, which held them before the call (the call may change both, and then wrong values are passed).
\<close>

theorem entry_reaches_main:
  assumes "image_ok I" and "length (xr s) = 31" and "img_core_end I = core_end E" and "unat (core_end E) + 0x200000 < 2 ^ 64"
    and "cpuid c = el2 s Mpidr_el1 AND 0xff" and "unat (cpuid c) < 4" and "\<And>l. length l = 31 \<Longrightarrow> length (clob l) = 31"
    and "s' = arch_entry_asm I clob s"
  shows "stack_top E c = Ok (sp s') \<and> el2 s' Ttbr0_el2 = boot_pt_l0 I \<and>
    (if cpuid c \<noteq> 0 then xr s' ! 0 = cpuid c \<and> xr s' ! 1 = xr s ! 0 \<and> ram s' = ram s
     else (\<exists>l. l ! 0 = cpuid c \<and> l ! 18 = xr s ! 0 \<and> xr s' ! 0 = clob l ! 0 \<and> xr s' ! 1 = clob l ! 18) \<and>
       (\<forall>x. \<not> page_of (boot_pt_l0 I) x \<and> \<not> page_of (boot_pt_l1 I) x \<longrightarrow> ram s' x = (if img_sbss I \<le> x \<and> x < img_ebss I then 0 else ram s x)) \<and>
       (\<forall>v. unat v < 2 ^ 48 \<longrightarrow> query S1_pte (boot_table I) v (ram s') = (if unat v < 2 ^ 30 then Ok (v, READ OR WRITE OR IO, Size1G)
         else if unat v < 2 ^ 32 then Ok (v, READ OR WRITE, Size1G) else Err NotMapped)))"
proof -
  define s1 where "s1 = a64_run [Mov_reg 18 0, Mrs 0 Mpidr_el1, And_imm 0 0 0xff, Mov_imm 2 (img_core_end I), Mov_imm 3 PER_CPU_SIZE,
    Madd 4 0 3 3, Add_reg 5 2 4, Mov_to_sp 5] s"
  have s1: "xr s1 ! 0 = cpuid c" "xr s1 ! 18 = xr s ! 0" "sp s1 = core_end E + (PER_CPU_SIZE + cpuid c * PER_CPU_SIZE)" "ram s1 = ram s" "length (xr s1) = 31"
    using assms(2,3,5) by (simp_all add: s1_def a64_run_def)
  define s2 where "s2 = s1\<lparr>xr := clob (xr s1), ram := clear_bss_from (img_sbss I) (img_ebss I) (ram s1)\<rparr>"
  have s2: "xr s2 = clob (xr s1)" "sp s2 = sp s1" "length (xr s2) = 31" using s1 assms(7) [OF s1(5)] by (simp_all add: s2_def)
  define s3 where "s3 = (if cpuid c \<noteq> 0 then s1 else a64_run (boot_pt_init (boot_pt_l0 I) (boot_pt_l1 I)) s2)"
  have s3: "xr s3 ! 0 = (if cpuid c \<noteq> 0 then cpuid c else clob (xr s1) ! 0)" "xr s3 ! 18 = (if cpuid c \<noteq> 0 then xr s ! 0 else clob (xr s1) ! 18)"
    "sp s3 = sp s1" "length (xr s3) = 31"
    using s1 s2 boot_code_registers [OF s2(3)] by (simp_all add: s3_def)
  have run: "s' = a64_run [Mov_reg 1 18, Mov_imm 18 0] (a64_run (enable_boot_pt (boot_pt_l0 I)) s3)"
    using assms(8) s1(1) by (simp add: arch_entry_asm_def s1_def [symmetric] s2_def [symmetric] s3_def Let_def)
  note en = boot_code_registers(5-) [OF s3(4), of "boot_pt_l0 I"]
  have fin: "xr s' ! 0 = xr s3 ! 0" "xr s' ! 1 = xr s3 ! 18" "sp s' = sp s1" "el2 s' Ttbr0_el2 = boot_pt_l0 I" "ram s' = ram s3"
    unfolding run using en s3(3,4) by (simp_all add: a64_run_def)
  have out: "ram s' x = (if img_sbss I \<le> x \<and> x < img_ebss I then 0 else ram s x)"
    if "cpuid c = 0" "\<not> page_of (boot_pt_l0 I) x" "\<not> page_of (boot_pt_l1 I) x" for x
    using boot_pt_init_out [OF assms(1) s2(3) that(2,3)] that(1) s1(4) fin(5) by (simp add: s3_def s2_def clear_bss_from_bytes)
  have "query S1_pte (boot_table I) v (ram s') = (if unat v < 2 ^ 30 then Ok (v, READ OR WRITE OR IO, Size1G)
       else if unat v < 2 ^ 32 then Ok (v, READ OR WRITE, Size1G) else Err NotMapped)" if "cpuid c = 0" "unat v < 2 ^ 48" for v
  proof (rule boot_table_query [OF assms(1) that(2)])
    fix q and i :: nat assume q: "q \<in> {boot_pt_l0 I, boot_pt_l1 I}" and i: "i < 512"
    have al: "is_aligned q" "unat (img_sbss I) \<le> unat q" "unat q + 4096 \<le> unat (img_ebss I)" using q assms(1) by (auto simp: image_ok_def)
    have "read_u64 (ram s2) (slot q i) = 0" using cleared_slot [OF al(1) i al(2,3)] by (simp add: s2_def)
    then show "read_u64 (ram s') (slot q i) = boot_entry I (\<lambda>_. 0) q i"
      using boot_pt_init_entries [OF assms(1) s2(3) al(1) i] fin(5) that(1) by (simp add: s3_def boot_entry_def read_u64_def)
  qed
  moreover have "ram s' = ram s" if "cpuid c \<noteq> 0" using that fin(5) s1(4) by (simp add: s3_def)
  ultimately show ?thesis using fin s3(1,2) out entry_stack [OF assms(4,6)] s1(1-3) by auto
qed

definition small_image :: image where
  "small_image = \<lparr>img_core_end = 0x40600000, img_sbss = 0x40500000, img_ebss = 0x40510000, boot_pt_l0 = 0x40501000, boot_pt_l1 = 0x40502000\<rparr>"

theorem entry_reaches_main_witness:
  "\<exists>s'. s' = arch_entry_asm small_image id \<lparr>xr = replicate 31 5, sp = 0, el2 = (\<lambda>_. 0x80000000), ram = (\<lambda>_. 9)\<rparr> \<and>
     xr s' ! 0 = 0 \<and> xr s' ! 1 = 5 \<and> ram s' 0x40500008 = 0 \<and> ram s' 0x40400000 = 9 \<and>
     query S1_pte (boot_table small_image) 0x40401234 (ram s') = Ok (0x40401234, READ OR WRITE, Size1G)"
proof -
  let ?s = "\<lparr>xr = replicate 31 5, sp = 0, el2 = (\<lambda>_. 0x80000000), ram = (\<lambda>_. 9)\<rparr>" and ?c = "\<lparr>cpuid = 0, psci_on = False\<rparr>"
  let ?t = "arch_entry_asm small_image id ?s"
  have h: "image_ok small_image" "length (xr ?s) = 31" "img_core_end small_image = core_end (plain_env list_bits)"
    "unat (core_end (plain_env list_bits)) + 0x200000 < 2 ^ 64" "cpuid ?c = el2 ?s Mpidr_el1 AND 0xff" "unat (cpuid ?c) < 4"
    by (simp_all add: image_ok_def small_image_def is_aligned_iff plain_env_def)
  have v: "unat (0x40401234 :: u64) < 2 ^ 48" by simp
  have out: "\<not> page_of (boot_pt_l0 small_image) x \<and> \<not> page_of (boot_pt_l1 small_image) x" if "x \<in> {0x40500008, 0x40400000}" for x
    using that by (auto simp: page_of_def small_image_def)
  from entry_reaches_main [OF h _ refl, of id] have
    r: "\<exists>l. l ! 0 = 0 \<and> l ! 18 = 5 \<and> xr ?t ! 0 = id l ! 0 \<and> xr ?t ! 1 = id l ! 18" and
    m: "\<And>x. x \<in> {0x40500008, 0x40400000} \<Longrightarrow> ram ?t x = (if img_sbss small_image \<le> x \<and> x < img_ebss small_image then 0 else 9)" and
    q: "query S1_pte (boot_table small_image) 0x40401234 (ram ?t) = Ok (0x40401234, READ OR WRITE, Size1G)"
    using v out by simp_all
  show ?thesis using r m [of "0x40500008"] m [of "0x40400000"] q by (intro exI [of _ ?t]) (auto simp: small_image_def)
qed

end
