(* ===== verification/Hv_RvPte.thy ===== *)
theory Hv_RvPte
  imports Hv_Pte
begin

unbundle bit_operations_syntax

text \<open>
  Translation table entries of the riscv64 port: the trait \<open>GenericPTE\<close> of \<open>src/arch/riscv64/paging.rs\<close>, whose
  \<open>set_flags\<close> is not told the size of the page, and its implementations for the tables of the
  hypervisor (\<open>s1pt.rs\<close>) and of guests (\<open>s2pt.rs\<close>). An Sv39 entry with a right is a leaf and one without is a pointer
  to a table, so that the contract of the page tables holds for regions with at least one right.
\<close>

section \<open>GenericPTE\<close>

record rv_pte =
  rv_addr :: "u64 \<Rightarrow> PhysAddr"
  rv_flags :: "u64 \<Rightarrow> MemFlags"
  rv_is_unused :: "u64 \<Rightarrow> bool"
  rv_is_present :: "u64 \<Rightarrow> bool"
  rv_is_huge :: "u64 \<Rightarrow> bool"
  rv_set_addr :: "PhysAddr \<Rightarrow> u64 \<Rightarrow> u64"
  rv_set_flags :: "MemFlags \<Rightarrow> u64 \<Rightarrow> u64"
  rv_set_table :: "PhysAddr \<Rightarrow> u64 \<Rightarrow> u64"
  rv_clear :: "u64 \<Rightarrow> u64"

section \<open>What both stages share\<close>

text \<open>The two files define the same attributes, masks and methods; they differ in the attributes a set of flags gives.\<close>

definition RV_VALID :: u64 where "RV_VALID = push_bit 0 1"

definition RV_READABLE :: u64 where "RV_READABLE = push_bit 1 1"

definition RV_WRITABLE :: u64 where "RV_WRITABLE = push_bit 2 1"

definition RV_EXECUTABLE :: u64 where "RV_EXECUTABLE = push_bit 3 1"

definition RV_USER :: u64 where "RV_USER = push_bit 4 1"

definition RV_GLOBAL :: u64 where "RV_GLOBAL = push_bit 5 1"

definition RV_ACCESSED :: u64 where "RV_ACCESSED = push_bit 6 1"

definition RV_DIRTY :: u64 where "RV_DIRTY = push_bit 7 1"

lemmas RV_attr_defs = RV_VALID_def RV_READABLE_def RV_WRITABLE_def RV_EXECUTABLE_def RV_USER_def RV_GLOBAL_def RV_ACCESSED_def RV_DIRTY_def

definition RV_from_bits_truncate :: "u64 \<Rightarrow> u64" where
  "RV_from_bits_truncate b = b AND (RV_VALID OR RV_READABLE OR RV_WRITABLE OR RV_EXECUTABLE OR RV_USER OR RV_GLOBAL OR RV_ACCESSED OR RV_DIRTY)"

definition PTE_PPN_MASK :: u64 where "PTE_PPN_MASK = 0x3FFFFFFFFFFC00"

definition PPN_MASK :: u64 where "PPN_MASK = 0xFFFFFFFFFFF000"

definition RV_flags_of_attr :: "u64 \<Rightarrow> MemFlags" where
  "RV_flags_of_attr attr =
     (if \<not> contains attr RV_VALID then 0
      else let flags = (if contains attr RV_READABLE then READ else 0);
               flags = (if contains attr RV_WRITABLE then flags OR WRITE else flags);
               flags = (if contains attr RV_EXECUTABLE then flags OR EXECUTE else flags)
           in if contains attr RV_USER then flags OR USER else flags)"

definition RV_addr :: "u64 \<Rightarrow> HostPhysAddr" where
  "RV_addr self = push_bit 2 (self AND PTE_PPN_MASK)"

definition RV_flags :: "u64 \<Rightarrow> MemFlags" where
  "RV_flags self = RV_flags_of_attr (RV_from_bits_truncate self)"

definition RV_is_unused :: "u64 \<Rightarrow> bool" where
  "RV_is_unused self \<longleftrightarrow> self = 0"

definition RV_is_present :: "u64 \<Rightarrow> bool" where
  "RV_is_present self \<longleftrightarrow> contains (RV_from_bits_truncate self) RV_VALID"

definition RV_is_huge :: "u64 \<Rightarrow> bool" where
  "RV_is_huge self \<longleftrightarrow> contains (RV_from_bits_truncate self) RV_READABLE \<or> contains (RV_from_bits_truncate self) RV_WRITABLE \<or>
     contains (RV_from_bits_truncate self) RV_EXECUTABLE"

text \<open>\<open>get_bits(0..7)\<close> of the crate \<open>bit_field\<close>: the seven low bits.\<close>

definition RV_set_addr :: "HostPhysAddr \<Rightarrow> u64 \<Rightarrow> u64" where
  "RV_set_addr paddr self = take_bit 7 self OR drop_bit 2 (paddr AND PPN_MASK)"

definition RV_set_table :: "HostPhysAddr \<Rightarrow> u64 \<Rightarrow> u64" where
  "RV_set_table paddr self =
     (let self = RV_set_addr paddr self; attr = RV_VALID
      in (attr AND NOT PTE_PPN_MASK) OR (self AND PTE_PPN_MASK))"

definition RV_clear :: "u64 \<Rightarrow> u64" where
  "RV_clear self = 0"

section \<open>Stage 1 and stage 2\<close>

definition RV1_attr_of_flags :: "MemFlags \<Rightarrow> u64" where
  "RV1_attr_of_flags flags =
     (let attr = RV_VALID;
          attr = (if contains flags READ then attr OR RV_READABLE else attr);
          attr = (if contains flags WRITE then attr OR RV_WRITABLE else attr);
          attr = (if contains flags EXECUTE then attr OR RV_EXECUTABLE else attr)
      in if contains flags USER then attr OR RV_USER else attr)"

definition RV2_attr_of_flags :: "MemFlags \<Rightarrow> u64" where
  "RV2_attr_of_flags flags =
     (let attr = RV_VALID OR RV_USER;
          attr = (if contains flags READ then attr OR RV_READABLE else attr);
          attr = (if contains flags WRITE then attr OR RV_WRITABLE else attr);
          attr = (if contains flags EXECUTE then attr OR RV_EXECUTABLE else attr)
      in if contains flags USER then attr OR RV_USER else attr)"

definition RV1_set_flags :: "MemFlags \<Rightarrow> u64 \<Rightarrow> u64" where
  "RV1_set_flags flags self = (RV1_attr_of_flags flags AND NOT PTE_PPN_MASK) OR (self AND PTE_PPN_MASK)"

definition RV2_set_flags :: "MemFlags \<Rightarrow> u64 \<Rightarrow> u64" where
  "RV2_set_flags flags self = (RV2_attr_of_flags flags AND NOT PTE_PPN_MASK) OR (self AND PTE_PPN_MASK)"

definition RV1_pte :: rv_pte where
  "RV1_pte = \<lparr>rv_addr = RV_addr, rv_flags = RV_flags, rv_is_unused = RV_is_unused, rv_is_present = RV_is_present, rv_is_huge = RV_is_huge,
     rv_set_addr = RV_set_addr, rv_set_flags = RV1_set_flags, rv_set_table = RV_set_table, rv_clear = RV_clear\<rparr>"

definition RV2_pte :: rv_pte where
  "RV2_pte = \<lparr>rv_addr = RV_addr, rv_flags = RV_flags, rv_is_unused = RV_is_unused, rv_is_present = RV_is_present, rv_is_huge = RV_is_huge,
     rv_set_addr = RV_set_addr, rv_set_flags = RV2_set_flags, rv_set_table = RV_set_table, rv_clear = RV_clear\<rparr>"

text \<open>Making a root table current: the value of \<open>hgatp\<close> and of \<open>satp\<close>.\<close>

definition hgatp_value :: "HostPhysAddr \<Rightarrow> u64" where
  "hgatp_value root_paddr = push_bit 60 8 OR push_bit 44 0 OR take_bit 44 (drop_bit 12 root_paddr)"

section \<open>Entries as they are written\<close>

definition rv_pack :: "u64 \<Rightarrow> PhysAddr \<Rightarrow> u64" where
  "rv_pack attr p = (attr AND NOT PTE_PPN_MASK) OR (drop_bit 2 (p AND PPN_MASK) AND PTE_PPN_MASK)"

lemma PPN_bits: "bit PTE_PPN_MASK n \<longleftrightarrow> 10 \<le> n \<and> n < 54" "bit PPN_MASK n \<longleftrightarrow> 12 \<le> n \<and> n < 56"
proof -
  have m: "PTE_PPN_MASK = push_bit 10 (mask 44)" "PPN_MASK = push_bit 12 (mask 44)"
    by (simp_all add: PTE_PPN_MASK_def PPN_MASK_def mask_eq_exp_minus_1)
  show "bit PTE_PPN_MASK n \<longleftrightarrow> 10 \<le> n \<and> n < 54" "bit PPN_MASK n \<longleftrightarrow> 12 \<le> n \<and> n < 56"
    unfolding m by (auto simp only: bit_push_bit_iff bit_mask_iff) auto
qed

lemma rv_rewrite: "(attr AND NOT PTE_PPN_MASK) OR (RV_set_addr p e AND PTE_PPN_MASK) = rv_pack attr p"
  unfolding rv_pack_def RV_set_addr_def by (rule bit_word_eqI) (auto simp: bit_simps PPN_bits)

lemma rv_pack_addr: "pte_frame p \<Longrightarrow> RV_addr (rv_pack attr p) = p"
proof -
  assume "pte_frame p"
  then have p: "bit p n \<Longrightarrow> 12 \<le> n \<and> n < 48" for n using pte_frame_mask [of p] by (metis bit_and_iff bit_PHYS_ADDR_MASK)
  show ?thesis
  proof (rule bit_word_eqI)
    fix n assume n: "n < LENGTH(64)"
    show "bit (RV_addr (rv_pack attr p)) n = bit p n"
    proof (cases "2 \<le> n")
      case True
      then obtain k where "n = Suc (Suc k)" by (metis add_2_eq_Suc le_Suc_ex)
      with n p [of n] show ?thesis by (auto simp: RV_addr_def rv_pack_def bit_simps PPN_bits)
    qed (use p [of n] in \<open>auto simp: RV_addr_def bit_simps\<close>)
  qed
qed

lemma rv_pack_truncate: "RV_from_bits_truncate (rv_pack attr p) = attr AND 0xff"
proof -
  have m: "(0xff :: u64) = mask 8" by (simp add: mask_eq_exp_minus_1)
  have t: "RV_from_bits_truncate b = b AND 0xff" for b by (simp add: RV_from_bits_truncate_def RV_attr_defs)
  show ?thesis unfolding t m rv_pack_def by (rule bit_word_eqI) (auto simp: bit_simps PPN_bits)
qed

lemma rv_pack_nonzero: "bit attr 0 \<Longrightarrow> rv_pack attr p \<noteq> 0"
proof
  assume "bit attr 0" "rv_pack attr p = 0"
  then have "bit (rv_pack attr p) 0 = False" by simp
  moreover have "bit (rv_pack attr p) 0" using \<open>bit attr 0\<close> by (simp add: rv_pack_def bit_or_iff bit_and_iff bit_not_iff PPN_bits)
  ultimately show False by simp
qed

definition right_bits :: "MemFlags \<Rightarrow> u64" where
  "right_bits fl = (if contains fl READ then 2 else 0) OR (if contains fl WRITE then 4 else 0) OR (if contains fl EXECUTE then 8 else 0)"

lemma RV_attr_vals:
  "RV1_attr_of_flags fl = 1 OR right_bits fl OR (if contains fl USER then 16 else 0)"
  "RV2_attr_of_flags fl = 17 OR right_bits fl"
  by (cases "contains fl READ"; cases "contains fl WRITE"; cases "contains fl EXECUTE"; cases "contains fl USER")
      (simp_all add: RV1_attr_of_flags_def RV2_attr_of_flags_def right_bits_def RV_attr_defs Let_def)

definition some_right :: "MemFlags \<Rightarrow> bool" where
  "some_right fl \<longleftrightarrow> contains fl READ \<or> contains fl WRITE \<or> contains fl EXECUTE"

definition RV1_norm :: "MemFlags \<Rightarrow> MemFlags" where
  "RV1_norm fl = (if contains fl READ then READ else 0) OR (if contains fl WRITE then WRITE else 0) OR (if contains fl EXECUTE then EXECUTE else 0) OR
     (if contains fl USER then USER else 0)"

definition RV2_norm :: "MemFlags \<Rightarrow> MemFlags" where
  "RV2_norm fl = (if contains fl READ then READ else 0) OR (if contains fl WRITE then WRITE else 0) OR (if contains fl EXECUTE then EXECUTE else 0) OR USER"

lemma RV_leaf_flags:
  "RV_flags (rv_pack (RV1_attr_of_flags fl) p) = RV1_norm fl" "RV_flags (rv_pack (RV2_attr_of_flags fl) p) = RV2_norm fl"
  by (cases "contains fl READ"; cases "contains fl WRITE"; cases "contains fl EXECUTE"; cases "contains fl USER")
      (simp_all add: RV_flags_def rv_pack_truncate RV_attr_vals right_bits_def RV_flags_of_attr_def RV1_norm_def RV2_norm_def RV_attr_defs contains_def MemFlags_defs Let_def)

lemma RV_leaf_huge:
  "RV_is_huge (rv_pack (RV1_attr_of_flags fl) p) \<longleftrightarrow> some_right fl" "RV_is_huge (rv_pack (RV2_attr_of_flags fl) p) \<longleftrightarrow> some_right fl"
  by (cases "contains fl READ"; cases "contains fl WRITE"; cases "contains fl EXECUTE"; cases "contains fl USER")
      (simp_all add: RV_is_huge_def rv_pack_truncate RV_attr_vals right_bits_def some_right_def RV_attr_defs contains_def MemFlags_defs)

lemma RV_leaf_present: "RV_is_present (rv_pack attr p) \<longleftrightarrow> bit attr 0"
  unfolding RV_is_present_def rv_pack_truncate RV_VALID_def by (subst contains_bit) (simp_all add: bit_and_iff)

lemma RV_leaf_valid: "bit (RV1_attr_of_flags fl) 0" "bit (RV2_attr_of_flags fl) 0"
  by (simp_all add: RV_attr_vals bit_or_iff)

section \<open>The contract of the page tables\<close>

text \<open>An entry format of this port as one of the generic page tables: the size of the page is ignored.\<close>

definition as_pte :: "rv_pte \<Rightarrow> pte_ops" where
  "as_pte R = \<lparr>pte_addr = rv_addr R, pte_flags = (\<lambda>e. Ok (rv_flags R e)), is_unused = rv_is_unused R, is_present = rv_is_present R,
     is_huge = rv_is_huge R, set_addr = rv_set_addr R, set_flags = (\<lambda>fl h. rv_set_flags R fl), set_table = rv_set_table R, pte_clear = rv_clear R\<rparr>"

text \<open>The same format for flags with a right; others are given one, so that the contract holds for all flags.\<close>

definition with_right :: "MemFlags \<Rightarrow> MemFlags" where
  "with_right fl = (if some_right fl then fl else READ)"

definition guarded_pte :: "rv_pte \<Rightarrow> pte_ops" where
  "guarded_pte R = (as_pte R)\<lparr>set_flags := (\<lambda>fl h. rv_set_flags R (with_right fl))\<rparr>"

lemma some_right_with: "some_right (with_right fl)"
  by (simp add: with_right_def some_right_def contains_def)

lemma guarded_sel [simp]:
  "pte_addr (guarded_pte R) = rv_addr R" "pte_flags (guarded_pte R) = (\<lambda>e. Ok (rv_flags R e))" "is_unused (guarded_pte R) = rv_is_unused R"
  "is_present (guarded_pte R) = rv_is_present R" "is_huge (guarded_pte R) = rv_is_huge R" "set_addr (guarded_pte R) = rv_set_addr R"
  "set_flags (guarded_pte R) = (\<lambda>fl h. rv_set_flags R (with_right fl))" "set_table (guarded_pte R) = rv_set_table R" "pte_clear (guarded_pte R) = rv_clear R"
  by (simp_all add: guarded_pte_def as_pte_def)

text \<open>One format of the port, given the attributes \<open>attr\<close> and the flags \<open>norm\<close> read back.\<close>

locale rv_format =
  fixes R :: rv_pte and attr_of :: "MemFlags \<Rightarrow> u64" and norm :: "MemFlags \<Rightarrow> MemFlags"
  assumes ops: "rv_addr R = RV_addr" "rv_flags R = RV_flags" "rv_is_unused R = RV_is_unused" "rv_is_present R = RV_is_present" "rv_is_huge R = RV_is_huge"
      "rv_set_addr R = RV_set_addr" "rv_set_table R = RV_set_table" "rv_clear R = RV_clear"
    and set_flags_attr: "rv_set_flags R fl e = (attr_of fl AND NOT PTE_PPN_MASK) OR (e AND PTE_PPN_MASK)"
    and attr_valid: "bit (attr_of fl) 0" and attr_huge: "RV_is_huge (rv_pack (attr_of fl) p) \<longleftrightarrow> some_right fl"
    and attr_flags: "RV_flags (rv_pack (attr_of fl) p) = norm fl"
begin

lemma leaf_eq: "rv_set_flags R fl (RV_set_addr p e) = rv_pack (attr_of fl) p"
  by (simp add: set_flags_attr rv_rewrite)

lemma table_eq: "RV_set_table p e = rv_pack 1 p"
  using rv_rewrite [of 1 p e] by (simp add: RV_set_table_def RV_VALID_def Let_def)

lemma table_small: "\<not> RV_is_huge (rv_pack 1 p)"
  by (simp add: RV_is_huge_def rv_pack_truncate contains_def RV_attr_defs)

end

sublocale rv_format \<subseteq> guarded: generic_pte "guarded_pte R" "\<lambda>fl. norm (with_right fl)"
proof
  fix p e fl h e'
  show "is_unused (guarded_pte R) e \<longleftrightarrow> e = 0" "pte_clear (guarded_pte R) e = 0" by (simp_all add: ops RV_is_unused_def RV_clear_def)
  show "\<not> is_present (guarded_pte R) 0" by (simp add: ops RV_is_present_def RV_from_bits_truncate_def contains_def RV_VALID_def)
  show "set_flags (guarded_pte R) fl h (set_addr (guarded_pte R) p e) = set_flags (guarded_pte R) fl h (set_addr (guarded_pte R) p e')"
    by (simp add: ops leaf_eq)
  assume p: "pte_frame p"
  show "set_table (guarded_pte R) p e \<noteq> 0 \<and> is_present (guarded_pte R) (set_table (guarded_pte R) p e) \<and>
      \<not> is_huge (guarded_pte R) (set_table (guarded_pte R) p e) \<and> pte_addr (guarded_pte R) (set_table (guarded_pte R) p e) = p"
    using p by (simp add: ops table_eq table_small RV_leaf_present rv_pack_addr rv_pack_nonzero)
  show "set_flags (guarded_pte R) fl h (set_addr (guarded_pte R) p e) \<noteq> 0 \<and>
      is_present (guarded_pte R) (set_flags (guarded_pte R) fl h (set_addr (guarded_pte R) p e)) \<and>
      (h \<longrightarrow> is_huge (guarded_pte R) (set_flags (guarded_pte R) fl h (set_addr (guarded_pte R) p e))) \<and>
      pte_addr (guarded_pte R) (set_flags (guarded_pte R) fl h (set_addr (guarded_pte R) p e)) = p \<and>
      pte_flags (guarded_pte R) (set_flags (guarded_pte R) fl h (set_addr (guarded_pte R) p e)) = Ok (norm (with_right fl))"
    using p by (simp add: ops leaf_eq attr_valid attr_huge attr_flags some_right_with RV_leaf_present rv_pack_addr rv_pack_nonzero)
qed

interpretation rv1: rv_format RV1_pte RV1_attr_of_flags RV1_norm
  by unfold_locales (simp_all add: RV1_pte_def RV1_set_flags_def RV_leaf_valid RV_leaf_huge RV_leaf_flags)

interpretation rv2: rv_format RV2_pte RV2_attr_of_flags RV2_norm
  by unfold_locales (simp_all add: RV2_pte_def RV2_set_flags_def RV_leaf_valid RV_leaf_huge RV_leaf_flags)

end
