(* ===== verification/Hv_Frame16.thy ===== *)
theory Hv_Frame16
  imports Hv_PtOps
begin

unbundle bit_operations_syntax

text \<open>
  \<open>Frame::new_16\<close> of \<open>src/memory/frame.rs\<close>, the root frames of the riscv64 page tables. It takes single frames until one of them
  is aligned to 16 KiB, gives that one back, takes four contiguous frames and gives the others back.
\<close>

section \<open>Root frames\<close>

text \<open>
  The loop of \<open>new_16\<close>: frames until one is aligned to 16 KiB, all in the list. A loop that never ends is \<open>None\<close>. When the
  allocator has no frame left, the frames taken so far are dropped.
\<close>

partial_function (option) new_16_loop :: "'b bitalloc \<Rightarrow> Frame list \<Rightarrow> 'b pmem \<Rightarrow> ((HvErrorNum, Frame list) outcome \<times> 'b pmem) option" where
  "new_16_loop A v s = (case Frame_new_zero A s of
       (Ok f, s') \<Rightarrow> if start_paddr f AND 0x3fff = 0 then Some (Ok (v @ [f]), s') else new_16_loop A (v @ [f]) s'
     | (Err e, s') \<Rightarrow> Some (bindP (drop_frames A v) (\<lambda>_. errP e) s')
     | (Panic, s') \<Rightarrow> Some (Panic, s') | (Hang, s') \<Rightarrow> Some (Hang, s') | (Fault, s') \<Rightarrow> Some (Fault, s'))"

definition Frame_new_16 :: "'b bitalloc \<Rightarrow> ('b pmem, HvErrorNum, Frame) prog" where
  "Frame_new_16 A =
     bindP (\<lambda>s. case new_16_loop A [] s of Some r \<Rightarrow> r | None \<Rightarrow> (Hang, s)) (\<lambda>v.
     bindP (Frame_drop A (last v)) (\<lambda>_. \<lambda>s.
     case Frame_new_contiguous A 4 0 s of
       (Err e, s') \<Rightarrow> bindP (drop_frames A (butlast v)) (\<lambda>_. errP e) s'
     | (Ok ret, s') \<Rightarrow> bindP (drop_frames A (butlast v)) (\<lambda>_. retP ret) s'
     | r \<Rightarrow> r))"

section \<open>The loop ends\<close>

text \<open>Frames a caller holds: of the pool, distinct, none of them free.\<close>

definition taken :: "'b bitalloc \<Rightarrow> Frame list \<Rightarrow> 'b pmem \<Rightarrow> bool" where
  "taken A v s \<longleftrightarrow> distinct (map start_paddr v) \<and>
     (\<forall>f\<in>set v. frame_count f = 1 \<and> in_pool (falloc s) (start_paddr f) \<and> \<not> frame_free A (falloc s) (start_paddr f))"

text \<open>From \<open>s\<close> to \<open>s'\<close> the frames \<open>v\<close> went to the caller.\<close>

definition took :: "'b bitalloc \<Rightarrow> 'b pmem \<Rightarrow> PhysAddr set \<Rightarrow> 'b pmem \<Rightarrow> bool" where
  "took A s v s' \<longleftrightarrow> falloc_ok A (falloc s') \<and> base (falloc s') = base (falloc s) \<and>
     (\<forall>q. frame_free A (falloc s') q \<longleftrightarrow> frame_free A (falloc s) q \<and> q \<notin> v) \<and> (\<forall>q \<in> v. frame_free A (falloc s) q)"

definition gave :: "'b bitalloc \<Rightarrow> 'b pmem \<Rightarrow> PhysAddr set \<Rightarrow> 'b pmem \<Rightarrow> bool" where
  "gave A s v s' \<longleftrightarrow> falloc_ok A (falloc s') \<and> base (falloc s') = base (falloc s) \<and>
     (\<forall>q. frame_free A (falloc s') q \<longleftrightarrow> frame_free A (falloc s) q \<or> q \<in> v)"

lemma finite_free: "falloc_ok A fa \<Longrightarrow> finite (Collect (frame_free A fa))"
proof -
  assume ok: "falloc_ok A fa"
  have "Collect (frame_free A fa) \<subseteq> (\<lambda>k. k * PAGE_SIZE + base fa) ` UNIV" by (auto simp: frame_free_def)
  then show ?thesis by (rule finite_subset) simp
qed

lemma taken_took:
  assumes "falloc_ok A (falloc s)" "taken A v s" "took A s (start_paddr ` set w) s'" "distinct (map start_paddr w)" "\<forall>f\<in>set w. frame_count f = 1"
  shows "taken A (v @ w) s'"
  using assms frame_free_pool [OF _ assms(1)] in_pool_base [of "falloc s'" "falloc s"]
  unfolding taken_def took_def by (auto simp: image_iff)

lemma took_gave: "took A s v s2 \<Longrightarrow> took A s2 P s3 \<Longrightarrow> gave A s3 v s4 \<Longrightarrow> took A s P s4"
  by (auto simp: took_def gave_def)

lemma gave_back: "took A s v s2 \<Longrightarrow> gave A s2 {} s3 \<Longrightarrow> gave A s3 v s4 \<Longrightarrow> gave A s {} s4"
  by (auto simp: took_def gave_def)

context bit_alloc
begin

lemma new_zero_took:
  assumes "falloc_ok A (falloc s)" "Frame_new_zero A s = (r, s')"
  obtains f where "r = Ok f" "frame_count f = 1" "took A s {start_paddr f} s'" "card (Collect (frame_free A (falloc s'))) < card (Collect (frame_free A (falloc s)))"
  | "r = Err ENOMEM" "took A s {} s'" "gave A s {} s'"
  using assms
proof (cases rule: frames.new_zero_cases)
  case (got f)
  have one: "frame_count f = 1" using frames.new_zero_Ok [OF assms(1)] assms(2) got(1) by simp
  have took: "took A s {start_paddr f} s'" using got(2-4) new_zero_base [OF assms(2)] by (simp add: took_def)
  have "Collect (frame_free A (falloc s')) \<subset> Collect (frame_free A (falloc s))" using got(3,4) by auto
  then have "card (Collect (frame_free A (falloc s'))) < card (Collect (frame_free A (falloc s)))"
    by (rule psubset_card_mono [OF finite_free [OF assms(1)]])
  with that(1) [OF got(1) one took] show ?thesis by blast
next
  case none
  then have "took A s {} s'" "gave A s {} s'" using new_zero_base [OF assms(2)] by (simp_all add: took_def gave_def)
  with that(2) none(1) show ?thesis by blast
qed

lemma drop_gave:
  assumes "falloc_ok A (falloc s)" "taken A v s"
  obtains t where "drop_frames A v s = (Ok (), t)" "gave A s (start_paddr ` set v) t"
  using drop_frames_used [of s v] assms unfolding taken_def gave_def by blast

lemma new_16_loop_ends:
  assumes "falloc_ok A (falloc s)" "taken A v s"
  shows "(\<exists>w f s'. new_16_loop A v s = Some (Ok (v @ w @ [f]), s') \<and> took A s (start_paddr ` set (w @ [f])) s' \<and> taken A (v @ w @ [f]) s') \<or>
    (\<exists>s'. new_16_loop A v s = Some (Err ENOMEM, s') \<and> gave A s (start_paddr ` set v) s')"
  using assms
proof (induction "card (Collect (frame_free A (falloc s)))" arbitrary: v s rule: less_induct)
  case less
  obtain r t where nz: "Frame_new_zero A s = (r, t)" by fastforce
  from less.prems(1) nz show ?case
  proof (cases rule: new_zero_took)
    case (1 f)
    have okt: "falloc_ok A (falloc t)" using 1(3) by (simp add: took_def)
    have tk: "taken A (v @ [f]) t" using taken_took [OF less.prems, of "[f]" t] 1(2,3) by simp
    show ?thesis
    proof (cases "start_paddr f AND 0x3fff = 0")
      case True
      then have "new_16_loop A v s = Some (Ok (v @ [] @ [f]), t)" by (simp add: new_16_loop.simps [of A v] nz 1(1))
      with 1(3) tk show ?thesis by (intro disjI1 exI [of _ "[]"] exI [of _ f] exI [of _ t] conjI) simp_all
    next
      case False
      then have run: "new_16_loop A v s = new_16_loop A (v @ [f]) t" by (simp add: new_16_loop.simps [of A v] nz 1(1))
      from less.hyps [OF 1(4) okt tk] show ?thesis
      proof (elim disjE exE conjE)
        fix w g s' assume g: "new_16_loop A (v @ [f]) t = Some (Ok ((v @ [f]) @ w @ [g]), s')" "took A t (start_paddr ` set (w @ [g])) s'" "taken A ((v @ [f]) @ w @ [g]) s'"
        have "took A s (start_paddr ` set ((f # w) @ [g])) s'" using g(2) 1(3) by (auto simp: took_def)
        with g run show ?thesis by (intro disjI1 exI [of _ "f # w"] exI [of _ g] exI [of _ s'] conjI) simp_all
      next
        fix s' assume "new_16_loop A (v @ [f]) t = Some (Err ENOMEM, s')" "gave A t (start_paddr ` set (v @ [f])) s'"
        moreover from this have "gave A s (start_paddr ` set v) s'" using 1(3) by (auto simp: took_def gave_def)
        ultimately show ?thesis using run by auto
      qed
    qed
  next
    case 2
    have okt: "falloc_ok A (falloc t)" and tk: "taken A v t" using 2(2) taken_took [OF less.prems, of "[]" t] by (simp_all add: took_def)
    obtain t' where t': "drop_frames A v t = (Ok (), t')" "gave A t (start_paddr ` set v) t'" using drop_gave [OF okt tk] .
    then have "new_16_loop A v s = Some (Err ENOMEM, t')" by (simp add: new_16_loop.simps [of A v] nz 2(1) bindP_def errP_def)
    moreover have "gave A s (start_paddr ` set v) t'" using t'(2) 2(3) by (simp add: gave_def)
    ultimately show ?thesis by blast
  qed
qed

text \<open>The four frames from \<open>p\<close> on.\<close>

lemma new_contiguous_took:
  assumes ok: "falloc_ok A (falloc s)" and call: "Frame_new_contiguous A 4 al s = (r, s')"
  obtains p where "r = Ok \<lparr>start_paddr = p, frame_count = 4\<rparr>" "took A s {p, p + 0x1000, p + 0x2000, p + 0x3000} s'"
  | "r = Err ENOMEM" "gave A s {} s'"
proof -
  obtain ro b where al: "ba_alloc_contiguous A 4 al (inner (falloc s)) = (ro, b)" by fastforce
  let ?fa = "(falloc s)\<lparr>inner := b\<rparr>"
  show thesis
  proof (cases ro)
    case None
    with alloc_contiguous_None al have same: "ba_test A j b \<longleftrightarrow> ba_test A j (inner (falloc s))" for j by metis
    have "r = Err ENOMEM" "s' = s\<lparr>falloc := ?fa\<rparr>"
      using call al None by (simp_all add: Frame_new_contiguous_def with_falloc_def FrameAllocator_alloc_contiguous_def bindP_def errP_def)
    then show thesis using that(2) same ok by (simp add: gave_def falloc_ok_def frame_free_def)
  next
    case (Some k)
    note c = alloc_contiguous_Some [OF al [unfolded Some]]
    define S where "S = {k, k + 1, k + 2, k + 3}"
    have up: "unat (k + 4) = unat k + 4" "unat (k + 1) = unat k + 1" "unat (k + 2) = unat k + 2" "unat (k + 3) = unat k + 3"
      using c by (simp_all add: unat_add_exact)
    have four: "k \<le> j \<and> j < k + 4 \<longleftrightarrow> j \<in> S" for j
      unfolding S_def insert_iff word_unat_eq_iff [of j] word_less_nat_alt word_le_nat_alt up by auto
    have pool: "unat j < FRAME_CAP" if "ba_test A j (inner (falloc s))" for j using that ok by (simp add: falloc_ok_def)
    have test: "ba_test A j (inner (falloc s))" if "j \<in> S" for j using that c four by blast
    have kept: "ba_test A j b \<longleftrightarrow> ba_test A j (inner (falloc s)) \<and> j \<notin> S" for j using c four by blast
    let ?p = "k * PAGE_SIZE + base (falloc s)" and ?at = "\<lambda>j. j * PAGE_SIZE + base (falloc s)"
    have set: "{?p, ?p + 0x1000, ?p + 0x2000, ?p + 0x3000} = ?at ` S" by (simp add: S_def PAGE_SIZE_def algebra_simps)
    have "frame_addr ?fa k = Ok ?p" using frame_addr_Ok [of ?fa k] pool [OF test, of k] ok by (simp add: falloc_ok_def S_def)
    then have run: "r = Ok \<lparr>start_paddr = ?p, frame_count = 4\<rparr>" "s' = s\<lparr>falloc := ?fa\<rparr>"
      using call al Some by (simp_all add: Frame_new_contiguous_def with_falloc_def FrameAllocator_alloc_contiguous_def bindP_def)
    have eqs: "falloc (s\<lparr>falloc := ?fa\<rparr>) = ?fa" "inner ?fa = b" "base ?fa = base (falloc s)" by simp_all
    have inj: "ba_test A j (inner (falloc s)) \<Longrightarrow> i \<in> S \<Longrightarrow> ?at j = ?at i \<Longrightarrow> j = i" for i j
      using frame_inject [OF ok pool pool [OF test], of j i] by blast
    have "took A s (?at ` S) (s\<lparr>falloc := ?fa\<rparr>)"
      unfolding took_def
    proof (intro conjI allI ballI)
      show "falloc_ok A (falloc (s\<lparr>falloc := ?fa\<rparr>))" using ok kept by (simp add: falloc_ok_def)
      show "base (falloc (s\<lparr>falloc := ?fa\<rparr>)) = base (falloc s)" by simp
      fix q show "frame_free A (falloc s) q" if "q \<in> ?at ` S" using that test by (auto simp: frame_free_def)
      show "frame_free A (falloc (s\<lparr>falloc := ?fa\<rparr>)) q \<longleftrightarrow> frame_free A (falloc s) q \<and> q \<notin> ?at ` S"
        unfolding frame_free_def eqs kept using inj by fast
    qed
    then show thesis using that(1) [OF run(1)] run(2) set by simp
  qed
qed

lemma Frame_new_16_cases:
  assumes ok: "falloc_ok A (falloc s)" and call: "Frame_new_16 A s = (r, s')"
  shows "(\<exists>p. r = Ok \<lparr>start_paddr = p, frame_count = 4\<rparr> \<and> took A s {p, p + 0x1000, p + 0x2000, p + 0x3000} s') \<or> r = Err ENOMEM \<and> gave A s {} s'"
proof -
  have "taken A [] s" by (simp add: taken_def)
  from new_16_loop_ends [OF ok this] show ?thesis
  proof (elim disjE exE conjE)
    fix s1 assume "new_16_loop A [] s = Some (Err ENOMEM, s1)" "gave A s (start_paddr ` set []) s1"
    with call show ?thesis by (simp add: Frame_new_16_def bindP_def)
  next
    fix w f s1 assume l: "new_16_loop A [] s = Some (Ok ([] @ w @ [f]), s1)" "took A s (start_paddr ` set (w @ [f])) s1" "taken A ([] @ w @ [f]) s1"
    have ok1: "falloc_ok A (falloc s1)" and f: "taken A [f] s1" using l(2,3) by (simp_all add: took_def taken_def)
    obtain s2 where d: "drop_frames A [f] s1 = (Ok (), s2)" "gave A s1 (start_paddr ` set [f]) s2" using drop_gave [OF ok1 f] .
    have d1: "Frame_drop A f s1 = (Ok (), s2)" using d(1) by (auto simp: drop_frames_def bindP_def split: prod.splits outcome.splits)
    have ok2: "falloc_ok A (falloc s2)" and took2: "took A s (start_paddr ` set w) s2" and w: "taken A w s2"
      using d(2) l(2,3) in_pool_base [of "falloc s2" "falloc s1"] by (auto simp: gave_def took_def taken_def image_iff)
    obtain r3 s3 where c: "Frame_new_contiguous A 4 0 s2 = (r3, s3)" by fastforce
    from ok2 c show ?thesis
    proof (cases rule: new_contiguous_took)
      case (1 p)
      have ok3: "falloc_ok A (falloc s3)" and w3: "taken A w s3" using 1(2) taken_took [OF ok2 w, of "[]"] w in_pool_base [of "falloc s3" "falloc s2"]
        by (auto simp: took_def taken_def)
      obtain s4 where e: "drop_frames A w s3 = (Ok (), s4)" "gave A s3 (start_paddr ` set w) s4" using drop_gave [OF ok3 w3] .
      have "r = Ok \<lparr>start_paddr = p, frame_count = 4\<rparr>" "s' = s4" using call l(1) d1 c 1(1) e(1) by (simp_all add: Frame_new_16_def bindP_def)
      moreover have "took A s {p, p + 0x1000, p + 0x2000, p + 0x3000} s4" by (rule took_gave [OF took2 1(2) e(2)])
      ultimately show ?thesis by blast
    next
      case 2
      have ok3: "falloc_ok A (falloc s3)" and w3: "taken A w s3" using 2(2) w in_pool_base [of "falloc s3" "falloc s2"] by (auto simp: gave_def taken_def)
      obtain s4 where e: "drop_frames A w s3 = (Ok (), s4)" "gave A s3 (start_paddr ` set w) s4" using drop_gave [OF ok3 w3] .
      have "r = Err ENOMEM" "s' = s4" using call l(1) d1 c 2(1) e(1) by (simp_all add: Frame_new_16_def bindP_def errP_def)
      moreover have "gave A s {} s4" by (rule gave_back [OF took2 2(2) e(2)])
      ultimately show ?thesis by blast
    qed
  qed
qed

end

section \<open>Property\<close>

text \<open>
  C39: \<open>Frame::new_16\<close> always returns, although it takes frames until one happens to be aligned. On success it returns four
  contiguous frames that were free and takes exactly these; otherwise it fails with \<open>ENOMEM\<close> and every frame it had taken is free again.
\<close>

theorem new_16_spec:
  assumes "bit_alloc A" and "falloc_ok A (falloc s)" and "Frame_new_16 A s = (r, s')"
  shows "falloc_ok A (falloc s') \<and>
    ((\<exists>p. r = Ok \<lparr>start_paddr = p, frame_count = 4\<rparr> \<and> (\<forall>q \<in> {p, p + 0x1000, p + 0x2000, p + 0x3000}. frame_free A (falloc s) q) \<and>
       (\<forall>q. frame_free A (falloc s') q \<longleftrightarrow> frame_free A (falloc s) q \<and> q \<notin> {p, p + 0x1000, p + 0x2000, p + 0x3000})) \<or>
     r = Err ENOMEM \<and> (\<forall>q. frame_free A (falloc s') q \<longleftrightarrow> frame_free A (falloc s) q))"
  using bit_alloc.Frame_new_16_cases [OF assms]
proof (elim disjE exE conjE)
  fix p assume "r = Ok \<lparr>start_paddr = p, frame_count = 4\<rparr>" "took A s {p, p + 0x1000, p + 0x2000, p + 0x3000} s'"
  then show ?thesis unfolding took_def by (elim conjE, intro conjI disjI1 exI [of _ p]) assumption+
next
  assume "r = Err ENOMEM" "gave A s {} s'"
  then show ?thesis by (simp add: gave_def)
qed

lemma small_contiguous: "ba_alloc_contiguous list_bits 4 0 [0, 1, 2, 3, 4, 5, 6, 7] = (Some 0, [4, 5, 6, 7])"
proof -
  have "{0..<4 :: nat} = {0, 1, 2, 3}" by auto
  then show ?thesis by (simp add: list_bits_def)
qed

lemma small_pool_16: "Frame_new_16 list_bits small_pool = (Ok \<lparr>start_paddr = 0x80000000, frame_count = 4\<rparr>,
  \<lparr>falloc = \<lparr>base = 0x80000000, inner = [4, 5, 6, 7]\<rparr>, bytes = fill_bytes (\<lambda>_. 0) 0x80000000 PAGE_SIZE 0\<rparr>)"
proof -
  let ?f = "\<lparr>start_paddr = 0x80000000, frame_count = 1\<rparr>" and ?g = "\<lparr>start_paddr = 0x80000000, frame_count = 4\<rparr>"
  let ?t = "\<lambda>free. \<lparr>falloc = \<lparr>base = 0x80000000, inner = free\<rparr>, bytes = fill_bytes (\<lambda>_. 0) 0x80000000 PAGE_SIZE 0\<rparr> :: usize list pmem"
  have l: "new_16_loop list_bits [] small_pool = Some (Ok [?f], ?t [1, 2, 3, 4, 5, 6, 7])"
    by (subst new_16_loop.simps) (simp add: small_pool_alloc)
  have d: "Frame_drop list_bits ?f (?t [1, 2, 3, 4, 5, 6, 7]) = (Ok (), ?t [0, 1, 2, 3, 4, 5, 6, 7])"
    by (simp add: Frame_drop_def FrameAllocator_dealloc_def frame_index_def sub_chk_def list_bits_def)
  have c: "Frame_new_contiguous list_bits 4 0 (?t [0, 1, 2, 3, 4, 5, 6, 7]) = (Ok ?g, ?t [4, 5, 6, 7])"
    by (simp add: Frame_new_contiguous_def with_falloc_def FrameAllocator_alloc_contiguous_def small_contiguous frame_addr_def mul_chk_def add_chk_def bindP_def)
  show ?thesis using l d c by (simp add: Frame_new_16_def bindP_def drop_frames_def)
qed

theorem new_16_spec_witness:
  "frame_free list_bits (falloc small_pool) 0x80003000 \<and> \<not> frame_free list_bits (falloc (snd (Frame_new_16 list_bits small_pool))) 0x80003000"
  using new_16_spec [OF list_bits.bit_alloc_axioms small_pool_ok small_pool_16] unfolding small_pool_16 snd_conv by auto

end
