(* ===== verification/Hv_RvPaging.thy ===== *)
theory Hv_RvPaging
  imports Hv_PtSpec Hv_RvPte Hv_Frame16
begin

unbundle bit_operations_syntax

text \<open>
  Page tables of the riscv64 port (\<open>src/arch/riscv64/paging.rs\<close>). The definitions follow the port's own source; page sizes, pages and errors are
  the same there and shared with the aarch64 tables. \<open>TEMPORARY_MAPPING_BASE\<close>, which the source imports but nothing defines, is
  a parameter. The operations are shown to be those of the aarch64 tables with three levels.
\<close>

section \<open>Tables\<close>

definition PHYS_VIRT_OFFSET :: usize where
  "PHYS_VIRT_OFFSET = 0"

definition table_of3 :: "PhysAddr \<Rightarrow> usize" where
  "table_of3 paddr = paddr + PHYS_VIRT_OFFSET"

definition L3_next_table_mut :: "rv_pte \<Rightarrow> u64 \<Rightarrow> (PagingError, usize) outcome" where
  "L3_next_table_mut R entry =
     (if \<not> rv_is_present R entry then Err NotMapped
      else if rv_is_huge R entry then Err MappedToHugePage
      else Ok (table_of3 (rv_addr R entry)))"

record Level3PageTable =
  root3 :: Frame
  intrm_tables3 :: "Frame list"

type_synonym ('b, 'e, 'a) l3_prog = "('b pmem \<times> Level3PageTable, 'e, 'a) prog"

definition L3_root_paddr :: "Level3PageTable \<Rightarrow> PhysAddr" where
  "L3_root_paddr self = start_paddr (root3 self)"

definition L3_get_entry_mut :: "rv_pte \<Rightarrow> Level3PageTable \<Rightarrow> VirtAddr \<Rightarrow> phys_mem \<Rightarrow> (PagingError, usize \<times> PageSize) outcome" where
  "L3_get_entry_mut R self v m =
     (let p3 = table_of3 (L3_root_paddr self); p3e = table_entry_addr p3 (p3_index v) in
     if rv_is_huge R (read_u64 m p3e) then Ok (p3e, Size1G) else
     bind_out (L3_next_table_mut R (read_u64 m p3e)) (\<lambda>p2.
     let p2e = table_entry_addr p2 (p2_index v) in
     if rv_is_huge R (read_u64 m p2e) then Ok (p2e, Size2M) else
     bind_out (L3_next_table_mut R (read_u64 m p2e)) (\<lambda>p1.
     let p1e = table_entry_addr p1 (p1_index v) in
     Ok (p1e, Size4K))))"

definition L3_query :: "rv_pte \<Rightarrow> Level3PageTable \<Rightarrow> VirtAddr \<Rightarrow> phys_mem \<Rightarrow> (PagingError, PhysAddr \<times> MemFlags \<times> PageSize) outcome" where
  "L3_query R self v m =
     bind_out (L3_get_entry_mut R self v m) (\<lambda>(entry, size).
     let e = read_u64 m entry in
     if rv_is_unused R e then Err NotMapped else
     bind_out (add_chk (rv_addr R e) (PageSize_page_offset size v)) (\<lambda>pa. Ok (pa, rv_flags R e, size)))"

definition L3_new :: "'b bitalloc \<Rightarrow> ('b pmem, HvErrorNum, Level3PageTable) prog" where
  "L3_new A = bindP (unwrapP (Frame_new_16 A)) (\<lambda>f. retP \<lparr>root3 = f, intrm_tables3 = []\<rparr>)"

definition L3_from_root :: "PhysAddr \<Rightarrow> (HvErrorNum, Level3PageTable) outcome" where
  "L3_from_root root_paddr0 = bind_out (Frame_from_paddr root_paddr0) (\<lambda>f. Ok \<lparr>root3 = f, intrm_tables3 = []\<rparr>)"

definition L3_update_entry :: "usize \<Rightarrow> (u64 \<Rightarrow> u64) \<Rightarrow> ('b, 'e, unit) l3_prog" where
  "L3_update_entry a f = modifyP (\<lambda>(s, pt). (s\<lparr>bytes := write_u64 (bytes s) a (f (read_u64 (bytes s) a))\<rparr>, pt))"

definition L3_alloc_intrm_table :: "'b bitalloc \<Rightarrow> ('b, HvErrorNum, PhysAddr) l3_prog" where
  "L3_alloc_intrm_table A = (\<lambda>(s, pt).
     case Frame_new_zero A s of
       (Ok f, s') \<Rightarrow> (Ok (start_paddr f), (s', pt\<lparr>intrm_tables3 := intrm_tables3 pt @ [f]\<rparr>))
     | (Err e, s') \<Rightarrow> (Err e, (s', pt)) | (Panic, s') \<Rightarrow> (Panic, (s', pt))
     | (Hang, s') \<Rightarrow> (Hang, (s', pt)) | (Fault, s') \<Rightarrow> (Fault, (s', pt)))"

definition L3_next_table_mut_or_create :: "rv_pte \<Rightarrow> 'b bitalloc \<Rightarrow> usize \<Rightarrow> ('b, PagingError, usize) l3_prog" where
  "L3_next_table_mut_or_create R A entry =
     bindP (getP (\<lambda>(s, pt). read_u64 (bytes s) entry)) (\<lambda>e.
     if rv_is_unused R e then
       bindP (map_errP (\<lambda>_. NoMemory) (L3_alloc_intrm_table A)) (\<lambda>paddr.
       bindP (L3_update_entry entry (rv_set_table R paddr)) (\<lambda>_. retP (table_of3 paddr)))
     else liftP (L3_next_table_mut R e))"

text \<open>\<open>flags.remove\<close> of \<open>bitflags\<close>; the flags are a \<open>&mut\<close> argument, so they are returned with the entry.\<close>

definition flags_remove :: "MemFlags \<Rightarrow> MemFlags \<Rightarrow> MemFlags" where
  "flags_remove fl other = fl AND NOT other"

definition L3_get_entry_mut_or_create :: "rv_pte \<Rightarrow> 'b bitalloc \<Rightarrow> Page \<Rightarrow> MemFlags \<Rightarrow> ('b, PagingError, usize \<times> MemFlags) l3_prog" where
  "L3_get_entry_mut_or_create R A page fl =
     (let v = vaddr page in
     bindP (getP snd) (\<lambda>self.
     let p3 = table_of3 (L3_root_paddr self); p3e = table_entry_addr p3 (p3_index v) in
     if psize page = Size1G then retP (p3e, flags_remove fl NO_HUGEPAGES) else
     bindP (L3_next_table_mut_or_create R A p3e) (\<lambda>p2.
     let p2e = table_entry_addr p2 (p2_index v) in
     if psize page = Size2M then retP (p2e, flags_remove fl NO_HUGEPAGES) else
     bindP (L3_next_table_mut_or_create R A p2e) (\<lambda>p1.
     let p1e = table_entry_addr p1 (p1_index v) in retP (p1e, fl)))))"

definition L3_map_page :: "usize \<Rightarrow> rv_pte \<Rightarrow> 'b bitalloc \<Rightarrow> Page \<Rightarrow> PhysAddr \<Rightarrow> MemFlags \<Rightarrow> ('b, PagingError, usize) l3_prog" where
  "L3_map_page TEMPORARY_MAPPING_BASE R A page paddr fl =
     bindP (L3_get_entry_mut_or_create R A page fl) (\<lambda>(entry, fl).
     bindP (getP (\<lambda>(s, pt). read_u64 (bytes s) entry)) (\<lambda>e.
     if \<not> rv_is_unused R e \<and> vaddr page \<noteq> TEMPORARY_MAPPING_BASE then errP AlreadyMapped else
     bindP (L3_update_entry entry (rv_set_addr R (PageSize_align_down (psize page) paddr))) (\<lambda>_.
     bindP (L3_update_entry entry (rv_set_flags R fl)) (\<lambda>_.
     retP entry))))"

definition L3_unmap_page :: "rv_pte \<Rightarrow> VirtAddr \<Rightarrow> ('b, PagingError, PhysAddr \<times> PageSize) l3_prog" where
  "L3_unmap_page R v = (\<lambda>(s, pt).
     bindP (liftP (L3_get_entry_mut R pt v (bytes s))) (\<lambda>(entry, size).
     bindP (getP (\<lambda>(s, pt). read_u64 (bytes s) entry)) (\<lambda>e.
     if rv_is_unused R e then errP NotMapped else
     bindP (L3_update_entry entry (rv_clear R)) (\<lambda>_. retP (rv_addr R e, size)))) (s, pt))"

definition L3_update :: "rv_pte \<Rightarrow> VirtAddr \<Rightarrow> PhysAddr \<Rightarrow> MemFlags \<Rightarrow> ('b, PagingError, PageSize) l3_prog" where
  "L3_update R v paddr fl = (\<lambda>(s, pt).
     bindP (liftP (L3_get_entry_mut R pt v (bytes s))) (\<lambda>(entry, size).
     bindP (L3_update_entry entry (rv_set_addr R paddr)) (\<lambda>_.
     bindP (L3_update_entry entry (rv_set_flags R fl)) (\<lambda>_.
     retP size))) (s, pt))"

function L3_map_loop :: "usize \<Rightarrow> rv_pte \<Rightarrow> 'b bitalloc \<Rightarrow> MemoryRegion \<Rightarrow> VirtAddr \<Rightarrow> usize \<Rightarrow> ('b, HvErrorNum, unit) l3_prog" where
  "L3_map_loop T R A region v left s =
     (if left = 0 then retP () s else
      let paddr = map_fn (mapper region) v;
          page_size = (if PageSize_is_aligned Size1G v \<and> PageSize_is_aligned Size1G paddr \<and> left \<ge> page_bytes Size1G
              \<and> \<not> contains (flags region) NO_HUGEPAGES then Size1G
            else if PageSize_is_aligned Size2M v \<and> PageSize_is_aligned Size2M paddr \<and> left \<ge> page_bytes Size2M
              \<and> \<not> contains (flags region) NO_HUGEPAGES then Size2M
            else Size4K)
      in bindP (liftP (Page_new_aligned v page_size)) (\<lambda>page.
         bindP (map_errP hv_error_from_paging (L3_map_page T R A page paddr (flags region))) (\<lambda>_.
         bindP (liftP (add_chk v (page_bytes page_size))) (\<lambda>v'.
         bindP (liftP (sub_chk left (page_bytes page_size))) (\<lambda>left'.
         L3_map_loop T R A region v' left')))) s)"
  by pat_completeness auto
termination
  by (relation "measure (\<lambda>(T, R, A, region, v, left, s). unat left)")
    (auto simp: liftP_def dest: sub_chk_page_less)

definition L3_map :: "usize \<Rightarrow> rv_pte \<Rightarrow> 'b bitalloc \<Rightarrow> MemoryRegion \<Rightarrow> ('b, HvErrorNum, unit) l3_prog" where
  "L3_map T R A region =
     bindP (liftP (rust_assert (is_aligned (start region)))) (\<lambda>_.
     bindP (liftP (rust_assert (is_aligned (sz region)))) (\<lambda>_.
     L3_map_loop T R A region (start region) (sz region)))"

function L3_unmap_loop :: "rv_pte \<Rightarrow> VirtAddr \<Rightarrow> usize \<Rightarrow> ('b, HvErrorNum, unit) l3_prog" where
  "L3_unmap_loop R v left s =
     (if left = 0 then retP () s else
      bindP (map_errP hv_error_from_paging (L3_unmap_page R v)) (\<lambda>page.
      bindP (liftP (if \<not> PageSize_is_aligned (snd page) v then Hang else Ok ())) (\<lambda>_.
      bindP (liftP (rust_assert (PageSize_is_aligned (snd page) v))) (\<lambda>_.
      bindP (liftP (rust_assert (page_bytes (snd page) \<le> left))) (\<lambda>_.
      bindP (liftP (add_chk v (page_bytes (snd page)))) (\<lambda>v'.
      bindP (liftP (sub_chk left (page_bytes (snd page)))) (\<lambda>left'.
      L3_unmap_loop R v' left')))))) s)"
  by pat_completeness auto
termination
  by (relation "measure (\<lambda>(R, v, left, s). unat left)")
    (auto simp: liftP_def dest: sub_chk_page_less)

definition L3_unmap :: "rv_pte \<Rightarrow> MemoryRegion \<Rightarrow> ('b, HvErrorNum, unit) l3_prog" where
  "L3_unmap R region = L3_unmap_loop R (start region) (sz region)"

definition L3_clone_from :: "'b bitalloc \<Rightarrow> PhysAddr \<Rightarrow> ('b pmem, HvErrorNum, Level3PageTable) prog" where
  "L3_clone_from A src = bindP (L3_new A) (\<lambda>pt.
     bindP (modifyP (\<lambda>s. s\<lparr>bytes := copy_entries (unat ENTRY_COUNT) (table_of3 src) (table_of3 (L3_root_paddr pt)) (bytes s)\<rparr>))
       (\<lambda>_. retP pt))"

definition npages :: "usize \<Rightarrow> usize" where
  "npages n = (if n AND 0xfff = 0 then drop_bit 12 n else drop_bit 12 n + 1)"

section \<open>The same as three level tables of aarch64\<close>

text \<open>The first of the root's frames holds the 512 entries that are used; the other three are only owned.\<close>

definition to_hv :: "Level3PageTable \<Rightarrow> HvPageTable" where
  "to_hv pt = \<lparr>root = (root3 pt)\<lparr>frame_count := 1\<rparr>, level = 3, intrm_tables = intrm_tables3 pt\<rparr>"

definition sim :: "('b, 'e, 'a) l3_prog \<Rightarrow> ('b, 'e, 'a) pt_prog \<Rightarrow> bool" where
  "sim m3 m \<longleftrightarrow> (\<forall>s pt. m (s, to_hv pt) = (case m3 (s, pt) of (r, (s', pt')) \<Rightarrow> (r, (s', to_hv pt'))))"

named_theorems sim_intros

lemma simD: "sim m3 m \<Longrightarrow> m (s, to_hv pt) = (case m3 (s, pt) of (r, (s', pt')) \<Rightarrow> (r, (s', to_hv pt')))"
  by (simp add: sim_def)

lemma sim_pure [sim_intros]: "sim (retP x) (retP x)" "sim (liftP r) (liftP r)" "sim (errP e) (errP e)"
  by (simp_all add: sim_def errP_def)

lemma sim_bind [sim_intros]: "sim m3 m \<Longrightarrow> (\<And>x. sim (f3 x) (f x)) \<Longrightarrow> sim (bindP m3 f3) (bindP m f)"
  unfolding sim_def by (auto simp: bindP_def split: prod.splits outcome.splits)

lemma sim_if [sim_intros]: "(b \<Longrightarrow> sim m3 m) \<Longrightarrow> (\<not> b \<Longrightarrow> sim n3 n) \<Longrightarrow> sim (if b then m3 else n3) (if b then m else n)"
  by simp

lemma sim_bytes [sim_intros]: "sim (getP (\<lambda>(s, pt). g (bytes s))) (getP (\<lambda>(s, pt). g (bytes s)))"
  by (simp add: sim_def)

lemma sim_map_err [sim_intros]: "sim m3 m \<Longrightarrow> sim (map_errP h m3) (map_errP h m)"
  unfolding sim_def by (auto simp: map_errP_def split: prod.splits outcome.splits)

lemma sim_update_entry [sim_intros]: "sim (L3_update_entry a f) (update_entry a f)"
  by (simp add: sim_def L3_update_entry_def update_entry_def)

lemma sim_alloc [sim_intros]: "sim (L3_alloc_intrm_table A) (alloc_intrm_table A)"
  by (auto simp: sim_def L3_alloc_intrm_table_def alloc_intrm_table_def to_hv_def split: prod.splits outcome.splits)

lemma table_of3_id [simp]: "table_of3 p = p"
  by (simp add: table_of3_def PHYS_VIRT_OFFSET_def)

lemma as_pte_sel [simp]:
  "pte_addr (as_pte R) = rv_addr R" "pte_flags (as_pte R) = (\<lambda>e. Ok (rv_flags R e))" "is_unused (as_pte R) = rv_is_unused R"
  "is_present (as_pte R) = rv_is_present R" "is_huge (as_pte R) = rv_is_huge R" "set_addr (as_pte R) = rv_set_addr R"
  "set_flags (as_pte R) = (\<lambda>fl h. rv_set_flags R fl)" "set_table (as_pte R) = rv_set_table R" "pte_clear (as_pte R) = rv_clear R"
  by (simp_all add: as_pte_def)

lemma next_table_same: "L3_next_table_mut R e = next_table_mut (as_pte R) e"
  by (simp add: L3_next_table_mut_def next_table_mut_def)

lemma root_same [simp]: "root_paddr (to_hv pt) = L3_root_paddr pt" "level (to_hv pt) = 3"
  by (simp_all add: to_hv_def root_paddr_def L3_root_paddr_def)

lemma get_entry_same: "L3_get_entry_mut R pt v m = get_entry_mut (as_pte R) (to_hv pt) v m"
  by (simp add: L3_get_entry_mut_def get_entry_mut_def next_table_same Let_def cong: if_cong)

lemma query_same: "L3_query R pt v m = query (as_pte R) (to_hv pt) v m"
  by (simp add: L3_query_def query_def get_entry_same Let_def cong: if_cong)

lemma sim_next_table [sim_intros]: "sim (L3_next_table_mut_or_create R A e) (next_table_mut_or_create (as_pte R) A e)"
  unfolding L3_next_table_mut_or_create_def next_table_mut_or_create_def as_pte_sel next_table_same table_of3_id
  by (intro sim_intros)

text \<open>A flag that is not there can be removed.\<close>

lemma flags_remove_absent: "\<not> contains fl NO_HUGEPAGES \<Longrightarrow> flags_remove fl NO_HUGEPAGES = fl"
proof -
  assume "\<not> contains fl NO_HUGEPAGES"
  then have "\<not> bit fl 8" by (simp add: NO_HUGEPAGES_def contains_bit del: push_bit_of_1)
  moreover have "bit NO_HUGEPAGES n \<longleftrightarrow> n = 8" for n unfolding NO_HUGEPAGES_def by (simp only: bit_push_bit_iff bit_1_iff) auto
  ultimately show ?thesis unfolding flags_remove_def by (intro bit_word_eqI) (auto simp: bit_and_iff bit_not_iff)
qed

lemma bindP_assoc3: "bindP (bindP m f) g = bindP m (\<lambda>x. bindP (f x) g)"
  by (rule ext) (simp add: bindP_def split: prod.split outcome.split)

lemma bindP_unit: "bindP (retP x) f = f x"
  by (rule ext) (simp add: bindP_def)

lemma bindP_if: "bindP (if b then m else n) g = (if b then bindP m g else bindP n g)"
  by simp

lemma sim_self [sim_intros]: "(\<And>pt. sim (f3 pt) (f (to_hv pt))) \<Longrightarrow> sim (bindP (getP snd) f3) (bindP (getP snd) f)"
  unfolding sim_def by (auto simp: bindP_def split: prod.splits outcome.splits)

lemma sim_get_or_create:
  assumes "PageSize_is_huge (psize page) \<Longrightarrow> \<not> contains fl NO_HUGEPAGES"
  shows "sim (L3_get_entry_mut_or_create R A page fl) (bindP (get_entry_mut_or_create (as_pte R) A page) (\<lambda>e. retP (e, fl)))"
proof -
  have rm: "flags_remove fl NO_HUGEPAGES = fl" if "psize page = Size1G \<or> psize page = Size2M"
    using assms that by (intro flags_remove_absent) (auto simp: PageSize_is_huge_def)
  have l: "((3 :: usize) = 4) = False" by simp
  show ?thesis
    unfolding L3_get_entry_mut_or_create_def get_entry_mut_or_create_def Let_def bindP_assoc3 bindP_if bindP_unit table_of3_id root_same
    by (rule sim_self, simp only: l if_False root_same, intro sim_intros) (simp_all only: rm sim_pure simp_thms)
qed

lemma sim_map_page:
  assumes "PageSize_is_huge (psize page) \<Longrightarrow> \<not> contains fl NO_HUGEPAGES" "vaddr page \<noteq> T"
  shows "sim (L3_map_page T R A page paddr fl) (map_page (as_pte R) A page paddr fl)"
proof -
  have "sim (L3_map_page T R A page paddr fl)
     (bindP (bindP (get_entry_mut_or_create (as_pte R) A page) (\<lambda>e. retP (e, fl))) (\<lambda>(entry, fl).
     bindP (getP (\<lambda>(s, pt). read_u64 (bytes s) entry)) (\<lambda>e.
     if \<not> rv_is_unused R e \<and> vaddr page \<noteq> T then errP AlreadyMapped else
     bindP (update_entry entry (rv_set_addr R (PageSize_align_down (psize page) paddr))) (\<lambda>_.
     bindP (update_entry entry (rv_set_flags R fl)) (\<lambda>_. retP entry)))))"
    unfolding L3_map_page_def by (intro sim_bind sim_get_or_create [OF assms(1)]) (auto split: prod.split intro!: sim_intros)
  then show ?thesis using assms(2) by (simp only: map_page_def bindP_assoc3 bindP_unit as_pte_sel prod.case simp_thms)
qed

lemma choose_size_flags: "PageSize_is_huge (choose_size region v paddr left) \<Longrightarrow> \<not> contains (flags region) NO_HUGEPAGES"
  by (auto simp: choose_size_def PageSize_is_huge_def split: if_splits)

lemma sim_known: "(\<And>x. r = Ok x \<Longrightarrow> sim (f3 x) (f x)) \<Longrightarrow> sim (bindP (liftP r) f3) (bindP (liftP r) f)"
  unfolding sim_def by (auto simp: bindP_def liftP_def split: prod.splits outcome.splits)

lemma sim_fun: "m3 = (\<lambda>s. n3 s) \<Longrightarrow> m = (\<lambda>s. n s) \<Longrightarrow> sim n3 n \<Longrightarrow> sim m3 m"
  by simp

lemma map_loop_step:
  assumes "left \<noteq> 0"
  shows "L3_map_loop T R A region v left = bindP (liftP (Page_new_aligned v (choose_size region v (map_fn (mapper region) v) left))) (\<lambda>page.
         bindP (map_errP hv_error_from_paging (L3_map_page T R A page (map_fn (mapper region) v) (flags region))) (\<lambda>_.
         bindP (liftP (add_chk v (page_bytes (choose_size region v (map_fn (mapper region) v) left)))) (\<lambda>v'.
         bindP (liftP (sub_chk left (page_bytes (choose_size region v (map_fn (mapper region) v) left)))) (\<lambda>left'.
         L3_map_loop T R A region v' left'))))"
    "map_loop P A region v left = bindP (liftP (Page_new_aligned v (choose_size region v (map_fn (mapper region) v) left))) (\<lambda>page.
         bindP (map_errP hv_error_from_paging (map_page P A page (map_fn (mapper region) v) (flags region))) (\<lambda>_.
         bindP (liftP (add_chk v (page_bytes (choose_size region v (map_fn (mapper region) v) left)))) (\<lambda>v'.
         bindP (liftP (sub_chk left (page_bytes (choose_size region v (map_fn (mapper region) v) left)))) (\<lambda>left'.
         map_loop P A region v' left'))))"
proof -
  show "L3_map_loop T R A region v left = bindP (liftP (Page_new_aligned v (choose_size region v (map_fn (mapper region) v) left))) (\<lambda>page.
         bindP (map_errP hv_error_from_paging (L3_map_page T R A page (map_fn (mapper region) v) (flags region))) (\<lambda>_.
         bindP (liftP (add_chk v (page_bytes (choose_size region v (map_fn (mapper region) v) left)))) (\<lambda>v'.
         bindP (liftP (sub_chk left (page_bytes (choose_size region v (map_fn (mapper region) v) left)))) (\<lambda>left'.
         L3_map_loop T R A region v' left'))))"
    using assms by (intro ext) (simp only: L3_map_loop.simps [of _ _ _ _ _ left] Let_def choose_size_def if_False simp_thms)
qed (use assms in \<open>intro ext, simp only: map_loop.simps [of _ _ _ _ left] Let_def if_False simp_thms\<close>)

lemma sim_map_loop:
  assumes "unat T < unat v \<or> unat v + unat left \<le> unat T"
  shows "sim (L3_map_loop T R A region v left) (map_loop (as_pte R) A region v left)"
  using assms
proof (induction "unat left" arbitrary: v left rule: less_induct)
  case less
  let ?z = "choose_size region v (map_fn (mapper region) v) left"
  show ?case
  proof (cases "left = 0")
    case True
    then show ?thesis by (simp add: sim_def L3_map_loop.simps map_loop.simps)
  next
    case False
    have "v \<noteq> T" using False less.prems by (auto simp: unat_eq_0)
    show ?thesis unfolding map_loop_step [OF False]
    proof (intro sim_known sim_bind sim_map_err sim_map_page)
      fix page assume "Page_new_aligned v ?z = Ok page"
      then have p: "vaddr page = v" "psize page = ?z" by (auto simp: Page_new_aligned_def rust_assert_def split: if_splits outcome.splits)
      show "vaddr page \<noteq> T" using p \<open>v \<noteq> T\<close> by simp
      show "\<not> contains (flags region) NO_HUGEPAGES" if "PageSize_is_huge (psize page)" using that p choose_size_flags by simp
    next
      fix v' left' assume "add_chk v (page_bytes ?z) = Ok v'" and l: "sub_chk left (page_bytes ?z) = Ok left'"
      then have "unat v' = unat v + unat (page_bytes ?z)" "unat left' = unat left - unat (page_bytes ?z)" "unat (page_bytes ?z) \<le> unat left"
        by (auto simp: add_chk_Ok_iff sub_chk_Ok_iff word_le_nat_alt unat_sub unat_add_exact)
      then show "sim (L3_map_loop T R A region v' left') (map_loop (as_pte R) A region v' left')"
        using less.prems by (intro less.hyps sub_chk_page_less [OF l]) auto
    qed
  qed
qed

lemma sim_with_entry:
  assumes "\<And>e z. sim (f3 (e, z)) (f (e, z))"
  shows "sim (\<lambda>(s, pt). bindP (liftP (L3_get_entry_mut R pt v (bytes s))) f3 (s, pt))
     (\<lambda>(s, pt). bindP (liftP (get_entry_mut (as_pte R) pt v (bytes s))) f (s, pt))"
  using assms unfolding sim_def by (auto simp: get_entry_same bindP_def liftP_def split: prod.splits outcome.splits)

lemma sim_unmap_page: "sim (L3_unmap_page R v) (unmap_page (as_pte R) v)"
  unfolding L3_unmap_page_def unmap_page_def by (rule sim_with_entry) (auto intro!: sim_intros)

lemma sim_update: "sim (L3_update R v p fl) (update (as_pte R) v p fl)"
  unfolding L3_update_def update_def by (rule sim_with_entry) (auto intro!: sim_intros)

lemma sim_unmap_loop: "sim (L3_unmap_loop R v left) (unmap_loop (as_pte R) v left)"
proof (induction "unat left" arbitrary: v left rule: less_induct)
  case less
  show ?case
  proof (cases "left = 0")
    case True
    then show ?thesis by (simp add: sim_def L3_unmap_loop.simps unmap_loop.simps)
  next
    case False
    let ?body = "\<lambda>m loop. bindP (map_errP hv_error_from_paging m) (\<lambda>page.
      bindP (liftP (if \<not> PageSize_is_aligned (snd page) v then Hang else Ok ())) (\<lambda>_.
      bindP (liftP (rust_assert (PageSize_is_aligned (snd page) v))) (\<lambda>_.
      bindP (liftP (rust_assert (page_bytes (snd page) \<le> left))) (\<lambda>_.
      bindP (liftP (add_chk v (page_bytes (snd page)))) (\<lambda>v'.
      bindP (liftP (sub_chk left (page_bytes (snd page)))) (\<lambda>left'. loop v' left'))))))"
    have run: "L3_unmap_loop R v left = ?body (L3_unmap_page R v) (L3_unmap_loop R)"
      "unmap_loop (as_pte R) v left = ?body (unmap_page (as_pte R) v) (unmap_loop (as_pte R))"
      using False by (intro ext; simp only: L3_unmap_loop.simps [of _ _ left] unmap_loop.simps [of _ _ left] if_False simp_thms)+
    show ?thesis unfolding run
      by (intro sim_known sim_bind sim_map_err sim_unmap_page less.hyps) (rule sub_chk_page_less)
  qed
qed

lemma sim_map:
  assumes "unat T < unat (start region) \<or> region_end region \<le> unat T"
  shows "sim (L3_map T R A region) (pt_map (as_pte R) A region)"
  unfolding L3_map_def pt_map_def by (intro sim_bind sim_pure sim_map_loop assms)

text \<open>Where the aarch64 tables refuse a page that is mapped already, this port may go on; otherwise they agree for every region.\<close>

definition sim_unless :: "'e \<Rightarrow> ('b, 'e, 'a) l3_prog \<Rightarrow> ('b, 'e, 'a) pt_prog \<Rightarrow> bool" where
  "sim_unless e m3 m \<longleftrightarrow> (\<forall>s pt. fst (m (s, to_hv pt)) = Err e \<or> m (s, to_hv pt) = (case m3 (s, pt) of (r, (s', pt')) \<Rightarrow> (r, (s', to_hv pt'))))"

lemma sim_weaker: "sim m3 m \<Longrightarrow> sim_unless e m3 m"
  by (simp add: sim_def sim_unless_def)

lemma unless_bind: "sim_unless e m3 m \<Longrightarrow> (\<And>x. sim_unless e (f3 x) (f x)) \<Longrightarrow> sim_unless e (bindP m3 f3) (bindP m f)"
proof (unfold sim_unless_def [of e "bindP m3 f3"], intro allI)
  fix s pt
  assume m: "sim_unless e m3 m" and f: "\<And>x. sim_unless e (f3 x) (f x)"
  obtain r s' pt' where r3: "m3 (s, pt) = (r, (s', pt'))" by (metis prod_cases3)
  from m r3 have "fst (m (s, to_hv pt)) = Err e \<or> m (s, to_hv pt) = (r, (s', to_hv pt'))" by (auto simp: sim_unless_def split: prod.splits)
  then show "fst (bindP m f (s, to_hv pt)) = Err e \<or> bindP m f (s, to_hv pt) = (case bindP m3 f3 (s, pt) of (r, (s', pt')) \<Rightarrow> (r, (s', to_hv pt')))"
  proof
    assume "fst (m (s, to_hv pt)) = Err e"
    then show ?thesis by (auto simp: bindP_def split: prod.splits)
  next
    assume "m (s, to_hv pt) = (r, (s', to_hv pt'))"
    with r3 f show ?thesis by (cases r) (auto simp: bindP_def sim_unless_def split: prod.splits)
  qed
qed

lemma unless_map_err: "sim_unless e m3 m \<Longrightarrow> sim_unless (h e) (map_errP h m3) (map_errP h m)"
  unfolding sim_unless_def by (fastforce simp: map_errP_def split: prod.splits outcome.splits)

lemma unless_map_page:
  assumes "PageSize_is_huge (psize page) \<Longrightarrow> \<not> contains fl NO_HUGEPAGES"
  shows "sim_unless AlreadyMapped (L3_map_page T R A page paddr fl) (map_page (as_pte R) A page paddr fl)"
proof (cases "vaddr page = T")
  case True
  let ?w = "\<lambda>entry fl. bindP (update_entry entry (rv_set_addr R (PageSize_align_down (psize page) paddr))) (\<lambda>_.
     bindP (update_entry entry (rv_set_flags R fl)) (\<lambda>_. retP entry))"
  have "sim_unless AlreadyMapped (L3_map_page T R A page paddr fl)
     (bindP (bindP (get_entry_mut_or_create (as_pte R) A page) (\<lambda>e. retP (e, fl))) (\<lambda>(entry, fl).
     bindP (getP (\<lambda>(s, pt). read_u64 (bytes s) entry)) (\<lambda>e. if \<not> rv_is_unused R e then errP AlreadyMapped else ?w entry fl)))"
    unfolding L3_map_page_def
  proof (intro unless_bind sim_weaker [OF sim_get_or_create [OF assms]])
    fix x :: "usize \<times> MemFlags"
    have "sim_unless AlreadyMapped m (errP AlreadyMapped)" for m by (simp add: sim_unless_def errP_def)
    with True show "sim_unless AlreadyMapped (case x of (entry, fl) \<Rightarrow> bindP (getP (\<lambda>(s, pt). read_u64 (bytes s) entry)) (\<lambda>e.
        if \<not> rv_is_unused R e \<and> vaddr page \<noteq> T then errP AlreadyMapped
        else bindP (L3_update_entry entry (rv_set_addr R (PageSize_align_down (psize page) paddr))) (\<lambda>_.
          bindP (L3_update_entry entry (rv_set_flags R fl)) (\<lambda>_. retP entry))))
      (case x of (entry, fl) \<Rightarrow> bindP (getP (\<lambda>(s, pt). read_u64 (bytes s) entry)) (\<lambda>e.
        if \<not> rv_is_unused R e then errP AlreadyMapped else ?w entry fl))"
      by (auto intro!: unless_bind sim_weaker [OF sim_bytes] sim_weaker [OF sim_update_entry] sim_weaker [OF sim_pure(1)] split: prod.split)
  qed
  then show ?thesis by (simp only: map_page_def bindP_assoc3 bindP_unit as_pte_sel prod.case simp_thms)
next
  case False
  show ?thesis by (rule sim_weaker [OF sim_map_page [OF assms False]])
qed

lemma unless_known: "(\<And>x. r = Ok x \<Longrightarrow> sim_unless e (f3 x) (f x)) \<Longrightarrow> sim_unless e (bindP (liftP r) f3) (bindP (liftP r) f)"
  by (cases r) (auto simp: sim_unless_def bindP_def liftP_def)

lemma unless_map_loop: "sim_unless (hv_error_from_paging AlreadyMapped) (L3_map_loop T R A region v left) (map_loop (as_pte R) A region v left)"
proof (induction "unat left" arbitrary: v left rule: less_induct)
  case less
  show ?case
  proof (cases "left = 0")
    case True
    then show ?thesis by (simp add: sim_unless_def L3_map_loop.simps map_loop.simps)
  next
    case False
    show ?thesis unfolding map_loop_step [OF False]
    proof (intro unless_known unless_bind unless_map_err unless_map_page)
      fix page assume "Page_new_aligned v (choose_size region v (map_fn (mapper region) v) left) = Ok page" "PageSize_is_huge (psize page)"
      then show "\<not> contains (flags region) NO_HUGEPAGES"
        using choose_size_flags by (auto simp: Page_new_aligned_def rust_assert_def split: if_splits outcome.splits)
    qed (intro less.hyps sub_chk_page_less)
  qed
qed

lemma unless_map: "sim_unless EFAULT (L3_map T R A region) (pt_map (as_pte R) A region)"
  unfolding L3_map_def pt_map_def by (intro unless_known unless_map_loop [simplified])

section \<open>Regions with a right\<close>

text \<open>With \<open>guarded_pte\<close> only the flags written to a leaf differ, and not for flags with a right.\<close>

lemma guarded_next: "next_table_mut (guarded_pte R) = next_table_mut (as_pte R)"
  "next_table_mut_or_create (guarded_pte R) A = next_table_mut_or_create (as_pte R) A"
  by (simp_all add: fun_eq_iff next_table_mut_def next_table_mut_or_create_def cong: if_cong)

lemma guarded_get_entry: "get_entry_mut (guarded_pte R) = get_entry_mut (as_pte R)"
  "get_entry_mut_or_create (guarded_pte R) A = get_entry_mut_or_create (as_pte R) A"
  by (intro ext; simp only: get_entry_mut_def get_entry_mut_or_create_def guarded_next guarded_sel as_pte_sel)+

lemma guarded_query: "query (guarded_pte R) = query (as_pte R)"
  by (intro ext) (simp only: query_def guarded_get_entry guarded_sel as_pte_sel)

lemma guarded_tab: "tab (guarded_pte R) m rt d r = tab (as_pte R) m rt d r"
  by (induction d arbitrary: r) (simp_all add: Let_def split: option.split)

lemma guarded_pt_ok: "pt_ok (guarded_pte R) A s pt \<longleftrightarrow> pt_ok (as_pte R) A s pt"
  by (simp only: pt_ok_def pt_wf_def pt_frames_def ent_def guarded_tab leaf_or_unused_def leaf_ok_def guarded_sel as_pte_sel)

lemma guarded_map_page: "some_right fl \<Longrightarrow> map_page (guarded_pte R) A page p fl = map_page (as_pte R) A page p fl"
  by (simp only: map_page_def guarded_get_entry guarded_sel as_pte_sel with_right_def if_True)

lemma bindP_lift_eq: "(\<And>x. r = Ok x \<Longrightarrow> f x = g x) \<Longrightarrow> bindP (liftP r) f = bindP (liftP r) g"
  by (rule ext) (auto simp: bindP_def liftP_def split: outcome.split)

lemma guarded_map_loop:
  assumes "some_right (flags region)"
  shows "map_loop (guarded_pte R) A region v left = map_loop (as_pte R) A region v left"
proof (induction "unat left" arbitrary: v left rule: less_induct)
  case less
  let ?z = "choose_size region v (map_fn (mapper region) v) left"
  show ?case
  proof (cases "left = 0")
    case True
    then show ?thesis by (intro ext) (simp add: map_loop.simps)
  next
    case False
    have run: "map_loop P A region v left = bindP (liftP (Page_new_aligned v ?z)) (\<lambda>page.
         bindP (map_errP hv_error_from_paging (map_page P A page (map_fn (mapper region) v) (flags region))) (\<lambda>_.
         bindP (liftP (add_chk v (page_bytes ?z))) (\<lambda>v'. bindP (liftP (sub_chk left (page_bytes ?z))) (\<lambda>left'.
         map_loop P A region v' left'))))" for P
      by (intro ext) (simp only: map_loop.simps [of _ _ _ _ left] Let_def False if_False)
    have "bindP (liftP (sub_chk left (page_bytes ?z))) (\<lambda>left'. map_loop (guarded_pte R) A region v' left') =
        bindP (liftP (sub_chk left (page_bytes ?z))) (\<lambda>left'. map_loop (as_pte R) A region v' left')" for v'
      by (rule bindP_lift_eq, rule less.hyps, rule sub_chk_page_less)
    then show ?thesis unfolding run guarded_map_page [OF assms] by simp
  qed
qed

lemma guarded_map: "some_right (flags region) \<Longrightarrow> pt_map (guarded_pte R) A region = pt_map (as_pte R) A region"
  by (simp only: pt_map_def guarded_map_loop)

section \<open>Properties\<close>

text \<open>
  The rights an entry gives, for flags \<open>fl\<close>: those of reading, writing, executing and of user mode that the flags ask for; in a table of a guest also
  user mode, which the hardware demands there.
\<close>

definition rv_rights :: "bool \<Rightarrow> MemFlags \<Rightarrow> MemFlags" where
  "rv_rights guest fl = (fl AND (READ OR WRITE OR EXECUTE OR USER)) OR (if guest then USER else 0)"

lemma rv_rights_norm: "rv_rights False = RV1_norm" "rv_rights True = RV2_norm"
proof -
  have one: "fl AND push_bit n 1 = (if contains fl (push_bit n 1) then push_bit n 1 else 0)" if "n < 64" for n and fl :: MemFlags
    unfolding contains_bit [OF that] by (rule bit_word_eqI) (auto simp: bit_simps bit_1_iff)
  have "fl AND READ = (if contains fl READ then READ else 0)" "fl AND WRITE = (if contains fl WRITE then WRITE else 0)"
    "fl AND EXECUTE = (if contains fl EXECUTE then EXECUTE else 0)" "fl AND USER = (if contains fl USER then USER else 0)" for fl
    unfolding READ_def WRITE_def EXECUTE_def USER_def by (intro one; simp)+
  moreover have "(if b then USER else 0) OR USER = USER" for b by simp
  ultimately show "rv_rights False = RV1_norm" "rv_rights True = RV2_norm"
    by (intro ext; simp only: rv_rights_def RV1_norm_def RV2_norm_def bit.conj_disj_distrib or.assoc if_False if_True or.right_neutral)+
qed

lemma rv_formats: "(R, guest) \<in> {(RV1_pte, False), (RV2_pte, True)} \<Longrightarrow> bit_alloc A \<Longrightarrow> hv_paging (guarded_pte R) (\<lambda>fl. rv_rights guest (with_right fl)) A"
  using rv1.guarded.generic_pte_axioms rv2.guarded.generic_pte_axioms by (auto simp: rv_rights_norm intro!: hv_paging.intro)

text \<open>A new table over \<open>small_pool\<close>: the root has the first four frames.\<close>

definition small_pt3 :: Level3PageTable where
  "small_pt3 = \<lparr>root3 = \<lparr>start_paddr = 0x80000000, frame_count = 4\<rparr>, intrm_tables3 = []\<rparr>"

definition small_state3 :: "usize list pmem" where
  "small_state3 = \<lparr>falloc = \<lparr>base = 0x80000000, inner = [4, 5, 6, 7]\<rparr>, bytes = fill_bytes (\<lambda>_. 0) 0x80000000 PAGE_SIZE 0\<rparr>"

lemma small_new3: "L3_new list_bits small_pool = (Ok small_pt3, small_state3)"
  by (simp add: L3_new_def unwrapP_def bindP_def small_pool_16 small_pt3_def small_state3_def)

lemma small_hv3: "to_hv small_pt3 = small_pt" "bytes small_state3 = bytes small_state"
  by (simp_all add: to_hv_def small_pt3_def small_pt_def small_state3_def small_state_def)

lemma small_ok3: "pt_ok (as_pte RV2_pte) list_bits small_state3 (to_hv small_pt3)"
proof -
  have hp: "hv_paging (guarded_pte RV2_pte) (\<lambda>fl. rv_rights True (with_right fl)) list_bits"
    by (rule rv_formats) (simp_all add: list_bits.bit_alloc_axioms)
  have l: "(3 :: usize) = 3 \<or> (3 :: usize) = 4" by simp
  have "pt_ok (guarded_pte RV2_pte) list_bits small_state small_pt"
    by (cases rule: hv_paging.new_table [OF hp small_pool_ok l small_new]) simp_all
  then have "pt_ok (guarded_pte RV2_pte) list_bits small_state3 small_pt"
    by (rule pt_ok_untouched)
      (auto simp: small_hv3 falloc_ok_def small_state3_def small_state_def list_bits_def is_aligned_iff FRAME_CAP_def frame_free_def)
  then show ?thesis by (simp add: guarded_pt_ok small_hv3)
qed

lemma small_map3: "\<exists>t pt'. L3_map 0 RV2_pte list_bits small_region (small_state3, small_pt3) = (Ok (), (t, pt'))"
proof -
  have sz: "choose_size small_region 0x40000000 0xC0000000 0x40000000 = Size1G"
    by (simp add: choose_size_def small_region_props PageSize_is_aligned_def PageSize_page_offset_def contains_def
        MemFlags_defs)
  have z: "read_u64 (bytes small_state3) (table_entry_addr 0x80000000 (p3_index 0x40000000)) = 0"
    by (simp add: small_state3_def table_entry_index read_slot_fill is_aligned_iff)
  have "fst (pt_map (as_pte RV2_pte) list_bits small_region (small_state3, to_hv small_pt3)) = Ok ()"
    by (simp add: pt_map_def small_region_props is_aligned_iff map_loop.simps [of _ _ _ "0x40000000"] sz Let_def small_hv3(1)
        Page_new_aligned_def PageSize_is_aligned_def PageSize_page_offset_def map_errP_def map_page_def bindP_def
        get_entry_mut_or_create_def small_pt_def root_paddr_def z update_entry_run RV2_pte_def RV_is_unused_def
        add_chk_def sub_chk_def map_loop.simps [of _ _ _ _ 0])
  with simD [OF sim_map [of 0 small_region RV2_pte list_bits], of small_state3 small_pt3]
  show ?thesis by (auto simp: small_region_props split: prod.splits)
qed

text \<open>
  C36: the page tables of the riscv64 port do what the three level tables of aarch64 do, with the port's own
  entries: \<open>unmap\<close>, \<open>update\<close> and \<open>query\<close> give the same result, the same memory, the same
  free frames and the same list of intermediate tables, and so does \<open>map\<close> of a region that does not contain \<open>TEMPORARY_MAPPING_BASE\<close>.
  For a region that contains it, \<open>map\<close> does the same unless the aarch64 tables fail with \<open>EFAULT\<close>, which they do when a page of the region is mapped already: this port writes over the entry
  of the page at that address and goes on.
\<close>

theorem L3_same_as_level3:
  "(unat T < unat (start region) \<or> region_end region \<le> unat T \<longrightarrow> sim (L3_map T R A region) (pt_map (as_pte R) A region)) \<and>
   (\<forall>s pt. fst (pt_map (as_pte R) A region (s, to_hv pt)) \<noteq> Err EFAULT \<longrightarrow>
      pt_map (as_pte R) A region (s, to_hv pt) = (case L3_map T R A region (s, pt) of (r, (s', pt')) \<Rightarrow> (r, (s', to_hv pt')))) \<and>
   sim (L3_unmap R region) (pt_unmap (as_pte R) region) \<and> sim (L3_update R v paddr fl) (update (as_pte R) v paddr fl) \<and>
   L3_query R pt v m = query (as_pte R) (to_hv pt) v m"
proof (intro conjI impI)
  show "sim (L3_unmap R region) (pt_unmap (as_pte R) region)" by (simp only: L3_unmap_def pt_unmap_def sim_unmap_loop)
  show "\<forall>s pt. fst (pt_map (as_pte R) A region (s, to_hv pt)) \<noteq> Err EFAULT \<longrightarrow>
      pt_map (as_pte R) A region (s, to_hv pt) = (case L3_map T R A region (s, pt) of (r, (s', pt')) \<Rightarrow> (r, (s', to_hv pt')))"
    using unless_map unfolding sim_unless_def by blast
  show "L3_query R pt v m = query (as_pte R) (to_hv pt) v m" by (rule query_same)
qed (rule sim_map sim_update, assumption?)+

theorem L3_same_as_level3_witness:
  "sim (L3_map 0 RV2_pte list_bits small_region) (pt_map (as_pte RV2_pte) list_bits small_region) \<and>
   pt_map (as_pte RV2_pte) list_bits small_region (small_state3, to_hv small_pt3) =
     (case L3_map 0x40000000 RV2_pte list_bits small_region (small_state3, small_pt3) of (r, (s', pt')) \<Rightarrow> (r, (s', to_hv pt')))"
proof -
  have out: "unat 0 < unat (start small_region) \<or> region_end small_region \<le> unat 0" by (simp add: small_region_props)
  obtain t pt' where "L3_map 0 RV2_pte list_bits small_region (small_state3, small_pt3) = (Ok (), (t, pt'))" using small_map3 by blast
  with simD [OF sim_map [OF out, of RV2_pte list_bits], of small_state3 small_pt3]
  have "fst (pt_map (as_pte RV2_pte) list_bits small_region (small_state3, to_hv small_pt3)) \<noteq> Err EFAULT" by simp
  with out L3_same_as_level3 [of 0 small_region RV2_pte list_bits] L3_same_as_level3 [of "0x40000000" small_region RV2_pte list_bits] show ?thesis by blast
qed

text \<open>
  C34: in a table of the riscv64 port, of the guest or of the hypervisor, mapping a region with at least one access right that succeeds makes
  \<open>query\<close> return, for every address of the region, the address the mapper gives and exactly the rights the region asks for, of reading, writing, executing and user mode (a table of a guest always gives user mode), and leaves
  \<open>query\<close> of every other address as it was. The tables stay well formed. The region must not contain \<open>TEMPORARY_MAPPING_BASE\<close>, where \<open>map\<close> writes over
  what is mapped.
\<close>

theorem L3_map_translates:
  assumes "(R, guest) \<in> {(RV1_pte, False), (RV2_pte, True)}" and "bit_alloc A" and "pt_ok (as_pte R) A s (to_hv pt)"
    and "mappable (to_hv pt) region" and "offset_aligned region" and "some_right (flags region)"
    and "unat T < unat (start region) \<or> region_end region \<le> unat T"
    and "L3_map T R A region (s, pt) = (Ok (), (s', pt'))"
  shows "pt_ok (as_pte R) A s' (to_hv pt') \<and> (\<forall>v. unat v < 2 ^ 39 \<longrightarrow>
    (if in_region region v then L3_query R pt v (bytes s) = Err NotMapped \<and>
       (\<exists>z. L3_query R pt' v (bytes s') = Ok (map_fn (mapper region) v, rv_rights guest (flags region), z))
     else L3_query R pt' v (bytes s') = L3_query R pt v (bytes s)))"
proof -
  note hp = rv_formats [OF assms(1,2)]
  note ok = assms(3) [folded guarded_pt_ok]
  have "pt_map (guarded_pte R) A region (s, to_hv pt) = (Ok (), (s', to_hv pt'))"
    using simD [OF sim_map [OF assms(7)], of R A s pt] assms(8) by (simp add: guarded_map [OF assms(6)])
  note post = hv_paging.pt_map_post [OF hp ok assms(4) this]
  have lim: "va_limit (to_hv pt) = 2 ^ 39" by (simp add: va_limit_def)
  have right: "with_right (flags region) = flags region" using assms(6) by (simp add: with_right_def)
  have "pt_ok (guarded_pte R) A s' (to_hv pt')" using post by (simp add: map_post_def)
  with hv_paging.map_inside [OF hp ok assms(4,5) post] hv_paging.map_outside [OF hp ok post]
  show ?thesis by (simp only: guarded_pt_ok guarded_query query_same lim right simp_thms) simp
qed

theorem L3_map_translates_witness:
  "\<exists>t pt' z. L3_map 0 RV2_pte list_bits small_region (small_state3, small_pt3) = (Ok (), (t, pt')) \<and>
     L3_query RV2_pte pt' 0x40001234 (bytes t) = Ok (0xC0001234, READ OR WRITE OR USER, z)"
proof -
  obtain t pt' where t: "L3_map 0 RV2_pte list_bits small_region (small_state3, small_pt3) = (Ok (), (t, pt'))"
    using small_map3 by blast
  have "(RV2_pte, True) \<in> {(RV1_pte, False), (RV2_pte, True)}" "mappable (to_hv small_pt3) small_region" "some_right (flags small_region)"
    "unat 0 < unat (start small_region) \<or> region_end small_region \<le> unat 0"
    using small_mappable(1) by (simp_all add: small_hv3 small_region_props some_right_def contains_def MemFlags_defs)
  from L3_map_translates [OF this(1) list_bits.bit_alloc_axioms small_ok3 this(2) small_mappable(2) this(3,4) t]
  have all: "\<And>v. unat v < 2 ^ 39 \<Longrightarrow> in_region small_region v \<Longrightarrow>
      \<exists>z. L3_query RV2_pte pt' v (bytes t) = Ok (map_fn (mapper small_region) v, rv_rights True (flags small_region), z)" by presburger
  have "unat (0x40001234 :: usize) < 2 ^ 39" "in_region small_region 0x40001234" by (simp_all add: in_region_def small_region_props)
  from all [OF this] t show ?thesis
    by (simp add: small_region_props rv_rights_def MemFlags_defs)
qed

end
