(* ===== verification/Hv_RvTrap.thy ===== *)
theory Hv_RvTrap
  imports Hv_Switch
begin

unbundle bit_operations_syntax

text \<open>
  CPUs and traps of the riscv64 port: \<open>cpu.rs\<close>, \<open>csr.rs\<close>, \<open>sbi.rs\<close>, \<open>trap.rs\<close> and the assembly of \<open>trap.S\<close> under
  \<open>src/arch/riscv64\<close>. The assembly saves the registers of the guest in the \<open>ArchCpu\<close> that \<open>sscratch\<close> points to, the
  Rust code works on that structure, and the assembly loads the registers again. The SBI firmware, the crates \<open>riscv\<close>, \<open>sbi_rt\<close> and \<open>riscv_decode\<close> and
  the instruction that reads guest memory are parameters.
\<close>

section \<open>Control and status registers\<close>

definition CSR_SCAUSE :: u64 where "CSR_SCAUSE = 0x142"

definition CSR_SCOUNTEREN :: u64 where "CSR_SCOUNTEREN = 0x106"

definition CSR_SEPC :: u64 where "CSR_SEPC = 0x141"

definition CSR_SSTATUS :: u64 where "CSR_SSTATUS = 0x100"

definition CSR_SSCRATCH :: u64 where "CSR_SSCRATCH = 0x140"

definition CSR_SIE :: u64 where "CSR_SIE = 0x104"

definition CSR_SIP :: u64 where "CSR_SIP = 0x144"

definition CSR_VSTVEC :: u64 where "CSR_VSTVEC = 0x205"

definition CSR_VSSCRATCH :: u64 where "CSR_VSSCRATCH = 0x240"

definition CSR_VSEPC :: u64 where "CSR_VSEPC = 0x241"

definition CSR_VSCAUSE :: u64 where "CSR_VSCAUSE = 0x242"

definition CSR_VSTVAL :: u64 where "CSR_VSTVAL = 0x243"

definition CSR_VSATP :: u64 where "CSR_VSATP = 0x280"

definition CSR_HSTATUS :: u64 where "CSR_HSTATUS = 0x600"

definition CSR_HEDELEG :: u64 where "CSR_HEDELEG = 0x602"

definition CSR_HIDELEG :: u64 where "CSR_HIDELEG = 0x603"

definition CSR_HIE :: u64 where "CSR_HIE = 0x604"

definition CSR_HTIMEDELTA :: u64 where "CSR_HTIMEDELTA = 0x605"

definition CSR_HCOUNTEREN :: u64 where "CSR_HCOUNTEREN = 0x606"

definition CSR_HTVAL :: u64 where "CSR_HTVAL = 0x643"

definition CSR_HVIP :: u64 where "CSR_HVIP = 0x645"

definition CSR_HTINST :: u64 where "CSR_HTINST = 0x64A"

definition CSR_HENVCFG :: u64 where "CSR_HENVCFG = 0x60A"

lemmas CSR_defs = CSR_SCAUSE_def CSR_SCOUNTEREN_def CSR_SEPC_def CSR_SSTATUS_def CSR_SSCRATCH_def CSR_SIE_def CSR_SIP_def CSR_VSTVEC_def
  CSR_VSSCRATCH_def CSR_VSEPC_def CSR_VSCAUSE_def CSR_VSTVAL_def CSR_VSATP_def CSR_HSTATUS_def CSR_HEDELEG_def CSR_HIDELEG_def CSR_HIE_def
  CSR_HTIMEDELTA_def CSR_HCOUNTEREN_def CSR_HTVAL_def CSR_HVIP_def CSR_HTINST_def CSR_HENVCFG_def

text \<open>The machine the Rust code sees: the CSRs of the hart and everything else. A CSR holds what was written to it.\<close>

record 'd rv =
  csr :: "u64 \<Rightarrow> usize"
  rdev :: 'd

text \<open>The structure \<open>ArchCpu\<close> of this port.\<close>

record RvCpu =
  rx :: "usize list"
  hstatus :: usize
  sstatus :: usize
  sepc :: usize
  rstack_top :: usize
  rcpuid :: usize

type_synonym ('d, 'a) rvp = "('d rv \<times> RvCpu, HvErrorNum, 'a) prog"

definition read_csr :: "u64 \<Rightarrow> ('d, usize) rvp" where
  "read_csr n = getP (\<lambda>(s, cpu). csr s n)"

definition write_csr :: "u64 \<Rightarrow> usize \<Rightarrow> ('d, unit) rvp" where
  "write_csr n v = modifyP (\<lambda>(s, cpu). (s\<lparr>csr := (csr s)(n := v)\<rparr>, cpu))"

definition clear_csr :: "u64 \<Rightarrow> usize \<Rightarrow> ('d, unit) rvp" where
  "clear_csr n v = modifyP (\<lambda>(s, cpu). (s\<lparr>csr := (csr s)(n := csr s n AND NOT v)\<rparr>, cpu))"

definition set_csr :: "u64 \<Rightarrow> usize \<Rightarrow> ('d, unit) rvp" where
  "set_csr n v = modifyP (\<lambda>(s, cpu). (s\<lparr>csr := (csr s)(n := csr s n OR v)\<rparr>, cpu))"

section \<open>SBI calls\<close>

text \<open>\<open>ecall\<close> gets the extension, the function and five arguments and returns the error and the value.\<close>

record ('d, 'i) rv_env =
  ecall :: "usize list \<Rightarrow> 'd \<Rightarrow> (usize \<times> usize) \<times> 'd"
  sbi_rt_set_timer :: "u64 \<Rightarrow> 'd \<Rightarrow> 'd"
  sbi_rt_hart_start :: "usize \<Rightarrow> usize \<Rightarrow> usize \<Rightarrow> 'd \<Rightarrow> usize option \<times> 'd"
  sbi_rt_getchar :: "'d \<Rightarrow> usize \<times> 'd"
  sbi_rt_putchar :: "usize \<Rightarrow> 'd \<Rightarrow> 'd"
  hvip_clear_vstip :: "(u64 \<Rightarrow> usize) \<Rightarrow> u64 \<Rightarrow> usize"
  sie_set_stimer :: "(u64 \<Rightarrow> usize) \<Rightarrow> u64 \<Rightarrow> usize"
  hlvxhu :: "usize \<Rightarrow> 'd \<Rightarrow> u64"
  instruction_length :: "16 word \<Rightarrow> usize"
  decode :: "u32 \<Rightarrow> 'i option"
  rv_wfi :: "'d \<Rightarrow> 'd"
  rv_core_end :: usize

definition SET_TIMER :: usize where "SET_TIMER = 0x54494D45"

definition on_dev :: "('d \<Rightarrow> 'd) \<Rightarrow> ('d, unit) rvp" where
  "on_dev f = modifyP (\<lambda>(s, cpu). (s\<lparr>rdev := f (rdev s)\<rparr>, cpu))"

definition ask_dev :: "('d \<Rightarrow> 'a \<times> 'd) \<Rightarrow> ('d, 'a) rvp" where
  "ask_dev f = (\<lambda>(s, cpu). let (r, d) = f (rdev s) in (Ok r, (s\<lparr>rdev := d\<rparr>, cpu)))"

definition console_putchar :: "('d, 'i) rv_env \<Rightarrow> u8 \<Rightarrow> ('d, unit) rvp" where
  "console_putchar E c = on_dev (sbi_rt_putchar E (ucast c))"

definition console_getchar :: "('d, 'i) rv_env \<Rightarrow> ('d, u8 option) rvp" where
  "console_getchar E = bindP (ask_dev (sbi_rt_getchar E)) (\<lambda>x. retP (if x \<le> 0xff then Some (ucast x) else None))"

definition set_timer :: "('d, 'i) rv_env \<Rightarrow> usize \<Rightarrow> ('d, unit) rvp" where
  "set_timer E timer = on_dev (sbi_rt_set_timer E timer)"

definition sbi_call_5 :: "('d, 'i) rv_env \<Rightarrow> usize \<Rightarrow> usize \<Rightarrow> usize \<Rightarrow> usize \<Rightarrow> usize \<Rightarrow> usize \<Rightarrow> usize \<Rightarrow> ('d, usize \<times> usize) rvp" where
  "sbi_call_5 E eid fid arg0 arg1 arg2 arg3 arg4 =
     (if eid = SET_TIMER then
        bindP (set_timer E arg0) (\<lambda>_.
        bindP (modifyP (\<lambda>(s, cpu). (s\<lparr>csr := hvip_clear_vstip E (csr s)\<rparr>, cpu))) (\<lambda>_.
        bindP (modifyP (\<lambda>(s, cpu). (s\<lparr>csr := sie_set_stimer E (csr s)\<rparr>, cpu))) (\<lambda>_.
        retP (0, 0))))
      else ask_dev (ecall E [eid, fid, arg0, arg1, arg2, arg3, arg4]))"

definition update_cpu :: "(RvCpu \<Rightarrow> RvCpu) \<Rightarrow> ('d, unit) rvp" where
  "update_cpu f = modifyP (\<lambda>(s, cpu). (s, f cpu))"

text \<open>\<open>current_cpu.sepc += 4\<close>, with the overflow check of the debug build.\<close>

definition advance_sepc :: "('d, unit) rvp" where
  "advance_sepc = bindP (getP (\<lambda>(s, cpu). sepc cpu)) (\<lambda>pc. bindP (liftP (add_chk pc 4)) (\<lambda>pc'. update_cpu (\<lambda>c. c\<lparr>sepc := pc'\<rparr>)))"

definition sbi_vs_handler :: "('d, 'i) rv_env \<Rightarrow> ('d, unit) rvp" where
  "sbi_vs_handler E =
     bindP (getP (\<lambda>(s, cpu). rx cpu)) (\<lambda>x.
     bindP (sbi_call_5 E (x ! 17) (x ! 16) (x ! 10) (x ! 11) (x ! 12) (x ! 13) (x ! 14)) (\<lambda>ret.
     bindP advance_sepc (\<lambda>_.
     bindP (update_cpu (\<lambda>c. c\<lparr>rx := (rx c)[10 := fst ret]\<rparr>)) (\<lambda>_.
     update_cpu (\<lambda>c. c\<lparr>rx := (rx c)[11 := snd ret]\<rparr>)))))"

section \<open>CPUs\<close>

definition RvCpu_new :: "usize \<Rightarrow> RvCpu" where
  "RvCpu_new i = \<lparr>rx = replicate 32 0, hstatus = 0, sstatus = 0, sepc = 0, rstack_top = 0, rcpuid = i\<rparr>"

definition RvCpu_stack_top :: "('d, 'i) rv_env \<Rightarrow> RvCpu \<Rightarrow> (HvErrorNum, VirtAddr) outcome" where
  "RvCpu_stack_top E self = bind_out (add_chk (rcpuid self) 1) (\<lambda>n. bind_out (mul_chk n PER_CPU_SIZE) (\<lambda>o'.
     bind_out (add_chk (rv_core_end E) o') (\<lambda>t. sub_chk t 8)))"

text \<open>\<open>ptr\<close> is the address of the structure.\<close>

definition RvCpu_init :: "('d, 'i) rv_env \<Rightarrow> usize \<Rightarrow> usize \<Rightarrow> usize \<Rightarrow> usize \<Rightarrow> ('d, unit) rvp" where
  "RvCpu_init E ptr entry cpu_id0 dtb =
     bindP (write_csr CSR_SSCRATCH ptr) (\<lambda>_.
     bindP (update_cpu (\<lambda>c. c\<lparr>sepc := entry\<rparr>)) (\<lambda>_.
     bindP (update_cpu (\<lambda>c. c\<lparr>hstatus := push_bit 7 1 OR push_bit 32 2\<rparr>)) (\<lambda>_.
     bindP (update_cpu (\<lambda>c. c\<lparr>sstatus := push_bit 8 1 OR push_bit 63 1 OR push_bit 13 3 OR push_bit 15 3\<rparr>)) (\<lambda>_.
     bindP (getP snd) (\<lambda>self. bindP (liftP (RvCpu_stack_top E self)) (\<lambda>top.
     bindP (update_cpu (\<lambda>c. c\<lparr>rstack_top := top\<rparr>)) (\<lambda>_.
     bindP (update_cpu (\<lambda>c. c\<lparr>rx := (rx c)[10 := cpu_id0]\<rparr>)) (\<lambda>_.
     bindP (update_cpu (\<lambda>c. c\<lparr>rx := (rx c)[11 := dtb]\<rparr>)) (\<lambda>_.
     bindP (set_csr CSR_HIDELEG (push_bit 2 1 OR push_bit 6 1 OR push_bit 10 1)) (\<lambda>_.
     bindP (set_csr CSR_HEDELEG (push_bit 8 1 OR push_bit 12 1 OR push_bit 13 1 OR push_bit 15 1)) (\<lambda>_.
     bindP (set_csr CSR_HCOUNTEREN (push_bit 1 1)) (\<lambda>_.
     bindP (set_csr CSR_SCOUNTEREN (push_bit 1 1)) (\<lambda>_.
     bindP (write_csr CSR_HTIMEDELTA 0) (\<lambda>_.
     bindP (set_csr CSR_HENVCFG (push_bit 63 1)) (\<lambda>_.
     bindP (set_csr CSR_SIE (push_bit 9 1 OR push_bit 5 1 OR push_bit 1 1)) (\<lambda>_.
     forP [CSR_HIE, CSR_VSTVEC, CSR_VSSCRATCH, CSR_VSEPC, CSR_VSCAUSE, CSR_VSTVAL, CSR_HVIP, CSR_VSATP] (\<lambda>r. write_csr r 0)))))))))))))))))"

definition RvCpu_idle :: "('d, 'i) rv_env \<Rightarrow> ('d, unit) rvp" where
  "RvCpu_idle E = bindP (on_dev (rv_wfi E)) (\<lambda>_. clear_csr CSR_SIP (push_bit 1 1))"

text \<open>\<open>this_cpu_id\<close> reads the structure that \<open>sscratch\<close> points to; \<open>at\<close> gives the structure at an address.\<close>

definition rv_this_cpu_id :: "(usize \<Rightarrow> RvCpu) \<Rightarrow> ('d, usize) rvp" where
  "rv_this_cpu_id at = bindP (read_csr CSR_SSCRATCH) (\<lambda>p. if p = 0 then liftP Panic else retP (rcpuid (at p)))"

definition HV_PHY_BASE :: PhysAddr where "HV_PHY_BASE = 0x80200000"

definition rv_cpu_start :: "('d, 'i) rv_env \<Rightarrow> usize \<Rightarrow> usize \<Rightarrow> usize \<Rightarrow> ('d, unit) rvp" where
  "rv_cpu_start E cpuid0 start_addr opaque =
     bindP (ask_dev (sbi_rt_hart_start E cpuid0 HV_PHY_BASE opaque)) (\<lambda>e. case e of Some _ \<Rightarrow> liftP Panic | None \<Rightarrow> retP ())"

section \<open>Traps\<close>

definition ECALL_VU :: usize where "ECALL_VU = 8"

definition ECALL_VS :: usize where "ECALL_VS = 10"

definition LOAD_GUEST_PAGE_FAULT :: usize where "LOAD_GUEST_PAGE_FAULT = 21"

definition STORE_GUEST_PAGE_FAULT :: usize where "STORE_GUEST_PAGE_FAULT = 23"

lemmas rv_cause_defs = ECALL_VU_def ECALL_VS_def LOAD_GUEST_PAGE_FAULT_def STORE_GUEST_PAGE_FAULT_def

definition guest_page_fault_handler :: "('d, unit) rvp" where
  "guest_page_fault_handler = liftP Panic"

definition interrupts_arch_handle :: "('d, unit) rvp" where
  "interrupts_arch_handle = liftP Panic"

definition read_inst :: "('d, 'i) rv_env \<Rightarrow> usize \<Rightarrow> ('d, u32) rvp" where
  "read_inst E addr =
     bindP (getP (\<lambda>(s, cpu). ucast (hlvxhu E addr (rdev s)))) (\<lambda>ins.
     if ins AND 0b11 = 3 then
       bindP (liftP (add_chk addr 2)) (\<lambda>a. bindP (getP (\<lambda>(s, cpu). ucast (hlvxhu E a (rdev s)))) (\<lambda>hi. retP (ins OR push_bit 16 hi)))
     else retP ins)"

definition decode_inst :: "('d, 'i) rv_env \<Rightarrow> u32 \<Rightarrow> (HvErrorNum, usize \<times> 'i option) outcome" where
  "decode_inst E inst =
     (let i1 = ucast inst; len = instruction_length E i1
      in if len = 2 then Ok (len, decode E (ucast i1)) else if len = 4 then Ok (len, decode E inst) else Panic)"

definition sync_exception_handler :: "('d, 'i) rv_env \<Rightarrow> ('d, unit) rvp" where
  "sync_exception_handler E =
     bindP (read_csr CSR_SCAUSE) (\<lambda>trap_code.
     bindP (read_csr CSR_HSTATUS) (\<lambda>h.
     if h AND push_bit 7 1 = 0 then liftP Panic else
     bindP (read_csr CSR_SEPC) (\<lambda>trap_pc.
     if trap_code = ECALL_VU then retP ()
     else if trap_code = ECALL_VS then bindP (sbi_vs_handler E) (\<lambda>_. advance_sepc)
     else if trap_code = LOAD_GUEST_PAGE_FAULT then guest_page_fault_handler
     else if trap_code = STORE_GUEST_PAGE_FAULT then guest_page_fault_handler
     else bindP (read_inst E trap_pc) (\<lambda>_. bindP advance_sepc (\<lambda>_. liftP Panic)))))"

text \<open>A CPU that was initialised finds its structure, and no interrupt is pending or enabled for its guest yet.\<close>

lemma RvCpu_init_run:
  assumes "RvCpu_stack_top E cpu = Ok top"
  shows "\<exists>s'. RvCpu_init E ptr entry i dtb (s, cpu) = (Ok (), (s', cpu\<lparr>rx := (rx cpu)[10 := i, 11 := dtb], hstatus := push_bit 7 1 OR push_bit 32 2,
      sstatus := push_bit 8 1 OR push_bit 63 1 OR push_bit 13 3 OR push_bit 15 3, sepc := entry, rstack_top := top\<rparr>)) \<and>
    csr s' CSR_SSCRATCH = ptr \<and> csr s' CSR_HIE = 0 \<and> csr s' CSR_HVIP = 0 \<and> csr s' CSR_VSATP = 0"
proof -
  have top: "RvCpu_stack_top E (cpu\<lparr>sepc := a, hstatus := b, sstatus := c\<rparr>) = Ok top" "RvCpu_stack_top E (cpu\<lparr>hstatus := b, sstatus := c, sepc := a\<rparr>) = Ok top"
    for a b c using assms by (simp_all add: RvCpu_stack_top_def)
  show ?thesis
    by (simp add: RvCpu_init_def bindP_def write_csr_def set_csr_def update_cpu_def top CSR_defs)
qed

lemma decode_inst_total: "decode_inst E inst = Panic \<longleftrightarrow> instruction_length E (ucast inst) \<notin> {2, 4}"
  by (simp add: decode_inst_def Let_def)

section \<open>The assembly around a trap\<close>

record rv_hart =
  rg :: "u64 list"
  hcsr :: "u64 \<Rightarrow> u64"
  hram :: phys_mem

text \<open>\<open>Sd a k b\<close> and \<open>Ld a k b\<close> are \<open>sd xa, k*8(xb)\<close> and \<open>ld xa, k*8(xb)\<close>. Register \<open>x0\<close> is not written.\<close>

datatype rv_instr = Csrrw nat u64 nat | Csrr nat u64 | Csrw u64 nat | Sd nat nat nat | Ld nat nat nat | Mv nat nat

definition set_x :: "nat \<Rightarrow> u64 \<Rightarrow> rv_hart \<Rightarrow> rv_hart" where
  "set_x i v s = (if i = 0 then s else s\<lparr>rg := (rg s)[i := v]\<rparr>)"

fun rv_step :: "rv_instr \<Rightarrow> rv_hart \<Rightarrow> rv_hart" where
  "rv_step (Csrrw a n b) s = set_x a (hcsr s n) (s\<lparr>hcsr := (hcsr s)(n := rg s ! b)\<rparr>)"
| "rv_step (Csrr a n) s = set_x a (hcsr s n) s"
| "rv_step (Csrw n a) s = s\<lparr>hcsr := (hcsr s)(n := rg s ! a)\<rparr>"
| "rv_step (Sd a k b) s = s\<lparr>hram := write_u64 (hram s) (rg s ! b + 8 * of_nat k) (rg s ! a)\<rparr>"
| "rv_step (Ld a k b) s = set_x a (read_u64 (hram s) (rg s ! b + 8 * of_nat k)) s"
| "rv_step (Mv a b) s = set_x a (rg s ! b) s"

definition rv_run :: "rv_instr list \<Rightarrow> rv_hart \<Rightarrow> rv_hart" where
  "rv_run is s = fold rv_step is s"

definition VM_EXIT :: "rv_instr list" where
  "VM_EXIT = [Csrrw 31 CSR_SSCRATCH 31] @ map (\<lambda>i. Sd i i 31) [0,1,2,3,4,5,6,7,8,9,10,11,12,13,14,15,16,17,18,19,20,21,22,23,24,25,26,27,28,29,30] @
    [Mv 2 31, Csrrw 31 CSR_SSCRATCH 31, Sd 31 31 2, Csrr 5 CSR_HSTATUS, Sd 5 32 2, Csrr 5 CSR_SSTATUS, Sd 5 33 2, Csrr 5 CSR_SEPC, Sd 5 34 2,
     Ld 2 35 2, Csrr 10 CSR_SSCRATCH]"

definition VM_ENTRY :: "rv_instr list" where
  "VM_ENTRY = [Csrr 31 CSR_SSCRATCH, Ld 1 32 31, Csrw CSR_HSTATUS 1, Ld 1 33 31, Csrw CSR_SSTATUS 1, Ld 1 34 31, Csrw CSR_SEPC 1] @
    map (\<lambda>i. Ld i i 31) [0,1,2,3,4,5,6,7,8,9,10,11,12,13,14,15,16,17,18,19,20,21,22,23,24,25,26,27,28,29,30,31]"

text \<open>The \<open>repr(C)\<close> structure \<open>ArchCpu\<close> at an address.\<close>

definition arch_at :: "phys_mem \<Rightarrow> u64 \<Rightarrow> RvCpu" where
  "arch_at m a = \<lparr>rx = map (\<lambda>i. read_u64 m (a + 8 * of_nat i)) [0..<32], hstatus = read_u64 m (a + 256), sstatus = read_u64 m (a + 264),
     sepc = read_u64 m (a + 272), rstack_top = read_u64 m (a + 280), rcpuid = read_u64 m (a + 288)\<rparr>"

lemma upt32: "[0..<32] = [0,1,2,3,4,5,6,7,8,9,10,11,12,13,14,15,16,17,18,19,20,21,22,23,24,25,26,27,28,29,30,31 :: nat]"
  by code_simp

lemma list32: "length l = 32 \<Longrightarrow> l = map ((!) l) [0,1,2,3,4,5,6,7,8,9,10,11,12,13,14,15,16,17,18,19,20,21,22,23,24,25,26,27,28,29,30,31]"
  using map_nth [of l] upt32 by simp

lemma vm_exit_saves:
  assumes "length (rg s) = 32"
  shows "arch_at (hram (rv_run VM_EXIT s)) (hcsr s CSR_SSCRATCH) = \<lparr>rx = rg s, hstatus = hcsr s CSR_HSTATUS, sstatus = hcsr s CSR_SSTATUS,
     sepc = hcsr s CSR_SEPC, rstack_top = rstack_top (arch_at (hram s) (hcsr s CSR_SSCRATCH)), rcpuid = rcpuid (arch_at (hram s) (hcsr s CSR_SSCRATCH))\<rparr>"
proof -
  have "rx (arch_at (hram (rv_run VM_EXIT s)) (hcsr s CSR_SSCRATCH)) = rg s"
    by (subst list32 [OF assms]) (simp add: rv_run_def VM_EXIT_def set_x_def assms arch_at_def upt32 CSR_defs read_write_far)
  then show ?thesis
    by (simp add: rv_run_def VM_EXIT_def set_x_def assms arch_at_def CSR_defs read_write_far)
qed

lemma vm_exit_registers:
  assumes "length (rg s) = 32"
  shows "hcsr (rv_run VM_EXIT s) = hcsr s" "rg (rv_run VM_EXIT s) ! 10 = hcsr s CSR_SSCRATCH"
    "rg (rv_run VM_EXIT s) ! 2 = rstack_top (arch_at (hram s) (hcsr s CSR_SSCRATCH))"
  by (auto simp: rv_run_def VM_EXIT_def set_x_def assms arch_at_def CSR_defs read_write_far fun_eq_iff)

lemma vm_entry_loads:
  assumes "length (rg s) = 32" "rg s ! 0 = 0"
  shows "rg (rv_run VM_ENTRY s) = (rx (arch_at (hram s) (hcsr s CSR_SSCRATCH)))[0 := 0]"
    "hcsr (rv_run VM_ENTRY s) = (hcsr s)(CSR_HSTATUS := hstatus (arch_at (hram s) (hcsr s CSR_SSCRATCH)), CSR_SSTATUS := sstatus (arch_at (hram s) (hcsr s CSR_SSCRATCH)),
       CSR_SEPC := sepc (arch_at (hram s) (hcsr s CSR_SSCRATCH)))"
proof -
  show "rg (rv_run VM_ENTRY s) = (rx (arch_at (hram s) (hcsr s CSR_SSCRATCH)))[0 := 0]"
    by (subst list32) (simp_all add: rv_run_def VM_ENTRY_def set_x_def assms arch_at_def upt32 CSR_defs)
  show "hcsr (rv_run VM_ENTRY s) = (hcsr s)(CSR_HSTATUS := hstatus (arch_at (hram s) (hcsr s CSR_SSCRATCH)), CSR_SSTATUS := sstatus (arch_at (hram s) (hcsr s CSR_SSCRATCH)),
       CSR_SEPC := sepc (arch_at (hram s) (hcsr s CSR_SSCRATCH)))"
    by (simp add: rv_run_def VM_ENTRY_def set_x_def assms arch_at_def CSR_defs)
qed

text \<open>The structure written to memory.\<close>

definition put_arch :: "phys_mem \<Rightarrow> u64 \<Rightarrow> RvCpu \<Rightarrow> phys_mem" where
  "put_arch m a c = fold (\<lambda>(i, v) m. write_u64 m (a + 8 * of_nat i) v)
     (zip [0..<37] (rx c @ [hstatus c, sstatus c, sepc c, rstack_top c, rcpuid c])) m"

lemma arch_put:
  assumes "length (rx c) = 32"
  shows "arch_at (put_arch m a c) a = c"
proof -
  have u: "[0..<37] = [0,1,2,3,4,5,6,7,8,9,10,11,12,13,14,15,16,17,18,19,20,21,22,23,24,25,26,27,28,29,30,31,32,33,34,35,36 :: nat]" by code_simp
  have z: "put_arch m a c = fold (\<lambda>(i, v) m. write_u64 m (a + 8 * of_nat i) v)
     (zip [0..<37] (map ((!) (rx c)) [0,1,2,3,4,5,6,7,8,9,10,11,12,13,14,15,16,17,18,19,20,21,22,23,24,25,26,27,28,29,30,31] @ [hstatus c, sstatus c, sepc c, rstack_top c, rcpuid c])) m"
    using list32 [OF assms] by (simp add: put_arch_def)
  have "rx (arch_at (put_arch m a c) a) = rx c"
    by (subst list32 [OF assms]) (simp add: arch_at_def upt32 z u read_write_far)
  moreover have "arch_at (put_arch m a c) a = c\<lparr>rx := rx (arch_at (put_arch m a c) a)\<rparr>"
    by (simp add: arch_at_def z u read_write_far)
  ultimately show ?thesis by simp
qed

section \<open>Property\<close>

lemma sbi_call_ok:
  "\<exists>r s'. sbi_call_5 E eid fid a0 a1 a2 a3 a4 (s, cpu) = (Ok r, (s', cpu))"
  by (auto simp: sbi_call_5_def bindP_def set_timer_def on_dev_def ask_dev_def split: prod.split)

lemma sync_ecall:
  assumes "csr rs CSR_SCAUSE = ECALL_VS" "csr rs CSR_HSTATUS AND push_bit 7 1 \<noteq> 0" "unat (sepc cpu) + 8 < 2 ^ 64"
    and "sbi_call_5 E (rx cpu ! 17) (rx cpu ! 16) (rx cpu ! 10) (rx cpu ! 11) (rx cpu ! 12) (rx cpu ! 13) (rx cpu ! 14) (rs, cpu) = (Ok (err, val), (rs', cpu))"
  shows "sync_exception_handler E (rs, cpu) = (Ok (), (rs', cpu\<lparr>rx := (rx cpu)[10 := err, 11 := val], sepc := sepc cpu + 8\<rparr>))"
proof -
  have u: "unat (sepc cpu + 4) = unat (sepc cpu) + 4" using assms(3) by (simp add: unat_add_exact)
  have add: "add_chk (sepc cpu) 4 = (Ok (sepc cpu + 4) :: (HvErrorNum, usize) outcome)" "add_chk (sepc cpu + 4) 4 = (Ok (sepc cpu + 8) :: (HvErrorNum, usize) outcome)"
    using assms(3) u by (simp_all add: add_chk_def)
  show ?thesis using assms(1,2,4) add
    by (simp add: sync_exception_handler_def sbi_vs_handler_def advance_sepc_def update_cpu_def read_csr_def bindP_def rv_cause_defs)
qed

text \<open>
  C37: a guest's call of the SBI, from the trap to the return: the firmware, or the timer code, gets the guest's \<open>a7\<close>, \<open>a6\<close> and
  \<open>a0\<close> to \<open>a4\<close>; the guest continues with the answer in \<open>a0\<close> and \<open>a1\<close>, with every other register, \<open>hstatus\<close> and \<open>sstatus\<close>
  as they were, and eight bytes after the \<open>ecall\<close>: both \<open>sbi_vs_handler\<close> and its caller add four.
\<close>

theorem rv_ecall_guest:
  assumes "length (rg s) = 32" and "rg s ! 0 = 0" and "hcsr s CSR_SCAUSE = ECALL_VS" and "hcsr s CSR_HSTATUS AND push_bit 7 1 \<noteq> 0"
    and "unat (hcsr s CSR_SEPC) + 8 < 2 ^ 64"
    and "s1 = rv_run VM_EXIT s" and "ptr = hcsr s CSR_SSCRATCH"
    and "sbi_call_5 E (rg s ! 17) (rg s ! 16) (rg s ! 10) (rg s ! 11) (rg s ! 12) (rg s ! 13) (rg s ! 14) (\<lparr>csr = hcsr s1, rdev = d\<rparr>, arch_at (hram s1) ptr) = (Ok (err, val), t)"
    and "sync_exception_handler E (\<lparr>csr = hcsr s1, rdev = d\<rparr>, arch_at (hram s1) ptr) = (res, (rs, cpu))"
    and "length (rg s2) = 32" and "rg s2 ! 0 = 0" and "hcsr s2 = csr rs" and "csr rs CSR_SSCRATCH = ptr" and "arch_at (hram s2) ptr = cpu"
    and "s3 = rv_run VM_ENTRY s2"
  shows "rg s1 ! 10 = ptr \<and> res = Ok () \<and> rg s3 = (rg s)[10 := err, 11 := val] \<and> hcsr s3 CSR_SEPC = hcsr s CSR_SEPC + 8 \<and>
    hcsr s3 CSR_HSTATUS = hcsr s CSR_HSTATUS \<and> hcsr s3 CSR_SSTATUS = hcsr s CSR_SSTATUS"
proof -
  let ?c = "arch_at (hram s1) ptr" and ?rs = "\<lparr>csr = hcsr s1, rdev = d\<rparr>"
  note ex = vm_exit_saves [OF assms(1), folded assms(6,7)] and er = vm_exit_registers [OF assms(1), folded assms(6,7)]
  have c: "rx ?c = rg s" "hstatus ?c = hcsr s CSR_HSTATUS" "sstatus ?c = hcsr s CSR_SSTATUS" "sepc ?c = hcsr s CSR_SEPC" by (simp_all add: ex)
  obtain rs' where t: "t = (rs', ?c)" using sbi_call_ok [of E "rg s ! 17" "rg s ! 16" "rg s ! 10" "rg s ! 11" "rg s ! 12" "rg s ! 13" "rg s ! 14" ?rs ?c] assms(8) by auto
  have "sync_exception_handler E (?rs, ?c) = (Ok (), (rs', ?c\<lparr>rx := (rx ?c)[10 := err, 11 := val], sepc := sepc ?c + 8\<rparr>))"
    by (rule sync_ecall) (use assms(3,4,5,8) t c er in simp_all)
  then have r: "res = Ok ()" "rs = rs'" "cpu = ?c\<lparr>rx := (rx ?c)[10 := err, 11 := val], sepc := sepc ?c + 8\<rparr>" using assms(9) by auto
  note en = vm_entry_loads [OF assms(10,11), folded assms(15)]
  have p: "hcsr s2 CSR_SSCRATCH = ptr" using assms(12,13) by simp
  have "rg s3 = ((rg s)[10 := err, 11 := val])[0 := 0]" using en(1) p assms(14) r(3) c by simp
  also have "\<dots> = (rg s)[10 := err, 11 := val]" by (rule list_update_same_conv [THEN iffD2]) (use assms(1,2) in simp_all)
  finally show ?thesis using en(2) p assms(14) r c er(2) by (simp add: CSR_defs)
qed

text \<open>A firmware that answers every call with 0 and 7.\<close>

definition echo_env :: "(unit, unit) rv_env" where
  "echo_env = \<lparr>ecall = (\<lambda>_ d. ((0, 7), d)), sbi_rt_set_timer = (\<lambda>_ d. d), sbi_rt_hart_start = (\<lambda>_ _ _ d. (None, d)), sbi_rt_getchar = (\<lambda>d. (0, d)),
     sbi_rt_putchar = (\<lambda>_ d. d), hvip_clear_vstip = (\<lambda>c. c(CSR_HVIP := c CSR_HVIP AND NOT (push_bit 6 1))),
     sie_set_stimer = (\<lambda>c. c(CSR_SIE := c CSR_SIE OR push_bit 5 1)), hlvxhu = (\<lambda>_ _. 0), instruction_length = (\<lambda>_. 4), decode = (\<lambda>_. None),
     rv_wfi = (\<lambda>d. d), rv_core_end = 0x80600000\<rparr>"

definition small_hart :: rv_hart where
  "small_hart = \<lparr>rg = 0 # replicate 31 0x10, hcsr = (\<lambda>n. if n = CSR_SCAUSE then 10 else if n = CSR_HSTATUS then push_bit 7 1
     else if n = CSR_SEPC then 0x80400000 else if n = CSR_SSCRATCH then 0x80700000 else 0), hram = (\<lambda>_. 0)\<rparr>"

definition after_ecall :: rv_hart where
  "after_ecall = (let s1 = rv_run VM_EXIT small_hart in
     case sync_exception_handler echo_env (\<lparr>csr = hcsr s1, rdev = ()\<rparr>, arch_at (hram s1) 0x80700000) of
       (r, (rs, cpu)) \<Rightarrow> rv_run VM_ENTRY \<lparr>rg = replicate 32 0, hcsr = csr rs, hram = put_arch (hram s1) 0x80700000 cpu\<rparr>)"

theorem rv_ecall_guest_witness:
  "rg after_ecall = (rg small_hart)[10 := 0, 11 := 7] \<and> hcsr after_ecall CSR_SEPC = 0x80400008"
proof -
  define s1 where "s1 = rv_run VM_EXIT small_hart"
  let ?c = "arch_at (hram s1) 0x80700000" and ?rs = "\<lparr>csr = hcsr s1, rdev = ()\<rparr>"
  have len: "length (rg small_hart) = 32" "rg small_hart ! 0 = 0" by (simp_all add: small_hart_def)
  have h: "hcsr small_hart CSR_SCAUSE = ECALL_VS" "hcsr small_hart CSR_HSTATUS AND push_bit 7 1 \<noteq> 0" "unat (hcsr small_hart CSR_SEPC) + 8 < 2 ^ 64"
    "0x80700000 = hcsr small_hart CSR_SSCRATCH" "hcsr small_hart CSR_SEPC = 0x80400000" by (simp_all add: small_hart_def CSR_defs ECALL_VS_def)
  have csr1: "hcsr s1 = hcsr small_hart" unfolding s1_def by (rule vm_exit_registers(1) [OF len(1)])
  have c: "rx ?c = rg small_hart" "sepc ?c = 0x80400000" using vm_exit_saves [OF len(1), folded s1_def h(4)] h(5) by simp_all
  have call: "sbi_call_5 echo_env 0x10 0x10 0x10 0x10 0x10 0x10 0x10 (?rs, ?c) = (Ok (0, 7), (?rs, ?c))"
    by (simp add: sbi_call_5_def SET_TIMER_def ask_dev_def echo_env_def)
  let ?c' = "?c\<lparr>rx := (rx ?c)[10 := 0, 11 := 7], sepc := sepc ?c + 8\<rparr>"
  have x: "rg small_hart ! 10 = 0x10" "rg small_hart ! 11 = 0x10" "rg small_hart ! 12 = 0x10" "rg small_hart ! 13 = 0x10" "rg small_hart ! 14 = 0x10"
    "rg small_hart ! 16 = 0x10" "rg small_hart ! 17 = 0x10" by (simp_all add: small_hart_def)
  have sync: "sync_exception_handler echo_env (?rs, ?c) = (Ok (), (?rs, ?c'))"
    by (rule sync_ecall) (use call h c csr1 x in simp_all)
  let ?s2 = "\<lparr>rg = replicate 32 0, hcsr = csr ?rs, hram = put_arch (hram s1) 0x80700000 ?c'\<rparr>"
  have put: "arch_at (hram ?s2) 0x80700000 = ?c'" using len(1) c(1) by (simp add: arch_put)
  have s3: "after_ecall = rv_run VM_ENTRY ?s2" unfolding after_ecall_def Let_def s1_def [symmetric] by (simp add: sync)
  have "rg s1 ! 10 = 0x80700000 \<and> (Ok () :: (HvErrorNum, unit) outcome) = Ok () \<and> rg after_ecall = (rg small_hart)[10 := 0, 11 := 7] \<and>
      hcsr after_ecall CSR_SEPC = hcsr small_hart CSR_SEPC + 8 \<and> hcsr after_ecall CSR_HSTATUS = hcsr small_hart CSR_HSTATUS \<and>
      hcsr after_ecall CSR_SSTATUS = hcsr small_hart CSR_SSTATUS"
    by (rule rv_ecall_guest [OF len h(1-3) s1_def h(4) _ sync _ _ _ _ put s3]) (use call x csr1 h(4) in simp_all)
  then show ?thesis by (simp add: h(5))
qed

end
