(* ===== verification/Spec2Isabelle.thy ===== *)
theory Spec2Isabelle
  imports Hv_Prelude Hv_Addr Hv_Error Hv_Frame Hv_Pte Hv_Region Hv_Paging Hv_PtView Hv_PtOps Hv_PtMap Hv_PtSpec
    Hv_MemorySet Hv_MsSpec Hv_Config Hv_Machine Hv_Mmio Hv_Gic Hv_Vgic Hv_Event Hv_Virtio
    Hv_Sets Hv_Zone Hv_ZoneSpec Hv_Cpu Hv_CpuSpec Hv_Hypercall Hv_HyperSpec
    Hv_Trap Hv_Keeps Hv_TrapSpec Hv_Shape Hv_Boot Hv_BootSteps Hv_BootSpec Hv_RootZone Hv_Layout Hv_Switch Hv_Entry
    Hv_RvPte Hv_Frame16 Hv_RvPaging Hv_RvTrap
begin

text \<open>
  A verification library for the type-1 hypervisor in \<open>src/\<close>.
\<close>

end
